(* ===== verification/Flux_Prelude.thy ===== *)
theory Flux_Prelude
  imports Complex_Main "HOL-Library.Word" "HOL-Library.AList" "HOL-Library.Multiset" "HOL-Library.Signed_Division"
begin

text \<open>
  The prelude of the FluxMQ development: the types every component shares (fixed-width offsets,
  instants, Go maps), the part of Go's \<^verbatim>\<open>strings\<close> and \<^verbatim>\<open>unicode/utf8\<close> packages the sources
  call, and the generic lemmas on lists, association lists and words that the component proofs
  use.

  Conventions. A \<^verbatim>\<open>uint64\<close> is a \<open>64 word\<close>, so that \<open>+\<close> and \<open>-\<close> wrap as they do in Go.
  A \<^verbatim>\<open>time.Time\<close> is an \<open>int\<close> (nanoseconds); \<open>zero_time\<close> is the zero value that
  \<^verbatim>\<open>IsZero\<close> recognises. Every operation that reads the clock takes the instant as an argument,
  \<open>now\<close>. A Go map is an association list: \<open>map_of\<close> is the lookup, \<open>AList.update\<close> the
  assignment, \<open>AList.delete\<close> the built-in delete, and a \<^verbatim>\<open>range\<close> loop visits the list in its
  order. Go leaves the iteration order open; the theorems quantify over every list, hence
  over every order.
\<close>

named_theorems go_strings \<open>facts on cut, split and join\<close>
named_theorems word_nat \<open>moving 64-bit offsets to natural numbers\<close>

type_synonym u16 = "16 word"
type_synonym u64 = "64 word"
type_synonym instant = int
type_synonym duration = int
type_synonym ('k, 'v) gomap = "('k \<times> 'v) list"

definition zero_time :: instant where
  "zero_time = 0"

text \<open>The indexed read of a slice: Go panics out of range, which is the value \<open>None\<close>.\<close>

definition slice_at :: "'a list \<Rightarrow> int \<Rightarrow> 'a option" where
  "slice_at xs i = (if 0 \<le> i \<and> i < int (length xs) then Some (xs ! nat i) else None)"

lemma slice_at_nat [simp]: "i < length xs \<Longrightarrow> slice_at xs (int i) = Some (xs ! i)"
  by (simp add: slice_at_def)

lemma slice_at_None [simp]: "slice_at xs i = None \<longleftrightarrow> i < 0 \<or> int (length xs) \<le> i"
  by (auto simp: slice_at_def)


section \<open>Strings\<close>

text \<open>\<^verbatim>\<open>strings.Cut(s, sep)\<close> for a one-byte separator: before, after, found.\<close>

fun str_cut :: "char \<Rightarrow> string \<Rightarrow> string \<times> string \<times> bool" where
  "str_cut c [] = ([], [], False)"
| "str_cut c (x # xs) =
     (if x = c then ([], xs, True)
      else (case str_cut c xs of (a, b, m) \<Rightarrow> (x # a, b, m)))"

text \<open>\<^verbatim>\<open>strings.Split(s, sep)\<close> and \<^verbatim>\<open>strings.Join\<close> for a one-byte separator.\<close>

fun str_split :: "char \<Rightarrow> string \<Rightarrow> string list" where
  "str_split c [] = [[]]"
| "str_split c (x # xs) =
     (if x = c then [] # str_split c xs
      else (case str_split c xs of [] \<Rightarrow> [[x]] | l # ls \<Rightarrow> (x # l) # ls))"

fun str_join :: "char \<Rightarrow> string list \<Rightarrow> string" where
  "str_join c [] = []"
| "str_join c [l] = l"
| "str_join c (l # l' # ls) = l @ c # str_join c (l' # ls)"

text \<open>\<^verbatim>\<open>strings.HasPrefix\<close>, \<^verbatim>\<open>strings.Contains\<close> for one byte and \<^verbatim>\<open>strings.ContainsAny\<close>.\<close>

definition has_prefix :: "string \<Rightarrow> string \<Rightarrow> bool" where
  "has_prefix s p \<longleftrightarrow> take (length p) s = p"

definition contains_char :: "string \<Rightarrow> char \<Rightarrow> bool" where
  "contains_char s c \<longleftrightarrow> c \<in> set s"

definition contains_any :: "string \<Rightarrow> string \<Rightarrow> bool" where
  "contains_any s cs \<longleftrightarrow> (\<exists>c \<in> set s. c \<in> set cs)"

text \<open>\<^verbatim>\<open>strings.ReplaceAll\<close> of one byte by another.\<close>

definition replace_char :: "char \<Rightarrow> char \<Rightarrow> string \<Rightarrow> string" where
  "replace_char a b s = map (\<lambda>x. if x = a then b else x) s"

lemma str_cut_found:
  "str_cut c s = (a, b, True) \<longleftrightarrow> s = a @ c # b \<and> c \<notin> set a"
proof (induction s arbitrary: a)
  case Nil
  then show ?case by auto
next
  case (Cons x xs)
  show ?case
  proof (cases a)
    case Nil
    then show ?thesis by (auto split: prod.splits)
  next
    case (Cons y ys)
    with Cons.IH [of ys] show ?thesis by (auto split: prod.splits)
  qed
qed

lemma str_cut_missing:
  "str_cut c s = (a, b, False) \<longleftrightarrow> a = s \<and> b = [] \<and> c \<notin> set s"
proof (induction s arbitrary: a)
  case Nil
  then show ?case by auto
next
  case (Cons x xs)
  show ?case
  proof (cases a)
    case Nil
    then show ?thesis by (auto split: prod.splits)
  next
    case (Cons y ys)
    with Cons.IH [of ys] show ?thesis by (auto split: prod.splits)
  qed
qed

lemma str_cut_shorter [termination_simp]:
  "str_cut c s = (a, b, True) \<Longrightarrow> length b < length s"
  by (auto simp: str_cut_found)

lemma str_cut_shorter' [termination_simp]:
  "(a, b, True) = str_cut c s \<Longrightarrow> length b < length s"
  by (drule sym) (rule str_cut_shorter)

lemma str_split_Nil [simp]: "str_split c s \<noteq> []"
  by (induction s) (auto split: list.splits)

lemma str_split_cut [go_strings]:
  "str_split c s =
     (case str_cut c s of (a, b, m) \<Rightarrow> if m then a # str_split c b else [a])"
  by (induction s) (auto split: prod.splits list.splits if_splits)

lemma str_split_found: "str_cut c s = (a, b, True) \<Longrightarrow> str_split c s = a # str_split c b"
  by (subst str_split_cut) simp

lemma str_split_missing: "str_cut c s = (a, b, False) \<Longrightarrow> str_split c s = [a]"
  by (subst str_split_cut) simp

lemma str_split_no_sep: "l \<in> set (str_split c s) \<Longrightarrow> c \<notin> set l"
  by (induction s arbitrary: l) (auto split: list.splits if_splits)

lemma str_split_chars: "l \<in> set (str_split c s) \<Longrightarrow> set l \<subseteq> set s"
  by (induction s arbitrary: l) (auto split: list.splits if_splits, fastforce+)

lemma str_join_split [simp]: "str_join c (str_split c s) = s"
proof (induction s)
  case Nil
  then show ?case by simp
next
  case (Cons x xs)
  obtain l ls where s: "str_split c xs = l # ls"
    by (meson list.exhaust str_split_Nil)
  with Cons.IH show ?case by (cases ls) auto
qed

lemma str_split_append:
  "c \<notin> set a \<Longrightarrow> str_split c (a @ c # b) = a # str_split c b"
  by (rule str_split_found) (simp add: str_cut_found)

lemma str_split_single: "c \<notin> set a \<Longrightarrow> str_split c a = [a]"
  by (rule str_split_missing [where b = "[]"]) (simp add: str_cut_missing)

lemma str_split_join:
  "ls \<noteq> [] \<Longrightarrow> (\<And>l. l \<in> set ls \<Longrightarrow> c \<notin> set l) \<Longrightarrow> str_split c (str_join c ls) = ls"
proof (induction c ls rule: str_join.induct)
  case (1 c)
  then show ?case by simp
next
  case (2 c l)
  then show ?case by (simp add: str_split_single)
next
  case (3 c l l' ls)
  then show ?case by (simp add: str_split_append)
qed

lemma str_split_inj: "str_split c s = str_split c s' \<longleftrightarrow> s = s'"
  by (metis str_join_split)

lemma hd_str_split:
  "str_split c s = l # ls \<Longrightarrow> s \<noteq> [] \<Longrightarrow> hd s \<noteq> c \<Longrightarrow> l \<noteq> [] \<and> hd l = hd s"
  by (cases s) (auto split: list.splits)

lemma has_prefix_append [simp]: "has_prefix (p @ s) p"
  by (simp add: has_prefix_def)

lemma has_prefixD: "has_prefix s p \<Longrightarrow> s = p @ drop (length p) s"
  by (metis append_take_drop_id has_prefix_def)


section \<open>UTF-8\<close>

text \<open>
  \<^verbatim>\<open>utf8.ValidString\<close>: the byte ranges of the Unicode standard, with the narrowed second byte
  after \<^verbatim>\<open>E0\<close>, \<^verbatim>\<open>ED\<close>, \<^verbatim>\<open>F0\<close> and \<^verbatim>\<open>F4\<close>.
\<close>

definition byte_in :: "nat \<Rightarrow> nat \<Rightarrow> char \<Rightarrow> bool" where
  "byte_in lo hi c \<longleftrightarrow> lo \<le> (of_char c :: nat) \<and> (of_char c :: nat) \<le> hi"

abbreviation utf8_cont :: "char \<Rightarrow> bool" where
  "utf8_cont c \<equiv> byte_in 128 191 c"

definition utf8_second :: "char \<Rightarrow> char \<Rightarrow> bool" where
  "utf8_second b0 b1 =
     (if b0 = CHR 0xE0 then byte_in 160 191 b1
      else if b0 = CHR 0xED then byte_in 128 159 b1
      else if b0 = CHR 0xF0 then byte_in 144 191 b1
      else if b0 = CHR 0xF4 then byte_in 128 143 b1
      else utf8_cont b1)"

fun utf8_valid :: "string \<Rightarrow> bool" where
  "utf8_valid [] = True"
| "utf8_valid (b0 # bs) =
     (if byte_in 0 127 b0 then utf8_valid bs
      else if byte_in 194 223 b0 then
        (case bs of b1 # r \<Rightarrow> utf8_cont b1 \<and> utf8_valid r | _ \<Rightarrow> False)
      else if byte_in 224 239 b0 then
        (case bs of b1 # b2 # r \<Rightarrow> utf8_second b0 b1 \<and> utf8_cont b2 \<and> utf8_valid r | _ \<Rightarrow> False)
      else if byte_in 240 244 b0 then
        (case bs of b1 # b2 # b3 # r \<Rightarrow>
           utf8_second b0 b1 \<and> utf8_cont b2 \<and> utf8_cont b3 \<and> utf8_valid r | _ \<Rightarrow> False)
      else False)"

lemma utf8_valid_ascii: "list_all (byte_in 0 127) s \<Longrightarrow> utf8_valid s"
  by (induction s) auto


section \<open>Go maps as association lists\<close>

lemmas gomap_simps [simp] = update_conv' delete_conv'

text \<open>Lookups stay lookups: no rewriting to membership in the list.\<close>

declare map_of_eq_Some_iff [simp del]

definition gomap_keys :: "('k, 'v) gomap \<Rightarrow> 'k list" where
  "gomap_keys m = map fst m"

lemma map_of_filter_distinct:
  "distinct (map fst m) \<Longrightarrow>
   map_of (filter (\<lambda>(k, v). P k v) m) k =
     (case map_of m k of None \<Rightarrow> None | Some v \<Rightarrow> if P k v then Some v else None)"
  by (induction m) (auto split: option.splits simp: map_of_eq_None_iff image_iff dest: map_of_SomeD)

lemma map_of_map_snd: "map_of (map (\<lambda>(k, v). (k, f k v)) m) k = map_option (f k) (map_of m k)"
  by (induction m) auto

lemma distinct_update_keys [simp]:
  "distinct (map fst m) \<Longrightarrow> distinct (map fst (AList.update k v m))"
  by (rule distinct_update)

lemma distinct_delete_keys [simp]:
  "distinct (map fst m) \<Longrightarrow> distinct (map fst (AList.delete k m))"
  by (rule distinct_delete)

lemma set_update_subset: "set (AList.update k v m) \<subseteq> insert (k, v) (set m)"
  by (induction m) auto

lemma set_delete_eq: "set (AList.delete k m) = {x \<in> set m. fst x \<noteq> k}"
  by (auto simp: AList.delete_eq)

lemma update_present:
  "map_of m k = Some v \<Longrightarrow> AList.update k w m = AList.map_entry k (\<lambda>_. w) m"
  by (induction m) auto


section \<open>Lists\<close>

text \<open>
  The removal idiom of the sources, \<^verbatim>\<open>append(xs[:i], xs[i+1:]...)\<close> at the first \<open>i\<close> that
  satisfies the test.
\<close>

fun remove_first :: "('a \<Rightarrow> bool) \<Rightarrow> 'a list \<Rightarrow> 'a list" where
  "remove_first P [] = []"
| "remove_first P (x # xs) = (if P x then xs else x # remove_first P xs)"

lemma remove_first_id: "\<not> (\<exists>x \<in> set xs. P x) \<Longrightarrow> remove_first P xs = xs"
  by (induction xs) auto

lemma set_remove_first_subset: "set (remove_first P xs) \<subseteq> set xs"
  by (induction xs) auto

lemma set_remove_first_keep: "x \<in> set xs \<Longrightarrow> \<not> P x \<Longrightarrow> x \<in> set (remove_first P xs)"
  by (induction xs) auto

lemma length_remove_first:
  "length (remove_first P xs) = (if \<exists>x \<in> set xs. P x then length xs - 1 else length xs)"
  by (induction xs) (auto simp: Suc_diff_1 length_pos_if_in_set dest: length_pos_if_in_set)

lemma distinct_map_remove_first:
  "distinct (map f xs) \<Longrightarrow> distinct (map f (remove_first P xs))"
  by (induction xs) (use set_remove_first_subset in force)+

lemma remove_first_key:
  "distinct (map f xs) \<Longrightarrow> set (remove_first (\<lambda>x. f x = k) xs) = {x \<in> set xs. f x \<noteq> k}"
  by (induction xs) (auto simp: image_iff)

lemma find_Some_iff_mem: "List.find P xs = Some x \<Longrightarrow> x \<in> set xs \<and> P x"
  by (auto simp: find_Some_iff)


section \<open>Machine words\<close>

lemma succ_neq_0: "(x::'a::len word) < y \<Longrightarrow> x + 1 \<noteq> 0"
  using max_word_wrap [of x] max_word_max [of y] by auto

lemma unat_succ [word_nat]: "(x::'a::len word) < y \<Longrightarrow> unat (x + 1) = Suc (unat x)"
  by (metis add.commute succ_neq_0 unatSuc)

lemma u64_eq_iff_unat: "(x::u64) = y \<longleftrightarrow> unat x = unat y"
  by (rule word_unat_eq_iff)

text \<open>\<^verbatim>\<open>int(x)\<close> of a \<^verbatim>\<open>uint64\<close> keeps the value below \<open>2 ^ 63\<close>.\<close>

lemma sint_small:
  assumes "unat (x::u64) < 2 ^ 63"
  shows "sint x = int (unat x)"
proof -
  have eq: "uint x = int (unat x)"
    by simp
  also have "\<dots> < int (2 ^ 63)"
    using assms by (simp only: of_nat_less_iff)
  finally have "uint x < 2 ^ 63"
    by simp
  then have "signed_take_bit 63 (uint x) = uint x"
    by (intro signed_take_bit_int_eq_self) (auto intro: order_trans [of _ 0])
  with eq show ?thesis
    by (simp add: sint_uint)
qed

text \<open>Arithmetic on Go's \<^verbatim>\<open>int\<close> wraps at 64 bits.\<close>

definition wrap_int :: "int \<Rightarrow> int" where
  "wrap_int x = sint (word_of_int x :: u64)"

lemma wrap_int_id: "- (2 ^ 63) \<le> x \<Longrightarrow> x < 2 ^ 63 \<Longrightarrow> wrap_int x = x"
  unfolding wrap_int_def by (simp add: signed_take_bit_int_eq_self sint_sbintrunc')

lemma unat_of_nat_u64: "n < 2 ^ 64 \<Longrightarrow> unat (of_nat n :: u64) = n"
  by (simp add: unat_of_nat)


lemma unat_plus_nat:
  assumes "unat (x::u64) + n < 2 ^ 64"
  shows "unat (x + of_nat n) = unat x + n"
proof -
  have "unat (of_nat n :: u64) = n" using assms by (intro unat_of_nat_u64) simp
  with unat_add_lem [of x "of_nat n"] assms show ?thesis by simp
qed

lemma unat_plus_1: "unat (x::u64) + 1 < 2 ^ 64 \<Longrightarrow> unat (x + 1) = unat x + 1"
  using unat_plus_nat [of x 1] by simp

lemma u64_less_succ: "unat (y::u64) + 1 < 2 ^ 64 \<Longrightarrow> x < y + 1 \<longleftrightarrow> x \<le> y"
  by (simp add: word_less_nat_alt word_le_nat_alt unat_plus_1 less_Suc_eq_le)

lemma u64_eq_plus: "unat (y::u64) = unat x + n \<Longrightarrow> y = x + of_nat n"
  using unat_plus_nat [of x n] unsigned_less [of y, where 'a = nat] by (simp add: u64_eq_iff_unat)

lemma u64_lt_bound: "unat (x::u64) < 2 ^ 64"
  using unsigned_less [of x, where 'a = nat] by simp

end
