(* ===== verification/Topics.thy ===== *)
theory Topics
  imports Flux_Prelude
begin

text \<open>
  The package \<^verbatim>\<open>topics\<close>: wildcard matching of a topic against a filter
  (\<^verbatim>\<open>match.go\<close>), validation (\<^verbatim>\<open>validate.go\<close>), shared subscriptions and their round-robin
  groups (\<^verbatim>\<open>shared.go\<close>) and the translation between AMQP and MQTT topic syntax
  (\<^verbatim>\<open>translate.go\<close>). The matcher is related to the level-wise rules of MQTT
  (\<open>mqtt_matches\<close>), which the queue index and the router are later compared with.
\<close>

abbreviation levels :: "string \<Rightarrow> string list" where
  "levels s \<equiv> str_split (CHR ''/'') s"


section \<open>Matching\<close>

function topic_match_loop :: "string \<Rightarrow> string \<Rightarrow> bool \<Rightarrow> bool" where
  "topic_match_loop flt remainingTopic topicExhausted =
     (case str_cut (CHR ''/'') flt of (filterLevel, filterRest, filterHasMore) \<Rightarrow>
      if filterLevel = ''#'' then True
      else if topicExhausted then False
      else
        (case str_cut (CHR ''/'') remainingTopic of (topicLevel, topicRest, topicHasMore) \<Rightarrow>
         if filterLevel \<noteq> ''+'' \<and> filterLevel \<noteq> topicLevel then False
         else if \<not> filterHasMore then \<not> topicHasMore
         else if topicHasMore then topic_match_loop filterRest topicRest topicExhausted
         else topic_match_loop filterRest remainingTopic True))"
  by pat_completeness auto
termination
  by (relation "measure (\<lambda>(flt, _, _). length flt)") (auto simp: str_cut_shorter')

declare topic_match_loop.simps [simp del]

definition TopicMatch :: "string \<Rightarrow> string \<Rightarrow> bool" where
  "TopicMatch flt topic =
     (if flt = [] \<or> topic = [] then False
      else if flt = topic then True
      else if hd topic = CHR ''$'' \<and> hd flt \<noteq> CHR ''$'' then False
      else if hd topic = CHR ''$'' \<and>
        (case str_cut (CHR ''/'') flt of (firstLevel, _, _) \<Rightarrow>
           firstLevel = ''+'' \<or> firstLevel = ''#'') then False
      else topic_match_loop flt topic False)"

text \<open>The rule on levels: \<open>+\<close> stands for one level, \<open>#\<close> for the rest of the topic.\<close>

fun levels_match :: "string list \<Rightarrow> string list \<Rightarrow> bool" where
  "levels_match [] ts = (ts = [])"
| "levels_match (f # fs) ts =
     (f = ''#'' \<or> (case ts of [] \<Rightarrow> False | t # ts' \<Rightarrow> (f = ''+'' \<or> f = t) \<and> levels_match fs ts'))"

lemma levels_match_refl: "levels_match ls ls"
  by (induction ls) auto

lemma topic_match_loop_exhausted:
  "topic_match_loop f t True \<longleftrightarrow> levels_match (levels f) []"
  by (subst topic_match_loop.simps, subst str_split_cut) (auto split: prod.splits)

lemma topic_match_loop_levels:
  "topic_match_loop f t False \<longleftrightarrow> levels_match (levels f) (levels t)"
proof (induction f t "False" rule: topic_match_loop.induct)
  case (1 f t)
  obtain fl fr fm where f: "str_cut (CHR ''/'') f = (fl, fr, fm)" by (metis prod_cases3)
  obtain tl tr tm where t: "str_cut (CHR ''/'') t = (tl, tr, tm)" by (metis prod_cases3)
  have IH: "topic_match_loop fr tr False \<longleftrightarrow> levels_match (levels fr) (levels tr)"
    if "fl \<noteq> ''#''" "fl = ''+'' \<or> fl = tl" fm tm
    using 1(1) [of fl "(fr, fm)" fr fm tl "(tr, tm)" tr tm] that f t by auto
  have lf: "levels f = (if fm then fl # levels fr else [fl])"
    using f by (subst str_split_cut) simp
  have lt: "levels t = (if tm then tl # levels tr else [tl])"
    using t by (subst str_split_cut) simp
  show ?case
    using IH by (subst topic_match_loop.simps)
      (auto simp: f t lf lt topic_match_loop_exhausted)
qed

theorem TopicMatch_levels:
  "TopicMatch f t \<longleftrightarrow>
     f \<noteq> [] \<and> t \<noteq> [] \<and> \<not> (hd t = CHR ''$'' \<and> hd f \<noteq> CHR ''$'') \<and>
     levels_match (levels f) (levels t)"
proof (cases "f = [] \<or> t = [] \<or> f = t")
  case True
  then show ?thesis by (auto simp: TopicMatch_def levels_match_refl)
next
  case False
  have "fl \<noteq> ''+'' \<and> fl \<noteq> ''#''"
    if "str_cut (CHR ''/'') f = (fl, fr, fm)" "hd f = CHR ''$''" for fl fr fm
    using that False by (cases f) (auto split: prod.splits)
  with False show ?thesis
    by (auto simp: TopicMatch_def topic_match_loop_levels split: prod.splits)
qed

text \<open>A filter whose \<open>#\<close> can only be the last level and whose wildcards fill their level.\<close>

definition wf_level :: "string \<Rightarrow> bool" where
  "wf_level l \<longleftrightarrow> (CHR ''#'' \<in> set l \<longrightarrow> l = ''#'') \<and> (CHR ''+'' \<in> set l \<longrightarrow> l = ''+'')"

definition wf_filter_levels :: "string list \<Rightarrow> bool" where
  "wf_filter_levels ls \<longleftrightarrow>
     ls \<noteq> [] \<and> (\<forall>l \<in> set ls. wf_level l) \<and> ''#'' \<notin> set (butlast ls)"

text \<open>
  What the MQTT standard says of a well-formed filter: without \<open>#\<close> the levels agree one by one,
  with it the levels before it agree with a prefix of the topic's.
\<close>

definition mqtt_matches :: "string list \<Rightarrow> string list \<Rightarrow> bool" where
  "mqtt_matches fs ts =
     (let lm = (\<lambda>f t. f = ''+'' \<or> f = t)
      in if last fs = ''#''
         then length (butlast fs) \<le> length ts \<and>
              list_all2 lm (butlast fs) (take (length (butlast fs)) ts)
         else list_all2 lm fs ts)"

lemma levels_match_no_hash:
  "''#'' \<notin> set fs \<Longrightarrow> levels_match fs ts \<longleftrightarrow> list_all2 (\<lambda>f t. f = ''+'' \<or> f = t) fs ts"
  by (induction fs arbitrary: ts) (auto split: list.splits simp: list_all2_Cons1)

lemma levels_match_hash:
  "''#'' \<notin> set fs \<Longrightarrow>
   levels_match (fs @ [''#'']) ts \<longleftrightarrow>
     length fs \<le> length ts \<and> list_all2 (\<lambda>f t. f = ''+'' \<or> f = t) fs (take (length fs) ts)"
  by (induction fs arbitrary: ts) (auto split: list.splits simp: list_all2_Cons1)

lemma levels_match_mqtt:
  assumes "fs \<noteq> []" and "''#'' \<notin> set (butlast fs)"
  shows "levels_match fs ts \<longleftrightarrow> mqtt_matches fs ts"
proof (cases "last fs = ''#''")
  case True
  with assms have fs: "fs = butlast fs @ [''#'']"
    by (metis append_butlast_last_id)
  show ?thesis
    by (subst fs, subst levels_match_hash) (use assms True in \<open>auto simp: mqtt_matches_def Let_def\<close>)
next
  case False
  with assms have "''#'' \<notin> set fs"
    by (metis append_butlast_last_id in_set_conv_decomp rotate1.simps(2) set_ConsD set_rotate1)
  with False show ?thesis
    by (simp add: levels_match_no_hash mqtt_matches_def)
qed


text \<open>The first bytes agree unless the filter begins with a wildcard.\<close>

lemma levels_match_hd:
  assumes "levels_match (levels f) (levels t)" and "f \<noteq> []" and "t \<noteq> []"
  shows "hd f = hd t \<or> hd f \<in> {CHR ''+'', CHR ''#''}"
proof (cases "hd f = CHR ''/''")
  case True
  then obtain f' where f: "f = CHR ''/'' # f'" using assms(2) by (cases f) auto
  obtain k ks where k: "levels t = k # ks" by (meson list.exhaust str_split_Nil)
  with assms(1) f have "k = []" by simp
  with k assms(3) show ?thesis using f by (cases t) (auto split: if_splits list.splits)
next
  case False
  obtain l ls where l: "levels f = l # ls" by (meson list.exhaust str_split_Nil)
  obtain k ks where k: "levels t = k # ks" by (meson list.exhaust str_split_Nil)
  from hd_str_split [OF l assms(2) False] have l': "l \<noteq> []" "hd l = hd f" by auto
  from assms(1) l k have "l = ''#'' \<or> l = ''+'' \<or> l = k" by auto
  moreover have "hd t = hd l" if "l = k"
    using that k l' assms(3) by (cases t) (auto split: if_splits list.splits)
  ultimately show ?thesis using l' by auto
qed


section \<open>Shared subscriptions: parsing\<close>

definition share_prefix :: string where
  "share_prefix = ''$share/''"

text \<open>
  \<^verbatim>\<open>strings.SplitN(rest, "/", 2)\<close> has two parts exactly when \<^verbatim>\<open>Cut\<close> finds the separator, and
  then they are the two halves.
\<close>

definition ParseShared :: "string \<Rightarrow> string \<times> string \<times> bool" where
  "ParseShared flt =
     (if \<not> has_prefix flt share_prefix then ([], flt, False)
      else (case str_cut (CHR ''/'') (drop 7 flt) of (shareName, topicFilter, found) \<Rightarrow>
        if \<not> found then ([], flt, False) else (shareName, topicFilter, True)))"

definition IsShared :: "string \<Rightarrow> bool" where
  "IsShared flt = has_prefix flt share_prefix"

lemma length_share_prefix: "length share_prefix = 7"
  by (simp add: share_prefix_def)

lemma ParseShared_shared_iff:
  "ParseShared s = (g, f, True) \<longleftrightarrow> s = share_prefix @ g @ CHR ''/'' # f \<and> CHR ''/'' \<notin> set g"
proof
  assume "ParseShared s = (g, f, True)"
  then have p: "has_prefix s share_prefix" and c: "str_cut (CHR ''/'') (drop 7 s) = (g, f, True)"
    by (auto simp: ParseShared_def split: if_splits prod.splits)
  from p have "s = share_prefix @ drop 7 s"
    using has_prefixD [OF p] by (simp only: length_share_prefix)
  with c show "s = share_prefix @ g @ CHR ''/'' # f \<and> CHR ''/'' \<notin> set g"
    by (simp add: str_cut_found)
next
  assume s: "s = share_prefix @ g @ CHR ''/'' # f \<and> CHR ''/'' \<notin> set g"
  then have "drop 7 s = g @ CHR ''/'' # f"
    by (simp add: length_share_prefix)
  moreover have "str_cut (CHR ''/'') (g @ CHR ''/'' # f) = (g, f, True)"
    using s by (simp add: str_cut_found)
  ultimately show "ParseShared s = (g, f, True)"
    using s by (simp add: ParseShared_def)
qed


section \<open>Validation\<close>

datatype topic_error = ErrInvalidTopicName | ErrInvalidTopicFilter

text \<open>A Go \<^verbatim>\<open>error\<close> result: \<open>None\<close> is \<^verbatim>\<open>nil\<close>.\<close>

definition ValidateTopicName :: "string \<Rightarrow> topic_error option" where
  "ValidateTopicName topic =
     (if topic = [] then Some ErrInvalidTopicName
      else if contains_char topic (CHR ''+'') \<or> contains_char topic (CHR ''#'')
      then Some ErrInvalidTopicName
      else if \<not> utf8_valid topic then Some ErrInvalidTopicName
      else if contains_char topic (CHR 0x00) then Some ErrInvalidTopicName
      else None)"

text \<open>The loop over the levels, with \<open>i\<close> the index and \<open>n\<close> the number of levels.\<close>

fun validate_levels :: "nat \<Rightarrow> nat \<Rightarrow> string list \<Rightarrow> topic_error option" where
  "validate_levels n i [] = None"
| "validate_levels n i (level # rest) =
     (if contains_char level (CHR ''#'') \<and> (level \<noteq> ''#'' \<or> i \<noteq> n - 1)
      then Some ErrInvalidTopicFilter
      else if contains_char level (CHR ''+'') \<and> level \<noteq> ''+''
      then Some ErrInvalidTopicFilter
      else validate_levels n (Suc i) rest)"

definition ValidateTopicFilter :: "string \<Rightarrow> topic_error option" where
  "ValidateTopicFilter flt =
     (if flt = [] then Some ErrInvalidTopicFilter
      else if \<not> utf8_valid flt \<or> contains_char flt (CHR 0x00)
      then Some ErrInvalidTopicFilter
      else (case ParseShared flt of (shareName, topicFilter, isShared) \<Rightarrow>
        if IsShared flt \<and> \<not> isShared then Some ErrInvalidTopicFilter
        else if isShared \<and> (shareName = [] \<or> contains_any shareName ''+#'')
        then Some ErrInvalidTopicFilter
        else if isShared \<and> topicFilter = [] then Some ErrInvalidTopicFilter
        else (let ls = levels (if isShared then topicFilter else flt)
              in validate_levels (length ls) 0 ls)))"

lemma validate_levels_iff:
  "n = i + length ls \<Longrightarrow>
   validate_levels n i ls = None \<longleftrightarrow> (\<forall>l \<in> set ls. wf_level l) \<and> ''#'' \<notin> set (butlast ls)"
proof (induction ls arbitrary: i)
  case Nil
  then show ?case by simp
next
  case (Cons l ls)
  from Cons.IH [of "Suc i"] Cons.prems show ?case
    by (auto simp: wf_level_def contains_char_def split: if_splits)
qed

lemma validate_levels_wf:
  "validate_levels (length (levels s)) 0 (levels s) = None \<longleftrightarrow> wf_filter_levels (levels s)"
  by (simp add: validate_levels_iff wf_filter_levels_def)

text \<open>
  An accepted filter is well-formed as a whole, shared or not: the prefix and the group name of a
  shared one carry no wildcard.
\<close>

lemma wf_filter_levels_Cons:
  "wf_level l \<Longrightarrow> l \<noteq> ''#'' \<Longrightarrow> wf_filter_levels ls \<Longrightarrow> wf_filter_levels (l # ls)"
  by (auto simp: wf_filter_levels_def)

lemma levels_shared:
  assumes "CHR ''/'' \<notin> set g"
  shows "levels (share_prefix @ g @ CHR ''/'' # f) = ''$share'' # g # levels f"
proof -
  have "share_prefix @ g @ CHR ''/'' # f = ''$share'' @ CHR ''/'' # (g @ CHR ''/'' # f)"
    by (simp add: share_prefix_def)
  then show ?thesis
    using assms by (simp only: str_split_append) (simp add: str_split_append)
qed

lemma ValidateTopicFilter_wf:
  assumes "ValidateTopicFilter s = None"
  shows "s \<noteq> []" and "wf_filter_levels (levels s)"
proof -
  show "s \<noteq> []" using assms by (auto simp: ValidateTopicFilter_def)
  obtain g f sh where p: "ParseShared s = (g, f, sh)" by (metis prod_cases3)
  show "wf_filter_levels (levels s)"
  proof (cases sh)
    case True
    with p have s: "s = share_prefix @ g @ CHR ''/'' # f" and g: "CHR ''/'' \<notin> set g"
      by (simp_all add: ParseShared_shared_iff)
    from assms p True have "\<not> contains_any g ''+#''" and f: "wf_filter_levels (levels f)"
      by (auto simp: ValidateTopicFilter_def validate_levels_wf Let_def split: if_splits)
    then have "CHR ''+'' \<notin> set g" and "CHR ''#'' \<notin> set g"
      by (auto simp: contains_any_def)
    then have "wf_level g" and "g \<noteq> ''#''"
      by (auto simp: wf_level_def)
    with f show ?thesis
      by (simp only: s levels_shared [OF g])
         (intro wf_filter_levels_Cons; simp add: wf_level_def)
  next
    case False
    with assms p show ?thesis
      by (auto simp: ValidateTopicFilter_def validate_levels_wf Let_def split: if_splits)
  qed
qed


section \<open>Translation between AMQP and MQTT\<close>

definition AMQPFilterToMQTT :: "string \<Rightarrow> string" where
  "AMQPFilterToMQTT flt =
     (if flt = [] then []
      else if \<not> contains_any flt ''.*'' then flt
      else map (\<lambda>c. if c = CHR ''.'' then CHR ''/'' else if c = CHR ''*'' then CHR ''+'' else c) flt)"

definition AMQPTopicToMQTT :: "string \<Rightarrow> string" where
  "AMQPTopicToMQTT topic =
     (if topic = [] then []
      else if \<not> contains_char topic (CHR ''.'') then topic
      else replace_char (CHR ''.'') (CHR ''/'') topic)"

definition MQTTTopicToAMQP :: "string \<Rightarrow> string" where
  "MQTTTopicToAMQP topic =
     (if topic = [] then []
      else if \<not> contains_char topic (CHR ''/'') then topic
      else replace_char (CHR ''/'') (CHR ''.'') topic)"

lemma replace_char_Nil [simp]: "replace_char a b [] = []"
  by (simp add: replace_char_def)

lemma replace_char_absent: "a \<notin> set s \<Longrightarrow> replace_char a b s = s"
  by (auto simp: replace_char_def intro: map_idI)

lemma AMQPTopicToMQTT_eq: "AMQPTopicToMQTT s = replace_char (CHR ''.'') (CHR ''/'') s"
  by (auto simp: AMQPTopicToMQTT_def contains_char_def replace_char_absent)

lemma MQTTTopicToAMQP_eq: "MQTTTopicToAMQP s = replace_char (CHR ''/'') (CHR ''.'') s"
  by (auto simp: MQTTTopicToAMQP_def contains_char_def replace_char_absent)

lemma AMQPFilterToMQTT_eq:
  "AMQPFilterToMQTT s = replace_char (CHR ''*'') (CHR ''+'') (replace_char (CHR ''.'') (CHR ''/'') s)"
proof (cases "contains_any s ''.*''")
  case True
  then show ?thesis by (simp add: AMQPFilterToMQTT_def replace_char_def)
next
  case False
  then have "CHR ''.'' \<notin> set s" and "CHR ''*'' \<notin> set s"
    by (auto simp: contains_any_def)
  with False show ?thesis by (simp add: AMQPFilterToMQTT_def replace_char_absent)
qed

lemma replace_char_inverse:
  "b \<notin> set s \<Longrightarrow> replace_char b a (replace_char a b s) = s"
  by (induction s) (auto simp: replace_char_def)

lemma str_split_replace:
  "b \<notin> set s \<Longrightarrow> str_split b (replace_char a b s) = str_split a s"
  by (induction s) (auto simp: replace_char_def split: list.splits)


section \<open>Properties\<close>

text \<open>
  C10. On every filter that validation accepts, \<^verbatim>\<open>TopicMatch\<close> decides the rule of the MQTT
  standard: the levels agree one by one up to \<open>+\<close>, a final \<open>#\<close> covers the rest (and no level at
  all), and a topic that begins with \<open>$\<close> is matched only by a filter that does.
\<close>

theorem TopicMatch_standard:
  assumes "ValidateTopicFilter f = None"
  shows "TopicMatch f t \<longleftrightarrow>
    t \<noteq> [] \<and> (hd t = CHR ''$'' \<longrightarrow> hd f = CHR ''$'') \<and> mqtt_matches (levels f) (levels t)"
proof -
  from ValidateTopicFilter_wf [OF assms] have "f \<noteq> []" and
    "levels_match (levels f) (levels t) \<longleftrightarrow> mqtt_matches (levels f) (levels t)"
    by (simp_all add: wf_filter_levels_def levels_match_mqtt)
  then show ?thesis by (auto simp: TopicMatch_levels)
qed

theorem TopicMatch_standard_witness:
  "ValidateTopicFilter ''a/+/#'' = None \<and> TopicMatch ''a/+/#'' ''a/b'' \<and>
   \<not> TopicMatch ''a/+/#'' ''a''"
proof -
  have v: "ValidateTopicFilter ''a/+/#'' = None" by code_simp
  show ?thesis
    using v TopicMatch_standard [OF v, of "''a/b''"] TopicMatch_standard [OF v, of "''a''"]
    by (simp add: mqtt_matches_def)
qed

text \<open>
  C25. A shared filter that validation accepts is \<open>$share/\<close>, a non-empty group name free of
  separators and wildcards, a separator and a non-empty well-formed filter, and
  \<^verbatim>\<open>ParseShared\<close> returns exactly the last two parts.
\<close>

theorem ParseShared_valid:
  assumes "ValidateTopicFilter s = None" and "IsShared s"
  shows "\<exists>g f. s = share_prefix @ g @ CHR ''/'' # f \<and> ParseShared s = (g, f, True) \<and>
    g \<noteq> [] \<and> f \<noteq> [] \<and> set g \<inter> {CHR ''/'', CHR ''+'', CHR ''#''} = {} \<and> wf_filter_levels (levels f)"
proof -
  obtain g f sh where p: "ParseShared s = (g, f, sh)" by (metis prod_cases3)
  with assms have sh by (auto simp: ValidateTopicFilter_def split: if_splits)
  with p assms have "g \<noteq> []" "\<not> contains_any g ''+#''" "f \<noteq> []" "wf_filter_levels (levels f)"
    by (auto simp: ValidateTopicFilter_def validate_levels_wf Let_def split: if_splits)
  moreover from \<open>sh\<close> p have "s = share_prefix @ g @ CHR ''/'' # f" "CHR ''/'' \<notin> set g"
    by (simp_all add: ParseShared_shared_iff)
  ultimately show ?thesis
    using p \<open>sh\<close> by (auto simp: contains_any_def)
qed

theorem ParseShared_valid_witness:
  "ValidateTopicFilter ''$share/g/a/#'' = None \<and> IsShared ''$share/g/a/#'' \<and>
   (\<exists>g f. ParseShared ''$share/g/a/#'' = (g, f, True) \<and> g \<noteq> [] \<and> f \<noteq> [])"
proof -
  have v: "ValidateTopicFilter ''$share/g/a/#'' = None" by code_simp
  have i: "IsShared ''$share/g/a/#''" by code_simp
  from ParseShared_valid [OF v i] v i show ?thesis by blast
qed

text \<open>
  The translation of a topic between AMQP and MQTT syntax loses nothing on names that do not
  use the other protocol's separator, and keeps the levels: the dot-separated words of the AMQP
  name are the levels of its translation.
\<close>

theorem amqp_mqtt_roundtrip:
  "(CHR ''/'' \<notin> set a \<longrightarrow>
      MQTTTopicToAMQP (AMQPTopicToMQTT a) = a \<and> levels (AMQPTopicToMQTT a) = str_split (CHR ''.'') a) \<and>
   (CHR ''.'' \<notin> set m \<longrightarrow>
      AMQPTopicToMQTT (MQTTTopicToAMQP m) = m \<and> str_split (CHR ''.'') (MQTTTopicToAMQP m) = levels m)"
  by (simp add: AMQPTopicToMQTT_eq MQTTTopicToAMQP_eq replace_char_inverse str_split_replace)

theorem amqp_mqtt_roundtrip_witness:
  "MQTTTopicToAMQP (AMQPTopicToMQTT ''a.b'') = ''a.b'' \<and> AMQPTopicToMQTT ''a.b'' = ''a/b'' \<and>
   AMQPTopicToMQTT (MQTTTopicToAMQP ''x/y'') = ''x/y''"
  using amqp_mqtt_roundtrip [of "''a.b''" "''x/y''"]
  by (simp add: AMQPTopicToMQTT_def contains_char_def replace_char_def)

end
