(* ===== verification/Level_Trie.thy ===== *)
theory Level_Trie
  imports Topics
begin

text \<open>
  The trie keyed on topic levels that both the router (\<^verbatim>\<open>broker/router/router.go\<close>) and the queue
  index (\<^verbatim>\<open>queue/storage/patterntrie.go\<close>) keep: a node has its children by level and the
  values whose filter ends there. \<open>values_at\<close> is the abstraction: the values stored under one
  path. \<open>trie_match\<close> says which stored paths a descent along a topic collects; on well-formed
  filters it is the rule of the matcher.
\<close>

datatype 'a node = Node (children: "(string, 'a node) gomap") (vals: "'a list")

definition newNode :: "'a node" where
  "newNode = Node [] []"

fun values_at :: "'a node \<Rightarrow> string list \<Rightarrow> 'a list" where
  "values_at n [] = vals n"
| "values_at n (l # ls) =
     (case map_of (children n) l of None \<Rightarrow> [] | Some c \<Rightarrow> values_at c ls)"

lemma values_at_newNode [simp]: "values_at newNode p = []"
  by (cases p) (simp_all add: newNode_def)

text \<open>Two ways down: creating the nodes that are missing, and giving up at the first one.\<close>

fun descend_create :: "('a list \<Rightarrow> 'a list) \<Rightarrow> string list \<Rightarrow> 'a node \<Rightarrow> 'a node" where
  "descend_create f [] n = Node (children n) (f (vals n))"
| "descend_create f (l # ls) n =
     (let child = (case map_of (children n) l of Some c \<Rightarrow> c | None \<Rightarrow> newNode)
      in Node (AList.update l (descend_create f ls child) (children n)) (vals n))"

fun descend_existing :: "('a list \<Rightarrow> 'a list) \<Rightarrow> string list \<Rightarrow> 'a node \<Rightarrow> 'a node" where
  "descend_existing f [] n = Node (children n) (f (vals n))"
| "descend_existing f (l # ls) n =
     (case map_of (children n) l of
        None \<Rightarrow> n
      | Some child \<Rightarrow> Node (AList.update l (descend_existing f ls child) (children n)) (vals n))"

lemma values_at_descend_create:
  "values_at (descend_create f p n) q = (if q = p then f (values_at n p) else values_at n q)"
proof (induction p arbitrary: n q)
  case Nil
  then show ?case by (cases q) auto
next
  case (Cons l ls)
  show ?case
  proof (cases q)
    case Nil
    then show ?thesis by (simp add: Let_def)
  next
    case (Cons k ks)
    then show ?thesis
      using Cons.IH by (auto simp: Let_def split: option.splits)
  qed
qed

lemma values_at_descend_existing:
  "f [] = [] \<Longrightarrow>
   values_at (descend_existing f p n) q = (if q = p then f (values_at n p) else values_at n q)"
proof (induction p arbitrary: n q)
  case Nil
  then show ?case by (cases q) auto
next
  case (Cons l ls)
  show ?case
  proof (cases q)
    case Nil
    then show ?thesis by (auto split: option.splits)
  next
    case (Cons k ks)
    then show ?thesis
      using Cons.IH Cons.prems by (auto split: option.splits)
  qed
qed

text \<open>Which stored paths a topic reaches.\<close>

fun trie_match :: "string list \<Rightarrow> string list \<Rightarrow> bool" where
  "trie_match [] ts = (ts = [])"
| "trie_match (f # fs) ts =
     ((f = ''#'' \<and> fs = []) \<or>
      (case ts of [] \<Rightarrow> False | t # ts' \<Rightarrow> (f = ''+'' \<or> f = t) \<and> trie_match fs ts'))"

lemma trie_match_levels_match:
  "''#'' \<notin> set (butlast fs) \<Longrightarrow> fs \<noteq> [] \<Longrightarrow> trie_match fs ts \<longleftrightarrow> levels_match fs ts"
proof (induction fs arbitrary: ts)
  case Nil
  then show ?case by simp
next
  case (Cons f fs)
  show ?case
  proof (cases "fs = []")
    case True
    then show ?thesis by (auto split: list.splits)
  next
    case False
    with Cons.prems have "f \<noteq> ''#''" and "''#'' \<notin> set (butlast fs)" by auto
    with Cons.IH False show ?thesis by (auto split: list.splits)
  qed
qed

lemma trie_match_wf: "wf_filter_levels fs \<Longrightarrow> trie_match fs ts \<longleftrightarrow> levels_match fs ts"
  by (simp add: wf_filter_levels_def trie_match_levels_match)

lemma trie_match_Nil_iff: "trie_match p [] \<longleftrightarrow> p = [] \<or> p = [''#'']"
  by (cases p) auto

lemma trie_match_Cons_iff:
  "trie_match p (t # ts) \<longleftrightarrow>
     p = [''#''] \<or> (\<exists>q. p = t # q \<and> trie_match q ts) \<or> (\<exists>q. p = ''+'' # q \<and> trie_match q ts)"
  by (cases p) auto

lemma ex_trie_match_Nil:
  "(\<exists>p. trie_match p [] \<and> P p) \<longleftrightarrow> P [] \<or> P [''#'']"
  by (auto simp: trie_match_Nil_iff)

lemma ex_trie_match_Cons:
  "(\<exists>p. trie_match p (t # ts) \<and> P p) \<longleftrightarrow>
     P [''#''] \<or> (\<exists>q. trie_match q ts \<and> P (t # q)) \<or> (\<exists>q. trie_match q ts \<and> P (''+'' # q))"
  by (auto simp: trie_match_Cons_iff)

end
