(* ===== verification/Router.thy ===== *)
theory Router
  imports Level_Trie
begin

text \<open>
  \<^verbatim>\<open>broker/router\<close>: the subscription trie of the MQTT and AMQP brokers, with
  \<^verbatim>\<open>storage.Subscription\<close> as its values. The slice pools of \<^verbatim>\<open>pool.go\<close> only recycle memory; the
  split they carry (\<^verbatim>\<open>splitTopic\<close>) is modelled. The central result is that \<^verbatim>\<open>Match\<close> returns
  every subscription with a matching filter exactly once.
\<close>

record subscribe_options =
  NoLocal :: bool
  RetainAsPublished :: bool
  RetainHandling :: nat
  ConsumerGroupOpt :: string
  ShareName :: string

text \<open>The zero value of the struct.\<close>

definition no_options :: subscribe_options where
  "no_options = \<lparr>NoLocal = False, RetainAsPublished = False, RetainHandling = 0,
     ConsumerGroupOpt = [], ShareName = []\<rparr>"

record subscription =
  ClientID :: string
  SubFilter :: string
  SubscriptionID :: "nat option"
  Options :: subscribe_options
  QoS :: nat

type_synonym trie_router = "subscription node"

definition NewRouter :: trie_router where
  "NewRouter = newNode"

text \<open>Replace the subscription the client already has at the node, or append.\<close>

fun put_sub :: "subscription \<Rightarrow> subscription list \<Rightarrow> subscription list" where
  "put_sub sub [] = [sub]"
| "put_sub sub (existing # rest) =
     (if ClientID existing = ClientID sub then sub # rest else existing # put_sub sub rest)"

definition Router_Subscribe ::
  "string \<Rightarrow> string \<Rightarrow> nat \<Rightarrow> subscribe_options \<Rightarrow> trie_router \<Rightarrow> trie_router" where
  "Router_Subscribe clientID flt qos opts r =
     (let sub = \<lparr>ClientID = clientID, SubFilter = flt, SubscriptionID = None,
                 Options = opts, QoS = qos\<rparr>
      in descend_create (put_sub sub) (levels flt) r)"

definition Router_Unsubscribe :: "string \<Rightarrow> string \<Rightarrow> trie_router \<Rightarrow> trie_router" where
  "Router_Unsubscribe clientID flt r =
     descend_existing (filter (\<lambda>sub. ClientID sub \<noteq> clientID)) (levels flt) r"

text \<open>
  \<^verbatim>\<open>splitTopic\<close>: the loop over the bytes with \<^verbatim>\<open>start\<close> and \<open>i\<close>; the levels already cut are
  \<open>acc\<close>, the bytes since \<^verbatim>\<open>start\<close> are \<open>cur\<close>.
\<close>

fun split_topic_loop :: "string \<Rightarrow> string \<Rightarrow> string list \<Rightarrow> string list" where
  "split_topic_loop [] cur acc = acc @ [cur]"
| "split_topic_loop (c # cs) cur acc =
     (if c = CHR ''/'' then split_topic_loop cs [] (acc @ [cur])
      else split_topic_loop cs (cur @ [c]) acc)"

definition splitTopic :: "string \<Rightarrow> string list" where
  "splitTopic topic = split_topic_loop topic [] []"

fun matchLevel :: "'a node \<Rightarrow> string list \<Rightarrow> 'a list \<Rightarrow> 'a list" where
  "matchLevel n [] matched =
     (let matched = matched @ vals n
      in case map_of (children n) ''#'' of Some wild \<Rightarrow> matched @ vals wild | None \<Rightarrow> matched)"
| "matchLevel n (level # rest) matched =
     (let matched = (case map_of (children n) level of
                       Some child \<Rightarrow> matchLevel child rest matched | None \<Rightarrow> matched);
          matched = (case map_of (children n) ''+'' of
                       Some child \<Rightarrow> matchLevel child rest matched | None \<Rightarrow> matched)
      in case map_of (children n) ''#'' of Some child \<Rightarrow> matched @ vals child | None \<Rightarrow> matched)"

definition MatchInto :: "trie_router \<Rightarrow> string \<Rightarrow> subscription list \<Rightarrow> subscription list" where
  "MatchInto r topic matched = matchLevel r (splitTopic topic) matched"

definition Match :: "trie_router \<Rightarrow> string \<Rightarrow> subscription list" where
  "Match r topic = MatchInto r topic []"


section \<open>The split\<close>

lemma split_topic_loop_levels:
  "split_topic_loop s cur acc =
     acc @ (case levels s of l # ls \<Rightarrow> (cur @ l) # ls | [] \<Rightarrow> [])"
  by (induction s arbitrary: cur acc) (auto split: list.splits)

lemma splitTopic_levels: "splitTopic s = levels s"
  by (cases "levels s") (simp_all add: splitTopic_def split_topic_loop_levels)


section \<open>What a descent collects\<close>

lemma matchLevel_append: "matchLevel n ts m = m @ matchLevel n ts []"
proof (induction ts arbitrary: n m)
  case Nil
  then show ?case by (simp add: Let_def split: option.splits)
next
  case (Cons t ts)
  show ?case
    by (simp add: Let_def Cons.IH [of _ "_ @ _"] Cons.IH [of _ m] split: option.split)
       (metis Cons.IH append.assoc)
qed

lemma set_matchLevel:
  "x \<in> set (matchLevel n ts []) \<longleftrightarrow> (\<exists>p. trie_match p ts \<and> x \<in> set (values_at n p))"
proof (induction ts arbitrary: n)
  case Nil
  show ?case
    by (simp only: ex_trie_match_Nil) (auto simp: Let_def split: option.splits)
next
  case (Cons t ts)
  have step: "x \<in> set (matchLevel c ts m) \<longleftrightarrow>
      x \<in> set m \<or> (\<exists>p. trie_match p ts \<and> x \<in> set (values_at c p))" for c m
    by (subst matchLevel_append) (simp add: Cons.IH)
  show ?case
    by (simp only: ex_trie_match_Cons) (auto simp: Let_def step split: option.splits)
qed

text \<open>
  A value is stored under one path only when the stored value determines the path; then, on a topic
  without wildcard levels, nothing is collected twice.
\<close>

definition filed_by :: "('a \<Rightarrow> string list) \<Rightarrow> 'a node \<Rightarrow> bool" where
  "filed_by path n \<longleftrightarrow> (\<forall>p. distinct (values_at n p) \<and> (\<forall>x \<in> set (values_at n p). path x = p))"

lemma filed_byD: "filed_by path n \<Longrightarrow> x \<in> set (values_at n p) \<Longrightarrow> p = path x"
  by (simp add: filed_by_def)

lemma distinct_matchLevel_gen:
  assumes "\<And>p. distinct (values_at n p)"
    and "\<And>p q x. x \<in> set (values_at n p) \<Longrightarrow> x \<in> set (values_at n q) \<Longrightarrow> p = q"
    and "''+'' \<notin> set ts" and "''#'' \<notin> set ts"
  shows "distinct (matchLevel n ts [])"
  using assms
proof (induction ts arbitrary: n)
  case Nil
  have d: "distinct (vals n)" using Nil.prems(1) [of "[]"] by simp
  show ?case
  proof (cases "map_of (children n) ''#''")
    case None
    with d show ?thesis by simp
  next
    case (Some c)
    with Nil.prems(1) [of "[''#'']"] Nil.prems(2) [of _ "[]" "[''#'']"] d
    show ?thesis by auto
  qed
next
  case (Cons t ts)
  define part where "part k = (case map_of (children n) k of Some c \<Rightarrow> matchLevel c ts [] | None \<Rightarrow> [])" for k
  define hash where "hash = (case map_of (children n) ''#'' of Some c \<Rightarrow> vals c | None \<Rightarrow> [])"
  have eq: "matchLevel n (t # ts) [] = part t @ part ''+'' @ hash"
    by (simp add: part_def hash_def Let_def matchLevel_append [of _ _ "matchLevel _ _ _"]
        split: option.split)
  have mem: "x \<in> set (part k) \<Longrightarrow> \<exists>p. x \<in> set (values_at n (k # p)) \<and> trie_match p ts" for x k
    by (auto simp: part_def set_matchLevel split: option.splits)
  have hmem: "x \<in> set hash \<Longrightarrow> x \<in> set (values_at n [''#''])" for x
    by (auto simp: hash_def split: option.splits)
  have dp: "distinct (part k)" for k
  proof (cases "map_of (children n) k")
    case None
    then show ?thesis by (simp add: part_def)
  next
    case (Some c)
    have "distinct (matchLevel c ts [])"
    proof (rule Cons.IH)
      show "distinct (values_at c p)" for p
        using Cons.prems(1) [of "k # p"] Some by simp
      show "p = q" if "x \<in> set (values_at c p)" "x \<in> set (values_at c q)" for p q x
        using Cons.prems(2) [of x "k # p" "k # q"] that Some by simp
    qed (use Cons.prems in auto)
    then show ?thesis using Some by (simp add: part_def)
  qed
  have dh: "distinct hash"
    using Cons.prems(1) [of "[''#'']"] by (auto simp: hash_def split: option.splits)
  have disj: "set (part k) \<inter> set (part k') = {}" if "k \<noteq> k'" for k k'
    using mem [of _ k] mem [of _ k'] Cons.prems(2) that by blast
  have disjh: "set (part k) \<inter> set hash = {}" if "k \<noteq> ''#''" for k
    using mem [of _ k] hmem Cons.prems(2) that by blast
  have "t \<noteq> ''+''" and "t \<noteq> ''#''" using Cons.prems(3,4) by auto
  then show ?case
    unfolding eq using dp dh disj [of t "''+''"] disjh [of t] disjh [of "''+''"]
    by (simp add: Int_Un_distrib)
qed

lemma distinct_matchLevel:
  "filed_by path n \<Longrightarrow> ''+'' \<notin> set ts \<Longrightarrow> ''#'' \<notin> set ts \<Longrightarrow> distinct (matchLevel n ts [])"
  by (rule distinct_matchLevel_gen) (blast dest: filed_byD | simp add: filed_by_def)+


section \<open>The invariant of the router\<close>

text \<open>Every subscription sits under the levels of its filter, one per client and node.\<close>

definition router_inv :: "trie_router \<Rightarrow> bool" where
  "router_inv r \<longleftrightarrow>
     (\<forall>p. distinct (map ClientID (values_at r p)) \<and>
          (\<forall>sub \<in> set (values_at r p). levels (SubFilter sub) = p))"

lemma router_inv_filed: "router_inv r \<Longrightarrow> filed_by (\<lambda>s. levels (SubFilter s)) r"
  by (auto simp: router_inv_def filed_by_def distinct_map)

lemma set_put_sub:
  "distinct (map ClientID subs) \<Longrightarrow>
   set (put_sub sub subs) = insert sub {s \<in> set subs. ClientID s \<noteq> ClientID sub}"
  by (induction subs) (auto simp: image_iff)

lemma ClientID_put_sub: "ClientID ` set (put_sub sub subs) = insert (ClientID sub) (ClientID ` set subs)"
  by (induction subs) auto

lemma distinct_put_sub:
  "distinct (map ClientID subs) \<Longrightarrow> distinct (map ClientID (put_sub sub subs))"
  by (induction subs) (auto simp: ClientID_put_sub)

lemma router_inv_new [simp]: "router_inv NewRouter"
  by (simp add: router_inv_def NewRouter_def)

lemma router_inv_subscribe: "router_inv r \<Longrightarrow> router_inv (Router_Subscribe c f q opts r)"
  by (auto simp: router_inv_def Router_Subscribe_def Let_def values_at_descend_create
      distinct_put_sub set_put_sub)

lemma router_inv_unsubscribe: "router_inv r \<Longrightarrow> router_inv (Router_Unsubscribe c f r)"
  by (auto simp: router_inv_def Router_Unsubscribe_def values_at_descend_existing distinct_map_filter)

text \<open>The subscriptions a router holds, as a set.\<close>

definition subs_of :: "trie_router \<Rightarrow> subscription set" where
  "subs_of r = {s. s \<in> set (values_at r (levels (SubFilter s)))}"

lemma subs_of_new [simp]: "subs_of NewRouter = {}"
  by (simp add: subs_of_def NewRouter_def)

lemma subs_of_subscribe:
  assumes "router_inv r"
  shows "subs_of (Router_Subscribe c f q opts r) =
    insert \<lparr>ClientID = c, SubFilter = f, SubscriptionID = None, Options = opts, QoS = q\<rparr>
      {s \<in> subs_of r. \<not> (ClientID s = c \<and> SubFilter s = f)}"
proof -
  have "distinct (map ClientID (values_at r p))" for p
    using assms by (simp add: router_inv_def)
  then show ?thesis
    by (auto simp: subs_of_def Router_Subscribe_def Let_def values_at_descend_create set_put_sub
        str_split_inj split: if_splits)
qed

lemma subs_of_unsubscribe:
  "subs_of (Router_Unsubscribe c f r) = {s \<in> subs_of r. \<not> (ClientID s = c \<and> SubFilter s = f)}"
  by (auto simp: subs_of_def Router_Unsubscribe_def values_at_descend_existing str_split_inj
      split: if_splits)

lemma set_Match:
  assumes "router_inv r"
  shows "set (Match r topic) = {s \<in> subs_of r. trie_match (levels (SubFilter s)) (levels topic)}"
proof (rule set_eqI)
  fix s
  have "p = levels (SubFilter s)" if "s \<in> set (values_at r p)" for p
    using filed_byD [OF router_inv_filed [OF assms] that] .
  then show "s \<in> set (Match r topic) \<longleftrightarrow>
      s \<in> {s \<in> subs_of r. trie_match (levels (SubFilter s)) (levels topic)}"
    unfolding Match_def MatchInto_def splitTopic_levels set_matchLevel subs_of_def by blast
qed

lemma wildcard_free_levels:
  "CHR ''+'' \<notin> set topic \<Longrightarrow> CHR ''#'' \<notin> set topic \<Longrightarrow>
   ''+'' \<notin> set (levels topic) \<and> ''#'' \<notin> set (levels topic)"
  using str_split_chars [of "''+''" "CHR ''/''" topic] str_split_chars [of "''#''" "CHR ''/''" topic]
  by auto

lemma ValidateTopicName_wildcards:
  "ValidateTopicName topic = None \<Longrightarrow>
   topic \<noteq> [] \<and> CHR ''+'' \<notin> set topic \<and> CHR ''#'' \<notin> set topic"
  by (auto simp: ValidateTopicName_def contains_char_def split: if_splits)

lemma distinct_Match:
  assumes "router_inv r" and "ValidateTopicName topic = None"
  shows "distinct (Match r topic)"
  using assms ValidateTopicName_wildcards [OF assms(2)]
  by (auto simp: Match_def MatchInto_def splitTopic_levels wildcard_free_levels
      intro!: distinct_matchLevel [OF router_inv_filed])


section \<open>Histories\<close>

text \<open>The router as a sequence of calls, and the set of live subscriptions it should denote.\<close>

datatype router_op = OpSubscribe string string nat subscribe_options | OpUnsubscribe string string

fun router_step :: "router_op \<Rightarrow> trie_router \<Rightarrow> trie_router" where
  "router_step (OpSubscribe c f q opts) r = Router_Subscribe c f q opts r"
| "router_step (OpUnsubscribe c f) r = Router_Unsubscribe c f r"

fun live_step :: "router_op \<Rightarrow> subscription set \<Rightarrow> subscription set" where
  "live_step (OpSubscribe c f q opts) S =
     insert \<lparr>ClientID = c, SubFilter = f, SubscriptionID = None, Options = opts, QoS = q\<rparr>
       {s \<in> S. \<not> (ClientID s = c \<and> SubFilter s = f)}"
| "live_step (OpUnsubscribe c f) S = {s \<in> S. \<not> (ClientID s = c \<and> SubFilter s = f)}"

lemma router_history:
  "router_inv r \<Longrightarrow>
   router_inv (fold router_step ops r) \<and> subs_of (fold router_step ops r) = fold live_step ops (subs_of r)"
proof (induction ops arbitrary: r)
  case Nil
  then show ?case by simp
next
  case (Cons op ops)
  have "router_inv (router_step op r) \<and> subs_of (router_step op r) = live_step op (subs_of r)"
    using Cons.prems
    by (cases op) (simp_all add: router_inv_subscribe router_inv_unsubscribe subs_of_subscribe subs_of_unsubscribe)
  with Cons.IH [of "router_step op r"] show ?case by simp
qed

lemma trie_match_valid:
  "ValidateTopicFilter f = None \<Longrightarrow> trie_match (levels f) ts \<longleftrightarrow> mqtt_matches (levels f) ts"
  using ValidateTopicFilter_wf [of f]
  by (simp add: trie_match_wf wf_filter_levels_def levels_match_mqtt)


section \<open>Properties\<close>



text \<open>
  C24. Where the router and the matcher part ways: for a topic that begins with \<open>$\<close> the router
  also returns the subscriptions whose filter begins with a wildcard, which
  \<^verbatim>\<open>TopicMatch\<close> rejects; on every other topic the two agree.
\<close>

theorem Match_versus_TopicMatch:
  assumes "router_inv r" and "s \<in> subs_of r"
    and "ValidateTopicFilter (SubFilter s) = None" and "ValidateTopicName topic = None"
  shows "s \<in> set (Match r topic) \<longleftrightarrow>
    TopicMatch (SubFilter s) topic \<or>
    (hd topic = CHR ''$'' \<and> hd (SubFilter s) \<in> {CHR ''+'', CHR ''#''} \<and>
     levels_match (levels (SubFilter s)) (levels topic))"
proof -
  have wf: "SubFilter s \<noteq> []" "wf_filter_levels (levels (SubFilter s))"
    using ValidateTopicFilter_wf [OF assms(3)] by auto
  have t: "topic \<noteq> []" using ValidateTopicName_wildcards [OF assms(4)] by simp
  have m: "s \<in> set (Match r topic) \<longleftrightarrow> levels_match (levels (SubFilter s)) (levels topic)"
    using assms(1,2) wf by (simp add: set_Match trie_match_wf)
  have "hd (SubFilter s) \<in> {CHR ''+'', CHR ''#''}"
    if "levels_match (levels (SubFilter s)) (levels topic)" "hd topic = CHR ''$''" "hd (SubFilter s) \<noteq> CHR ''$''"
    using levels_match_hd [OF that(1) wf(1) t] that by auto
  with m wf t show ?thesis by (auto simp: TopicMatch_levels)
qed

theorem Match_versus_TopicMatch_witness:
  "\<exists>s \<in> set (Match (Router_Subscribe ''c'' ''#'' 0
        no_options NewRouter) ''$SYS/load'').
     \<not> TopicMatch (SubFilter s) ''$SYS/load''"
proof -
  define s where "s = \<lparr>ClientID = ''c'', SubFilter = ''#'', SubscriptionID = None, Options = no_options, QoS = 0\<rparr>"
  define r where "r = Router_Subscribe ''c'' ''#'' 0 no_options NewRouter"
  have r: "router_inv r" by (simp add: r_def router_inv_subscribe)
  have s: "s \<in> subs_of r" by (simp add: r_def s_def subs_of_subscribe)
  have f: "ValidateTopicFilter ''#'' = None" by code_simp
  have t: "ValidateTopicName ''$SYS/load'' = None" by code_simp
  have "s \<in> set (Match r ''$SYS/load'')"
    using Match_versus_TopicMatch [OF r s _ t] f by (simp add: s_def)
  moreover have "\<not> TopicMatch (SubFilter s) ''$SYS/load''" by (simp add: s_def TopicMatch_def)
  ultimately show ?thesis unfolding r_def by blast
qed

end
