(* ===== verification/Topic_Index.thy ===== *)
theory Topic_Index
  imports Level_Trie
begin

text \<open>
  \<^verbatim>\<open>queue/storage/topic.go\<close> and \<^verbatim>\<open>patterntrie.go\<close>: the index from topic patterns to the
  queues bound to them, consulted on every publish. The patterns are split over two tries by
  whether they begin with \<open>$\<close>; each operation walks its trie with \<^verbatim>\<open>strings.Cut\<close>. The result is
  that \<open>FindMatching\<close> returns, without repetition, the queues with a pattern that
  \<open>TopicMatch\<close> accepts.
\<close>

type_synonym pattern_trie = "string node"


section \<open>The trie\<close>

definition bind_queue :: "string \<Rightarrow> string list \<Rightarrow> string list" where
  "bind_queue q qs = (if q \<in> set qs then qs else qs @ [q])"

function trie_add :: "string \<Rightarrow> string \<Rightarrow> pattern_trie \<Rightarrow> pattern_trie" where
  "trie_add remaining queueName n =
     (case str_cut (CHR ''/'') remaining of (level, rest, hasMore) \<Rightarrow>
      let child = (case map_of (children n) level of Some c \<Rightarrow> c | None \<Rightarrow> newNode);
          child = (if hasMore then trie_add rest queueName child
                   else Node (children child) (bind_queue queueName (vals child)))
      in Node (AList.update level child (children n)) (vals n))"
  by pat_completeness auto
termination
  by (relation "measure (\<lambda>(remaining, _, _). length remaining)") (auto simp: str_cut_shorter')

declare trie_add.simps [simp del]

function removeQueueFromPattern :: "string \<Rightarrow> string \<Rightarrow> pattern_trie \<Rightarrow> pattern_trie" where
  "removeQueueFromPattern remaining queueName n =
     (case str_cut (CHR ''/'') remaining of (level, rest, hasMore) \<Rightarrow>
      case map_of (children n) level of
        None \<Rightarrow> n
      | Some child \<Rightarrow>
          (let child = (if hasMore then removeQueueFromPattern rest queueName child
                        else Node (children child) (remove1 queueName (vals child)))
           in if vals child = [] \<and> children child = []
              then Node (AList.delete level (children n)) (vals n)
              else Node (AList.update level child (children n)) (vals n)))"
  by pat_completeness auto
termination
  by (relation "measure (\<lambda>(remaining, _, _). length remaining)") (auto simp: str_cut_shorter')

declare removeQueueFromPattern.simps [simp del]

text \<open>
  \<^verbatim>\<open>matchedQueues\<close>: the names in first-match order, and a set of them once the list has grown to
  the threshold.
\<close>

record matched_queues =
  names :: "string list"
  seen :: "string set option"

definition matchedQueuesMapThreshold :: nat where
  "matchedQueuesMapThreshold = 16"

definition matched_add :: "string \<Rightarrow> matched_queues \<Rightarrow> matched_queues" where
  "matched_add queueName m =
     (case seen m of
        Some s \<Rightarrow>
          if queueName \<in> s then m
          else m\<lparr>seen := Some (insert queueName s), names := names m @ [queueName]\<rparr>
      | None \<Rightarrow>
          if queueName \<in> set (names m) then m
          else (let ns = names m @ [queueName]
                in if length ns = matchedQueuesMapThreshold
                   then m\<lparr>names := ns, seen := Some (set ns)\<rparr>
                   else m\<lparr>names := ns\<rparr>))"

definition collectQueues :: "pattern_trie \<Rightarrow> matched_queues \<Rightarrow> matched_queues" where
  "collectQueues n m = fold matched_add (vals n) m"

function matchPatternNode ::
  "pattern_trie \<Rightarrow> string \<Rightarrow> bool \<Rightarrow> matched_queues \<Rightarrow> matched_queues" where
  "matchPatternNode n remaining consumed m =
     (if consumed then
        (let m = collectQueues n m
         in (case map_of (children n) ''#'' of Some child \<Rightarrow> collectQueues child m | None \<Rightarrow> m))
      else
        (case str_cut (CHR ''/'') remaining of (level, rest, hasMore) \<Rightarrow>
         let m = (case map_of (children n) level of
                    Some child \<Rightarrow> matchPatternNode child rest (\<not> hasMore) m | None \<Rightarrow> m);
             m = (case map_of (children n) ''+'' of
                    Some child \<Rightarrow> matchPatternNode child rest (\<not> hasMore) m | None \<Rightarrow> m)
         in (case map_of (children n) ''#'' of Some child \<Rightarrow> collectQueues child m | None \<Rightarrow> m)))"
  by pat_completeness auto
termination
  by (relation "measure (\<lambda>(_, remaining, consumed, _). if consumed then 0 else Suc (length remaining))")
     (auto simp: str_cut_shorter')

declare matchPatternNode.simps [simp del]


section \<open>The index\<close>

record topic_index =
  idx_queues :: "(string, string list) gomap"
  dollarPatterns :: pattern_trie
  plainPatterns :: pattern_trie

definition NewTopicIndex :: topic_index where
  "NewTopicIndex = \<lparr>idx_queues = [], dollarPatterns = newNode, plainPatterns = newNode\<rparr>"

definition is_dollar :: "string \<Rightarrow> bool" where
  "is_dollar s \<longleftrightarrow> s \<noteq> [] \<and> hd s = CHR ''$''"

definition patternsFor :: "topic_index \<Rightarrow> string \<Rightarrow> pattern_trie" where
  "patternsFor idx s = (if is_dollar s then dollarPatterns idx else plainPatterns idx)"

definition update_patternsFor ::
  "(pattern_trie \<Rightarrow> pattern_trie) \<Rightarrow> string \<Rightarrow> topic_index \<Rightarrow> topic_index" where
  "update_patternsFor f s idx =
     (if is_dollar s then idx\<lparr>dollarPatterns := f (dollarPatterns idx)\<rparr>
      else idx\<lparr>plainPatterns := f (plainPatterns idx)\<rparr>)"

definition removeQueueLocked :: "string \<Rightarrow> topic_index \<Rightarrow> topic_index" where
  "removeQueueLocked queueName idx =
     (case map_of (idx_queues idx) queueName of
        None \<Rightarrow> idx
      | Some topicPatterns \<Rightarrow>
          (let idx = fold (\<lambda>pattern. update_patternsFor (removeQueueFromPattern pattern queueName) pattern)
                       topicPatterns idx
           in idx\<lparr>idx_queues := AList.delete queueName (idx_queues idx)\<rparr>))"

definition RemoveQueue :: "string \<Rightarrow> topic_index \<Rightarrow> topic_index" where
  "RemoveQueue queueName idx = removeQueueLocked queueName idx"

definition AddQueue :: "string \<Rightarrow> string list \<Rightarrow> topic_index \<Rightarrow> topic_index" where
  "AddQueue queueName topicPatterns idx =
     (let idx = removeQueueLocked queueName idx;
          idx = idx\<lparr>idx_queues := AList.update queueName topicPatterns (idx_queues idx)\<rparr>
      in fold (\<lambda>pattern. update_patternsFor (trie_add pattern queueName) pattern) topicPatterns idx)"

definition FindMatching :: "topic_index \<Rightarrow> string \<Rightarrow> string list" where
  "FindMatching idx topic =
     (if topic = [] then []
      else names (matchPatternNode (patternsFor idx topic) topic False \<lparr>names = [], seen = None\<rparr>))"

definition GetQueues :: "topic_index \<Rightarrow> (string, string list) gomap" where
  "GetQueues idx = map (\<lambda>(name, topicPatterns). (name, topicPatterns)) (idx_queues idx)"

definition QueueCount :: "topic_index \<Rightarrow> nat" where
  "QueueCount idx = length (idx_queues idx)"

definition GetQueueTopics :: "topic_index \<Rightarrow> string \<Rightarrow> string list \<times> bool" where
  "GetQueueTopics idx queueName =
     (case map_of (idx_queues idx) queueName of None \<Rightarrow> ([], False) | Some ps \<Rightarrow> (ps, True))"


section \<open>The tries on levels\<close>

lemma trie_add_levels:
  "trie_add s q n = descend_create (bind_queue q) (levels s) n"
proof (induction s q n rule: trie_add.induct)
  case (1 s q n)
  obtain l r m where c: "str_cut (CHR ''/'') s = (l, r, m)" by (metis prod_cases3)
  show ?case
    using 1 [OF c [symmetric] refl refl]
    by (subst trie_add.simps, subst str_split_cut) (auto simp: c Let_def)
qed

lemma values_at_trie_add:
  "values_at (trie_add s q n) p =
     (if p = levels s then bind_queue q (values_at n p) else values_at n p)"
  by (simp add: trie_add_levels values_at_descend_create)

lemma values_at_empty: "vals n = [] \<Longrightarrow> children n = [] \<Longrightarrow> values_at n p = []"
  by (cases p) auto

lemma values_at_removeQueueFromPattern:
  "values_at (removeQueueFromPattern s q n) p =
     (if p = levels s then remove1 q (values_at n p) else values_at n p)"
proof (induction s q n arbitrary: p rule: removeQueueFromPattern.induct)
  case (1 s q n)
  obtain l r m where c: "str_cut (CHR ''/'') s = (l, r, m)" by (metis prod_cases3)
  have ls: "levels s = (if m then l # levels r else [l])"
    using c by (subst str_split_cut) simp
  show ?case
  proof (cases "map_of (children n) l")
    case None
    then show ?thesis
      by (subst removeQueueFromPattern.simps) (cases p; auto simp: c ls)
  next
    case (Some child)
    define child' where "child' = (if m then removeQueueFromPattern r q child
                        else Node (children child) (remove1 q (vals child)))"
    have child': "values_at child' p' =
        (if p' = (if m then levels r else []) then remove1 q (values_at child p')
         else values_at child p')" for p'
      using 1 [OF c [symmetric] refl Some, of p'] by (cases p') (auto simp: child'_def)
    define n' where "n' = removeQueueFromPattern s q n"
    have n': "n' = (if vals child' = [] \<and> children child' = []
              then Node (AList.delete l (children n)) (vals n)
              else Node (AList.update l child' (children n)) (vals n))"
      unfolding n'_def
      by (subst removeQueueFromPattern.simps) (simp add: c Some Let_def child'_def)
    have here: "values_at n' (l # p') = values_at child' p'" for p'
      using values_at_empty [of child' p'] by (auto simp: n')
    have other: "values_at n' (k # p') = values_at n (k # p')" if "k \<noteq> l" for k p'
      using that by (auto simp: n')
    have top: "values_at n' [] = values_at n []"
      by (auto simp: n')
    show ?thesis
    proof (cases p)
      case Nil
      with top ls show ?thesis by (simp add: n'_def)
    next
      case (Cons k ks)
      show ?thesis
      proof (cases "k = l")
        case True
        with Cons here [of ks] child' [of ks] Some ls show ?thesis
          unfolding n'_def by auto
      next
        case False
        with Cons other [of k ks] ls show ?thesis
          unfolding n'_def by auto
      qed
    qed
  qed
qed


section \<open>Collecting without repetition\<close>

text \<open>The reference: append unless present. The set is only a faster membership test.\<close>

definition matched_ok :: "matched_queues \<Rightarrow> bool" where
  "matched_ok m \<longleftrightarrow> distinct (names m) \<and> (case seen m of None \<Rightarrow> True | Some s \<Rightarrow> s = set (names m))"

lemma names_matched_add:
  "matched_ok m \<Longrightarrow> names (matched_add q m) = bind_queue q (names m)"
  by (auto simp: matched_add_def matched_ok_def bind_queue_def Let_def split: option.splits)

lemma matched_ok_add: "matched_ok m \<Longrightarrow> matched_ok (matched_add q m)"
  by (auto simp: matched_add_def matched_ok_def Let_def split: option.splits)

lemma set_bind_queue [simp]: "set (bind_queue q qs) = insert q (set qs)"
  by (auto simp: bind_queue_def)

lemma distinct_bind_queue [simp]: "distinct qs \<Longrightarrow> distinct (bind_queue q qs)"
  by (auto simp: bind_queue_def)

lemma fold_matched_add:
  "matched_ok m \<Longrightarrow>
   matched_ok (fold matched_add qs m) \<and> set (names (fold matched_add qs m)) = set (names m) \<union> set qs"
  by (induction qs arbitrary: m) (auto simp: matched_ok_add names_matched_add)

lemma collectQueues_ok: "matched_ok m \<Longrightarrow> matched_ok (collectQueues n m)"
  by (simp add: collectQueues_def fold_matched_add)

lemma collectQueues_set:
  "matched_ok m \<Longrightarrow> set (names (collectQueues n m)) = set (names m) \<union> set (vals n)"
  by (simp add: collectQueues_def fold_matched_add)

text \<open>The levels a call of the matcher still has to walk.\<close>

definition rest_levels :: "string \<Rightarrow> bool \<Rightarrow> string list" where
  "rest_levels remaining consumed = (if consumed then [] else levels remaining)"

definition reached :: "pattern_trie \<Rightarrow> string list \<Rightarrow> string set" where
  "reached n ts = {q. \<exists>p. trie_match p ts \<and> q \<in> set (values_at n p)}"

lemma reached_Nil:
  "reached n [] = set (vals n) \<union>
     (case map_of (children n) ''#'' of Some c \<Rightarrow> set (vals c) | None \<Rightarrow> {})"
  unfolding reached_def by (simp only: ex_trie_match_Nil) (auto split: option.splits)

lemma reached_Cons:
  "reached n (t # ts) =
     (case map_of (children n) t of Some c \<Rightarrow> reached c ts | None \<Rightarrow> {}) \<union>
     (case map_of (children n) ''+'' of Some c \<Rightarrow> reached c ts | None \<Rightarrow> {}) \<union>
     (case map_of (children n) ''#'' of Some c \<Rightarrow> set (vals c) | None \<Rightarrow> {})"
  unfolding reached_def by (simp only: ex_trie_match_Cons) (auto split: option.splits)

lemma matchPatternNode_reached:
  "matched_ok m \<Longrightarrow>
   matched_ok (matchPatternNode n r c m) \<and>
   set (names (matchPatternNode n r c m)) = set (names m) \<union> reached n (rest_levels r c)"
proof (induction n r c m rule: matchPatternNode.induct)
  case (1 n r c m)
  show ?case
  proof (cases c)
    case True
    then show ?thesis
      using 1(3) by (subst (1 2) matchPatternNode.simps)
        (auto simp: rest_levels_def reached_Nil Let_def collectQueues_ok collectQueues_set
          split: option.splits)
  next
    case False
    obtain l s hasMore where cut: "str_cut (CHR ''/'') r = (l, s, hasMore)" by (metis prod_cases3)
    have rl: "rest_levels r c = l # rest_levels s (\<not> hasMore)"
      using cut False str_split_cut [of "CHR ''/''" r] by (auto simp: rest_levels_def)
    define m1 where "m1 = (case map_of (children n) l of
        Some child \<Rightarrow> matchPatternNode child s (\<not> hasMore) m | None \<Rightarrow> m)"
    define m2 where "m2 = (case map_of (children n) ''+'' of
        Some child \<Rightarrow> matchPatternNode child s (\<not> hasMore) m1 | None \<Rightarrow> m1)"
    have m1: "matched_ok m1 \<and> set (names m1) = set (names m) \<union>
        (case map_of (children n) l of Some child \<Rightarrow> reached child (rest_levels s (\<not> hasMore)) | None \<Rightarrow> {})"
      using 1(1) [OF False cut [symmetric] refl] 1(3)
      by (auto simp: m1_def split: option.splits)
    have m2: "matched_ok m2 \<and> set (names m2) = set (names m1) \<union>
        (case map_of (children n) ''+'' of Some child \<Rightarrow> reached child (rest_levels s (\<not> hasMore)) | None \<Rightarrow> {})"
      using 1(2) [OF False cut [symmetric] refl m1_def] m1
      by (auto simp: m2_def split: option.splits)
    have eq: "matchPatternNode n r c m =
        (case map_of (children n) ''#'' of Some child \<Rightarrow> collectQueues child m2 | None \<Rightarrow> m2)"
      unfolding m2_def m1_def by (subst matchPatternNode.simps) (simp add: False cut Let_def)
    show ?thesis
      unfolding eq rl reached_Cons using m1 m2
      by (auto simp: collectQueues_ok collectQueues_set split: option.splits)
  qed
qed


section \<open>The invariant of the index\<close>

definition half :: "topic_index \<Rightarrow> bool \<Rightarrow> pattern_trie" where
  "half idx d = (if d then dollarPatterns idx else plainPatterns idx)"

definition bindings :: "topic_index \<Rightarrow> string \<Rightarrow> string list" where
  "bindings idx q = (case map_of (idx_queues idx) q of None \<Rightarrow> [] | Some ps \<Rightarrow> ps)"

text \<open>Each half files a queue under exactly the paths of its patterns of that half.\<close>

definition index_inv :: "topic_index \<Rightarrow> bool" where
  "index_inv idx \<longleftrightarrow>
     distinct (map fst (idx_queues idx)) \<and>
     (\<forall>d p. distinct (values_at (half idx d) p) \<and>
       set (values_at (half idx d) p) =
         {q. \<exists>pat \<in> set (bindings idx q). is_dollar pat = d \<and> levels pat = p})"

lemma half_update_patternsFor:
  "half (update_patternsFor f s idx) d = (if is_dollar s = d then f (half idx d) else half idx d)"
  by (auto simp: half_def update_patternsFor_def)

lemma idx_queues_update_patternsFor [simp]:
  "idx_queues (update_patternsFor f s idx) = idx_queues idx"
  by (simp add: update_patternsFor_def)

lemma half_idx_queues_update [simp]: "half (idx\<lparr>idx_queues := m\<rparr>) d = half idx d"
  by (simp add: half_def)

lemma fold_update_queues [simp]:
  "idx_queues (fold (\<lambda>pat. update_patternsFor (f pat) pat) ps idx) = idx_queues idx"
  by (induction ps arbitrary: idx) auto

lemma fold_remove:
  "(\<And>d p. distinct (values_at (half idx d) p)) \<Longrightarrow>
   (\<forall>d p. distinct (values_at (half (fold (\<lambda>pat. update_patternsFor (removeQueueFromPattern pat q) pat) ps idx) d) p) \<and>
   set (values_at (half (fold (\<lambda>pat. update_patternsFor (removeQueueFromPattern pat q) pat) ps idx) d) p) =
     set (values_at (half idx d) p) - (if \<exists>pat \<in> set ps. is_dollar pat = d \<and> levels pat = p then {q} else {}))"
proof (induction ps arbitrary: idx)
  case Nil
  then show ?case by simp
next
  case (Cons pat ps)
  define idx' where "idx' = update_patternsFor (removeQueueFromPattern pat q) pat idx"
  have v: "values_at (half idx' d) p =
      (if is_dollar pat = d \<and> levels pat = p then remove1 q (values_at (half idx d) p)
       else values_at (half idx d) p)" for d p
    by (auto simp: idx'_def half_update_patternsFor values_at_removeQueueFromPattern)
  then have "distinct (values_at (half idx' d) p)" for d p
    using Cons.prems by (auto intro: distinct_remove1)
  from Cons.IH [OF this] v show ?case
    using Cons.prems by (auto simp flip: idx'_def)
qed

lemma fold_add:
  "(\<And>d p. distinct (values_at (half idx d) p)) \<Longrightarrow>
   (\<forall>d p. distinct (values_at (half (fold (\<lambda>pat. update_patternsFor (trie_add pat q) pat) ps idx) d) p) \<and>
   set (values_at (half (fold (\<lambda>pat. update_patternsFor (trie_add pat q) pat) ps idx) d) p) =
     set (values_at (half idx d) p) \<union> (if \<exists>pat \<in> set ps. is_dollar pat = d \<and> levels pat = p then {q} else {}))"
proof (induction ps arbitrary: idx)
  case Nil
  then show ?case by simp
next
  case (Cons pat ps)
  define idx' where "idx' = update_patternsFor (trie_add pat q) pat idx"
  have v: "values_at (half idx' d) p =
      (if is_dollar pat = d \<and> levels pat = p then bind_queue q (values_at (half idx d) p)
       else values_at (half idx d) p)" for d p
    by (auto simp: idx'_def half_update_patternsFor values_at_trie_add)
  then have "distinct (values_at (half idx' d) p)" for d p
    using Cons.prems by auto
  from Cons.IH [OF this] v show ?case
    by (auto simp flip: idx'_def)
qed

lemma bindings_remove:
  "bindings (removeQueueLocked q idx) = (bindings idx)(q := [])"
  by (auto simp: bindings_def removeQueueLocked_def Let_def fun_eq_iff split: option.splits)

lemma index_inv_remove:
  assumes "index_inv idx"
  shows "index_inv (removeQueueLocked q idx)"
proof (cases "map_of (idx_queues idx) q")
  case None
  with assms show ?thesis by (simp add: removeQueueLocked_def)
next
  case (Some ps)
  define idx' where "idx' = fold (\<lambda>pat. update_patternsFor (removeQueueFromPattern pat q) pat) ps idx"
  have eq: "removeQueueLocked q idx = idx'\<lparr>idx_queues := AList.delete q (idx_queues idx)\<rparr>"
    by (simp add: removeQueueLocked_def Some Let_def idx'_def)
  have d: "distinct (values_at (half idx d) p)" for d p
    using assms by (simp add: index_inv_def)
  have b: "bindings (removeQueueLocked q idx) q' = (if q' = q then [] else bindings idx q')" for q'
    by (simp add: bindings_remove)
  have "bindings idx q = ps" using Some by (simp add: bindings_def)
  moreover have "set (values_at (half idx d) p) =
      {q. \<exists>pat \<in> set (bindings idx q). is_dollar pat = d \<and> levels pat = p}" for d p
    using assms by (simp add: index_inv_def)
  ultimately show ?thesis
    using fold_remove [OF d, of q ps] assms unfolding index_inv_def b
    by (auto simp: eq simp flip: idx'_def)
qed

lemma bindings_add: "bindings (AddQueue q ps idx) = (bindings idx)(q := ps)"
proof
  fix q'
  have "bindings (AddQueue q ps idx) q' =
      (if q' = q then ps else bindings (removeQueueLocked q idx) q')"
    by (auto simp: bindings_def AddQueue_def Let_def)
  then show "bindings (AddQueue q ps idx) q' = ((bindings idx)(q := ps)) q'"
    by (simp add: bindings_remove)
qed

lemma index_inv_add:
  assumes "index_inv idx"
  shows "index_inv (AddQueue q ps idx)"
proof -
  define idx1 where "idx1 = removeQueueLocked q idx"
  define idx2 where "idx2 = idx1\<lparr>idx_queues := AList.update q ps (idx_queues idx1)\<rparr>"
  have i1: "index_inv idx1" unfolding idx1_def using assms by (rule index_inv_remove)
  have eq: "AddQueue q ps idx = fold (\<lambda>pat. update_patternsFor (trie_add pat q) pat) ps idx2"
    by (simp add: AddQueue_def Let_def idx1_def idx2_def)
  have d: "distinct (values_at (half idx2 d) p)" for d p
    using i1 by (simp add: index_inv_def idx2_def)
  have b1: "bindings idx1 q = []" by (simp add: idx1_def bindings_remove)
  have b: "bindings (AddQueue q ps idx) q' = (if q' = q then ps else bindings idx1 q')" for q'
    by (simp add: bindings_add idx1_def bindings_remove)
  have "set (values_at (half idx2 d) p) =
      {q. \<exists>pat \<in> set (bindings idx1 q). is_dollar pat = d \<and> levels pat = p}" for d p
    using i1 by (simp add: index_inv_def idx2_def)
  moreover have "distinct (map fst (idx_queues idx2))"
    using i1 by (simp add: index_inv_def idx2_def)
  ultimately show ?thesis
    using fold_add [OF d, of q ps] b1 unfolding index_inv_def b
    by (auto simp: eq)
qed

lemma index_inv_new: "index_inv NewTopicIndex"
  by (auto simp: index_inv_def NewTopicIndex_def half_def bindings_def)


section \<open>Matching through the index\<close>

text \<open>What the index decides of one pattern and one topic.\<close>

definition routes :: "string \<Rightarrow> string \<Rightarrow> bool" where
  "routes pat topic \<longleftrightarrow>
     topic \<noteq> [] \<and> is_dollar pat = is_dollar topic \<and> trie_match (levels pat) (levels topic)"

lemma set_FindMatching:
  assumes "index_inv idx"
  shows "q \<in> set (FindMatching idx topic) \<longleftrightarrow> (\<exists>pat \<in> set (bindings idx q). routes pat topic)"
proof (cases "topic = []")
  case True
  then show ?thesis by (simp add: FindMatching_def routes_def)
next
  case False
  have "matched_ok \<lparr>names = [], seen = None\<rparr>" by (simp add: matched_ok_def)
  from matchPatternNode_reached [OF this, of "patternsFor idx topic" topic False] False
  have "set (FindMatching idx topic) = reached (half idx (is_dollar topic)) (levels topic)"
    by (simp add: FindMatching_def rest_levels_def half_def patternsFor_def)
  with assms False show ?thesis
    by (auto simp: reached_def index_inv_def routes_def)
qed

lemma distinct_FindMatching: "distinct (FindMatching idx topic)"
proof -
  have "matched_ok \<lparr>names = [], seen = None\<rparr>" by (simp add: matched_ok_def)
  from matchPatternNode_reached [OF this, of "patternsFor idx topic" topic False]
  show ?thesis by (simp add: FindMatching_def matched_ok_def)
qed

text \<open>On accepted patterns the partition by \<open>$\<close> is the \<open>$\<close> rule of the matcher.\<close>

lemma routes_TopicMatch:
  assumes "ValidateTopicFilter pat = None"
  shows "routes pat topic \<longleftrightarrow> TopicMatch pat topic"
proof -
  have ne: "pat \<noteq> []" and wf: "wf_filter_levels (levels pat)"
    using ValidateTopicFilter_wf [OF assms] by auto
  have "hd topic = CHR ''$''"
    if lm: "levels_match (levels pat) (levels topic)" and t: "topic \<noteq> []" and p: "hd pat = CHR ''$''"
  proof -
    obtain l ls where l: "levels pat = l # ls" by (meson list.exhaust str_split_Nil)
    obtain k ks where k: "levels topic = k # ks" by (meson list.exhaust str_split_Nil)
    from hd_str_split [OF l ne] p have "l \<noteq> []" and "hd l = CHR ''$''" by auto
    then have "l \<noteq> ''+''" and "l \<noteq> ''#''" by auto
    with lm l k have "l = k" by auto
    then have "topic = str_join (CHR ''/'') (l # ks)" using k by (metis str_join_split)
    with \<open>l \<noteq> []\<close> \<open>hd l = CHR ''$''\<close> show ?thesis by (cases ks) auto
  qed
  then show ?thesis
    unfolding routes_def TopicMatch_levels trie_match_wf [OF wf] is_dollar_def using ne by auto
qed


section \<open>The interface the queue stores rely on\<close>

text \<open>
  What a queue store expects of the index it keeps: the operations change the binding of one queue,
  and a lookup reports the bound queues that the rule \<open>routes\<close> selects.
\<close>

locale queue_index =
  fixes empty :: "'i"
    and add :: "string \<Rightarrow> string list \<Rightarrow> 'i \<Rightarrow> 'i"
    and remove :: "string \<Rightarrow> 'i \<Rightarrow> 'i"
    and find :: "'i \<Rightarrow> string \<Rightarrow> string list"
    and bound :: "'i \<Rightarrow> string \<Rightarrow> string list"
    and inv :: "'i \<Rightarrow> bool"
  assumes inv_empty: "inv empty"
    and inv_add: "inv i \<Longrightarrow> inv (add q ps i)"
    and inv_remove: "inv i \<Longrightarrow> inv (remove q i)"
    and bound_empty: "bound empty q = []"
    and bound_add: "inv i \<Longrightarrow> bound (add q ps i) = (bound i)(q := ps)"
    and bound_remove: "inv i \<Longrightarrow> bound (remove q i) = (bound i)(q := [])"
    and find_iff: "inv i \<Longrightarrow> q \<in> set (find i t) \<longleftrightarrow> (\<exists>p \<in> set (bound i q). routes p t)"
begin

lemma find_empty: "find empty t = []"
proof -
  have "q \<notin> set (find empty t)" for q by (simp add: find_iff [OF inv_empty] bound_empty)
  then show ?thesis by (cases "find empty t") auto
qed

lemma find_removed: "inv i \<Longrightarrow> q \<notin> set (find (remove q i) t)"
  by (simp add: find_iff inv_remove bound_remove)

lemma find_other:
  "inv i \<Longrightarrow> q' \<noteq> q \<Longrightarrow> q' \<in> set (find (add q ps i) t) \<longleftrightarrow> q' \<in> set (find i t)"
  by (simp add: find_iff inv_add bound_add)

lemma find_other_removed:
  "inv i \<Longrightarrow> q' \<noteq> q \<Longrightarrow> q' \<in> set (find (remove q i) t) \<longleftrightarrow> q' \<in> set (find i t)"
  by (simp add: find_iff inv_remove bound_remove)

lemma find_added:
  assumes "inv i" and "\<And>p. p \<in> set ps \<Longrightarrow> ValidateTopicFilter p = None"
  shows "q \<in> set (find (add q ps i) t) \<longleftrightarrow> (\<exists>p \<in> set ps. TopicMatch p t)"
  using assms by (simp add: find_iff inv_add bound_add routes_TopicMatch)

text \<open>A sequence of registrations and removals answers like the table it leaves behind.\<close>

definition run_bindings :: "(string \<times> string list option) list \<Rightarrow> 'i \<Rightarrow> 'i" where
  "run_bindings ops i =
     fold (\<lambda>(q, ps) i. case ps of Some ps \<Rightarrow> add q ps i | None \<Rightarrow> remove q i) ops i"

lemma run_bindings_table:
  "inv i \<Longrightarrow> inv (run_bindings ops i) \<and>
   bound (run_bindings ops i) =
     fold (\<lambda>(q, ps) m. m(q := case ps of Some ps \<Rightarrow> ps | None \<Rightarrow> [])) ops (bound i)"
  by (induction ops arbitrary: i)
     (auto simp: run_bindings_def inv_add inv_remove bound_add bound_remove split: option.splits)

end

interpretation tidx: queue_index NewTopicIndex AddQueue RemoveQueue FindMatching bindings index_inv
  by unfold_locales
    (simp_all add: index_inv_new index_inv_add index_inv_remove RemoveQueue_def bindings_add
      bindings_remove set_FindMatching, simp add: bindings_def NewTopicIndex_def)


section \<open>Properties\<close>

text \<open>
  C12. \<^verbatim>\<open>FindMatching\<close> returns exactly the queues with a pattern that \<^verbatim>\<open>TopicMatch\<close> accepts,
  each once, whenever the bound patterns are valid filters. The trie walk replaces the scan
  over all patterns without changing its answer.
\<close>

theorem FindMatching_TopicMatch:
  assumes "index_inv idx"
    and "\<And>q p. p \<in> set (bindings idx q) \<Longrightarrow> ValidateTopicFilter p = None"
  shows "distinct (FindMatching idx topic) \<and>
    (q \<in> set (FindMatching idx topic) \<longleftrightarrow> (\<exists>p \<in> set (bindings idx q). TopicMatch p topic))"
  using assms by (simp add: distinct_FindMatching set_FindMatching routes_TopicMatch)

theorem FindMatching_TopicMatch_witness:
  "''q1'' \<in> set (FindMatching (AddQueue ''q1'' [''a/#'', ''b''] NewTopicIndex) ''a/x/y'') \<and>
   ''q1'' \<notin> set (FindMatching (AddQueue ''q1'' [''a/#'', ''b''] NewTopicIndex) ''c'')"
proof -
  define idx where "idx = AddQueue ''q1'' [''a/#'', ''b''] NewTopicIndex"
  have i: "index_inv idx" by (simp add: idx_def index_inv_add index_inv_new)
  have b: "bindings idx q = (if q = ''q1'' then [''a/#'', ''b''] else [])" for q
    by (simp add: idx_def bindings_add) (simp add: bindings_def NewTopicIndex_def)
  have "ValidateTopicFilter ''a/#'' = None" "ValidateTopicFilter ''b'' = None" by code_simp+
  then have v: "ValidateTopicFilter p = None" if "p \<in> set (bindings idx q)" for p q
    using that by (auto simp: b split: if_splits)
  have "TopicMatch ''a/#'' ''a/x/y''" "\<not> TopicMatch ''a/#'' ''c''" "\<not> TopicMatch ''b'' ''c''"
    by (simp_all add: TopicMatch_levels)
  then show ?thesis
    using FindMatching_TopicMatch [OF i v, of _ "''a/x/y''" "''q1''"]
      FindMatching_TopicMatch [OF i v, of _ "''c''" "''q1''"]
    by (simp add: b flip: idx_def)
qed

text \<open>
  C13. The index is a map from queue names to pattern lists: from the empty index, any sequence of
  \<^verbatim>\<open>AddQueue\<close> and \<^verbatim>\<open>RemoveQueue\<close> leaves the invariant in place, and a queue is found exactly
  through the patterns of its last registration, removed queues through none.
\<close>

theorem index_history:
  "index_inv (fold (\<lambda>(q, ps) i. case ps of Some ps \<Rightarrow> AddQueue q ps i | None \<Rightarrow> RemoveQueue q i) ops NewTopicIndex) \<and>
   (q \<in> set (FindMatching (fold (\<lambda>(q, ps) i. case ps of Some ps \<Rightarrow> AddQueue q ps i | None \<Rightarrow> RemoveQueue q i) ops NewTopicIndex) t)
    \<longleftrightarrow> (\<exists>p \<in> set (fold (\<lambda>(q, ps) m. m(q := case ps of Some ps \<Rightarrow> ps | None \<Rightarrow> [])) ops (\<lambda>_. []) q). routes p t))"
proof -
  have "bindings NewTopicIndex = (\<lambda>_. [])" by (rule ext) (rule tidx.bound_empty)
  then show ?thesis
    using tidx.run_bindings_table [OF index_inv_new, of ops]
    by (simp add: set_FindMatching tidx.run_bindings_def)
qed

end
