(* ===== verification/Share_Group.thy ===== *)
theory Share_Group
  imports Topics
begin

text \<open>
  MQTT 5 shared subscriptions: the round-robin group of \<^verbatim>\<open>topics/shared.go\<close> and the manager
  of \<^verbatim>\<open>mqtt/broker/shared_subscriptions.go\<close> that keys the groups by name and filter and keeps a
  cursor per group. A group is kept in the map while it has a local member. The results are the
  invariant of the manager over all of its operations and the fairness of both rotations.
\<close>

section \<open>The group\<close>

record share_subscriber =
  ss_ClientID :: string
  ss_QoS :: nat

record share_group =
  sg_Name :: string
  sg_TopicFilter :: string
  Subscribers :: "share_subscriber list"
  lastIndex :: int

definition no_subscriber :: share_subscriber where
  "no_subscriber = \<lparr>ss_ClientID = [], ss_QoS = 0\<rparr>"

text \<open>\<open>None\<close> is the panic of an index out of range.\<close>

definition NextSubscriber :: "share_group \<Rightarrow> (string \<times> share_group) option" where
  "NextSubscriber g =
     (if Subscribers g = [] then Some ([], g)
      else (case slice_at (Subscribers g) (lastIndex g) of
              None \<Rightarrow> None
            | Some subscriber \<Rightarrow>
                Some (ss_ClientID subscriber,
                      g\<lparr>lastIndex := (lastIndex g + 1) smod int (length (Subscribers g))\<rparr>)))"

definition SubscriberAt :: "share_group \<Rightarrow> int \<Rightarrow> int \<Rightarrow> (share_subscriber \<times> bool) option" where
  "SubscriberAt g rotation offset =
     (let size = int (length (Subscribers g))
      in if size = 0 \<or> offset < 0 \<or> offset \<ge> size then Some (no_subscriber, False)
         else map_option (\<lambda>s. (s, True)) (slice_at (Subscribers g) ((rotation + offset) smod size)))"

fun set_qos :: "string \<Rightarrow> nat \<Rightarrow> share_subscriber list \<Rightarrow> share_subscriber list option" where
  "set_qos clientID qos [] = None"
| "set_qos clientID qos (s # rest) =
     (if ss_ClientID s = clientID then Some (s\<lparr>ss_QoS := qos\<rparr> # rest)
      else map_option ((#) s) (set_qos clientID qos rest))"

definition AddSubscriber :: "string \<Rightarrow> nat \<Rightarrow> share_group \<Rightarrow> bool \<times> share_group" where
  "AddSubscriber clientID qos g =
     (case set_qos clientID qos (Subscribers g) of
        Some subs \<Rightarrow> (False, g\<lparr>Subscribers := subs\<rparr>)
      | None \<Rightarrow> (True, g\<lparr>Subscribers := Subscribers g @ [\<lparr>ss_ClientID = clientID, ss_QoS = qos\<rparr>]\<rparr>))"

fun index_of :: "string \<Rightarrow> share_subscriber list \<Rightarrow> nat option" where
  "index_of clientID [] = None"
| "index_of clientID (s # rest) =
     (if ss_ClientID s = clientID then Some 0 else map_option Suc (index_of clientID rest))"

definition RemoveSubscriber :: "string \<Rightarrow> share_group \<Rightarrow> bool \<times> share_group" where
  "RemoveSubscriber clientID g =
     (case index_of clientID (Subscribers g) of
        None \<Rightarrow> (False, g)
      | Some i \<Rightarrow>
          (let subs = (Subscribers g)[i := Subscribers g ! (length (Subscribers g) - 1)];
               subs = take (length subs - 1) subs;
               li = (if lastIndex g \<ge> int (length subs) \<and> length subs > 0 then 0 else lastIndex g)
           in (True, g\<lparr>Subscribers := subs, lastIndex := li\<rparr>)))"

definition IsEmpty :: "share_group \<Rightarrow> bool" where
  "IsEmpty g \<longleftrightarrow> length (Subscribers g) = 0"


section \<open>The manager\<close>

type_synonym share_group_id = "string \<times> string"

record shared_manager =
  ssm_groups :: "(share_group_id, share_group) gomap"
  ssm_cursors :: "(share_group_id, u64) gomap"

definition NewSharedSubscriptionManager :: shared_manager where
  "NewSharedSubscriptionManager = \<lparr>ssm_groups = [], ssm_cursors = []\<rparr>"

definition Shared_Subscribe ::
  "string \<Rightarrow> string \<Rightarrow> nat \<Rightarrow> shared_manager \<Rightarrow> bool \<times> shared_manager" where
  "Shared_Subscribe clientID flt qos sm =
     (case ParseShared flt of (shareName, topicFilter, isShared) \<Rightarrow>
      if \<not> isShared then (False, sm)
      else
        (let gid = (shareName, topicFilter);
             isNewGroup = (map_of (ssm_groups sm) gid = None);
             grp = (case map_of (ssm_groups sm) gid of
                        Some g \<Rightarrow> g
                      | None \<Rightarrow> \<lparr>sg_Name = shareName, sg_TopicFilter = topicFilter,
                                 Subscribers = [], lastIndex = 0\<rparr>);
             grp = snd (AddSubscriber clientID qos grp)
         in (isNewGroup, sm\<lparr>ssm_groups := AList.update gid grp (ssm_groups sm)\<rparr>)))"

definition Shared_Unsubscribe ::
  "string \<Rightarrow> string \<Rightarrow> shared_manager \<Rightarrow> bool \<times> shared_manager" where
  "Shared_Unsubscribe clientID flt sm =
     (case ParseShared flt of (shareName, topicFilter, isShared) \<Rightarrow>
      if \<not> isShared then (False, sm)
      else
        (let gid = (shareName, topicFilter)
         in (case map_of (ssm_groups sm) gid of
               None \<Rightarrow> (False, sm)
             | Some g \<Rightarrow>
                 (let grp = snd (RemoveSubscriber clientID g)
                  in if IsEmpty grp
                     then (True, sm\<lparr>ssm_groups := AList.delete gid (ssm_groups sm),
                                    ssm_cursors := AList.delete gid (ssm_cursors sm)\<rparr>)
                     else (False, sm\<lparr>ssm_groups := AList.update gid grp (ssm_groups sm)\<rparr>)))))"

text \<open>
  \<^verbatim>\<open>SelectMember\<close>: rotation, local count, chosen member, ok. \<^verbatim>\<open>remoteCount\<close> is the length of a
  slice at every call.
\<close>

definition SelectMember ::
  "share_group_id \<Rightarrow> nat \<Rightarrow> shared_manager \<Rightarrow> (int \<times> nat \<times> share_subscriber \<times> bool) \<times> shared_manager" where
  "SelectMember gid remoteCount sm =
     (let localCount = (case map_of (ssm_groups sm) gid of None \<Rightarrow> 0 | Some g \<Rightarrow> length (Subscribers g));
          total = localCount + remoteCount
      in if total = 0 then ((0, 0, no_subscriber, False), sm)
         else
           (let cursor = (case map_of (ssm_cursors sm) gid of None \<Rightarrow> 0 | Some c \<Rightarrow> c);
                sm = sm\<lparr>ssm_cursors := AList.update gid (cursor + 1) (ssm_cursors sm)\<rparr>;
                rotation = sint (cursor mod of_nat total);
                chosen = (if rotation < int localCount
                          then (case map_of (ssm_groups sm) gid of
                                  None \<Rightarrow> no_subscriber
                                | Some g \<Rightarrow> (case SubscriberAt g 0 rotation of
                                               None \<Rightarrow> no_subscriber | Some (s, _) \<Rightarrow> s))
                          else no_subscriber)
            in ((rotation, localCount, chosen, True), sm)))"

definition LocalMemberAt :: "share_group_id \<Rightarrow> int \<Rightarrow> shared_manager \<Rightarrow> (share_subscriber \<times> bool) option" where
  "LocalMemberAt gid i sm =
     (case map_of (ssm_groups sm) gid of
        None \<Rightarrow> Some (no_subscriber, False)
      | Some g \<Rightarrow> SubscriberAt g 0 i)"

text \<open>The loop body of \<^verbatim>\<open>RemoveClient\<close> for one entry of the map.\<close>

definition remove_client_step ::
  "string \<Rightarrow> share_group_id \<times> share_group \<Rightarrow> string list \<times> shared_manager \<Rightarrow> string list \<times> shared_manager" where
  "remove_client_step clientID = (\<lambda>(key, g) (emptyGroups, sm).
     (case RemoveSubscriber clientID g of (found, grp) \<Rightarrow>
      if found then
        if IsEmpty grp
        then (emptyGroups @ [sg_TopicFilter grp],
              sm\<lparr>ssm_groups := AList.delete key (ssm_groups sm),
                 ssm_cursors := AList.delete key (ssm_cursors sm)\<rparr>)
        else (emptyGroups, sm\<lparr>ssm_groups := AList.update key grp (ssm_groups sm)\<rparr>)
      else (emptyGroups, sm)))"

definition RemoveClient :: "string \<Rightarrow> shared_manager \<Rightarrow> string list \<times> shared_manager" where
  "RemoveClient clientID sm = fold (remove_client_step clientID) (ssm_groups sm) ([], sm)"

definition GetGroup :: "string \<Rightarrow> string \<Rightarrow> shared_manager \<Rightarrow> share_group option" where
  "GetGroup name flt sm = map_of (ssm_groups sm) (name, flt)"


section \<open>Membership\<close>

definition members :: "share_group \<Rightarrow> string set" where
  "members g = ss_ClientID ` set (Subscribers g)"

definition group_inv :: "share_group \<Rightarrow> bool" where
  "group_inv g \<longleftrightarrow>
     distinct (map ss_ClientID (Subscribers g)) \<and> 0 \<le> lastIndex g \<and>
     (lastIndex g < int (length (Subscribers g)) \<or> lastIndex g = 0)"

lemma set_qos_None: "set_qos c q subs = None \<longleftrightarrow> c \<notin> ss_ClientID ` set subs"
  by (induction subs) auto

lemma set_qos_Some:
  "set_qos c q subs = Some subs' \<Longrightarrow>
   map ss_ClientID subs' = map ss_ClientID subs \<and> length subs' = length subs \<and>
   c \<in> ss_ClientID ` set subs"
  by (induction subs arbitrary: subs') (auto split: if_splits)

lemma index_of_None: "index_of c subs = None \<longleftrightarrow> c \<notin> ss_ClientID ` set subs"
  by (induction subs) auto

lemma index_of_Some:
  "index_of c subs = Some i \<Longrightarrow> i < length subs \<and> ss_ClientID (subs ! i) = c"
  by (induction subs arbitrary: i) (auto split: if_splits)

text \<open>Removal by swapping in the last element.\<close>

lemma swap_out_last:
  assumes "i < length xs"
  shows "mset (take (length xs - 1) (xs[i := xs ! (length xs - 1)])) = mset xs - {#xs ! i#}"
proof -
  obtain ys y where xs: "xs = ys @ [y]" using assms by (cases xs rule: rev_cases) auto
  show ?thesis
  proof (cases "i = length ys")
    case True
    then show ?thesis by (simp add: xs)
  next
    case False
    with assms xs have i: "i < length ys" by simp
    then show ?thesis
      by (simp add: xs list_update_append nth_append mset_update)
  qed
qed

lemma distinct_swap_out:
  assumes "i < length xs" and "distinct (map f xs)"
  shows "distinct (map f (take (length xs - 1) (xs[i := xs ! (length xs - 1)])))"
    and "f ` set (take (length xs - 1) (xs[i := xs ! (length xs - 1)])) = f ` set xs - {f (xs ! i)}"
proof -
  let ?ys = "take (length xs - 1) (xs[i := xs ! (length xs - 1)])"
  have "mset (map f ?ys) = mset (map f xs) - {#f (xs ! i)#}"
    using swap_out_last [OF assms(1)] assms(1) by (simp add: image_mset_Diff)
  then have m: "mset (map f ?ys) = mset (remove1 (f (xs ! i)) (map f xs))" by simp
  show "distinct (map f ?ys)"
    using mset_eq_imp_distinct_iff [OF m] assms(2) by (simp add: distinct_remove1)
  show "f ` set ?ys = f ` set xs - {f (xs ! i)}"
    using mset_eq_setD [OF m] assms(2) by simp
qed

lemma members_AddSubscriber:
  "members (snd (AddSubscriber c q g)) = insert c (members g)"
  "fst (AddSubscriber c q g) \<longleftrightarrow> c \<notin> members g"
  using set_qos_Some [of c q "Subscribers g"]
  by (auto simp: AddSubscriber_def members_def set_qos_None simp flip: set_map split: option.splits)

lemma group_inv_AddSubscriber: "group_inv g \<Longrightarrow> group_inv (snd (AddSubscriber c q g))"
  using set_qos_Some [of c q "Subscribers g"]
  by (auto simp: AddSubscriber_def group_inv_def set_qos_None split: option.splits)

lemma RemoveSubscriber_found: "fst (RemoveSubscriber c g) \<longleftrightarrow> c \<in> members g"
  using index_of_None [of c "Subscribers g"]
  by (auto simp: RemoveSubscriber_def members_def Let_def split: option.splits)

lemma members_RemoveSubscriber:
  assumes "group_inv g"
  shows "members (snd (RemoveSubscriber c g)) = members g - {c}"
proof (cases "index_of c (Subscribers g)")
  case None
  then show ?thesis
    using index_of_None [of c "Subscribers g"] by (simp add: RemoveSubscriber_def members_def)
next
  case (Some i)
  with assms index_of_Some [OF Some] distinct_swap_out(2) [of i "Subscribers g" ss_ClientID]
  show ?thesis by (simp add: RemoveSubscriber_def members_def Let_def group_inv_def)
qed

lemma group_inv_RemoveSubscriber:
  assumes "group_inv g"
  shows "group_inv (snd (RemoveSubscriber c g))"
proof (cases "index_of c (Subscribers g)")
  case None
  with assms show ?thesis by (simp add: RemoveSubscriber_def)
next
  case (Some i)
  with assms index_of_Some [OF Some] distinct_swap_out(1) [of i "Subscribers g" ss_ClientID]
  show ?thesis by (auto simp: RemoveSubscriber_def Let_def group_inv_def)
qed

lemma RemoveSubscriber_id:
  "sg_Name (snd (RemoveSubscriber c g)) = sg_Name g"
  "sg_TopicFilter (snd (RemoveSubscriber c g)) = sg_TopicFilter g"
  by (simp_all add: RemoveSubscriber_def Let_def split: option.split)

lemma AddSubscriber_id:
  "sg_Name (snd (AddSubscriber c q g)) = sg_Name g"
  "sg_TopicFilter (snd (AddSubscriber c q g)) = sg_TopicFilter g"
  by (simp_all add: AddSubscriber_def split: option.split)

lemma IsEmpty_members: "IsEmpty g \<longleftrightarrow> members g = {}"
  by (simp add: IsEmpty_def members_def)

lemmas group_ops = members_AddSubscriber members_RemoveSubscriber group_inv_AddSubscriber
  group_inv_RemoveSubscriber RemoveSubscriber_found RemoveSubscriber_id AddSubscriber_id IsEmpty_members


section \<open>The invariant of the manager\<close>

definition manager_inv :: "shared_manager \<Rightarrow> bool" where
  "manager_inv sm \<longleftrightarrow>
     distinct (map fst (ssm_groups sm)) \<and>
     (\<forall>gid g. map_of (ssm_groups sm) gid = Some g \<longrightarrow>
        group_inv g \<and> members g \<noteq> {} \<and> gid = (sg_Name g, sg_TopicFilter g))"

text \<open>The abstraction: which clients share a subscription on this node.\<close>

definition share_members :: "shared_manager \<Rightarrow> share_group_id \<Rightarrow> string set" where
  "share_members sm gid = (case map_of (ssm_groups sm) gid of None \<Rightarrow> {} | Some g \<Rightarrow> members g)"

lemma manager_invD:
  "manager_inv sm \<Longrightarrow> map_of (ssm_groups sm) gid = Some g \<Longrightarrow>
   group_inv g \<and> members g \<noteq> {} \<and> gid = (sg_Name g, sg_TopicFilter g)"
  unfolding manager_inv_def by blast

lemma manager_inv_new: "manager_inv NewSharedSubscriptionManager"
  by (simp add: manager_inv_def NewSharedSubscriptionManager_def)

lemma share_members_None:
  "manager_inv sm \<Longrightarrow> share_members sm gid = {} \<longleftrightarrow> map_of (ssm_groups sm) gid = None"
  by (auto simp: share_members_def dest: manager_invD split: option.splits)

lemma Shared_Subscribe_shared:
  assumes "manager_inv sm" and p: "ParseShared flt = (n, f, True)"
    and r: "Shared_Subscribe c flt q sm = (new, sm')"
  shows "manager_inv sm'" and "new \<longleftrightarrow> share_members sm (n, f) = {}"
    and "share_members sm' = (share_members sm)((n, f) := insert c (share_members sm (n, f)))"
proof -
  define g where "g = (case map_of (ssm_groups sm) (n, f) of Some g \<Rightarrow> g
      | None \<Rightarrow> \<lparr>sg_Name = n, sg_TopicFilter = f, Subscribers = [], lastIndex = 0\<rparr>)"
  have r': "new = (map_of (ssm_groups sm) (n, f) = None)"
      "sm' = sm\<lparr>ssm_groups := AList.update (n, f) (snd (AddSubscriber c q g)) (ssm_groups sm)\<rparr>"
    using r p by (auto simp: Shared_Subscribe_def Let_def g_def)
  have g: "group_inv g" "sg_Name g = n" "sg_TopicFilter g = f" "members g = share_members sm (n, f)"
    using assms(1) by (auto simp: g_def share_members_def manager_inv_def group_inv_def members_def
        split: option.splits)
  show "manager_inv sm'"
    using assms(1) g by (auto simp: manager_inv_def r' group_ops split: if_splits)
  show "new \<longleftrightarrow> share_members sm (n, f) = {}"
    by (simp add: r' share_members_None [OF assms(1)])
  show "share_members sm' = (share_members sm)((n, f) := insert c (share_members sm (n, f)))"
    using g by (auto simp: r' share_members_def group_ops fun_eq_iff)
qed

lemma Shared_Unsubscribe_shared:
  assumes "manager_inv sm" and p: "ParseShared flt = (n, f, True)"
    and r: "Shared_Unsubscribe c flt sm = (gone, sm')"
  shows "manager_inv sm'"
    and "gone \<longleftrightarrow> share_members sm (n, f) \<noteq> {} \<and> share_members sm (n, f) \<subseteq> {c}"
    and "share_members sm' = (share_members sm)((n, f) := share_members sm (n, f) - {c})"
proof -
  have "manager_inv sm' \<and> (gone \<longleftrightarrow> share_members sm (n, f) \<noteq> {} \<and> share_members sm (n, f) \<subseteq> {c}) \<and>
    share_members sm' = (share_members sm)((n, f) := share_members sm (n, f) - {c})"
  proof (cases "map_of (ssm_groups sm) (n, f)")
    case None
    with r p assms(1) show ?thesis
      by (auto simp: Shared_Unsubscribe_def share_members_def fun_eq_iff)
  next
    case (Some g)
    then have g: "group_inv g" "members g \<noteq> {}" "sg_Name g = n" "sg_TopicFilter g = f"
      "share_members sm (n, f) = members g"
      using assms(1) by (auto simp: manager_inv_def share_members_def)
    define g' where "g' = snd (RemoveSubscriber c g)"
    have g': "group_inv g'" "members g' = members g - {c}" "sg_Name g' = n" "sg_TopicFilter g' = f"
      using g by (simp_all add: g'_def group_ops)
    show ?thesis
    proof (cases "members g - {c} = {}")
      case True
      then have "sm' = sm\<lparr>ssm_groups := AList.delete (n, f) (ssm_groups sm),
                          ssm_cursors := AList.delete (n, f) (ssm_cursors sm)\<rparr>" "gone"
        using r p Some g' by (auto simp: Shared_Unsubscribe_def IsEmpty_members Let_def simp flip: g'_def)
      with True assms(1) g show ?thesis
        by (auto simp: manager_inv_def share_members_def fun_eq_iff split: if_splits)
    next
      case False
      then have "sm' = sm\<lparr>ssm_groups := AList.update (n, f) g' (ssm_groups sm)\<rparr>" "\<not> gone"
        using r p Some g' by (auto simp: Shared_Unsubscribe_def IsEmpty_members Let_def simp flip: g'_def)
      with False assms(1) g g' show ?thesis
        by (auto simp: manager_inv_def share_members_def fun_eq_iff split: if_splits)
    qed
  qed
  then show "manager_inv sm'"
    and "gone \<longleftrightarrow> share_members sm (n, f) \<noteq> {} \<and> share_members sm (n, f) \<subseteq> {c}"
    and "share_members sm' = (share_members sm)((n, f) := share_members sm (n, f) - {c})" by auto
qed

lemma not_shared_id:
  assumes "\<not> snd (snd (ParseShared flt))"
  shows "Shared_Subscribe c flt q sm = (False, sm)" and "Shared_Unsubscribe c flt sm = (False, sm)"
  using assms by (auto simp: Shared_Subscribe_def Shared_Unsubscribe_def split: prod.splits)

text \<open>One turn of the loop of \<^verbatim>\<open>RemoveClient\<close>.\<close>

lemma remove_client_step:
  assumes "manager_inv sm" and g: "map_of (ssm_groups sm) k = Some g"
    and r: "remove_client_step c (k, g) (acc, sm) = (acc', sm')"
  shows "manager_inv sm' \<and> share_members sm' = (share_members sm)(k := share_members sm k - {c}) \<and>
    acc' = acc @ (if members g = {c} then [snd k] else []) \<and>
    (\<forall>k'. k' \<noteq> k \<longrightarrow> map_of (ssm_groups sm') k' = map_of (ssm_groups sm) k')"
proof -
  define g' where "g' = snd (RemoveSubscriber c g)"
  have gi: "group_inv g" "members g \<noteq> {}" "k = (sg_Name g, sg_TopicFilter g)" "share_members sm k = members g"
    using manager_invD [OF assms(1) g] g by (auto simp: share_members_def)
  have g': "group_inv g'" "members g' = members g - {c}" "k = (sg_Name g', sg_TopicFilter g')"
    "RemoveSubscriber c g = (c \<in> members g, g')"
    using gi by (simp_all add: g'_def group_ops prod_eq_iff)
  consider "c \<notin> members g" | "members g = {c}" | "c \<in> members g" "members g - {c} \<noteq> {}"
    using gi(2) by blast
  then show ?thesis
  proof cases
    case 1
    then have "acc' = acc" "sm' = sm" using r by (simp_all add: remove_client_step_def g'(4))
    moreover have "members g - {c} = members g" "members g \<noteq> {c}" using 1 by auto
    ultimately show ?thesis using assms(1) gi by (simp add: fun_eq_iff)
  next
    case 2
    then have "acc' = acc @ [snd k]" "sm' = sm\<lparr>ssm_groups := AList.delete k (ssm_groups sm),
        ssm_cursors := AList.delete k (ssm_cursors sm)\<rparr>"
      using r g' by (auto simp: remove_client_step_def IsEmpty_members)
    with 2 assms(1) gi show ?thesis
      by (auto simp: manager_inv_def share_members_def fun_eq_iff split: if_splits)
  next
    case 3
    then have "acc' = acc" "sm' = sm\<lparr>ssm_groups := AList.update k g' (ssm_groups sm)\<rparr>"
      using r g' by (auto simp: remove_client_step_def IsEmpty_members)
    moreover have "members g \<noteq> {c}" using 3 by auto
    ultimately show ?thesis using assms(1) gi g' 3
      by (auto simp: manager_inv_def share_members_def fun_eq_iff split: if_splits)
  qed
qed

lemma remove_client_fold:
  "manager_inv sm \<Longrightarrow> distinct (map fst es) \<Longrightarrow> (\<forall>(k, g) \<in> set es. map_of (ssm_groups sm) k = Some g) \<Longrightarrow>
   fold (remove_client_step c) es (acc, sm) = (acc', sm') \<Longrightarrow>
   manager_inv sm' \<and>
   share_members sm' = (\<lambda>k. if k \<in> fst ` set es then share_members sm k - {c} else share_members sm k) \<and>
   acc' = acc @ map (snd \<circ> fst) (filter (\<lambda>(k, g). members g = {c}) es)"
proof (induction es arbitrary: acc sm)
  case Nil
  then show ?case by auto
next
  case (Cons e es)
  obtain k g where e: "e = (k, g)" by (cases e)
  obtain acc1 sm1 where r1: "remove_client_step c (k, g) (acc, sm) = (acc1, sm1)" by fastforce
  have kg: "map_of (ssm_groups sm) k = Some g" using Cons.prems e by simp
  note st = remove_client_step [OF Cons.prems(1) kg r1]
  have nk: "k \<notin> fst ` set es" using Cons.prems e by simp
  then have "\<forall>(k', g') \<in> set es. map_of (ssm_groups sm1) k' = Some g'"
    using Cons.prems(3) st e by (force simp: split_beta)
  moreover have "fold (remove_client_step c) es (acc1, sm1) = (acc', sm')"
    using Cons.prems(4) r1 e by simp
  ultimately have "manager_inv sm' \<and>
   share_members sm' = (\<lambda>k. if k \<in> fst ` set es then share_members sm1 k - {c} else share_members sm1 k) \<and>
   acc' = acc1 @ map (snd \<circ> fst) (filter (\<lambda>(k, g). members g = {c}) es)"
    using Cons.IH [of sm1 acc1] st Cons.prems(2) by auto
  with st nk e show ?case by (auto simp: fun_eq_iff)
qed


section \<open>Rotation\<close>

text \<open>The subscribers that \<open>k\<close> consecutive calls return, and the positions \<open>k\<close> selections choose.\<close>

fun next_subscribers :: "nat \<Rightarrow> share_group \<Rightarrow> (string list \<times> share_group) option" where
  "next_subscribers 0 g = Some ([], g)"
| "next_subscribers (Suc k) g =
     (case NextSubscriber g of
        None \<Rightarrow> None
      | Some (s, g) \<Rightarrow> map_option (\<lambda>(ss, g). (s # ss, g)) (next_subscribers k g))"

fun select_members ::
  "nat \<Rightarrow> share_group_id \<Rightarrow> nat \<Rightarrow> shared_manager \<Rightarrow> (int \<times> share_subscriber) list \<times> shared_manager" where
  "select_members 0 gid remoteCount sm = ([], sm)"
| "select_members (Suc k) gid remoteCount sm =
     (case SelectMember gid remoteCount sm of ((rotation, _, chosen, _), sm) \<Rightarrow>
      case select_members k gid remoteCount sm of (rs, sm) \<Rightarrow> ((rotation, chosen) # rs, sm))"

lemma NextSubscriber_in_range:
  assumes "group_inv g" and "Subscribers g \<noteq> []"
  defines "n \<equiv> length (Subscribers g)"
  shows "NextSubscriber g = Some (ss_ClientID (Subscribers g ! nat (lastIndex g)),
           g\<lparr>lastIndex := (lastIndex g + 1) mod int n\<rparr>)"
    and "0 \<le> lastIndex g" and "lastIndex g < int n"
proof -
  show i: "0 \<le> lastIndex g" "lastIndex g < int n" using assms by (auto simp: group_inv_def)
  then show "NextSubscriber g = Some (ss_ClientID (Subscribers g ! nat (lastIndex g)),
      g\<lparr>lastIndex := (lastIndex g + 1) mod int n\<rparr>)"
    using assms by (simp add: NextSubscriber_def slice_at_def signed_modulo_int_def sgn_if n_def)
qed

lemma next_subscribers_cycle:
  assumes "group_inv g" and "Subscribers g \<noteq> []" and "lastIndex g = int i"
  defines "n \<equiv> length (Subscribers g)"
  shows "next_subscribers k g =
    Some (map (\<lambda>j. ss_ClientID (Subscribers g ! ((i + j) mod n))) [0..<k],
          g\<lparr>lastIndex := int ((i + k) mod n)\<rparr>)"
  using assms(1-3) unfolding n_def
proof (induction k arbitrary: g i)
  case 0
  then show ?case using NextSubscriber_in_range [OF 0(1,2)] by simp
next
  case (Suc k)
  define n where "n = length (Subscribers g)"
  define g' where "g' = g\<lparr>lastIndex := int ((i + 1) mod n)\<rparr>"
  have n: "0 < n" "i < n"
    using NextSubscriber_in_range(3) [OF Suc.prems(1,2)] Suc.prems by (simp_all add: n_def)
  have "(int i + 1) mod int n = int ((i + 1) mod n)"
    by (simp add: zmod_int add.commute)
  then have nx: "NextSubscriber g = Some (ss_ClientID (Subscribers g ! i), g')"
    using NextSubscriber_in_range(1) [OF Suc.prems(1,2)] Suc.prems(3) by (simp add: n_def g'_def)
  have "group_inv g'" "Subscribers g' \<noteq> []" "lastIndex g' = int ((i + 1) mod n)"
    using Suc.prems n by (auto simp: g'_def group_inv_def n_def)
  from Suc.IH [OF this] have
    "next_subscribers k g' = Some (map (\<lambda>j. ss_ClientID (Subscribers g ! ((i + Suc j) mod n))) [0..<k],
       g\<lparr>lastIndex := int ((i + Suc k) mod n)\<rparr>)"
    by (simp add: g'_def n_def mod_simps)
  then show ?case
    using n by (simp add: nx map_upt_Suc del: upt_Suc flip: n_def)
qed

lemma map_mod_rotate:
  "map (\<lambda>j. f (xs ! ((i + j) mod length xs))) [0..<length xs] = rotate i (map f xs)"
proof (rule nth_equalityI)
  fix j assume j: "j < length (map (\<lambda>j. f (xs ! ((i + j) mod length xs))) [0..<length xs])"
  then have "(i + j) mod length xs < length xs" by (intro mod_less_divisor) auto
  with j show "map (\<lambda>j. f (xs ! ((i + j) mod length xs))) [0..<length xs] ! j = rotate i (map f xs) ! j"
    by (simp add: nth_rotate)
qed simp

definition cursor_of :: "shared_manager \<Rightarrow> share_group_id \<Rightarrow> u64" where
  "cursor_of sm gid = (case map_of (ssm_cursors sm) gid of None \<Rightarrow> 0 | Some c \<Rightarrow> c)"

definition local_members :: "shared_manager \<Rightarrow> share_group_id \<Rightarrow> share_subscriber list" where
  "local_members sm gid = (case map_of (ssm_groups sm) gid of None \<Rightarrow> [] | Some g \<Rightarrow> Subscribers g)"

text \<open>The member at one position of the group: the local ones first.\<close>

definition member_at :: "shared_manager \<Rightarrow> share_group_id \<Rightarrow> nat \<Rightarrow> share_subscriber" where
  "member_at sm gid i =
     (if i < length (local_members sm gid) then local_members sm gid ! i else no_subscriber)"

lemma SelectMember_position:
  assumes "tot = length (local_members sm gid) + remote" and "0 < tot" and "tot < 2 ^ 63"
  shows "SelectMember gid remote sm =
    ((int (unat (cursor_of sm gid) mod tot), length (local_members sm gid),
      member_at sm gid (unat (cursor_of sm gid) mod tot), True),
     sm\<lparr>ssm_cursors := AList.update gid (cursor_of sm gid + 1) (ssm_cursors sm)\<rparr>)"
proof -
  define c where "c = cursor_of sm gid"
  have lc: "(case map_of (ssm_groups sm) gid of None \<Rightarrow> 0 | Some g \<Rightarrow> length (Subscribers g)) =
      length (local_members sm gid)"
    by (simp add: local_members_def split: option.split)
  have u: "unat (c mod of_nat tot) = unat c mod tot"
    using assms(3) by (simp add: unat_mod unat_of_nat)
  then have s: "sint (c mod of_nat tot) = int (unat c mod tot)"
    using sint_small [of "c mod of_nat tot"] order_less_trans [OF mod_less_divisor [OF assms(2)] assms(3)]
    by simp
  have "SubscriberAt g 0 (int i) = Some (Subscribers g ! i, True)" if "i < length (Subscribers g)" for g i
    using that by (auto simp: SubscriberAt_def slice_at_def signed_modulo_int_def sgn_if Let_def)
  then have ch: "(if int i < int (length (local_members sm gid))
       then (case map_of (ssm_groups sm) gid of None \<Rightarrow> no_subscriber
             | Some g \<Rightarrow> (case SubscriberAt g 0 (int i) of None \<Rightarrow> no_subscriber | Some (s, _) \<Rightarrow> s))
       else no_subscriber) = member_at sm gid i" for i
    by (auto simp: member_at_def local_members_def split: option.split)
  show ?thesis
    using assms(2) ch [of "unat c mod tot"]
    unfolding SelectMember_def lc assms(1) [symmetric] cursor_of_def [symmetric] c_def [symmetric] Let_def s
    by (auto split: if_splits)
qed

lemma select_members_cycle:
  assumes "tot = length (local_members sm gid) + remote" and "0 < tot" and "tot < 2 ^ 63"
    and "unat (cursor_of sm gid) = c" and "c + k < 2 ^ 64"
  shows "fst (select_members k gid remote sm) =
    map (\<lambda>j. (int ((c + j) mod tot), member_at sm gid ((c + j) mod tot))) [0..<k]"
  using assms
proof (induction k arbitrary: sm c)
  case 0
  then show ?case by simp
next
  case (Suc k)
  define sm' where "sm' = sm\<lparr>ssm_cursors := AList.update gid (cursor_of sm gid + 1) (ssm_cursors sm)\<rparr>"
  have l: "local_members sm' gid = local_members sm gid" by (simp add: sm'_def local_members_def)
  then have m: "member_at sm' gid = member_at sm gid" by (simp add: member_at_def fun_eq_iff)
  have "cursor_of sm gid < of_nat (c + Suc k)"
    using Suc.prems(4,5) by (simp add: word_less_nat_alt unat_of_nat_u64 del: of_nat_add of_nat_Suc)
  then have "unat (cursor_of sm' gid) = Suc c"
    using Suc.prems(4) unat_succ by (auto simp: sm'_def cursor_of_def)
  from Suc.IH [OF _ Suc.prems(2,3) this] Suc.prems l
  have IH: "fst (select_members k gid remote sm') =
      map (\<lambda>j. (int ((c + Suc j) mod tot), member_at sm gid ((c + Suc j) mod tot))) [0..<k]"
    by (simp add: m)
  have "SelectMember gid remote sm = ((int (c mod tot), length (local_members sm gid),
      member_at sm gid (c mod tot), True), sm')"
    using SelectMember_position [OF Suc.prems(1-3)] Suc.prems(4) by (simp add: sm'_def)
  with IH show ?case
    by (simp add: map_upt_Suc split_beta del: upt_Suc)
qed


section \<open>Properties\<close>

text \<open>
  \<^verbatim>\<open>NextSubscriber\<close> never indexes out of range and is fair: as many calls as there are
  members return every member once, in cyclic order from the current position, and leave the
  group as it was.
\<close>

theorem NextSubscriber_fair:
  assumes "group_inv g" and "Subscribers g \<noteq> []"
  shows "next_subscribers (length (Subscribers g)) g =
    Some (rotate (nat (lastIndex g)) (map ss_ClientID (Subscribers g)), g)"
proof -
  have i: "lastIndex g = int (nat (lastIndex g))" "nat (lastIndex g) < length (Subscribers g)"
    using NextSubscriber_in_range(2,3) [OF assms] by auto
  then show ?thesis
    using next_subscribers_cycle [OF assms i(1), of "length (Subscribers g)"] map_mod_rotate
    by (auto simp del: upt_Suc)
qed

theorem NextSubscriber_fair_witness:
  "next_subscribers 2 \<lparr>sg_Name = ''g'', sg_TopicFilter = ''t'',
     Subscribers = [\<lparr>ss_ClientID = ''a'', ss_QoS = 0\<rparr>, \<lparr>ss_ClientID = ''b'', ss_QoS = 1\<rparr>], lastIndex = 1\<rparr> =
   Some ([''b'', ''a''], \<lparr>sg_Name = ''g'', sg_TopicFilter = ''t'',
     Subscribers = [\<lparr>ss_ClientID = ''a'', ss_QoS = 0\<rparr>, \<lparr>ss_ClientID = ''b'', ss_QoS = 1\<rparr>], lastIndex = 1\<rparr>)"
  using NextSubscriber_fair [of "\<lparr>sg_Name = ''g'', sg_TopicFilter = ''t'',
     Subscribers = [\<lparr>ss_ClientID = ''a'', ss_QoS = 0\<rparr>, \<lparr>ss_ClientID = ''b'', ss_QoS = 1\<rparr>], lastIndex = 1\<rparr>"]
  by (simp add: group_inv_def numeral_2_eq_2)

text \<open>
  C19. \<^verbatim>\<open>SelectMember\<close> is fair over the local and the remote members together: without a change
  of membership, as many selections as the group has members choose every position exactly once,
  in cyclic order from the cursor, and a local position comes with the member that holds it. The
  bound keeps the 64-bit cursor from wrapping within the round.
\<close>

theorem SelectMember_fair:
  assumes "tot = length (local_members sm gid) + remote" and "0 < tot" and "tot < 2 ^ 63"
    and "unat (cursor_of sm gid) + tot < 2 ^ 64"
  shows "fst (select_members tot gid remote sm) =
    rotate (unat (cursor_of sm gid)) (map (\<lambda>i. (int i, member_at sm gid i)) [0..<tot])"
proof -
  have "map (\<lambda>j. (int ((c + j) mod tot), member_at sm gid ((c + j) mod tot))) [0..<tot] =
      rotate c (map (\<lambda>i. (int i, member_at sm gid i)) [0..<tot])" for c
    using map_mod_rotate [of "\<lambda>i. (int i, member_at sm gid i)" "[0..<tot]" c] assms(2)
    by (simp del: upt_Suc)
  then show ?thesis
    using select_members_cycle [OF assms(1-3) refl assms(4)] by simp
qed

theorem SelectMember_fair_witness:
  "map fst (fst (select_members 3 (''g'', ''t'') 2
     (snd (Shared_Subscribe ''c'' ''$share/g/t'' 1 NewSharedSubscriptionManager)))) = [0, 1, 2]"
proof -
  define sm where "sm = snd (Shared_Subscribe ''c'' ''$share/g/t'' 1 NewSharedSubscriptionManager)"
  have "sm = \<lparr>ssm_groups = [((''g'', ''t''), \<lparr>sg_Name = ''g'', sg_TopicFilter = ''t'',
       Subscribers = [\<lparr>ss_ClientID = ''c'', ss_QoS = 1\<rparr>], lastIndex = 0\<rparr>)], ssm_cursors = []\<rparr>"
    unfolding sm_def by code_simp
  then have "local_members sm (''g'', ''t'') = [\<lparr>ss_ClientID = ''c'', ss_QoS = 1\<rparr>]"
      "cursor_of sm (''g'', ''t'') = 0"
    by (simp_all add: local_members_def cursor_of_def)
  then show ?thesis
    using SelectMember_fair [of 3 sm "(''g'', ''t'')" 2] unfolding sm_def [symmetric]
    by (simp add: upt_rec)
qed

text \<open>
  C20. The manager keeps, per group, the set of clients that joined it and have not left: a
  subscription adds the client to the group its filter names, an unsubscription removes it, and
  removing a client takes it out of every group and reports exactly the filters of the groups it
  was the last member of. A call with a filter that is not shared changes nothing.
\<close>

theorem shared_membership:
  assumes "manager_inv sm"
  shows "(\<not> snd (snd (ParseShared flt)) \<longrightarrow>
       Shared_Subscribe c flt q sm = (False, sm) \<and> Shared_Unsubscribe c flt sm = (False, sm)) \<and>
    (\<forall>n f. ParseShared flt = (n, f, True) \<longrightarrow>
       (case Shared_Subscribe c flt q sm of (new, sm') \<Rightarrow>
          manager_inv sm' \<and> (new \<longleftrightarrow> share_members sm (n, f) = {}) \<and>
          share_members sm' = (share_members sm)((n, f) := insert c (share_members sm (n, f)))) \<and>
       (case Shared_Unsubscribe c flt sm of (gone, sm') \<Rightarrow>
          manager_inv sm' \<and>
          (gone \<longleftrightarrow> share_members sm (n, f) \<noteq> {} \<and> share_members sm (n, f) \<subseteq> {c}) \<and>
          share_members sm' = (share_members sm)((n, f) := share_members sm (n, f) - {c}))) \<and>
    (case RemoveClient c sm of (emptied, sm') \<Rightarrow>
       manager_inv sm' \<and> share_members sm' = (\<lambda>gid. share_members sm gid - {c}) \<and>
       set emptied = {f. \<exists>n. share_members sm (n, f) = {c}})"
proof (intro conjI)
  show "\<not> snd (snd (ParseShared flt)) \<longrightarrow>
       Shared_Subscribe c flt q sm = (False, sm) \<and> Shared_Unsubscribe c flt sm = (False, sm)"
    by (simp add: not_shared_id)
  show "\<forall>n f. ParseShared flt = (n, f, True) \<longrightarrow>
       (case Shared_Subscribe c flt q sm of (new, sm') \<Rightarrow>
          manager_inv sm' \<and> (new \<longleftrightarrow> share_members sm (n, f) = {}) \<and>
          share_members sm' = (share_members sm)((n, f) := insert c (share_members sm (n, f)))) \<and>
       (case Shared_Unsubscribe c flt sm of (gone, sm') \<Rightarrow>
          manager_inv sm' \<and>
          (gone \<longleftrightarrow> share_members sm (n, f) \<noteq> {} \<and> share_members sm (n, f) \<subseteq> {c}) \<and>
          share_members sm' = (share_members sm)((n, f) := share_members sm (n, f) - {c}))"
  proof (intro allI impI)
    fix n f assume p: "ParseShared flt = (n, f, True)"
    obtain new sm1 where s: "Shared_Subscribe c flt q sm = (new, sm1)" by fastforce
    obtain gone sm2 where u: "Shared_Unsubscribe c flt sm = (gone, sm2)" by fastforce
    show "(case Shared_Subscribe c flt q sm of (new, sm') \<Rightarrow>
          manager_inv sm' \<and> (new \<longleftrightarrow> share_members sm (n, f) = {}) \<and>
          share_members sm' = (share_members sm)((n, f) := insert c (share_members sm (n, f)))) \<and>
       (case Shared_Unsubscribe c flt sm of (gone, sm') \<Rightarrow>
          manager_inv sm' \<and>
          (gone \<longleftrightarrow> share_members sm (n, f) \<noteq> {} \<and> share_members sm (n, f) \<subseteq> {c}) \<and>
          share_members sm' = (share_members sm)((n, f) := share_members sm (n, f) - {c}))"
      unfolding s u prod.case
      using Shared_Subscribe_shared [OF assms p s] Shared_Unsubscribe_shared [OF assms p u] by blast
  qed
  obtain emptied sm' where r: "RemoveClient c sm = (emptied, sm')" by fastforce
  have d: "distinct (map fst (ssm_groups sm))" using assms by (simp add: manager_inv_def)
  then have "\<forall>(k, g) \<in> set (ssm_groups sm). map_of (ssm_groups sm) k = Some g" by auto
  from remove_client_fold [OF assms d this r [unfolded RemoveClient_def]]
  have "manager_inv sm'"
    and m: "share_members sm' = (\<lambda>k. if k \<in> fst ` set (ssm_groups sm) then share_members sm k - {c} else share_members sm k)"
    and e: "emptied = map (snd \<circ> fst) (filter (\<lambda>(k, g). members g = {c}) (ssm_groups sm))" by auto
  moreover have "share_members sm k = {}" if "k \<notin> fst ` set (ssm_groups sm)" for k
    using that by (simp add: share_members_def map_of_eq_None_iff [THEN iffD2])
  then have "share_members sm' = (\<lambda>gid. share_members sm gid - {c})"
    unfolding m by (intro ext) simp
  moreover have k: "share_members sm k = {c} \<longleftrightarrow> (\<exists>g. map_of (ssm_groups sm) k = Some g \<and> members g = {c})" for k
    by (simp add: share_members_def split: option.split)
  have "set emptied = {f. \<exists>n g. ((n, f), g) \<in> set (ssm_groups sm) \<and> members g = {c}}"
    unfolding e by (auto simp: image_iff split: prod.splits) blast+
  then have "set emptied = {f. \<exists>n. share_members sm (n, f) = {c}}"
    unfolding k map_of_eq_Some_iff [OF d] .
  ultimately show "case RemoveClient c sm of (emptied, sm') \<Rightarrow>
       manager_inv sm' \<and> share_members sm' = (\<lambda>gid. share_members sm gid - {c}) \<and>
       set emptied = {f. \<exists>n. share_members sm (n, f) = {c}}"
    by (simp add: r)
qed

theorem shared_membership_witness:
  "ParseShared ''$share/g/t'' = (''g'', ''t'', True) \<and>
   share_members (snd (Shared_Subscribe ''c'' ''$share/g/t'' 1 NewSharedSubscriptionManager)) (''g'', ''t'') = {''c''}"
proof -
  have p: "ParseShared ''$share/g/t'' = (''g'', ''t'', True)" by code_simp
  have e: "share_members NewSharedSubscriptionManager (''g'', ''t'') = {}"
    by (simp add: share_members_def NewSharedSubscriptionManager_def)
  from shared_membership [OF manager_inv_new, of "''$share/g/t''" "''c''" 1] p e
  show ?thesis by (auto simp: split_beta)
qed

end
