(* ===== verification/Queue_Config.thy ===== *)
theory Queue_Config
  imports Topics
begin

text \<open>
  \<^verbatim>\<open>queue/types/config.go\<close>: the configuration of a queue, its defaults, its construction from
  the configuration file and its validation. Durations are nanoseconds, the \<^verbatim>\<open>int\<close> fields are
  mathematical integers (they are only compared), and a \<^verbatim>\<open>float64\<close> is a rational, an infinity or
  NaN, of which only the order is used.
\<close>

datatype float64 = NaN | NegInf | Finite rat | PosInf

fun flt_less :: "float64 \<Rightarrow> float64 \<Rightarrow> bool" where
  "flt_less NaN _ = False"
| "flt_less _ NaN = False"
| "flt_less NegInf y = (y \<noteq> NegInf)"
| "flt_less (Finite a) (Finite b) = (a < b)"
| "flt_less (Finite a) y = (y = PosInf)"
| "flt_less PosInf _ = False"

abbreviation second :: duration where "second \<equiv> 1000000000"
abbreviation minute :: duration where "minute \<equiv> 60 * second"
abbreviation hour :: duration where "hour \<equiv> 60 * minute"

datatype config_error = ErrInvalidConfig | ErrConfigTopicFilter string topic_error

record retry_policy =
  MaxRetries :: int
  InitialBackoff :: duration
  MaxBackoff :: duration
  BackoffMultiplier :: float64
  TotalTimeout :: duration

record dlq_config =
  DLQ_Enabled :: bool
  DLQ_Topic :: string
  AlertWebhook :: string

record replication_config =
  Repl_Enabled :: bool
  Repl_Group :: string
  ReplicationFactor :: int
  Repl_Mode :: string
  MinInSyncReplicas :: int
  AckTimeout :: duration
  Repl_HeartbeatTimeout :: duration
  ElectionTimeout :: duration
  SnapshotInterval :: duration
  SnapshotThreshold :: u64

record retention_policy =
  RetentionTime :: duration
  TimeCheckInterval :: duration
  RetentionBytes :: int
  RetentionMessages :: int
  SizeCheckEvery :: int
  CompactionEnabled :: bool
  CompactionKey :: string
  CompactionLag :: duration
  CompactionInterval :: duration

record queue_config =
  QName :: string
  QTopics :: "string list"
  Reserved :: bool
  QType :: string
  PrimaryGroup :: string
  Durable :: bool
  AckDurability :: string
  ExpiresAfter :: duration
  LastConsumerDisconnect :: instant
  RetryPolicy :: retry_policy
  DLQConfig :: dlq_config
  Replication :: replication_config
  Retention :: retention_policy
  MaxMessageSize :: int
  MaxDepth :: int
  MessageTTL :: duration
  DeliveryTimeout :: duration
  BatchSize :: int
  HeartbeatTimeout :: duration

definition QueueTypeClassic :: string where "QueueTypeClassic = ''classic''"

definition QueueTypeStream :: string where "QueueTypeStream = ''stream''"

definition ReplicationSync :: string where "ReplicationSync = ''sync''"

definition ReplicationAsync :: string where "ReplicationAsync = ''async''"

definition MQTTQueueName :: string where "MQTTQueueName = ''mqtt''"

definition MQTTQueueTopic :: string where "MQTTQueueTopic = ''$queue/#''"

text \<open>The zero value of \<^verbatim>\<open>RetentionPolicy\<close>.\<close>

definition no_retention :: retention_policy where
  "no_retention = \<lparr>RetentionTime = 0, TimeCheckInterval = 0, RetentionBytes = 0, RetentionMessages = 0,
     SizeCheckEvery = 0, CompactionEnabled = False, CompactionKey = [], CompactionLag = 0,
     CompactionInterval = 0\<rparr>"

definition DefaultQueueConfig :: "string \<Rightarrow> string list \<Rightarrow> queue_config" where
  "DefaultQueueConfig name topics =
     (let topics = (if topics = [] then [''#''] else topics)
      in \<lparr>QName = name, QTopics = topics, Reserved = False, QType = QueueTypeClassic,
          PrimaryGroup = [], Durable = True, AckDurability = [], ExpiresAfter = 0,
          LastConsumerDisconnect = zero_time,
          RetryPolicy = \<lparr>MaxRetries = 10, InitialBackoff = 5 * second, MaxBackoff = 5 * minute,
            BackoffMultiplier = Finite 2, TotalTimeout = 24 * hour\<rparr>,
          DLQConfig = \<lparr>DLQ_Enabled = True, DLQ_Topic = [], AlertWebhook = []\<rparr>,
          Replication = \<lparr>Repl_Enabled = False, Repl_Group = [], ReplicationFactor = 3,
            Repl_Mode = ReplicationSync, MinInSyncReplicas = 2, AckTimeout = 5 * second,
            Repl_HeartbeatTimeout = 0, ElectionTimeout = 0, SnapshotInterval = 0, SnapshotThreshold = 0\<rparr>,
          Retention = no_retention,
          MaxMessageSize = 10 * 1024 * 1024, MaxDepth = 100000, MessageTTL = 7 * 24 * hour,
          DeliveryTimeout = 30 * second, BatchSize = 100, HeartbeatTimeout = 2 * minute\<rparr>)"

definition DefaultEphemeralQueueConfig :: "string \<Rightarrow> string list \<Rightarrow> queue_config" where
  "DefaultEphemeralQueueConfig name topics =
     (DefaultQueueConfig name topics)\<lparr>Durable := False, ExpiresAfter := 5 * minute\<rparr>"

definition MQTTQueueConfig :: queue_config where
  "MQTTQueueConfig =
     (DefaultQueueConfig MQTTQueueName [MQTTQueueTopic])\<lparr>Reserved := True, Durable := True\<rparr>"

record queue_config_input =
  in_Name :: string
  in_Topics :: "string list"
  in_Reserved :: bool
  in_Type :: string
  in_PrimaryGroup :: string
  in_AckDurability :: string
  in_MaxMessageSize :: int
  in_MaxDepth :: int
  in_MessageTTL :: duration
  in_MaxRetries :: int
  in_InitialBackoff :: duration
  in_MaxBackoff :: duration
  in_Multiplier :: float64
  in_DLQEnabled :: bool
  in_DLQTopic :: string
  in_Retention :: retention_policy
  in_Replication :: replication_config

definition FromInput :: "queue_config_input \<Rightarrow> queue_config" where
  "FromInput inp =
     (let cfg = DefaultQueueConfig (in_Name inp) (in_Topics inp);
          cfg = cfg\<lparr>Durable := True, Reserved := in_Reserved inp\<rparr>;
          cfg = (if in_Type inp \<noteq> [] then cfg\<lparr>QType := in_Type inp\<rparr> else cfg);
          cfg = cfg\<lparr>PrimaryGroup := in_PrimaryGroup inp, AckDurability := in_AckDurability inp,
                    Retention := in_Retention inp\<rparr>;
          cfg = (if Repl_Enabled (in_Replication inp) then cfg\<lparr>Replication := in_Replication inp\<rparr> else cfg);
          cfg = (if in_MaxMessageSize inp > 0 then cfg\<lparr>MaxMessageSize := in_MaxMessageSize inp\<rparr> else cfg);
          cfg = (if in_MaxDepth inp > 0 then cfg\<lparr>MaxDepth := in_MaxDepth inp\<rparr> else cfg);
          cfg = (if in_MessageTTL inp > 0 then cfg\<lparr>MessageTTL := in_MessageTTL inp\<rparr> else cfg);
          r = RetryPolicy cfg;
          r = (if in_MaxRetries inp > 0 then r\<lparr>MaxRetries := in_MaxRetries inp\<rparr> else r);
          r = (if in_InitialBackoff inp > 0 then r\<lparr>InitialBackoff := in_InitialBackoff inp\<rparr> else r);
          r = (if in_MaxBackoff inp > 0 then r\<lparr>MaxBackoff := in_MaxBackoff inp\<rparr> else r);
          r = (if flt_less (Finite 0) (in_Multiplier inp) then r\<lparr>BackoffMultiplier := in_Multiplier inp\<rparr> else r);
          d = (DLQConfig cfg)\<lparr>DLQ_Enabled := in_DLQEnabled inp\<rparr>;
          d = (if in_DLQTopic inp \<noteq> [] then d\<lparr>DLQ_Topic := in_DLQTopic inp\<rparr> else d)
      in cfg\<lparr>RetryPolicy := r, DLQConfig := d\<rparr>)"

fun ValidateTopicFilters :: "string list \<Rightarrow> config_error option" where
  "ValidateTopicFilters [] = None"
| "ValidateTopicFilters (f # fs) =
     (case ValidateTopicFilter f of
        Some err \<Rightarrow> Some (ErrConfigTopicFilter f err)
      | None \<Rightarrow> ValidateTopicFilters fs)"

text \<open>
  \<^verbatim>\<open>strings.TrimSpace(s) == ""\<close>: every code point is white space. The multi-byte ones are
  U+0085, U+00A0, U+1680, U+2000--U+200A, U+2028, U+2029, U+202F, U+205F and U+3000.
\<close>

definition ascii_space :: "char \<Rightarrow> bool" where
  "ascii_space c \<longleftrightarrow> byte_in 9 13 c \<or> c = CHR '' ''"

fun blank :: "string \<Rightarrow> bool" where
  "blank [] = True"
| "blank (c # s) =
     (if ascii_space c then blank s
      else if c = CHR 0xC2 then
        (case s of d # s' \<Rightarrow> (d = CHR 0x85 \<or> d = CHR 0xA0) \<and> blank s' | [] \<Rightarrow> False)
      else
        (case s of
           d # e # s' \<Rightarrow>
             ((c = CHR 0xE1 \<and> d = CHR 0x9A \<and> e = CHR 0x80) \<or>
              (c = CHR 0xE2 \<and> d = CHR 0x80 \<and>
                 (byte_in 128 138 e \<or> e = CHR 0xA8 \<or> e = CHR 0xA9 \<or> e = CHR 0xAF)) \<or>
              (c = CHR 0xE2 \<and> d = CHR 0x81 \<and> e = CHR 0x9F) \<or>
              (c = CHR 0xE3 \<and> d = CHR 0x80 \<and> e = CHR 0x80)) \<and> blank s'
         | _ \<Rightarrow> False))"

text \<open>The replication half of \<^verbatim>\<open>Validate\<close>.\<close>

definition validate_replication :: "replication_config \<Rightarrow> config_error option" where
  "validate_replication r =
     (if ReplicationFactor r < 1 \<or> ReplicationFactor r > 10 then Some ErrInvalidConfig
      else if MinInSyncReplicas r < 1 \<or> MinInSyncReplicas r > ReplicationFactor r then Some ErrInvalidConfig
      else if Repl_Mode r \<noteq> ReplicationSync \<and> Repl_Mode r \<noteq> ReplicationAsync then Some ErrInvalidConfig
      else if Repl_Mode r = ReplicationAsync \<and> MinInSyncReplicas r > 1 then Some ErrInvalidConfig
      else if AckTimeout r \<le> 0 then Some ErrInvalidConfig
      else if Repl_Group r \<noteq> [] \<and> blank (Repl_Group r) then Some ErrInvalidConfig
      else None)"

definition QueueConfig_Validate :: "queue_config \<Rightarrow> config_error option" where
  "QueueConfig_Validate c =
     (case ValidateTopicFilters (QTopics c) of
        Some err \<Rightarrow> Some err
      | None \<Rightarrow>
          if QName c = [] then Some ErrInvalidConfig
          else if length (QTopics c) = 0 then Some ErrInvalidConfig
          else if MaxMessageSize c \<le> 0 then Some ErrInvalidConfig
          else if MaxDepth c \<le> 0 then Some ErrInvalidConfig
          else if DeliveryTimeout c \<le> 0 then Some ErrInvalidConfig
          else if BatchSize c \<le> 0 then Some ErrInvalidConfig
          else if HeartbeatTimeout c \<le> 0 then Some ErrInvalidConfig
          else if MaxRetries (RetryPolicy c) < 0 then Some ErrInvalidConfig
          else if InitialBackoff (RetryPolicy c) < 0 \<or> MaxBackoff (RetryPolicy c) < InitialBackoff (RetryPolicy c)
          then Some ErrInvalidConfig
          else if flt_less (BackoffMultiplier (RetryPolicy c)) (Finite 1) then Some ErrInvalidConfig
          else if TotalTimeout (RetryPolicy c) < 0 then Some ErrInvalidConfig
          else if \<not> Durable c \<and> ExpiresAfter c \<le> 0 then Some ErrInvalidConfig
          else if Reserved c \<and> \<not> Durable c then Some ErrInvalidConfig
          else if QType c \<noteq> [] \<and> QType c \<noteq> QueueTypeClassic \<and> QType c \<noteq> QueueTypeStream
          then Some ErrInvalidConfig
          else if Repl_Enabled (Replication c) then validate_replication (Replication c)
          else None)"


section \<open>Filters that can match\<close>

lemma ValidateTopicFilters_None:
  "ValidateTopicFilters fs = None \<longleftrightarrow> (\<forall>f \<in> set fs. ValidateTopicFilter f = None)"
  by (induction fs) (auto split: option.splits)

text \<open>The topic a filter stands for: its wildcards filled in.\<close>

definition fill :: "string \<Rightarrow> string" where
  "fill f = map (\<lambda>c. if c = CHR ''+'' \<or> c = CHR ''#'' then CHR ''x'' else c) f"

text \<open>Bytes outside ASCII are kept, so the encoding stays valid.\<close>

definition fill_byte :: "char \<Rightarrow> char" where
  "fill_byte c = (if c = CHR ''+'' \<or> c = CHR ''#'' then CHR ''x'' else c)"

lemma fill_byte_id: "\<not> byte_in 0 127 c \<Longrightarrow> fill_byte c = c"
  by (auto simp: fill_byte_def byte_in_def)

lemma byte_in_fill: "128 \<le> lo \<Longrightarrow> byte_in lo hi (fill_byte c) = byte_in lo hi c"
  by (auto simp: fill_byte_def byte_in_def)

lemma utf8_second_fill: "utf8_second b0 (fill_byte c) = utf8_second b0 c"
  by (simp add: utf8_second_def byte_in_fill)

lemma utf8_valid_fill_byte: "utf8_valid s \<Longrightarrow> utf8_valid (map fill_byte s)"
proof (induction "length s" arbitrary: s rule: less_induct)
  case less
  note IH = less.hyps
  show ?case
  proof (cases s)
    case Nil
    then show ?thesis by simp
  next
    case (Cons b0 bs)
    show ?thesis
    proof (cases "byte_in 0 127 b0")
      case True
      then have "byte_in 0 127 (fill_byte b0)" by (auto simp: byte_in_def fill_byte_def)
      then show ?thesis using IH [of bs] less.prems True Cons by simp
    next
      case False
      note b0 = fill_byte_id [OF False]
      consider "byte_in 194 223 b0" | "\<not> byte_in 194 223 b0" "byte_in 224 239 b0"
        | "\<not> byte_in 194 223 b0" "\<not> byte_in 224 239 b0" "byte_in 240 244 b0"
        using less.prems False Cons by (auto split: if_splits)
      then show ?thesis
      proof cases
        case 1
        then obtain b1 r where "bs = b1 # r" "utf8_cont b1" "utf8_valid r"
          using less.prems False Cons by (cases bs) auto
        then show ?thesis using IH [of r] 1 False Cons by (simp add: b0 byte_in_fill)
      next
        case 2
        then obtain b1 b2 r where "bs = b1 # b2 # r" "utf8_second b0 b1" "utf8_cont b2" "utf8_valid r"
          using less.prems False Cons by (auto split: list.splits)
        then show ?thesis using IH [of r] 2 False Cons by (simp add: b0 byte_in_fill utf8_second_fill)
      next
        case 3
        then obtain b1 b2 b3 r where "bs = b1 # b2 # b3 # r" "utf8_second b0 b1" "utf8_cont b2"
            "utf8_cont b3" "utf8_valid r"
          using less.prems False Cons by (auto split: list.splits)
        then show ?thesis using IH [of r] 3 False Cons by (simp add: b0 byte_in_fill utf8_second_fill)
      qed
    qed
  qed
qed

lemma utf8_valid_fill: "utf8_valid s \<Longrightarrow> utf8_valid (fill s)"
  using utf8_valid_fill_byte [of s] by (simp add: fill_def fill_byte_def [abs_def])

lemma levels_fill: "levels (fill f) = map fill (levels f)"
  by (induction f) (auto simp: fill_def split: list.splits)

lemma fill_id: "CHR ''+'' \<notin> set l \<Longrightarrow> CHR ''#'' \<notin> set l \<Longrightarrow> fill l = l"
  by (induction l) (auto simp: fill_def)

lemma fill_level: "wf_level l \<Longrightarrow> l = ''+'' \<or> l = ''#'' \<or> fill l = l"
  using fill_id [of l] unfolding wf_level_def by blast

lemma levels_match_fill:
  "\<forall>l \<in> set ls. wf_level l \<Longrightarrow> levels_match ls (map fill ls)"
proof (induction ls)
  case (Cons l ls)
  then show ?case using fill_level [of l] by simp metis
qed simp

lemma valid_filter_fires:
  assumes "ValidateTopicFilter f = None"
  shows "ValidateTopicName (fill f) = None \<and> TopicMatch f (fill f)"
proof -
  note wf = ValidateTopicFilter_wf [OF assms]
  have u: "utf8_valid f" "CHR 0x00 \<notin> set f"
    using assms by (auto simp: ValidateTopicFilter_def contains_char_def split: if_splits)
  have "fill f \<noteq> []" "CHR ''+'' \<notin> set (fill f)" "CHR ''#'' \<notin> set (fill f)" "CHR 0x00 \<notin> set (fill f)"
    using wf(1) u(2) by (auto simp: fill_def)
  moreover have "hd (fill f) = CHR ''$'' \<Longrightarrow> hd f = CHR ''$''"
    using wf(1) by (cases f) (auto simp: fill_def split: if_splits)
  moreover have "levels_match (levels f) (levels (fill f))"
    using wf(2) by (simp add: levels_fill levels_match_fill wf_filter_levels_def)
  ultimately show ?thesis
    using wf(1) utf8_valid_fill [OF u(1)]
    by (auto simp: ValidateTopicName_def contains_char_def TopicMatch_levels)
qed


section \<open>Which configurations are accepted\<close>

lemma Validate_None:
  "QueueConfig_Validate c = None \<longleftrightarrow>
     (\<forall>f \<in> set (QTopics c). ValidateTopicFilter f = None) \<and>
     QName c \<noteq> [] \<and> QTopics c \<noteq> [] \<and> 0 < MaxMessageSize c \<and> 0 < MaxDepth c \<and>
     0 < DeliveryTimeout c \<and> 0 < BatchSize c \<and> 0 < HeartbeatTimeout c \<and>
     0 \<le> MaxRetries (RetryPolicy c) \<and> 0 \<le> InitialBackoff (RetryPolicy c) \<and>
     InitialBackoff (RetryPolicy c) \<le> MaxBackoff (RetryPolicy c) \<and>
     \<not> flt_less (BackoffMultiplier (RetryPolicy c)) (Finite 1) \<and> 0 \<le> TotalTimeout (RetryPolicy c) \<and>
     (Durable c \<or> 0 < ExpiresAfter c) \<and> (Reserved c \<longrightarrow> Durable c) \<and>
     (QType c = [] \<or> QType c = QueueTypeClassic \<or> QType c = QueueTypeStream) \<and>
     (Repl_Enabled (Replication c) \<longrightarrow> validate_replication (Replication c) = None)"
proof (cases "ValidateTopicFilters (QTopics c)")
  case None
  then have v: "\<forall>f \<in> set (QTopics c). ValidateTopicFilter f = None"
    by (simp add: ValidateTopicFilters_None)
  show ?thesis
    unfolding QueueConfig_Validate_def None option.case by (simp add: v not_le not_less)
next
  case (Some e)
  then have "\<not> (\<forall>f \<in> set (QTopics c). ValidateTopicFilter f = None)"
    by (simp flip: ValidateTopicFilters_None)
  with Some show ?thesis unfolding QueueConfig_Validate_def by simp
qed

lemma valid_hash: "ValidateTopicFilter ''#'' = None"
  by code_simp

lemma valid_mqtt_topic: "ValidateTopicFilter MQTTQueueTopic = None"
  by code_simp

lemma topics_default:
  "(\<forall>f \<in> set (if ts = [] then [''#''] else ts). ValidateTopicFilter f = None) \<longleftrightarrow>
   (\<forall>f \<in> set ts. ValidateTopicFilter f = None)"
  by (simp add: valid_hash)


section \<open>Properties\<close>

text \<open>
  C23. Validation does what its comment promises: every filter of an accepted list can fire, that
  is, some valid topic name matches it.
\<close>

theorem ValidateTopicFilters_fire:
  assumes "ValidateTopicFilters fs = None" and "f \<in> set fs"
  shows "\<exists>t. ValidateTopicName t = None \<and> TopicMatch f t"
  using assms valid_filter_fires [of f] by (auto simp: ValidateTopicFilters_None)

theorem ValidateTopicFilters_fire_witness:
  "ValidateTopicFilters [''a/+/#''] = None \<and> (\<exists>t. ValidateTopicName t = None \<and> TopicMatch ''a/+/#'' t)"
proof -
  have v: "ValidateTopicFilters [''a/+/#''] = None" by code_simp
  from v ValidateTopicFilters_fire [OF v] show ?thesis by simp
qed

text \<open>
  The built-in configurations are accepted exactly when the name is present and the filters
  are valid, and the reserved MQTT queue is always accepted.
\<close>

theorem defaults_accepted:
  "(QueueConfig_Validate (DefaultQueueConfig n ts) = None \<longleftrightarrow>
      n \<noteq> [] \<and> ValidateTopicFilters ts = None) \<and>
   (QueueConfig_Validate (DefaultEphemeralQueueConfig n ts) = None \<longleftrightarrow>
      n \<noteq> [] \<and> ValidateTopicFilters ts = None) \<and>
   QueueConfig_Validate MQTTQueueConfig = None"
proof -
  have "QueueConfig_Validate (DefaultQueueConfig n ts) = None \<longleftrightarrow> n \<noteq> [] \<and> ValidateTopicFilters ts = None" for n ts
    unfolding Validate_None ValidateTopicFilters_None
    by (auto simp: DefaultQueueConfig_def QueueTypeClassic_def valid_hash)
  moreover have "QueueConfig_Validate (DefaultEphemeralQueueConfig n ts) = None \<longleftrightarrow>
      n \<noteq> [] \<and> ValidateTopicFilters ts = None"
    unfolding Validate_None ValidateTopicFilters_None
    by (auto simp: DefaultEphemeralQueueConfig_def DefaultQueueConfig_def QueueTypeClassic_def valid_hash)
  moreover have "QueueConfig_Validate MQTTQueueConfig = None"
    unfolding Validate_None
    by (simp add: MQTTQueueConfig_def DefaultQueueConfig_def QueueTypeClassic_def valid_mqtt_topic MQTTQueueName_def)
  ultimately show ?thesis by blast
qed


end
