(* ===== verification/Message.thy ===== *)
theory Message
  imports Topics
begin

text \<open>
  The package \<^verbatim>\<open>message\<close>: the canonical envelope (\<^verbatim>\<open>envelope.go\<close>), the immutable metadata
  collections (\<^verbatim>\<open>metadata.go\<close>) and the decimal numbers its properties carry. Byte strings are \<open>string\<close>s, so that \<^verbatim>\<open>string(raw)\<close> and
  \<^verbatim>\<open>[]byte(s)\<close> are the identity; the payload buffer is its contents (reference counts only manage
  memory). \<^verbatim>\<open>Optional\<close> is \<open>option\<close>. An immutable map is an association list.
\<close>

type_synonym bytes = string
type_synonym props = "(string, string) gomap"

section \<open>The envelope\<close>

record publisher_metadata =
  pm_Key :: bytes
  pm_Headers :: "(string, bytes) gomap"
  pm_Properties :: props
  pm_ContentType :: string
  pm_ContentEncoding :: string
  pm_ResponseTopic :: string
  pm_CorrelationData :: bytes
  pm_PayloadFormat :: "8 word option"
  pm_MessageExpiry :: "32 word option"
  pm_MessageID :: string

record source_metadata =
  sm_ClientID :: string
  sm_ExternalID :: string
  sm_Protocol :: string
  sm_Topic :: string

record delivery_metadata =
  dm_PublishedAt :: instant
  dm_ExpiresAt :: instant
  dm_SubscriptionIDs :: "32 word list"
  dm_PacketID :: "16 word"
  dm_QoS :: "8 word"
  dm_InflightDirection :: "8 word"
  dm_InflightState :: "8 word"
  dm_Retain :: bool
  dm_Duplicate :: bool

record stream_metadata =
  st_Offset :: u64
  st_Timestamp :: int
  st_CommittedOffset :: u64
  st_HasCommittedOffset :: bool
  st_WorkAcknowledged :: bool
  st_WorkGroup :: string

record queue_metadata =
  qm_Name :: string
  qm_GroupID :: string
  qm_Offset :: u64
  qm_State :: string
  qm_CreatedAt :: instant
  qm_DeliveredAt :: instant
  qm_NextRetryAt :: instant
  qm_RetryCount :: int
  qm_ExpiresAt :: instant
  qm_Stream :: "stream_metadata option"

record transfer_metadata =
  tm_ID :: string
  tm_FailureReason :: string
  tm_FirstAttempt :: instant
  tm_LastAttempt :: instant
  tm_CompletedAt :: instant
  tm_SourceQueue :: string
  tm_SourceGroup :: string
  tm_SourceOffset :: u64
  tm_DeliveryCount :: int

record trace_metadata =
  tr_TraceParent :: string
  tr_TraceState :: string
  tr_TraceID :: string

record broker_metadata =
  bm_Source :: source_metadata
  bm_Delivery :: delivery_metadata
  bm_Queue :: queue_metadata
  bm_Transfer :: transfer_metadata
  bm_Trace :: trace_metadata

record envelope =
  ev_Version :: "16 word"
  ev_Topic :: string
  ev_PublisherMeta :: publisher_metadata
  ev_BrokerMeta :: broker_metadata
  ev_payload :: "bytes option"

text \<open>The zero values.\<close>

definition zero_publisher :: publisher_metadata where
  "zero_publisher = \<lparr>pm_Key = [], pm_Headers = [], pm_Properties = [], pm_ContentType = [],
     pm_ContentEncoding = [], pm_ResponseTopic = [], pm_CorrelationData = [], pm_PayloadFormat = None,
     pm_MessageExpiry = None, pm_MessageID = []\<rparr>"

definition zero_source :: source_metadata where
  "zero_source = \<lparr>sm_ClientID = [], sm_ExternalID = [], sm_Protocol = [], sm_Topic = []\<rparr>"

definition zero_delivery :: delivery_metadata where
  "zero_delivery = \<lparr>dm_PublishedAt = zero_time, dm_ExpiresAt = zero_time, dm_SubscriptionIDs = [],
     dm_PacketID = 0, dm_QoS = 0, dm_InflightDirection = 0, dm_InflightState = 0, dm_Retain = False,
     dm_Duplicate = False\<rparr>"

definition zero_stream :: stream_metadata where
  "zero_stream = \<lparr>st_Offset = 0, st_Timestamp = 0, st_CommittedOffset = 0, st_HasCommittedOffset = False,
     st_WorkAcknowledged = False, st_WorkGroup = []\<rparr>"

definition zero_queue :: queue_metadata where
  "zero_queue = \<lparr>qm_Name = [], qm_GroupID = [], qm_Offset = 0, qm_State = [], qm_CreatedAt = zero_time,
     qm_DeliveredAt = zero_time, qm_NextRetryAt = zero_time, qm_RetryCount = 0, qm_ExpiresAt = zero_time,
     qm_Stream = None\<rparr>"

definition zero_transfer :: transfer_metadata where
  "zero_transfer = \<lparr>tm_ID = [], tm_FailureReason = [], tm_FirstAttempt = zero_time,
     tm_LastAttempt = zero_time, tm_CompletedAt = zero_time, tm_SourceQueue = [], tm_SourceGroup = [],
     tm_SourceOffset = 0, tm_DeliveryCount = 0\<rparr>"

definition zero_trace :: trace_metadata where
  "zero_trace = \<lparr>tr_TraceParent = [], tr_TraceState = [], tr_TraceID = []\<rparr>"

definition zero_broker :: broker_metadata where
  "zero_broker = \<lparr>bm_Source = zero_source, bm_Delivery = zero_delivery, bm_Queue = zero_queue,
     bm_Transfer = zero_transfer, bm_Trace = zero_trace\<rparr>"

definition Version1 :: "16 word" where "Version1 = 1"

definition Acquire :: envelope where
  "Acquire = \<lparr>ev_Version = Version1, ev_Topic = [], ev_PublisherMeta = zero_publisher,
     ev_BrokerMeta = zero_broker, ev_payload = None\<rparr>"

definition Message_New :: "string \<Rightarrow> bytes \<Rightarrow> envelope" where
  "Message_New topic data = Acquire\<lparr>ev_Topic := topic, ev_payload := Some data\<rparr>"

definition NewDelivery :: "string \<Rightarrow> bytes \<Rightarrow> 8 word \<Rightarrow> bool \<Rightarrow> envelope" where
  "NewDelivery topic data qos retain =
     (let e = Message_New topic data; b = ev_BrokerMeta e
      in e\<lparr>ev_BrokerMeta := b\<lparr>bm_Delivery := (bm_Delivery b)\<lparr>dm_QoS := qos, dm_Retain := retain\<rparr>\<rparr>\<rparr>)"

datatype message_error =
  ErrUnsupportedVersion
| ErrUnsupportedProtocol
| ErrUnsupportedQueueState
| ErrMetadataCarriesPayload
| ErrMetadataCarriesKey
| ErrWireType
| ErrFieldOverflow
| ErrParse

definition protocolNumber :: "string \<Rightarrow> message_error + u64" where
  "protocolNumber protocol =
     (if protocol = [] then Inr 0
      else if protocol = ''mqtt'' then Inr 1
      else if protocol = ''amqp'' then Inr 2
      else if protocol = ''amqp1'' then Inr 3
      else if protocol = ''http'' then Inr 4
      else if protocol = ''coap'' then Inr 5
      else Inl ErrUnsupportedProtocol)"

definition protocolFromNumber :: "u64 \<Rightarrow> message_error + string" where
  "protocolFromNumber number =
     (if number = 0 then Inr []
      else if number = 1 then Inr ''mqtt''
      else if number = 2 then Inr ''amqp''
      else if number = 3 then Inr ''amqp1''
      else if number = 4 then Inr ''http''
      else if number = 5 then Inr ''coap''
      else Inl ErrUnsupportedProtocol)"

definition queueStateNumber :: "string \<Rightarrow> message_error + u64" where
  "queueStateNumber state =
     (if state = [] then Inr 0
      else if state = ''queued'' then Inr 1
      else if state = ''delivered'' then Inr 2
      else if state = ''acked'' then Inr 3
      else if state = ''retry'' then Inr 4
      else if state = ''dlq'' then Inr 5
      else Inl ErrUnsupportedQueueState)"

definition queueStateFromNumber :: "u64 \<Rightarrow> message_error + string" where
  "queueStateFromNumber number =
     (if number = 0 then Inr []
      else if number = 1 then Inr ''queued''
      else if number = 2 then Inr ''delivered''
      else if number = 3 then Inr ''acked''
      else if number = 4 then Inr ''retry''
      else if number = 5 then Inr ''dlq''
      else Inl ErrUnsupportedQueueState)"

definition requireVersion1 :: "16 word \<Rightarrow> message_error option" where
  "requireVersion1 version = (if version \<noteq> Version1 then Some ErrUnsupportedVersion else None)"

definition Envelope_Validate :: "envelope \<Rightarrow> message_error option" where
  "Envelope_Validate e =
     (case requireVersion1 (ev_Version e) of
        Some err \<Rightarrow> Some err
      | None \<Rightarrow>
          (case protocolNumber (sm_Protocol (bm_Source (ev_BrokerMeta e))) of
             Inl err \<Rightarrow> Some err
           | Inr _ \<Rightarrow>
               (case queueStateNumber (qm_State (bm_Queue (ev_BrokerMeta e))) of
                  Inl err \<Rightarrow> Some err
                | Inr _ \<Rightarrow> None)))"

definition PayloadBytes :: "envelope \<Rightarrow> bytes" where
  "PayloadBytes e = (case ev_payload e of None \<Rightarrow> [] | Some b \<Rightarrow> b)"

definition SetPayload :: "bytes \<Rightarrow> envelope \<Rightarrow> envelope" where
  "SetPayload data e = e\<lparr>ev_payload := Some data\<rparr>"

definition IsExpired :: "instant \<Rightarrow> envelope \<Rightarrow> bool" where
  "IsExpired now e =
     (let expiresAt = qm_ExpiresAt (bm_Queue (ev_BrokerMeta e));
          expiresAt = (if expiresAt = zero_time then dm_ExpiresAt (bm_Delivery (ev_BrokerMeta e)) else expiresAt)
      in expiresAt \<noteq> zero_time \<and> now > expiresAt)"

definition Envelope_Clone :: "envelope \<Rightarrow> envelope" where
  "Envelope_Clone e =
     Acquire\<lparr>ev_Version := ev_Version e, ev_Topic := ev_Topic e, ev_payload := ev_payload e,
       ev_PublisherMeta := ev_PublisherMeta e, ev_BrokerMeta := ev_BrokerMeta e\<rparr>"


section \<open>Numbers in properties\<close>

text \<open>\<^verbatim>\<open>strconv.FormatUint(x, 10)\<close> and the digit test of the parser.\<close>

definition digit_char :: "nat \<Rightarrow> char" where
  "digit_char d = char_of (48 + d)"

fun format_nat :: "nat \<Rightarrow> string" where
  "format_nat n = (if n < 10 then [digit_char n] else format_nat (n div 10) @ [digit_char (n mod 10)])"

declare format_nat.simps [simp del]

definition FormatUint :: "u64 \<Rightarrow> string" where
  "FormatUint x = format_nat (unat x)"

definition FormatInt :: "int \<Rightarrow> string" where
  "FormatInt i = (if i < 0 then CHR ''-'' # format_nat (nat (- i)) else format_nat (nat i))"

definition FormatBool :: "bool \<Rightarrow> string" where
  "FormatBool b = (if b then ''true'' else ''false'')"

datatype num_error = ErrSyntax | ErrRange

text \<open>\<^verbatim>\<open>strconv.ParseUint(s, 10, 64)\<close>: the loop stops at the first bad digit or overflow.\<close>

fun parse_digits :: "nat \<Rightarrow> string \<Rightarrow> num_error + nat" where
  "parse_digits n [] = Inr n"
| "parse_digits n (c # cs) =
     (if \<not> byte_in 48 57 c then Inl ErrSyntax
      else (let n' = n * 10 + (of_char c - 48)
            in if n' \<ge> 2 ^ 64 then Inl ErrRange else parse_digits n' cs))"

definition ParseUint :: "string \<Rightarrow> num_error + u64" where
  "ParseUint s =
     (if s = [] then Inl ErrSyntax else map_sum id (\<lambda>n. word_of_nat n) (parse_digits 0 s))"

definition ParseInt :: "string \<Rightarrow> num_error + int" where
  "ParseInt s =
     (if s = [] then Inl ErrSyntax
      else
        (let neg = (hd s = CHR ''-'');
             digits = (if hd s = CHR ''-'' \<or> hd s = CHR ''+'' then tl s else s)
         in if digits = [] then Inl ErrSyntax
            else (case parse_digits 0 digits of
                    Inl err \<Rightarrow> Inl err
                  | Inr n \<Rightarrow>
                      if \<not> neg \<and> n \<ge> 2 ^ 63 then Inl ErrRange
                      else if neg \<and> n > 2 ^ 63 then Inl ErrRange
                      else Inr (if neg then - int n else int n))))"

definition ParseBool :: "string \<Rightarrow> num_error + bool" where
  "ParseBool s =
     (if s \<in> {''1'', ''t'', ''T'', ''TRUE'', ''true'', ''True''} then Inr True
      else if s \<in> {''0'', ''f'', ''F'', ''FALSE'', ''false'', ''False''} then Inr False
      else Inl ErrSyntax)"

definition DeliveryID :: "queue_metadata \<Rightarrow> string" where
  "DeliveryID q = (if qm_Name q = [] then [] else qm_Name q @ '':'' @ FormatUint (qm_Offset q))"


section \<open>Metadata collections\<close>

text \<open>\<^verbatim>\<open>HeaderMap\<close> and \<^verbatim>\<open>PropertyMap\<close> share their code; the value type is a parameter.\<close>

definition Map_Get :: "(string, 'v) gomap \<Rightarrow> string \<Rightarrow> 'v option" where
  "Map_Get h key = map_of h key"

definition Map_With :: "(string, 'v) gomap \<Rightarrow> string \<Rightarrow> 'v \<Rightarrow> (string, 'v) gomap" where
  "Map_With h key value = AList.update key value (fold (\<lambda>(k, v) m. AList.update k v m) h [])"

definition Map_Without :: "(string, 'v) gomap \<Rightarrow> string \<Rightarrow> (string, 'v) gomap" where
  "Map_Without h key =
     (if map_of h key = None then h
      else if length h = 1 then []
      else fold (\<lambda>(k, v) m. if k \<noteq> key then AList.update k v m else m) h [])"

section \<open>Numbers round-trip\<close>

lemma parse_digits_append:
  "parse_digits a (s @ t) = (case parse_digits a s of Inl e \<Rightarrow> Inl e | Inr b \<Rightarrow> parse_digits b t)"
  by (induction s arbitrary: a) (simp_all add: Let_def)

lemma digit_char_digit: "d < 10 \<Longrightarrow> byte_in 48 57 (digit_char d) \<and> (of_char (digit_char d) :: nat) = 48 + d"
  by (simp add: byte_in_def digit_char_def)

lemma format_nat_ne [simp]: "format_nat n \<noteq> []"
  by (subst format_nat.simps) simp

lemma parse_format_nat: "n < 2 ^ 64 \<Longrightarrow> parse_digits 0 (format_nat n) = Inr n"
proof (induction n rule: less_induct)
  case (less n)
  show ?case
  proof (cases "n < 10")
    case True
    then show ?thesis using digit_char_digit [of n] by (subst format_nat.simps) simp
  next
    case False
    then have "parse_digits 0 (format_nat (n div 10)) = Inr (n div 10)"
      using less by (intro less.IH) auto
    with False less.prems digit_char_digit [of "n mod 10"] show ?thesis
      by (subst format_nat.simps) (simp add: parse_digits_append)
  qed
qed

lemma ParseUint_FormatUint: "ParseUint (FormatUint x) = Inr x"
proof -
  have "unat x < 2 ^ 64" using unsigned_less [of x, where 'a = nat] by simp
  then show ?thesis by (simp add: ParseUint_def FormatUint_def parse_format_nat)
qed

lemma FormatUint_ne [simp]: "FormatUint x \<noteq> []"
  by (simp add: FormatUint_def)

lemma hd_format_nat: "byte_in 48 57 (hd (format_nat n))"
proof (induction n rule: less_induct)
  case (less n)
  show ?case
  proof (cases "n < 10")
    case True
    then show ?thesis using digit_char_digit [of n] by (subst format_nat.simps) simp
  next
    case False
    with less [of "n div 10"] show ?thesis by (subst format_nat.simps) (simp add: hd_append)
  qed
qed

lemma ParseInt_FormatInt:
  assumes "- (2 ^ 63) \<le> i" and "i < 2 ^ 63"
  shows "ParseInt (FormatInt i) = Inr i"
proof (cases "i < 0")
  case True
  have "nat (- i) < 2 ^ 64" using assms by simp
  from parse_format_nat [OF this] True assms show ?thesis
    by (simp add: ParseInt_def FormatInt_def)
next
  case False
  have h: "hd (format_nat (nat i)) \<noteq> CHR ''-''" "hd (format_nat (nat i)) \<noteq> CHR ''+''"
    using hd_format_nat [of "nat i"] by (auto simp: byte_in_def)
  have "nat i < 2 ^ 64" using assms by simp
  from parse_format_nat [OF this] False assms h show ?thesis
    by (simp add: ParseInt_def FormatInt_def)
qed

lemma FormatInt_ne [simp]: "FormatInt i \<noteq> []"
  by (simp add: FormatInt_def)

lemma ParseBool_FormatBool: "ParseBool (FormatBool b) = Inr b"
  by (simp add: ParseBool_def FormatBool_def)

lemma FormatBool_ne [simp]: "FormatBool b \<noteq> []"
  by (simp add: FormatBool_def)

end
