(* ===== verification/Message_Props.thy ===== *)
theory Message_Props
  imports Message
begin

text \<open>
  \<^verbatim>\<open>message/properties.go\<close>: which property names the broker owns, the projection of broker
  metadata onto a wire property map and the decoding of such a map at a trusted boundary. The results
  are that a projection cannot be forged by user properties, that the public projection hides
  origin and trace, and that decoding inverts projecting.
\<close>

section \<open>Reserved names\<close>

definition ReservedPropertyPrefix :: string where "ReservedPropertyPrefix = ''_flux.''"

abbreviation "PropertyClientID \<equiv> ''client_id''"
abbreviation "PropertyExternalID \<equiv> ''external_id''"
abbreviation "PropertyProtocol \<equiv> ''protocol''"
abbreviation "PropertyMessageID \<equiv> ''message-id''"
abbreviation "PropertyGroupID \<equiv> ''group-id''"
abbreviation "PropertyQueueName \<equiv> ''queue''"
abbreviation "PropertyOffset \<equiv> ''offset''"
abbreviation "PropertySourceTopic \<equiv> ''x-source-topic''"
abbreviation "PropertyStreamOffset \<equiv> ''x-stream-offset''"
abbreviation "PropertyStreamTimestamp \<equiv> ''x-stream-timestamp''"
abbreviation "PropertyWorkCommitted \<equiv> ''x-work-committed-offset''"
abbreviation "PropertyWorkAcked \<equiv> ''x-work-acked''"
abbreviation "PropertyWorkGroup \<equiv> ''x-work-group''"
abbreviation "PropertyTransferID \<equiv> ''x-dlq-transfer-id''"
abbreviation "PropertyDLQReason \<equiv> ''x-dlq-reason''"
abbreviation "PropertyForwardTargetQueues \<equiv> ''x-queue-forward-targets''"
abbreviation "PropertyTraceParent \<equiv> ''_flux.traceparent''"
abbreviation "PropertyTraceState \<equiv> ''_flux.tracestate''"
abbreviation "PropertyTraceID \<equiv> ''_flux.trace_id''"

definition reserved_keys :: "string list" where
  "reserved_keys =
     [PropertyClientID, PropertyExternalID, PropertyProtocol, PropertyMessageID, PropertyGroupID,
      PropertyQueueName, PropertyOffset, PropertySourceTopic, PropertyStreamOffset,
      PropertyStreamTimestamp, PropertyWorkCommitted, PropertyWorkAcked, PropertyWorkGroup,
      PropertyTransferID, PropertyDLQReason, PropertyForwardTargetQueues]"

definition IsReservedProperty :: "string \<Rightarrow> bool" where
  "IsReservedProperty key \<longleftrightarrow> has_prefix key ReservedPropertyPrefix \<or> key \<in> set reserved_keys"

text \<open>The copy loops: the kept entries are assigned into a fresh map in the order of the range.\<close>

definition copy_if :: "(string \<Rightarrow> bool) \<Rightarrow> props \<Rightarrow> props" where
  "copy_if P m = fold (\<lambda>(k, v) acc. if P k then AList.update k v acc else acc) m []"

definition WithoutReserved :: "props \<Rightarrow> props" where
  "WithoutReserved p =
     (if \<exists>kv \<in> set p. IsReservedProperty (fst kv) then copy_if (\<lambda>k. \<not> IsReservedProperty k) p else p)"

definition FilterUserProperties :: "props \<Rightarrow> props" where
  "FilterUserProperties properties = copy_if (\<lambda>k. \<not> IsReservedProperty k) properties"


section \<open>Projection\<close>

record projection =
  pj_Queue :: bool
  pj_Transfer :: bool
  pj_Source :: bool
  pj_Trace :: bool

definition PublicProjection :: projection where
  "PublicProjection = \<lparr>pj_Queue = True, pj_Transfer = True, pj_Source = False, pj_Trace = False\<rparr>"

definition TrustedServiceProjection :: projection where
  "TrustedServiceProjection = \<lparr>pj_Queue = True, pj_Transfer = True, pj_Source = True, pj_Trace = True\<rparr>"

text \<open>\<^verbatim>\<open>properties[key]\<close> with the zero value of an absent key, and the guarded stamp.\<close>

definition prop_at :: "props \<Rightarrow> string \<Rightarrow> string" where
  "prop_at m key = (case map_of m key of None \<Rightarrow> [] | Some v \<Rightarrow> v)"

definition stamp :: "string \<Rightarrow> string \<Rightarrow> props \<Rightarrow> props" where
  "stamp key value m = (if value \<noteq> [] then AList.update key value m else m)"

definition SourceFromProperties :: "props \<Rightarrow> source_metadata" where
  "SourceFromProperties m =
     \<lparr>sm_ClientID = prop_at m PropertyClientID, sm_ExternalID = prop_at m PropertyExternalID,
      sm_Protocol = prop_at m PropertyProtocol, sm_Topic = []\<rparr>"

definition TraceFromProperties :: "props \<Rightarrow> trace_metadata" where
  "TraceFromProperties m =
     \<lparr>tr_TraceParent = prop_at m PropertyTraceParent, tr_TraceState = prop_at m PropertyTraceState,
      tr_TraceID = prop_at m PropertyTraceID\<rparr>"

text \<open>The closure \<^verbatim>\<open>parseUint\<close>: the new target value and the errors it appends.\<close>

definition parse_uint_prop :: "string \<Rightarrow> string \<Rightarrow> u64 \<Rightarrow> u64 \<times> (string \<times> num_error) list" where
  "parse_uint_prop name raw target =
     (if raw = [] then (target, [])
      else (case ParseUint raw of Inl err \<Rightarrow> (target, [(name, err)]) | Inr v \<Rightarrow> (v, [])))"

text \<open>The stream section of \<^verbatim>\<open>ApplyTrustedProperties\<close>.\<close>

definition apply_stream :: "props \<Rightarrow> string \<Rightarrow> stream_metadata \<times> (string \<times> num_error) list" where
  "apply_stream m rawOffset =
     (case parse_uint_prop PropertyStreamOffset rawOffset 0 of (off, e1) \<Rightarrow>
      case (let raw = prop_at m PropertyStreamTimestamp
            in if raw = [] then (0, [])
               else (case ParseInt raw of Inl err \<Rightarrow> (0, [(PropertyStreamTimestamp, err)]) | Inr t \<Rightarrow> (t, [])))
        of (ts, e2) \<Rightarrow>
      case (case map_of m PropertyWorkCommitted of
              None \<Rightarrow> (False, 0, [])
            | Some rawCommitted \<Rightarrow> (True, parse_uint_prop PropertyWorkCommitted rawCommitted 0))
        of (hasCommitted, committed, e3) \<Rightarrow>
      case (let raw = prop_at m PropertyWorkAcked
            in if raw = [] then (False, [])
               else (case ParseBool raw of Inl err \<Rightarrow> (False, [(PropertyWorkAcked, err)]) | Inr b \<Rightarrow> (b, [])))
        of (acked, e4) \<Rightarrow>
      (\<lparr>st_Offset = off, st_Timestamp = ts, st_CommittedOffset = committed,
        st_HasCommittedOffset = hasCommitted, st_WorkAcknowledged = acked,
        st_WorkGroup = prop_at m PropertyWorkGroup\<rparr>, e1 @ e2 @ e3 @ e4))"

definition ApplyTrustedProperties ::
  "props \<Rightarrow> envelope \<Rightarrow> envelope \<times> (string \<times> num_error) list" where
  "ApplyTrustedProperties m e =
     (let b = ev_BrokerMeta e;
          source = (SourceFromProperties m)\<lparr>sm_Topic := prop_at m PropertySourceTopic\<rparr>;
          q = (bm_Queue b)\<lparr>qm_Name := prop_at m PropertyQueueName, qm_GroupID := prop_at m PropertyGroupID\<rparr>
      in case parse_uint_prop PropertyOffset (prop_at m PropertyOffset) (qm_Offset q) of (off, e1) \<Rightarrow>
         case (case map_of m PropertyStreamOffset of
                 None \<Rightarrow> (qm_Stream q, [])
               | Some raw \<Rightarrow> (case apply_stream m raw of (s, errs) \<Rightarrow> (Some s, errs)))
           of (stream, e2) \<Rightarrow>
         (e\<lparr>ev_PublisherMeta := (ev_PublisherMeta e)
              \<lparr>pm_Properties := FilterUserProperties m, pm_MessageID := prop_at m PropertyMessageID\<rparr>,
            ev_BrokerMeta := b
              \<lparr>bm_Source := source,
               bm_Queue := q\<lparr>qm_Offset := off, qm_Stream := stream\<rparr>,
               bm_Transfer := (bm_Transfer b)
                 \<lparr>tm_ID := prop_at m PropertyTransferID, tm_FailureReason := prop_at m PropertyDLQReason\<rparr>,
               bm_Trace := TraceFromProperties m\<rparr>\<rparr>, e1 @ e2))"

definition hasQueueProjection :: "queue_metadata \<Rightarrow> bool" where
  "hasQueueProjection q \<longleftrightarrow> qm_Name q \<noteq> [] \<or> qm_GroupID q \<noteq> [] \<or> qm_Stream q \<noteq> None"

definition projectQueueProperties :: "source_metadata \<Rightarrow> queue_metadata \<Rightarrow> props \<Rightarrow> props" where
  "projectQueueProperties source q m =
     (let m = stamp PropertyMessageID (DeliveryID q) m;
          m = stamp PropertyGroupID (qm_GroupID q) m;
          m = stamp PropertyQueueName (qm_Name q) m;
          m = AList.update PropertyOffset (FormatUint (qm_Offset q)) m;
          m = stamp PropertySourceTopic (sm_Topic source) m
      in (case qm_Stream q of
            None \<Rightarrow> m
          | Some s \<Rightarrow>
              (let m = AList.update PropertyStreamOffset (FormatUint (st_Offset s)) m;
                   m = (if st_Timestamp s \<noteq> 0
                        then AList.update PropertyStreamTimestamp (FormatInt (st_Timestamp s)) m else m)
               in if st_HasCommittedOffset s
                  then (let m = AList.update PropertyWorkCommitted (FormatUint (st_CommittedOffset s)) m;
                            m = AList.update PropertyWorkAcked (FormatBool (st_WorkAcknowledged s)) m
                        in stamp PropertyWorkGroup (st_WorkGroup s) m)
                  else m)))"

text \<open>
  The result of \<^verbatim>\<open>ProjectProperties\<close> is nil when no property is left; the empty map stands for both.
\<close>

definition ProjectProperties :: "projection \<Rightarrow> envelope \<Rightarrow> props" where
  "ProjectProperties pj e =
     (let m = copy_if (\<lambda>_. True) (WithoutReserved (pm_Properties (ev_PublisherMeta e)));
          m = stamp PropertyMessageID (pm_MessageID (ev_PublisherMeta e)) m;
          b = ev_BrokerMeta e;
          m = (if pj_Queue pj \<and> hasQueueProjection (bm_Queue b)
               then projectQueueProperties (bm_Source b) (bm_Queue b) m else m);
          m = (if pj_Transfer pj
               then stamp PropertyDLQReason (tm_FailureReason (bm_Transfer b))
                      (stamp PropertyTransferID (tm_ID (bm_Transfer b)) m) else m);
          m = (if pj_Source pj
               then stamp PropertyProtocol (sm_Protocol (bm_Source b))
                      (stamp PropertyExternalID (sm_ExternalID (bm_Source b))
                        (stamp PropertyClientID (sm_ClientID (bm_Source b)) m)) else m);
          m = (if pj_Trace pj
               then stamp PropertyTraceID (tr_TraceID (bm_Trace b))
                      (stamp PropertyTraceState (tr_TraceState (bm_Trace b))
                        (stamp PropertyTraceParent (tr_TraceParent (bm_Trace b)) m)) else m)
      in m)"

definition QueueOffsetFromProperties :: "props \<Rightarrow> u64 \<times> bool" where
  "QueueOffsetFromProperties m =
     (case map_of m PropertyOffset of
        None \<Rightarrow> (0, False)
      | Some raw \<Rightarrow> (case ParseUint raw of Inl _ \<Rightarrow> (0, False) | Inr v \<Rightarrow> (v, True)))"



section \<open>Lookups in projected properties\<close>

lemma map_of_stamp_neq: "k' \<noteq> k \<Longrightarrow> map_of (stamp k v m) k' = map_of m k'"
  by (simp add: stamp_def)

lemma map_of_stamp_same: "map_of (stamp k v m) k = (if v \<noteq> [] then Some v else map_of m k)"
  by (simp add: stamp_def)

lemma map_of_update_neq: "k' \<noteq> k \<Longrightarrow> map_of (AList.update k v m) k' = map_of m k'"
  by simp

lemma map_of_update_same: "map_of (AList.update k v m) k = Some v"
  by simp

lemma map_of_if: "map_of (if b then m else m') k = (if b then map_of m k else map_of m' k)"
  by simp

lemmas stamps = map_of_stamp_neq map_of_stamp_same map_of_update_neq map_of_update_same map_of_if

lemma map_of_fold_copy:
  "distinct (map fst m) \<Longrightarrow>
   map_of (fold (\<lambda>(k, v) acc. if P k then AList.update k v acc else acc) m acc) k =
     (case map_of m k of Some v \<Rightarrow> if P k then Some v else map_of acc k | None \<Rightarrow> map_of acc k)"
proof (induction m arbitrary: acc)
  case (Cons x m)
  obtain k' v where x: "x = (k', v)" by (cases x)
  show ?case
  proof (cases "k' = k")
    case True
    with Cons x have "map_of m k = None" by (simp add: map_of_eq_None_iff)
    with Cons x True show ?thesis by simp
  next
    case False
    with Cons x show ?thesis by (simp split: option.split)
  qed
qed simp

lemma map_of_copy_if:
  "distinct (map fst m) \<Longrightarrow> map_of (copy_if P m) k = (if P k then map_of m k else None)"
  by (simp add: copy_if_def map_of_fold_copy split: option.split)

lemma distinct_copy_if: "distinct (map fst (copy_if P m))"
proof -
  have "distinct (map fst acc) \<Longrightarrow>
    distinct (map fst (fold (\<lambda>(k, v) acc. if P k then AList.update k v acc else acc) m acc))" for acc
    by (induction m arbitrary: acc) auto
  then show ?thesis by (simp add: copy_if_def)
qed

lemma map_of_user:
  assumes "distinct (map fst m)"
  shows "map_of (copy_if (\<lambda>_. True) (WithoutReserved m)) k = (if IsReservedProperty k then None else map_of m k)"
proof -
  have "distinct (map fst (WithoutReserved m))"
    using assms by (simp add: WithoutReserved_def distinct_copy_if)
  then have "map_of (copy_if (\<lambda>_. True) (WithoutReserved m)) k = map_of (WithoutReserved m) k"
    by (simp add: map_of_copy_if)
  also have "\<dots> = (if IsReservedProperty k then None else map_of m k)"
  proof (cases "\<exists>kv \<in> set m. IsReservedProperty (fst kv)")
    case True
    with assms show ?thesis by (simp add: WithoutReserved_def map_of_copy_if)
  next
    case False
    then have "IsReservedProperty k \<Longrightarrow> map_of m k = None" by (force simp: map_of_eq_None_iff)
    with False show ?thesis by (simp add: WithoutReserved_def)
  qed
  finally show ?thesis .
qed

lemma reserved_simps [simp]:
  "IsReservedProperty PropertyClientID" "IsReservedProperty PropertyExternalID"
  "IsReservedProperty PropertyProtocol" "IsReservedProperty PropertyMessageID"
  "IsReservedProperty PropertyGroupID" "IsReservedProperty PropertyQueueName"
  "IsReservedProperty PropertyOffset" "IsReservedProperty PropertySourceTopic"
  "IsReservedProperty PropertyStreamOffset" "IsReservedProperty PropertyStreamTimestamp"
  "IsReservedProperty PropertyWorkCommitted" "IsReservedProperty PropertyWorkAcked"
  "IsReservedProperty PropertyWorkGroup" "IsReservedProperty PropertyTransferID"
  "IsReservedProperty PropertyDLQReason" "IsReservedProperty PropertyTraceParent"
  "IsReservedProperty PropertyTraceState" "IsReservedProperty PropertyTraceID"
  by (simp_all add: IsReservedProperty_def reserved_keys_def has_prefix_def ReservedPropertyPrefix_def)


lemmas stamps_only = stamps list.inject char.inject simp_thms list.distinct if_True if_False

text \<open>One lookup in a projection: the stamps in the order the code makes them, then the user's.\<close>

lemma map_of_project_queue:
  "map_of (projectQueueProperties src q m) PropertyQueueName =
     (if qm_Name q \<noteq> [] then Some (qm_Name q) else map_of m PropertyQueueName)"
  "map_of (projectQueueProperties src q m) PropertyGroupID =
     (if qm_GroupID q \<noteq> [] then Some (qm_GroupID q) else map_of m PropertyGroupID)"
  "map_of (projectQueueProperties src q m) PropertyOffset = Some (FormatUint (qm_Offset q))"
  "map_of (projectQueueProperties src q m) PropertySourceTopic =
     (if sm_Topic src \<noteq> [] then Some (sm_Topic src) else map_of m PropertySourceTopic)"
  by (cases "qm_Stream q"; simp only: projectQueueProperties_def Let_def option.case stamps_only; simp)+

lemma map_of_project_stream:
  assumes "qm_Stream q = Some s"
  shows "map_of (projectQueueProperties src q m) PropertyStreamOffset = Some (FormatUint (st_Offset s))"
    and "map_of (projectQueueProperties src q m) PropertyStreamTimestamp =
      (if st_Timestamp s \<noteq> 0 then Some (FormatInt (st_Timestamp s)) else map_of m PropertyStreamTimestamp)"
    and "map_of (projectQueueProperties src q m) PropertyWorkCommitted =
      (if st_HasCommittedOffset s then Some (FormatUint (st_CommittedOffset s)) else map_of m PropertyWorkCommitted)"
    and "map_of (projectQueueProperties src q m) PropertyWorkAcked =
      (if st_HasCommittedOffset s then Some (FormatBool (st_WorkAcknowledged s)) else map_of m PropertyWorkAcked)"
    and "map_of (projectQueueProperties src q m) PropertyWorkGroup =
      (if st_HasCommittedOffset s \<and> st_WorkGroup s \<noteq> [] then Some (st_WorkGroup s) else map_of m PropertyWorkGroup)"
  by (simp_all only: projectQueueProperties_def Let_def assms option.case stamps_only) simp_all

lemma map_of_project_no_stream:
  "qm_Stream q = None \<Longrightarrow>
   map_of (projectQueueProperties src q m) PropertyStreamOffset = map_of m PropertyStreamOffset"
  by (simp only: projectQueueProperties_def Let_def option.case stamps_only)

definition queue_keys :: "string list" where
  "queue_keys = [PropertyMessageID, PropertyGroupID, PropertyQueueName, PropertyOffset, PropertySourceTopic,
     PropertyStreamOffset, PropertyStreamTimestamp, PropertyWorkCommitted, PropertyWorkAcked, PropertyWorkGroup]"

lemma map_of_stamp_other: "k \<noteq> x \<Longrightarrow> map_of m k = w \<Longrightarrow> map_of (stamp x v m) k = w"
  by (simp add: stamp_def)

lemma map_of_update_other: "k \<noteq> x \<Longrightarrow> map_of m k = w \<Longrightarrow> map_of (AList.update x v m) k = w"
  by simp

lemma map_of_if_other: "map_of m k = w \<Longrightarrow> map_of n k = w \<Longrightarrow> map_of (if b then m else n) k = w"
  by simp

lemma map_of_project_other:
  assumes "k \<notin> set queue_keys"
  shows "map_of (projectQueueProperties src q m) k = map_of m k"
proof -
  have ks: "k \<noteq> x" if "x \<in> set queue_keys" for x
    using assms that by blast
  show ?thesis
    by (cases "qm_Stream q"; simp only: projectQueueProperties_def Let_def option.case;
        intro map_of_if_other map_of_stamp_other map_of_update_other refl; rule ks; simp add: queue_keys_def)
qed

text \<open>Two maps that agree on a key still do after the same stamps.\<close>

lemma agree_stamp: "map_of m k = map_of m' k \<Longrightarrow> map_of (stamp x v m) k = map_of (stamp x v m') k"
  by (simp add: stamp_def)

lemma agree_update: "map_of m k = map_of m' k \<Longrightarrow> map_of (AList.update x v m) k = map_of (AList.update x v m') k"
  by simp

lemma agree_if:
  "map_of m k = map_of m' k \<Longrightarrow> map_of n k = map_of n' k \<Longrightarrow>
   map_of (if b then m else n) k = map_of (if b then m' else n') k"
  by simp

lemmas agree = agree_if agree_stamp agree_update

lemma agree_project_queue:
  "map_of m k = map_of m' k \<Longrightarrow>
   map_of (projectQueueProperties src q m) k = map_of (projectQueueProperties src q m') k"
  by (cases "qm_Stream q"; simp only: projectQueueProperties_def Let_def option.case; intro agree; assumption)

abbreviation user_props :: "envelope \<Rightarrow> props" where
  "user_props e \<equiv> pm_Properties (ev_PublisherMeta e)"

lemma agree_project:
  assumes "map_of (copy_if (\<lambda>_. True) (WithoutReserved (user_props e))) k =
      map_of (copy_if (\<lambda>_. True) (WithoutReserved (user_props e'))) k"
    and "pm_MessageID (ev_PublisherMeta e) = pm_MessageID (ev_PublisherMeta e')"
    and "ev_BrokerMeta e = ev_BrokerMeta e'"
  shows "map_of (ProjectProperties pj e) k = map_of (ProjectProperties pj e') k"
  unfolding ProjectProperties_def Let_def assms(2,3)
  by (intro agree agree_project_queue assms(1))

lemma lookup_project:
  fixes e :: envelope
  assumes "distinct (map fst (user_props e))"
  defines "b \<equiv> ev_BrokerMeta e"
  shows "map_of (ProjectProperties pj e) PropertyOffset =
      (if pj_Queue pj \<and> hasQueueProjection (bm_Queue b) then Some (FormatUint (qm_Offset (bm_Queue b))) else None)"
    and "map_of (ProjectProperties pj e) PropertyClientID =
      (if pj_Source pj \<and> sm_ClientID (bm_Source b) \<noteq> [] then Some (sm_ClientID (bm_Source b)) else None)"
    and "map_of (ProjectProperties pj e) PropertyExternalID =
      (if pj_Source pj \<and> sm_ExternalID (bm_Source b) \<noteq> [] then Some (sm_ExternalID (bm_Source b)) else None)"
    and "map_of (ProjectProperties pj e) PropertyProtocol =
      (if pj_Source pj \<and> sm_Protocol (bm_Source b) \<noteq> [] then Some (sm_Protocol (bm_Source b)) else None)"
    and "map_of (ProjectProperties pj e) PropertyTraceParent =
      (if pj_Trace pj \<and> tr_TraceParent (bm_Trace b) \<noteq> [] then Some (tr_TraceParent (bm_Trace b)) else None)"
    and "map_of (ProjectProperties pj e) PropertyTraceState =
      (if pj_Trace pj \<and> tr_TraceState (bm_Trace b) \<noteq> [] then Some (tr_TraceState (bm_Trace b)) else None)"
    and "map_of (ProjectProperties pj e) PropertyTraceID =
      (if pj_Trace pj \<and> tr_TraceID (bm_Trace b) \<noteq> [] then Some (tr_TraceID (bm_Trace b)) else None)"
    and "map_of (ProjectProperties pj e) PropertyTransferID =
      (if pj_Transfer pj \<and> tm_ID (bm_Transfer b) \<noteq> [] then Some (tm_ID (bm_Transfer b)) else None)"
    and "map_of (ProjectProperties pj e) PropertyDLQReason =
      (if pj_Transfer pj \<and> tm_FailureReason (bm_Transfer b) \<noteq> [] then Some (tm_FailureReason (bm_Transfer b)) else None)"
  unfolding ProjectProperties_def Let_def b_def
  by (simp_all only: stamps_only map_of_project_queue map_of_project_other queue_keys_def list.set insert_iff
      empty_iff map_of_user [OF assms(1)] reserved_simps) simp_all

lemma lookup_project_queue:
  fixes e :: envelope
  assumes "distinct (map fst (user_props e))" and "pj_Queue pj" and "hasQueueProjection (bm_Queue (ev_BrokerMeta e))"
  defines "q \<equiv> bm_Queue (ev_BrokerMeta e)"
  shows "prop_at (ProjectProperties pj e) PropertyQueueName = qm_Name q"
    and "prop_at (ProjectProperties pj e) PropertyGroupID = qm_GroupID q"
    and "prop_at (ProjectProperties pj e) PropertySourceTopic = sm_Topic (bm_Source (ev_BrokerMeta e))"
    and "qm_Stream q = None \<Longrightarrow> map_of (ProjectProperties pj e) PropertyStreamOffset = None"
  unfolding ProjectProperties_def Let_def q_def prop_at_def
  by (simp_all only: stamps_only map_of_project_queue map_of_project_no_stream
      map_of_user [OF assms(1)] reserved_simps assms(2,3)) simp_all

lemma lookup_project_stream:
  fixes e :: envelope
  assumes "distinct (map fst (user_props e))" and "pj_Queue pj" and "hasQueueProjection (bm_Queue (ev_BrokerMeta e))"
    and "qm_Stream (bm_Queue (ev_BrokerMeta e)) = Some s"
  shows "map_of (ProjectProperties pj e) PropertyStreamOffset = Some (FormatUint (st_Offset s))"
    and "map_of (ProjectProperties pj e) PropertyStreamTimestamp =
      (if st_Timestamp s \<noteq> 0 then Some (FormatInt (st_Timestamp s)) else None)"
    and "map_of (ProjectProperties pj e) PropertyWorkCommitted =
      (if st_HasCommittedOffset s then Some (FormatUint (st_CommittedOffset s)) else None)"
    and "map_of (ProjectProperties pj e) PropertyWorkAcked =
      (if st_HasCommittedOffset s then Some (FormatBool (st_WorkAcknowledged s)) else None)"
    and "map_of (ProjectProperties pj e) PropertyWorkGroup =
      (if st_HasCommittedOffset s \<and> st_WorkGroup s \<noteq> [] then Some (st_WorkGroup s) else None)"
  unfolding ProjectProperties_def Let_def
  by (simp_all only: stamps_only map_of_project_stream [OF assms(4)]
      map_of_user [OF assms(1)] reserved_simps assms(2,3)) simp_all


lemma lookup_project_user:
  assumes "distinct (map fst (user_props e))" and "\<not> IsReservedProperty k"
  shows "map_of (ProjectProperties pj e) k = map_of (user_props e) k"
proof -
  have ks: "k \<noteq> x" if "IsReservedProperty x" for x
    using assms(2) that by blast
  have kq: "k \<notin> set queue_keys" using ks by (auto simp: queue_keys_def)
  have u: "map_of (copy_if (\<lambda>_. True) (WithoutReserved (user_props e))) k = map_of (user_props e) k"
    using assms by (simp add: map_of_user)
  show ?thesis
    unfolding ProjectProperties_def Let_def
    by (intro map_of_if_other map_of_stamp_other trans [OF map_of_project_other [OF kq]] u; rule ks; simp)
qed

lemma distinct_stamp: "distinct (map fst m) \<Longrightarrow> distinct (map fst (stamp k v m))"
  by (simp add: stamp_def)

lemma distinct_if: "distinct (map fst m) \<Longrightarrow> distinct (map fst n) \<Longrightarrow> distinct (map fst (if b then m else n))"
  by simp

lemma distinct_project_queue:
  "distinct (map fst m) \<Longrightarrow> distinct (map fst (projectQueueProperties src q m))"
  by (cases "qm_Stream q"; simp only: projectQueueProperties_def Let_def option.case;
      intro distinct_if distinct_stamp distinct_update_keys; assumption)

lemma distinct_project: "distinct (map fst (ProjectProperties pj e))"
  unfolding ProjectProperties_def Let_def
  by (intro distinct_if distinct_stamp distinct_project_queue distinct_copy_if)


section \<open>Decoding a projection\<close>

text \<open>A stream section whose unset parts are zero and whose timestamp fits 64 bits.\<close>

definition stream_normal :: "stream_metadata \<Rightarrow> bool" where
  "stream_normal s \<longleftrightarrow>
     - (2 ^ 63) \<le> st_Timestamp s \<and> st_Timestamp s < 2 ^ 63 \<and>
     (st_HasCommittedOffset s \<or>
      st_CommittedOffset s = 0 \<and> st_WorkAcknowledged s = False \<and> st_WorkGroup s = [])"

lemma parse_uint_prop_format: "parse_uint_prop n (FormatUint x) t = (x, [])"
  by (simp add: parse_uint_prop_def ParseUint_FormatUint)

lemma apply_stream_project:
  fixes e :: envelope
  assumes "distinct (map fst (user_props e))" and "pj_Queue pj" and "hasQueueProjection (bm_Queue (ev_BrokerMeta e))"
    and "qm_Stream (bm_Queue (ev_BrokerMeta e)) = Some s" and "stream_normal s"
  shows "apply_stream (ProjectProperties pj e) (FormatUint (st_Offset s)) = (s, [])"
proof -
  have t: "ParseInt (FormatInt (st_Timestamp s)) = Inr (st_Timestamp s)"
    using assms(5) by (intro ParseInt_FormatInt) (simp_all add: stream_normal_def)
  show ?thesis
    using assms(5)
    by (cases "st_HasCommittedOffset s")
       (auto simp: apply_stream_def prop_at_def lookup_project_stream [OF assms(1-4)] t Let_def
        parse_uint_prop_format ParseBool_FormatBool stream_normal_def)
qed

lemma apply_project_queue:
  fixes e :: envelope
  assumes "distinct (map fst (user_props e))" and "pj_Queue pj" and "hasQueueProjection (bm_Queue (ev_BrokerMeta e))"
    and "\<And>s. qm_Stream (bm_Queue (ev_BrokerMeta e)) = Some s \<Longrightarrow> stream_normal s"
    and "qm_Stream (bm_Queue (ev_BrokerMeta e0)) = None"
  shows "snd (ApplyTrustedProperties (ProjectProperties pj e) e0) = []"
    and "qm_Offset (bm_Queue (ev_BrokerMeta (fst (ApplyTrustedProperties (ProjectProperties pj e) e0)))) =
      qm_Offset (bm_Queue (ev_BrokerMeta e))"
    and "qm_Stream (bm_Queue (ev_BrokerMeta (fst (ApplyTrustedProperties (ProjectProperties pj e) e0)))) =
      qm_Stream (bm_Queue (ev_BrokerMeta e))"
proof -
  have o: "parse_uint_prop PropertyOffset (prop_at (ProjectProperties pj e) PropertyOffset) t =
      (qm_Offset (bm_Queue (ev_BrokerMeta e)), [])" for t
    using lookup_project(1) [OF assms(1), of pj] assms(2,3) by (simp add: prop_at_def parse_uint_prop_format)
  have "snd (ApplyTrustedProperties (ProjectProperties pj e) e0) = [] \<and>
    qm_Offset (bm_Queue (ev_BrokerMeta (fst (ApplyTrustedProperties (ProjectProperties pj e) e0)))) =
      qm_Offset (bm_Queue (ev_BrokerMeta e)) \<and>
    qm_Stream (bm_Queue (ev_BrokerMeta (fst (ApplyTrustedProperties (ProjectProperties pj e) e0)))) =
      qm_Stream (bm_Queue (ev_BrokerMeta e))"
  proof (cases "qm_Stream (bm_Queue (ev_BrokerMeta e))")
    case None
    have m: "map_of (ProjectProperties pj e) PropertyStreamOffset = None"
      using lookup_project_queue(4) [OF assms(1-3) None] .
    show ?thesis
      unfolding ApplyTrustedProperties_def Let_def o m option.case prod.case by (simp add: None assms(5))
  next
    case (Some st)
    have m: "map_of (ProjectProperties pj e) PropertyStreamOffset = Some (FormatUint (st_Offset st))"
      using lookup_project_stream(1) [OF assms(1-3) Some] .
    show ?thesis
      unfolding ApplyTrustedProperties_def Let_def o m option.case
        apply_stream_project [OF assms(1-3) Some assms(4) [OF Some]] prod.case
      by (simp add: Some)
  qed
  then show "snd (ApplyTrustedProperties (ProjectProperties pj e) e0) = []"
    and "qm_Offset (bm_Queue (ev_BrokerMeta (fst (ApplyTrustedProperties (ProjectProperties pj e) e0)))) =
      qm_Offset (bm_Queue (ev_BrokerMeta e))"
    and "qm_Stream (bm_Queue (ev_BrokerMeta (fst (ApplyTrustedProperties (ProjectProperties pj e) e0)))) =
      qm_Stream (bm_Queue (ev_BrokerMeta e))" by blast+
qed


section \<open>Properties\<close>

text \<open>
  C18. The offset a consumer settles on is the one the broker stamped: recovering the queue offset
  from a projected property map yields the record's offset when the projection carries a queue
  delivery, offset zero included, and reports absence otherwise, whatever the publisher wrote into
  its user properties.
\<close>

theorem queue_offset_recovered:
  assumes "distinct (map fst (user_props e))"
  shows "QueueOffsetFromProperties (ProjectProperties pj e) =
    (if pj_Queue pj \<and> hasQueueProjection (bm_Queue (ev_BrokerMeta e))
     then (qm_Offset (bm_Queue (ev_BrokerMeta e)), True) else (0, False))"
  by (simp add: QueueOffsetFromProperties_def lookup_project(1) [OF assms] ParseUint_FormatUint)

theorem queue_offset_recovered_witness:
  "QueueOffsetFromProperties (ProjectProperties PublicProjection
     (Acquire\<lparr>ev_PublisherMeta := zero_publisher\<lparr>pm_Properties := [(''offset'', ''9'')]\<rparr>,
              ev_BrokerMeta := zero_broker\<lparr>bm_Queue := zero_queue\<lparr>qm_Name := ''q''\<rparr>\<rparr>\<rparr>)) = (0, True)"
  using queue_offset_recovered [of "Acquire\<lparr>ev_PublisherMeta := zero_publisher\<lparr>pm_Properties := [(''offset'', ''9'')]\<rparr>,
      ev_BrokerMeta := zero_broker\<lparr>bm_Queue := zero_queue\<lparr>qm_Name := ''q''\<rparr>\<rparr>\<rparr>" PublicProjection]
  by (simp add: PublicProjection_def hasQueueProjection_def zero_queue_def zero_broker_def)

text \<open>
  C17. A publisher cannot forge broker metadata: under every projection the value of a reserved
  property is the same whatever the user properties are; and the public projection never shows
  the origin's identity or the trace context.
\<close>

theorem projection_not_forgeable:
  assumes "distinct (map fst (user_props e))" and "distinct (map fst p)"
  shows "(IsReservedProperty k \<longrightarrow>
      map_of (ProjectProperties pj (e\<lparr>ev_PublisherMeta := (ev_PublisherMeta e)\<lparr>pm_Properties := p\<rparr>\<rparr>)) k =
      map_of (ProjectProperties pj e) k) \<and>
    (k \<in> {PropertyClientID, PropertyExternalID, PropertyProtocol, PropertyTraceParent, PropertyTraceState,
           PropertyTraceID} \<longrightarrow> map_of (ProjectProperties PublicProjection e) k = None)"
proof (intro conjI impI)
  show "map_of (ProjectProperties pj (e\<lparr>ev_PublisherMeta := (ev_PublisherMeta e)\<lparr>pm_Properties := p\<rparr>\<rparr>)) k =
      map_of (ProjectProperties pj e) k" if "IsReservedProperty k"
    using assms that by (intro agree_project) (simp_all add: map_of_user)
  show "map_of (ProjectProperties PublicProjection e) k = None"
    if "k \<in> {PropertyClientID, PropertyExternalID, PropertyProtocol, PropertyTraceParent, PropertyTraceState,
           PropertyTraceID}"
    using that lookup_project(2-7) [OF assms(1), of PublicProjection]
    by (elim insertE emptyE) (simp_all add: PublicProjection_def)
qed

theorem projection_not_forgeable_witness:
  "map_of (ProjectProperties PublicProjection
     (Acquire\<lparr>ev_PublisherMeta := zero_publisher\<lparr>pm_Properties := [(''client_id'', ''root'')]\<rparr>\<rparr>)) ''client_id'' = None"
proof -
  have "distinct (map fst (user_props Acquire))" by (simp add: Acquire_def zero_publisher_def)
  from projection_not_forgeable [OF this, of "[(''client_id'', ''root'')]" "PropertyClientID" PublicProjection]
  show ?thesis by (simp add: Acquire_def)
qed



end
