(* ===== verification/Consumer_Group.thy ===== *)
theory Consumer_Group
  imports Topics
begin

text \<open>
  \<^verbatim>\<open>queue/types/log.go\<close>: the state of a consumer group (cursor, pending entry list, members) with
  every method of \<^verbatim>\<open>ConsumerGroup\<close>, and the routing-key helpers at the end of the file. The mutex
  makes each method atomic, so a method is one function on the record. The entry pointers of the
  list are never shared across consumers and never nil (every producer stores a fresh entry), so an
  entry is a value. A method that stamps \<^verbatim>\<open>UpdatedAt\<close> takes the instant as \<open>now\<close>.
\<close>

record pending_entry =
  pe_Offset :: u64
  pe_ConsumerID :: string
  pe_ClaimedAt :: instant
  pe_DeliveryCount :: int

record queue_cursor =
  qc_Cursor :: u64
  qc_Committed :: u64

record consumer_info =
  ci_ID :: string
  ci_ClientID :: string
  ci_ProxyNodeID :: string
  ci_RegisteredAt :: instant
  ci_LastHeartbeat :: instant

record consumer_group =
  cg_ID :: string
  cg_QueueName :: string
  cg_Pattern :: string
  cg_Mode :: string
  cg_AutoCommit :: bool
  cg_Cursor :: "queue_cursor option"
  cg_PEL :: "(string, pending_entry list) gomap"
  cg_Consumers :: "(string, consumer_info) gomap"
  cg_CreatedAt :: instant
  cg_UpdatedAt :: instant

definition GroupModeQueue :: string where "GroupModeQueue = ''queue''"

definition GroupModeStream :: string where "GroupModeStream = ''stream''"

definition zero_cursor :: queue_cursor where
  "zero_cursor = \<lparr>qc_Cursor = 0, qc_Committed = 0\<rparr>"

definition zero_entry :: pending_entry where
  "zero_entry = \<lparr>pe_Offset = 0, pe_ConsumerID = [], pe_ClaimedAt = zero_time, pe_DeliveryCount = 0\<rparr>"

definition zero_consumer :: consumer_info where
  "zero_consumer = \<lparr>ci_ID = [], ci_ClientID = [], ci_ProxyNodeID = [], ci_RegisteredAt = zero_time,
     ci_LastHeartbeat = zero_time\<rparr>"

definition NewConsumerGroupState :: "instant \<Rightarrow> string \<Rightarrow> string \<Rightarrow> string \<Rightarrow> consumer_group" where
  "NewConsumerGroupState now queueName groupID pattern =
     \<lparr>cg_ID = groupID, cg_QueueName = queueName, cg_Pattern = pattern, cg_Mode = GroupModeQueue,
      cg_AutoCommit = True, cg_Cursor = Some zero_cursor, cg_PEL = [], cg_Consumers = [],
      cg_CreatedAt = now, cg_UpdatedAt = now\<rparr>"


section \<open>The cursor\<close>

definition CursorView :: "consumer_group \<Rightarrow> queue_cursor" where
  "CursorView g = (case cg_Cursor g of None \<Rightarrow> zero_cursor | Some c \<Rightarrow> c)"

definition SetCursor :: "instant \<Rightarrow> u64 \<Rightarrow> u64 \<Rightarrow> consumer_group \<Rightarrow> consumer_group" where
  "SetCursor now cursor committed g =
     g\<lparr>cg_Cursor := Some ((CursorView g)\<lparr>qc_Cursor := cursor, qc_Committed := committed\<rparr>),
       cg_UpdatedAt := now\<rparr>"

definition SetCursorPosition :: "instant \<Rightarrow> u64 \<Rightarrow> consumer_group \<Rightarrow> consumer_group" where
  "SetCursorPosition now cursor g =
     g\<lparr>cg_Cursor := Some ((CursorView g)\<lparr>qc_Cursor := cursor\<rparr>), cg_UpdatedAt := now\<rparr>"

definition SetCommitted :: "instant \<Rightarrow> u64 \<Rightarrow> consumer_group \<Rightarrow> consumer_group" where
  "SetCommitted now committed g =
     g\<lparr>cg_Cursor := Some ((CursorView g)\<lparr>qc_Committed := committed\<rparr>), cg_UpdatedAt := now\<rparr>"

definition SetAutoCommit :: "instant \<Rightarrow> bool \<Rightarrow> consumer_group \<Rightarrow> consumer_group" where
  "SetAutoCommit now autoCommit g = g\<lparr>cg_AutoCommit := autoCommit, cg_UpdatedAt := now\<rparr>"

definition AutoCommitEnabled :: "consumer_group \<Rightarrow> bool" where
  "AutoCommitEnabled g = cg_AutoCommit g"

definition AdvanceCommitted :: "instant \<Rightarrow> u64 \<Rightarrow> consumer_group \<Rightarrow> consumer_group" where
  "AdvanceCommitted now committed g =
     (let c = CursorView g;
          c = (if committed > qc_Cursor c then c\<lparr>qc_Cursor := committed\<rparr> else c);
          c = c\<lparr>qc_Committed := committed\<rparr>
      in g\<lparr>cg_Cursor := Some c, cg_UpdatedAt := now\<rparr>)"


section \<open>The pending entry list\<close>

text \<open>\<^verbatim>\<open>g.PEL[consumerID]\<close>: the zero value of an absent key is the nil slice.\<close>

definition pel_of :: "consumer_group \<Rightarrow> string \<Rightarrow> pending_entry list" where
  "pel_of g consumerID = (case map_of (cg_PEL g) consumerID of None \<Rightarrow> [] | Some es \<Rightarrow> es)"

definition set_pel :: "string \<Rightarrow> pending_entry list \<Rightarrow> consumer_group \<Rightarrow> consumer_group" where
  "set_pel consumerID es g = g\<lparr>cg_PEL := AList.update consumerID es (cg_PEL g)\<rparr>"

definition touch :: "instant \<Rightarrow> consumer_group \<Rightarrow> consumer_group" where
  "touch now g = g\<lparr>cg_UpdatedAt := now\<rparr>"

definition PendingCount :: "consumer_group \<Rightarrow> nat" where
  "PendingCount g = fold (\<lambda>(_, entries) count. count + length entries) (cg_PEL g) 0"

definition ClearPending :: "instant \<Rightarrow> consumer_group \<Rightarrow> nat \<times> consumer_group" where
  "ClearPending now g =
     (let cleared = fold (\<lambda>(_, entries) cleared. cleared + length entries) (cg_PEL g) 0
      in if cleared = 0 then (0, g) else (cleared, touch now (g\<lparr>cg_PEL := []\<rparr>)))"

definition PendingCountFor :: "consumer_group \<Rightarrow> string \<Rightarrow> nat" where
  "PendingCountFor g consumerID = length (pel_of g consumerID)"

definition ReplacePEL ::
  "instant \<Rightarrow> (string, pending_entry list) gomap \<Rightarrow> consumer_group \<Rightarrow> consumer_group" where
  "ReplacePEL now pel g = touch now (g\<lparr>cg_PEL := pel\<rparr>)"

definition ReplaceConsumers ::
  "instant \<Rightarrow> (string, consumer_info) gomap \<Rightarrow> consumer_group \<Rightarrow> consumer_group" where
  "ReplaceConsumers now consumers g = touch now (g\<lparr>cg_Consumers := consumers\<rparr>)"

definition AddPending :: "instant \<Rightarrow> string \<Rightarrow> pending_entry \<Rightarrow> consumer_group \<Rightarrow> consumer_group" where
  "AddPending now consumerID entry g = touch now (set_pel consumerID (pel_of g consumerID @ [entry]) g)"

definition RemovePending :: "instant \<Rightarrow> string \<Rightarrow> u64 \<Rightarrow> consumer_group \<Rightarrow> bool \<times> consumer_group" where
  "RemovePending now consumerID offset g =
     (case map_of (cg_PEL g) consumerID of
        None \<Rightarrow> (False, g)
      | Some entries \<Rightarrow>
          if \<exists>e \<in> set entries. pe_Offset e = offset
          then (True, touch now (set_pel consumerID (remove_first (\<lambda>e. pe_Offset e = offset) entries) g))
          else (False, g))"

definition DeleteConsumerPEL :: "instant \<Rightarrow> string \<Rightarrow> consumer_group \<Rightarrow> consumer_group" where
  "DeleteConsumerPEL now consumerID g = touch now (g\<lparr>cg_PEL := AList.delete consumerID (cg_PEL g)\<rparr>)"

fun find_pending :: "u64 \<Rightarrow> (string, pending_entry list) gomap \<Rightarrow> (pending_entry \<times> string) option" where
  "find_pending offset [] = None"
| "find_pending offset ((consumerID, entries) # rest) =
     (case List.find (\<lambda>e. pe_Offset e = offset) entries of
        Some e \<Rightarrow> Some (e, consumerID)
      | None \<Rightarrow> find_pending offset rest)"

definition FindPending :: "consumer_group \<Rightarrow> u64 \<Rightarrow> pending_entry \<times> string" where
  "FindPending g offset =
     (case find_pending offset (cg_PEL g) of Some r \<Rightarrow> r | None \<Rightarrow> (zero_entry, []))"

text \<open>The in-place change of the first entry at the offset.\<close>

fun update_first :: "('a \<Rightarrow> bool) \<Rightarrow> ('a \<Rightarrow> 'a) \<Rightarrow> 'a list \<Rightarrow> 'a list" where
  "update_first P f [] = []"
| "update_first P f (x # xs) = (if P x then f x # xs else x # update_first P f xs)"

definition RequeuePending ::
  "instant \<Rightarrow> u64 \<Rightarrow> string \<Rightarrow> instant \<Rightarrow> consumer_group \<Rightarrow> bool \<times> consumer_group" where
  "RequeuePending now offset consumerID attemptedAt g =
     (let entries = pel_of g consumerID
      in if \<exists>e \<in> set entries. pe_Offset e = offset
         then (True, touch now (set_pel consumerID
                (update_first (\<lambda>e. pe_Offset e = offset) (\<lambda>e. e\<lparr>pe_ClaimedAt := attemptedAt\<rparr>) entries) g))
         else (False, g))"

definition TransferPending ::
  "instant \<Rightarrow> u64 \<Rightarrow> string \<Rightarrow> string \<Rightarrow> consumer_group \<Rightarrow> bool \<times> consumer_group" where
  "TransferPending now offset fromConsumer toConsumer g =
     (case map_of (cg_PEL g) fromConsumer of
        None \<Rightarrow> (False, g)
      | Some entries \<Rightarrow>
          (case List.find (\<lambda>e. pe_Offset e = offset) entries of
             None \<Rightarrow> (False, g)
           | Some e \<Rightarrow>
               (let g = set_pel fromConsumer (remove_first (\<lambda>e. pe_Offset e = offset) entries) g;
                    e = e\<lparr>pe_ConsumerID := toConsumer, pe_ClaimedAt := now,
                          pe_DeliveryCount := pe_DeliveryCount e + 1\<rparr>
                in (True, touch now (set_pel toConsumer (pel_of g toConsumer @ [e]) g)))))"

text \<open>The pair of loop variables \<^verbatim>\<open>minOffset\<close>, \<^verbatim>\<open>found\<close>.\<close>

definition min_step :: "pending_entry \<Rightarrow> u64 \<times> bool \<Rightarrow> u64 \<times> bool" where
  "min_step e = (\<lambda>(minOffset, found).
     if \<not> found \<or> pe_Offset e < minOffset then (pe_Offset e, True) else (minOffset, found))"

definition MinPendingOffset :: "consumer_group \<Rightarrow> u64 \<times> bool" where
  "MinPendingOffset g = fold (\<lambda>(_, entries) acc. fold min_step entries acc) (cg_PEL g) (0, False)"

definition PendingOffsets :: "consumer_group \<Rightarrow> u64 set" where
  "PendingOffsets g =
     fold (\<lambda>(_, entries) offsets. fold (\<lambda>e. insert (pe_Offset e)) entries offsets) (cg_PEL g) {}"

definition StealableEntries ::
  "instant \<Rightarrow> duration \<Rightarrow> string \<Rightarrow> consumer_group \<Rightarrow> pending_entry list" where
  "StealableEntries now visibilityTimeout excludeConsumer g =
     (let cutoff = now - visibilityTimeout
      in concat (map (\<lambda>(consumerID, entries).
           if consumerID = excludeConsumer then []
           else
             (let registered = (map_of (cg_Consumers g) consumerID \<noteq> None)
              in filter (\<lambda>e. \<not> registered \<or> pe_ClaimedAt e < cutoff) entries)) (cg_PEL g)))"


section \<open>Members\<close>

definition GetConsumer :: "consumer_group \<Rightarrow> string \<Rightarrow> consumer_info \<times> bool" where
  "GetConsumer g consumerID =
     (case map_of (cg_Consumers g) consumerID of None \<Rightarrow> (zero_consumer, False) | Some c \<Rightarrow> (c, True))"

definition TouchConsumer ::
  "instant \<Rightarrow> string \<Rightarrow> instant \<Rightarrow> consumer_group \<Rightarrow> (consumer_info \<times> bool) \<times> consumer_group" where
  "TouchConsumer now consumerID heartbeatAt g =
     (case map_of (cg_Consumers g) consumerID of
        None \<Rightarrow> ((zero_consumer, False), g)
      | Some c \<Rightarrow>
          (let c = c\<lparr>ci_LastHeartbeat := heartbeatAt\<rparr>
           in ((c, True), touch now (g\<lparr>cg_Consumers := AList.update consumerID c (cg_Consumers g)\<rparr>))))"

definition SetConsumer :: "instant \<Rightarrow> string \<Rightarrow> consumer_info \<Rightarrow> consumer_group \<Rightarrow> consumer_group" where
  "SetConsumer now consumerID info g =
     touch now (g\<lparr>cg_Consumers := AList.update consumerID info (cg_Consumers g)\<rparr>)"

definition DeleteConsumer :: "instant \<Rightarrow> string \<Rightarrow> consumer_group \<Rightarrow> consumer_group" where
  "DeleteConsumer now consumerID g =
     touch now (g\<lparr>cg_Consumers := AList.delete consumerID (cg_Consumers g)\<rparr>)"

definition ConsumerCount :: "consumer_group \<Rightarrow> nat" where
  "ConsumerCount g = length (cg_Consumers g)"

definition ConsumerIDs :: "consumer_group \<Rightarrow> string list" where
  "ConsumerIDs g = gomap_keys (cg_Consumers g)"

text \<open>\<^verbatim>\<open>ForEachConsumer\<close> with the state its callback threads; the callback's flag stops the loop.\<close>

fun for_each_consumer ::
  "(string \<Rightarrow> consumer_info \<Rightarrow> 's \<Rightarrow> bool \<times> 's) \<Rightarrow> (string, consumer_info) gomap \<Rightarrow> 's \<Rightarrow> 's" where
  "for_each_consumer fn [] s = s"
| "for_each_consumer fn ((i, info) # rest) s =
     (case fn i info s of (continue, s) \<Rightarrow> if continue then for_each_consumer fn rest s else s)"

definition ForEachConsumer ::
  "(string \<Rightarrow> consumer_info \<Rightarrow> 's \<Rightarrow> bool \<times> 's) \<Rightarrow> consumer_group \<Rightarrow> 's \<Rightarrow> 's" where
  "ForEachConsumer fn g s = for_each_consumer fn (cg_Consumers g) s"


section \<open>Snapshots\<close>

record group_snapshot =
  sn_ID :: string
  sn_QueueName :: string
  sn_Pattern :: string
  sn_Mode :: string
  sn_AutoCommit :: bool
  sn_Cursor :: queue_cursor
  sn_PEL :: "(string, pending_entry list) gomap"
  sn_Consumers :: "(string, consumer_info) gomap"
  sn_CreatedAt :: instant
  sn_UpdatedAt :: instant

definition Group_Snapshot :: "consumer_group \<Rightarrow> group_snapshot" where
  "Group_Snapshot g =
     \<lparr>sn_ID = cg_ID g, sn_QueueName = cg_QueueName g, sn_Pattern = cg_Pattern g, sn_Mode = cg_Mode g,
      sn_AutoCommit = cg_AutoCommit g, sn_Cursor = CursorView g, sn_PEL = cg_PEL g,
      sn_Consumers = cg_Consumers g, sn_CreatedAt = cg_CreatedAt g, sn_UpdatedAt = cg_UpdatedAt g\<rparr>"


section \<open>Routing keys\<close>

text \<open>The loop over the levels of the root; the topic levels not yet consumed are \<open>ts\<close>.\<close>

fun routing_key_loop :: "string list \<Rightarrow> string list \<Rightarrow> string" where
  "routing_key_loop [] ts = str_join (CHR ''/'') ts"
| "routing_key_loop (r # rs) ts =
     (if r = ''#'' then str_join (CHR ''/'') ts
      else (case ts of
              [] \<Rightarrow> []
            | t # ts' \<Rightarrow>
                if r = ''+'' then routing_key_loop rs ts'
                else if r \<noteq> t then [] else routing_key_loop rs ts'))"

definition ExtractRoutingKey :: "string \<Rightarrow> string \<Rightarrow> string" where
  "ExtractRoutingKey topic queueRoot =
     (if topic = [] \<or> queueRoot = [] then []
      else routing_key_loop (levels queueRoot) (levels topic))"

definition queue_prefix :: string where "queue_prefix = ''$queue/''"

text \<open>\<^verbatim>\<open>SplitN(rest, "/", 2)[0]\<close> is what precedes the first separator.\<close>

definition ExtractQueueRoot :: "string \<Rightarrow> string" where
  "ExtractQueueRoot topic =
     (if \<not> has_prefix topic queue_prefix then []
      else queue_prefix @ fst (str_cut (CHR ''/'') (drop (length queue_prefix) topic)))"

definition IsQueueWildcard :: "string \<Rightarrow> bool" where
  "IsQueueWildcard pattern \<longleftrightarrow> contains_char pattern (CHR ''+'') \<or> contains_char pattern (CHR ''#'')"


section \<open>The invariant of the pending list\<close>

text \<open>
  One entry per offset in the whole group, filed under the consumer it names.
\<close>

definition pending :: "consumer_group \<Rightarrow> pending_entry set" where
  "pending g = {e. \<exists>c. e \<in> set (pel_of g c)}"

definition pel_inv :: "consumer_group \<Rightarrow> bool" where
  "pel_inv g \<longleftrightarrow>
     distinct (map fst (cg_PEL g)) \<and>
     (\<forall>c. distinct (map pe_Offset (pel_of g c)) \<and> (\<forall>e \<in> set (pel_of g c). pe_ConsumerID e = c)) \<and>
     inj_on pe_Offset (pending g)"

lemma pel_of_set_pel [simp]: "pel_of (set_pel c es g) = (pel_of g)(c := es)"
  by (auto simp: pel_of_def set_pel_def fun_eq_iff)

lemma pel_of_touch [simp]: "pel_of (touch now g) = pel_of g"
  by (simp add: touch_def pel_of_def fun_eq_iff)

lemma pending_touch [simp]: "pending (touch now g) = pending g"
  by (simp add: pending_def)

lemma pel_inv_touch [simp]: "pel_inv (touch now g) = pel_inv g"
  by (simp add: pel_inv_def) (simp add: touch_def)

lemma PEL_set_pel [simp]: "cg_PEL (set_pel c es g) = AList.update c es (cg_PEL g)"
  by (simp add: set_pel_def)

lemma pel_inv_new: "pel_inv (NewConsumerGroupState now q i p)"
  by (simp add: pel_inv_def pending_def pel_of_def NewConsumerGroupState_def)

lemma pel_pending: "e \<in> set (pel_of g c) \<Longrightarrow> e \<in> pending g"
  by (auto simp: pending_def)

lemma pel_inv_owner: "pel_inv g \<Longrightarrow> e \<in> set (pel_of g c) \<Longrightarrow> pe_ConsumerID e = c"
  by (simp add: pel_inv_def)

lemma pending_owner: "pel_inv g \<Longrightarrow> e \<in> pending g \<longleftrightarrow> e \<in> set (pel_of g (pe_ConsumerID e))"
  by (auto simp: pending_def dest: pel_inv_owner)

lemma pending_unique:
  "pel_inv g \<Longrightarrow> e \<in> pending g \<Longrightarrow> e' \<in> pending g \<Longrightarrow> pe_Offset e = pe_Offset e' \<Longrightarrow> e = e'"
  unfolding pel_inv_def inj_on_def by blast

text \<open>Rewriting one consumer's list keeps the invariant when it only drops or replaces entries.\<close>

lemma pending_set_pel:
  "pending (set_pel c es g) = set es \<union> {e. \<exists>c'. c' \<noteq> c \<and> e \<in> set (pel_of g c')}"
  by (auto simp: pending_def)

lemma pending_set_pel_inv:
  "pel_inv g \<Longrightarrow> pending (set_pel c es g) = set es \<union> {e \<in> pending g. pe_ConsumerID e \<noteq> c}"
  unfolding pending_set_pel by (auto simp: pending_def dest: pel_inv_owner)

lemma pel_inv_set_pel:
  assumes "pel_inv g" and "distinct (map pe_Offset es)" and "\<forall>e \<in> set es. pe_ConsumerID e = c"
    and "\<And>e e'. e \<in> set es \<Longrightarrow> e' \<in> pending g \<Longrightarrow> pe_ConsumerID e' \<noteq> c \<Longrightarrow> pe_Offset e \<noteq> pe_Offset e'"
  shows "pel_inv (set_pel c es g)"
proof -
  have "inj_on pe_Offset (set es \<union> {e \<in> pending g. pe_ConsumerID e \<noteq> c})"
    using assms(1,2,4) by (auto simp: inj_on_Un pel_inv_def distinct_map intro: inj_on_subset)
  then show ?thesis
    using assms(1-3) by (auto simp: pel_inv_def pending_set_pel_inv [OF assms(1)])
qed


lemma remove_first_offset:
  "pel_inv g \<Longrightarrow> set (remove_first (\<lambda>e. pe_Offset e = off) (pel_of g c)) =
     {e \<in> set (pel_of g c). pe_Offset e \<noteq> off}"
  by (rule remove_first_key) (simp add: pel_inv_def)

lemma distinct_remove_first_offset:
  "pel_inv g \<Longrightarrow> distinct (map pe_Offset (remove_first P (pel_of g c)))"
  by (rule distinct_map_remove_first) (simp add: pel_inv_def)

lemma map_of_PEL: "map_of (cg_PEL g) c = Some es \<Longrightarrow> pel_of g c = es"
  by (simp add: pel_of_def)

lemma pel_of_None: "map_of (cg_PEL g) c = None \<Longrightarrow> pel_of g c = []"
  by (simp add: pel_of_def)

text \<open>Whether one consumer holds an offset.\<close>

definition holds :: "consumer_group \<Rightarrow> string \<Rightarrow> u64 \<Rightarrow> bool" where
  "holds g c off \<longleftrightarrow> (\<exists>e \<in> pending g. pe_ConsumerID e = c \<and> pe_Offset e = off)"

lemma holds_pel: "pel_inv g \<Longrightarrow> holds g c off \<longleftrightarrow> (\<exists>e \<in> set (pel_of g c). pe_Offset e = off)"
  by (auto simp: holds_def pending_def dest: pel_inv_owner)

lemma RemovePending_eq:
  assumes "pel_inv g"
  shows "RemovePending now c off g =
    (if holds g c off
     then (True, touch now (set_pel c (remove_first (\<lambda>e. pe_Offset e = off) (pel_of g c)) g))
     else (False, g))"
proof (cases "map_of (cg_PEL g) c")
  case None
  then show ?thesis using holds_pel [OF assms] by (simp add: RemovePending_def pel_of_None)
next
  case (Some es)
  then show ?thesis using holds_pel [OF assms] by (simp add: RemovePending_def map_of_PEL)
qed

lemma pel_inv_drop:
  assumes "pel_inv g"
  shows "pel_inv (set_pel c (remove_first (\<lambda>e. pe_Offset e = off) (pel_of g c)) g)"
proof (rule pel_inv_set_pel [OF assms distinct_remove_first_offset [OF assms]])
  show "\<forall>e \<in> set (remove_first (\<lambda>e. pe_Offset e = off) (pel_of g c)). pe_ConsumerID e = c"
    using assms by (simp add: remove_first_offset pel_inv_owner)
  show "pe_Offset e \<noteq> pe_Offset e'"
    if "e \<in> set (remove_first (\<lambda>e. pe_Offset e = off) (pel_of g c))" "e' \<in> pending g" "pe_ConsumerID e' \<noteq> c"
    for e e'
  proof -
    from that(1) have "e \<in> set (pel_of g c)" by (simp add: remove_first_offset [OF assms])
    then have "e \<in> pending g" "pe_ConsumerID e = c"
      by (auto simp: pending_def pel_inv_owner [OF assms])
    with that pending_unique [OF assms] show ?thesis by metis
  qed
qed

lemma pending_drop:
  assumes "pel_inv g"
  shows "pending (set_pel c (remove_first (\<lambda>e. pe_Offset e = off) (pel_of g c)) g) =
    {e \<in> pending g. \<not> (pe_ConsumerID e = c \<and> pe_Offset e = off)}"
  unfolding pending_set_pel_inv [OF assms] remove_first_offset [OF assms]
  using pending_owner [OF assms] pel_inv_owner [OF assms] by (auto simp: pending_def)

lemma RemovePending_spec:
  assumes "pel_inv g" and "RemovePending now c off g = (ok, g')"
  shows "pel_inv g'" and "ok \<longleftrightarrow> holds g c off"
    and "pending g' = {e \<in> pending g. \<not> (pe_ConsumerID e = c \<and> pe_Offset e = off)}"
  using assms(2) pel_inv_drop [OF assms(1)] pending_drop [OF assms(1)] assms(1)
  by (auto simp: RemovePending_eq [OF assms(1)] holds_def split: if_splits)

lemma AddPending_spec:
  assumes "pel_inv g" and "pe_ConsumerID e = c" and "pe_Offset e \<notin> pe_Offset ` pending g"
  shows "pel_inv (AddPending now c e g)"
proof -
  have "pe_Offset e' \<noteq> pe_Offset e" if "e' \<in> set (pel_of g c)" for e'
    using assms(3) pel_pending [OF that] by (metis imageI)
  moreover have "pe_Offset e' \<noteq> pe_Offset e''"
    if "e' \<in> set (pel_of g c)" "e'' \<in> pending g" "pe_ConsumerID e'' \<noteq> c" for e' e''
  proof -
    have "e' \<in> pending g" "pe_ConsumerID e' = c"
      using that(1) by (auto simp: pending_def pel_inv_owner [OF assms(1)])
    with that pending_unique [OF assms(1)] show ?thesis by metis
  qed
  ultimately have "pel_inv (set_pel c (pel_of g c @ [e]) g)"
    using assms by (intro pel_inv_set_pel) (force simp: pel_inv_def image_iff)+
  then show ?thesis by (simp add: AddPending_def)
qed

lemma pending_AddPending: "pending (AddPending now c e g) = insert e (pending g)"
  by (auto simp: AddPending_def pending_def)

lemma pel_of_DeleteConsumerPEL: "pel_of (DeleteConsumerPEL now c g) = (pel_of g)(c := [])"
  by (auto simp: DeleteConsumerPEL_def touch_def pel_of_def fun_eq_iff)

lemma DeleteConsumerPEL_spec:
  assumes "pel_inv g"
  shows "pel_inv (DeleteConsumerPEL now c g)"
    and "pending (DeleteConsumerPEL now c g) = {e \<in> pending g. pe_ConsumerID e \<noteq> c}"
proof -
  show p: "pending (DeleteConsumerPEL now c g) = {e \<in> pending g. pe_ConsumerID e \<noteq> c}"
    using pel_inv_owner [OF assms] by (auto simp: pending_def pel_of_DeleteConsumerPEL)
  have "distinct (map fst (cg_PEL (DeleteConsumerPEL now c g)))"
    using assms by (simp add: pel_inv_def DeleteConsumerPEL_def touch_def)
  then show "pel_inv (DeleteConsumerPEL now c g)"
    using assms p by (auto simp: pel_inv_def pel_of_DeleteConsumerPEL intro: inj_on_subset)
qed


lemma set_update_first:
  "distinct (map f xs) \<Longrightarrow> x \<in> set xs \<Longrightarrow>
   set (update_first (\<lambda>y. f y = f x) h xs) = insert (h x) (set xs - {x})"
  by (induction xs) (auto simp: image_iff)

lemma map_update_first: "(\<And>x. f (h x) = f x) \<Longrightarrow> map f (update_first P h xs) = map f xs"
  by (induction xs) auto

lemma in_update_first: "x \<in> set (update_first P h xs) \<Longrightarrow> \<exists>y \<in> set xs. x = y \<or> x = h y"
  by (induction xs) (auto split: if_splits)

lemma holdsE:
  assumes "pel_inv g" and "holds g c off"
  obtains e where "e \<in> set (pel_of g c)" and "e \<in> pending g" and "pe_ConsumerID e = c" and "pe_Offset e = off"
  using assms holds_pel pel_inv_owner pel_pending by blast

lemma RequeuePending_spec:
  assumes inv: "pel_inv g" and r: "RequeuePending now off c t g = (ok, g')"
  shows "pel_inv g'" and "ok \<longleftrightarrow> holds g c off" and "\<not> ok \<Longrightarrow> g' = g"
    and "e \<in> pending g \<Longrightarrow> pe_ConsumerID e = c \<Longrightarrow> pe_Offset e = off \<Longrightarrow>
         pending g' = insert (e\<lparr>pe_ClaimedAt := t\<rparr>) (pending g - {e})"
proof -
  define es where "es = update_first (\<lambda>e. pe_Offset e = off) (\<lambda>e. e\<lparr>pe_ClaimedAt := t\<rparr>) (pel_of g c)"
  have r': "ok \<longleftrightarrow> holds g c off" "g' = (if ok then touch now (set_pel c es g) else g)"
    using r holds_pel [OF inv] by (auto simp: RequeuePending_def es_def Let_def split: if_splits)
  then show "ok \<longleftrightarrow> holds g c off" "\<not> ok \<Longrightarrow> g' = g" by auto
  have m: "map pe_Offset es = map pe_Offset (pel_of g c)"
    by (simp add: es_def map_update_first)
  have es: "\<exists>e0 \<in> set (pel_of g c). pe_Offset e0 = pe_Offset e \<and> pe_ConsumerID e0 = pe_ConsumerID e"
    if "e \<in> set es" for e
    using in_update_first [OF that [unfolded es_def]] by fastforce
  have own: "\<forall>e \<in> set es. pe_ConsumerID e = c"
    using es pel_inv_owner [OF inv] by metis
  have "pel_inv (set_pel c es g)"
  proof (rule pel_inv_set_pel [OF inv _ own])
    show "distinct (map pe_Offset es)" using inv m by (simp add: pel_inv_def)
    show "pe_Offset e \<noteq> pe_Offset e'" if "e \<in> set es" "e' \<in> pending g" "pe_ConsumerID e' \<noteq> c" for e e'
    proof -
      obtain e0 where "e0 \<in> set (pel_of g c)" "pe_Offset e0 = pe_Offset e"
        using es [OF \<open>e \<in> set es\<close>] by blast
      with that show ?thesis
        using pending_unique [OF inv pel_pending] pel_inv_owner [OF inv] by metis
    qed
  qed
  then show "pel_inv g'" using inv r' by simp
  show "pending g' = insert (e\<lparr>pe_ClaimedAt := t\<rparr>) (pending g - {e})"
    if e: "e \<in> pending g" "pe_ConsumerID e = c" "pe_Offset e = off"
  proof -
    have ok using r' e by (auto simp: holds_def)
    have ep: "e \<in> set (pel_of g c)" using e pending_owner [OF inv] by auto
    have "set es = insert (e\<lparr>pe_ClaimedAt := t\<rparr>) (set (pel_of g c) - {e})"
      unfolding es_def e(3) [symmetric] using inv ep by (intro set_update_first) (simp_all add: pel_inv_def)
    moreover have "set (pel_of g c) = {x \<in> pending g. pe_ConsumerID x = c}"
      using pending_owner [OF inv] pel_inv_owner [OF inv] by (auto dest: pel_pending)
    ultimately show ?thesis
      using r' \<open>ok\<close> e(2) by (auto simp: pending_set_pel_inv [OF inv])
  qed
qed

text \<open>A transfer drops the entry and files it, renewed, under its new owner.\<close>

definition transferred :: "instant \<Rightarrow> string \<Rightarrow> pending_entry \<Rightarrow> pending_entry" where
  "transferred now to e =
     e\<lparr>pe_ConsumerID := to, pe_ClaimedAt := now, pe_DeliveryCount := pe_DeliveryCount e + 1\<rparr>"

lemma TransferPending_eq:
  assumes inv: "pel_inv g" and e: "e \<in> pending g" "pe_ConsumerID e = c" "pe_Offset e = off"
  shows "TransferPending now off c to g =
    (True, AddPending now to (transferred now to e)
       (set_pel c (remove_first (\<lambda>e. pe_Offset e = off) (pel_of g c)) g))"
proof -
  have ep: "e \<in> set (pel_of g c)" using e pending_owner [OF inv] by auto
  then obtain es where es: "map_of (cg_PEL g) c = Some es" "es = pel_of g c"
    by (cases "map_of (cg_PEL g) c") (auto simp: pel_of_def)
  obtain e' where f: "List.find (\<lambda>e. pe_Offset e = off) (pel_of g c) = Some e'"
    using ep e(3) by (cases "List.find (\<lambda>e. pe_Offset e = off) (pel_of g c)") (auto simp: find_None_iff)
  from find_Some_iff_mem [OF f] have "e' = e"
    using pending_unique [OF inv pel_pending pel_pending [OF ep]] e(3) by auto
  with f es show ?thesis
    by (simp add: TransferPending_def AddPending_def transferred_def Let_def)
qed

lemma TransferPending_not_held:
  assumes "pel_inv g" and "\<not> holds g c off"
  shows "TransferPending now off c to g = (False, g)"
proof (cases "map_of (cg_PEL g) c")
  case None
  then show ?thesis by (simp add: TransferPending_def)
next
  case (Some es)
  then have "List.find (\<lambda>e. pe_Offset e = off) es = None"
    using assms holds_pel [OF assms(1)] by (auto simp: find_None_iff map_of_PEL)
  with Some show ?thesis by (simp add: TransferPending_def)
qed

lemma TransferPending_spec:
  assumes inv: "pel_inv g" and e: "e \<in> pending g" "pe_ConsumerID e = c" "pe_Offset e = off"
    and r: "TransferPending now off c to g = (ok, g')"
  shows "pel_inv g'" and "ok" and "pending g' = insert (transferred now to e) (pending g - {e})"
proof -
  define g1 where "g1 = set_pel c (remove_first (\<lambda>e. pe_Offset e = off) (pel_of g c)) g"
  have r': "ok" "g' = AddPending now to (transferred now to e) g1"
    using r TransferPending_eq [OF inv e, of now to] by (simp_all add: g1_def)
  have u: "x = e" if "x \<in> pending g" "pe_Offset x = off" for x
    using pending_unique [OF inv that(1) e(1)] that(2) e(3) by simp
  have p: "pending g1 = pending g - {e}"
    unfolding g1_def pending_drop [OF inv] using u e(2,3) by blast
  show "ok" by (rule r')
  show "pending g' = insert (transferred now to e) (pending g - {e})"
    by (simp add: r' pending_AddPending p)
  have "pel_inv g1" unfolding g1_def by (rule pel_inv_drop [OF inv])
  moreover have "pe_Offset (transferred now to e) \<notin> pe_Offset ` pending g1"
    unfolding p using u e(3) by (force simp: transferred_def)
  ultimately show "pel_inv g'"
    unfolding r' by (intro AddPending_spec) (simp_all add: transferred_def)
qed



section \<open>The queries\<close>

lemma pending_list:
  assumes "pel_inv g"
  shows "pending g = \<Union> ((set \<circ> snd) ` set (cg_PEL g))"
proof -
  have d: "distinct (map fst (cg_PEL g))" using assms by (simp add: pel_inv_def)
  then have "e \<in> set (pel_of g c) \<longleftrightarrow> (\<exists>es. (c, es) \<in> set (cg_PEL g) \<and> e \<in> set es)" for e c
    by (auto simp: pel_of_def map_of_eq_Some_iff split: option.splits)
  then show ?thesis unfolding pending_def by fastforce
qed

lemma fold_count: "fold (\<lambda>(_, es) n. n + length es) m k = k + length (concat (map snd m))"
  by (induction m arbitrary: k) auto

lemma distinct_concat_pel:
  assumes "distinct (map fst m)"
    and "\<And>c es. (c, es) \<in> set m \<Longrightarrow> distinct (map pe_Offset es)"
    and "\<And>c es e. (c, es) \<in> set m \<Longrightarrow> e \<in> set es \<Longrightarrow> pe_ConsumerID e = c"
  shows "distinct (concat (map snd m))"
  using assms
proof (induction m)
  case Nil
  then show ?case by simp
next
  case (Cons x m)
  obtain c es where x: "x = (c, es)" by (cases x)
  have "distinct (concat (map snd m))"
  proof (rule Cons.IH)
    show "distinct (map pe_Offset es)" if "(c, es) \<in> set m" for c es
      using Cons.prems(2) [of c es] that by simp
    show "pe_ConsumerID e = c" if "(c, es) \<in> set m" "e \<in> set es" for c es e
      using Cons.prems(3) [of c es e] that by simp
  qed (use Cons.prems(1) in simp)
  moreover have "distinct es" using Cons.prems(2) [of c es] x by (simp add: distinct_map)
  moreover have "e \<notin> set es" if "(c', es') \<in> set m" "e \<in> set es'" for c' es' e
  proof
    assume "e \<in> set es"
    then have "c = c'" using Cons.prems(3) [of c es e] Cons.prems(3) [of c' es' e] that x by auto
    with Cons.prems(1) that(1) x show False by force
  qed
  ultimately show ?case using x by force
qed

lemma PendingCount_card:
  assumes "pel_inv g"
  shows "PendingCount g = card (pending g)"
proof -
  have d: "distinct (map fst (cg_PEL g))" using assms by (simp add: pel_inv_def)
  have p: "pel_of g c = es" if "(c, es) \<in> set (cg_PEL g)" for c es
    using d that by (simp add: pel_of_def map_of_eq_Some_iff [THEN iffD2])
  have "distinct (concat (map snd (cg_PEL g)))"
  proof (rule distinct_concat_pel [OF d])
    show "distinct (map pe_Offset es)" if "(c, es) \<in> set (cg_PEL g)" for c es
      using assms p [OF that] by (auto simp: pel_inv_def)
    show "pe_ConsumerID e = c" if "(c, es) \<in> set (cg_PEL g)" "e \<in> set es" for c es e
      using pel_inv_owner [OF assms, of e c] p [OF that(1)] that(2) by simp
  qed
  moreover have "set (concat (map snd (cg_PEL g))) = pending g"
    by (auto simp: pending_list [OF assms])
  ultimately show ?thesis
    unfolding PendingCount_def fold_count by (metis add_0 distinct_card)
qed

lemma finite_pending: "pel_inv g \<Longrightarrow> finite (pending g)"
  by (simp add: pending_list)

lemma ClearPending_spec:
  assumes "pel_inv g"
  shows "fst (ClearPending now g) = PendingCount g" and "pending (snd (ClearPending now g)) = {}"
    and "pel_inv (snd (ClearPending now g))"
proof -
  show "fst (ClearPending now g) = PendingCount g"
    by (simp add: ClearPending_def PendingCount_def Let_def)
  have "pending g = {}" if "PendingCount g = 0"
    using that PendingCount_card [OF assms] finite_pending [OF assms] by simp
  then show "pending (snd (ClearPending now g)) = {}"
    by (auto simp: ClearPending_def PendingCount_def pending_def pel_of_def touch_def Let_def)
  show "pel_inv (snd (ClearPending now g))"
    using assms by (auto simp: ClearPending_def Let_def) (simp add: pel_inv_def pending_def pel_of_def)
qed

lemma fold_min_step:
  "fold min_step es (m, True) = (Min (insert m (pe_Offset ` set es)), True)"
proof (induction es arbitrary: m)
  case (Cons e es)
  have "min_step e (m, True) = (min (pe_Offset e) m, True)"
    by (auto simp: min_step_def min_def)
  with Cons.IH show ?case by (simp add: min.commute insert_commute [of m] flip: Min_insert2)
     (cases "es = []"; simp add: min.assoc min.left_commute min.commute)
qed simp

lemma fold_min_concat:
  "fold (\<lambda>(_, es) acc. fold min_step es acc) m acc = fold min_step (concat (map snd m)) acc"
  by (induction m arbitrary: acc) auto

lemma MinPendingOffset_spec:
  assumes "pel_inv g"
  shows "MinPendingOffset g =
    (if pending g = {} then (0, False) else (Min (pe_Offset ` pending g), True))"
proof -
  have s: "set (concat (map snd (cg_PEL g))) = pending g"
    by (auto simp: pending_list [OF assms])
  have "fold min_step es (0, False) =
      (if es = [] then (0, False) else (Min (pe_Offset ` set es), True))" for es
    by (cases es) (simp_all add: fold_min_step min_step_def)
  then show ?thesis
    unfolding MinPendingOffset_def fold_min_concat s [symmetric] by simp
qed

lemma PendingOffsets_spec:
  assumes "pel_inv g"
  shows "PendingOffsets g = pe_Offset ` pending g"
proof -
  have i: "fold (\<lambda>e. insert (pe_Offset e)) es S = S \<union> pe_Offset ` set es" for es S
    by (induction es arbitrary: S) auto
  have "fold (\<lambda>(_, es) S. fold (\<lambda>e. insert (pe_Offset e)) es S) m S =
      S \<union> pe_Offset ` (\<Union> ((set \<circ> snd) ` set m))" for S and m :: "(string, pending_entry list) gomap"
    by (induction m arbitrary: S) (auto simp: i)
  then show ?thesis by (simp add: PendingOffsets_def pending_list [OF assms])
qed

lemma find_pending_Some:
  "find_pending off m = Some (e, c) \<Longrightarrow> pe_Offset e = off \<and> (\<exists>es. (c, es) \<in> set m \<and> e \<in> set es)"
  by (induction m) (auto split: option.splits dest!: find_Some_iff_mem)

lemma find_pending_None:
  "find_pending off m = None \<longleftrightarrow> (\<forall>(c, es) \<in> set m. \<forall>e \<in> set es. pe_Offset e \<noteq> off)"
  by (induction m) (auto split: option.splits simp: find_None_iff dest: find_Some_iff_mem)

lemma FindPending_spec:
  assumes "pel_inv g"
  shows "e \<in> pending g \<Longrightarrow> FindPending g (pe_Offset e) = (e, pe_ConsumerID e)"
    and "off \<notin> pe_Offset ` pending g \<Longrightarrow> FindPending g off = (zero_entry, [])"
proof -
  note pl = pending_list [OF assms]
  show "FindPending g off = (zero_entry, [])" if "off \<notin> pe_Offset ` pending g" for off
  proof -
    have "find_pending off (cg_PEL g) = None"
      unfolding find_pending_None using that by (force simp: pl image_iff)
    then show ?thesis by (simp add: FindPending_def)
  qed
  show "FindPending g (pe_Offset e) = (e, pe_ConsumerID e)" if e: "e \<in> pending g"
  proof (cases "find_pending (pe_Offset e) (cg_PEL g)")
    case None
    with e show ?thesis unfolding find_pending_None pl by force
  next
    case (Some r)
    obtain e' c where r: "r = (e', c)" by (cases r)
    from find_pending_Some [OF Some [unfolded r]] obtain es where
      es: "(c, es) \<in> set (cg_PEL g)" "e' \<in> set es" "pe_Offset e' = pe_Offset e" by blast
    then have "e' \<in> pending g" by (force simp: pl)
    with es(3) e have "e' = e" using pending_unique [OF assms] by blast
    moreover have "pel_of g c = es"
      using assms es(1) by (simp add: pel_inv_def pel_of_def map_of_eq_Some_iff [THEN iffD2])
    then have "pe_ConsumerID e' = c" using pel_inv_owner [OF assms] es(2) by blast
    ultimately show ?thesis by (simp add: FindPending_def Some r)
  qed
qed

lemma set_StealableEntries:
  assumes "pel_inv g"
  shows "set (StealableEntries now vis excl g) =
    {e \<in> pending g. pe_ConsumerID e \<noteq> excl \<and>
       (map_of (cg_Consumers g) (pe_ConsumerID e) = None \<or> pe_ClaimedAt e < now - vis)}"
proof -
  have p: "pel_of g c = es" if "(c, es) \<in> set (cg_PEL g)" for c es
    using assms that by (simp add: pel_inv_def pel_of_def map_of_eq_Some_iff [THEN iffD2])
  have own: "pe_ConsumerID e = c" if "(c, es) \<in> set (cg_PEL g)" "e \<in> set es" for c es e
    using pel_inv_owner [OF assms, of e c] p [OF that(1)] that(2) by simp
  have "e \<in> set (StealableEntries now vis excl g) \<longleftrightarrow>
      (\<exists>c es. (c, es) \<in> set (cg_PEL g) \<and> e \<in> set es \<and> c \<noteq> excl \<and>
         (map_of (cg_Consumers g) c = None \<or> pe_ClaimedAt e < now - vis))" for e
    unfolding StealableEntries_def Let_def by (simp split: if_splits) blast
  moreover have "e \<in> pending g \<longleftrightarrow> (\<exists>c es. (c, es) \<in> set (cg_PEL g) \<and> e \<in> set es)" for e
    unfolding pending_list [OF assms] by force
  ultimately show ?thesis using own by (intro set_eqI) (simp, metis)
qed



section \<open>Reachable groups\<close>

text \<open>
  The states of a group under its pending-list operations. An entry is added for an offset that is
  not pending, which is how the callers use \<^verbatim>\<open>AddPending\<close>: they claim offsets at the cursor.
\<close>

inductive reachable :: "consumer_group \<Rightarrow> bool" where
  new: "reachable (NewConsumerGroupState now q i p)"
| add: "reachable g \<Longrightarrow> pe_ConsumerID e = c \<Longrightarrow> pe_Offset e \<notin> PendingOffsets g \<Longrightarrow>
    reachable (AddPending now c e g)"
| remove: "reachable g \<Longrightarrow> reachable (snd (RemovePending now c off g))"
| requeue: "reachable g \<Longrightarrow> reachable (snd (RequeuePending now off c t g))"
| transfer: "reachable g \<Longrightarrow> reachable (snd (TransferPending now off c d g))"
| drop_consumer: "reachable g \<Longrightarrow> reachable (DeleteConsumerPEL now c g)"
| clear: "reachable g \<Longrightarrow> reachable (snd (ClearPending now g))"

lemma reachable_inv: "reachable g \<Longrightarrow> pel_inv g"
proof (induction rule: reachable.induct)
  case (transfer g now off c d)
  show ?case
  proof (cases "holds g c off")
    case True
    then obtain e where "e \<in> pending g" "pe_ConsumerID e = c" "pe_Offset e = off"
      by (auto simp: holds_def)
    from TransferPending_spec(1) [OF transfer.IH this] show ?thesis
      by (metis prod.collapse)
  next
    case False
    with transfer.IH show ?thesis by (simp add: TransferPending_not_held)
  qed
qed (auto simp: pel_inv_new PendingOffsets_spec AddPending_spec DeleteConsumerPEL_spec ClearPending_spec
      intro: RemovePending_spec(1) RequeuePending_spec(1) prod.collapse [symmetric])

lemma levels_queue_prefix: "levels (queue_prefix @ s) = ''$queue'' # levels s"
  using str_split_append [of "CHR ''/''" "''$queue''" s] by (simp add: queue_prefix_def)


section \<open>Properties\<close>







text \<open>
  A queue topic splits into its root and its routing key and is put together from them again:
  when the queue name is not the wildcard \<open>#\<close>, the topic is the root alone with an empty key, or
  the root, a separator and the key.
\<close>

theorem queue_topic_roundtrip:
  assumes "has_prefix topic queue_prefix" and "ExtractQueueRoot topic \<noteq> queue_prefix @ ''#''"
  shows "(topic = ExtractQueueRoot topic \<and> ExtractRoutingKey topic (ExtractQueueRoot topic) = []) \<or>
    topic = ExtractQueueRoot topic @ CHR ''/'' # ExtractRoutingKey topic (ExtractQueueRoot topic)"
proof -
  define rest where "rest = drop (length queue_prefix) topic"
  have t: "topic = queue_prefix @ rest" using has_prefixD [OF assms(1)] by (simp add: rest_def)
  obtain n r m where c: "str_cut (CHR ''/'') rest = (n, r, m)" by (metis prod_cases3)
  have root: "ExtractQueueRoot topic = queue_prefix @ n"
    using assms(1) c by (simp add: ExtractQueueRoot_def rest_def)
  with assms(2) have n: "n \<noteq> ''#''" by auto
  have slash: "CHR ''/'' \<notin> set n" using c by (cases m) (auto simp: str_cut_found str_cut_missing)
  have key: "ExtractRoutingKey topic (ExtractQueueRoot topic) = (if m then r else [])"
  proof -
    have "topic \<noteq> []" "queue_prefix \<noteq> []" by (simp_all add: t queue_prefix_def)
    moreover have "levels rest = (if m then n # levels r else [n])"
      using c by (subst str_split_cut) simp
    then have "levels topic = ''$queue'' # (if m then n # levels r else [n])"
      by (simp add: t levels_queue_prefix)
    moreover have "levels (queue_prefix @ n) = [''$queue'', n]"
      by (simp add: levels_queue_prefix str_split_single slash)
    ultimately show ?thesis using n by (simp add: ExtractRoutingKey_def root)
  qed
  show ?thesis
  proof (cases m)
    case True
    with c have "rest = n @ CHR ''/'' # r" by (simp add: str_cut_found)
    with True key root t show ?thesis by simp
  next
    case False
    with c have "rest = n" by (simp add: str_cut_missing)
    with False key root t show ?thesis by simp
  qed
qed

theorem queue_topic_roundtrip_witness:
  "ExtractQueueRoot ''$queue/tasks/images/png'' = ''$queue/tasks'' \<and>
   ExtractRoutingKey ''$queue/tasks/images/png'' ''$queue/tasks'' = ''images/png''"
proof -
  have p: "has_prefix ''$queue/tasks/images/png'' queue_prefix" by code_simp
  have r: "ExtractQueueRoot ''$queue/tasks/images/png'' = ''$queue/tasks''" by code_simp
  have "ExtractQueueRoot ''$queue/tasks/images/png'' \<noteq> queue_prefix @ ''#''"
    unfolding r by (simp add: queue_prefix_def)
  from queue_topic_roundtrip [OF p this] show ?thesis unfolding r by simp
qed

end
