(* ===== verification/Mem_Log.thy ===== *)
theory Mem_Log
  imports Topic_Index Queue_Config Consumer_Group Message
begin

text \<open>
  \<^verbatim>\<open>queue/storage/memory/log/store.go\<close>: the in-memory queue store. One append-only log per queue
  with offsets that survive truncation, a deduplication index, the topic index, and the groups and
  consumers of every queue. Each operation holds the lock of the log it touches, so it is one
  function on the store; the flag \<^verbatim>\<open>deleted\<close>, which protects an operation that loaded a log before
  it was removed, is kept. An error leaves the store unchanged. Envelopes are values (\<^verbatim>\<open>Clone\<close> and
  \<^verbatim>\<open>Release\<close> manage memory).
\<close>

datatype store_error =
  ErrQueueNotFound
| ErrQueueAlreadyExists
| ErrOffsetOutOfRange
| ErrConsumerGroupExists
| ErrConsumerGroupNotFound
| ErrConsumerNotFound
| ErrPendingEntryNotFound
| ErrDeduplicationKeyRequired
| ErrUndecodableRecord
| ErrStoreConfig config_error

record consumer =
  co_ID :: string
  co_ClientID :: string
  co_GroupID :: string
  co_QueueName :: string
  co_RegisteredAt :: instant
  co_LastHeartbeat :: instant
  co_ProxyNodeID :: string

record mem_log =
  ml_config :: queue_config
  ml_messages :: "envelope list"
  ml_head :: u64
  ml_tail :: u64
  ml_deleted :: bool
  ml_dedupe :: "(string, u64) gomap"

record mem_store =
  ms_logs :: "(string, mem_log) gomap"
  ms_groups :: "(string, (string, consumer_group) gomap) gomap"
  ms_consumers :: "(string, (string, (string, consumer) gomap) gomap) gomap"
  ms_topicIndex :: topic_index

definition Mem_New :: mem_store where
  "Mem_New = \<lparr>ms_logs = [], ms_groups = [], ms_consumers = [], ms_topicIndex = NewTopicIndex\<rparr>"

definition empty_log :: "queue_config \<Rightarrow> u64 \<Rightarrow> mem_log" where
  "empty_log config head =
     \<lparr>ml_config = config, ml_messages = [], ml_head = head, ml_tail = head, ml_deleted = False,
      ml_dedupe = []\<rparr>"

text \<open>\<^verbatim>\<open>getQueueLog\<close> and the check every operation makes once it holds the lock.\<close>

definition getQueueLog :: "mem_store \<Rightarrow> string \<Rightarrow> store_error + mem_log" where
  "getQueueLog s queueName =
     (case map_of (ms_logs s) queueName of
        None \<Rightarrow> Inl ErrQueueNotFound
      | Some sl \<Rightarrow> if ml_deleted sl then Inl ErrQueueNotFound else Inr sl)"

definition put_log :: "string \<Rightarrow> mem_log \<Rightarrow> mem_store \<Rightarrow> mem_store" where
  "put_log queueName sl s = s\<lparr>ms_logs := AList.update queueName sl (ms_logs s)\<rparr>"


section \<open>Queues\<close>

definition CreateQueue :: "queue_config \<Rightarrow> mem_store \<Rightarrow> store_error option \<times> mem_store" where
  "CreateQueue config s =
     (case QueueConfig_Validate config of
        Some err \<Rightarrow> (Some (ErrStoreConfig err), s)
      | None \<Rightarrow>
          (case map_of (ms_logs s) (QName config) of
             Some _ \<Rightarrow> (Some ErrQueueAlreadyExists, s)
           | None \<Rightarrow>
               (None, s\<lparr>ms_logs := AList.update (QName config) (empty_log config 0) (ms_logs s),
                        ms_topicIndex := AddQueue (QName config) (QTopics config) (ms_topicIndex s),
                        ms_groups := AList.update (QName config) [] (ms_groups s),
                        ms_consumers := AList.update (QName config) [] (ms_consumers s)\<rparr>)))"

definition UpdateQueue :: "queue_config \<Rightarrow> mem_store \<Rightarrow> store_error option \<times> mem_store" where
  "UpdateQueue config s =
     (case ValidateTopicFilters (QTopics config) of
        Some err \<Rightarrow> (Some (ErrStoreConfig err), s)
      | None \<Rightarrow>
          (case getQueueLog s (QName config) of
             Inl err \<Rightarrow> (Some err, s)
           | Inr sl \<Rightarrow> (None, put_log (QName config) (sl\<lparr>ml_config := config\<rparr>) s)))"

definition GetQueue :: "mem_store \<Rightarrow> string \<Rightarrow> store_error + queue_config" where
  "GetQueue s queueName = map_sum id ml_config (getQueueLog s queueName)"

definition DeleteQueue :: "string \<Rightarrow> mem_store \<Rightarrow> store_error option \<times> mem_store" where
  "DeleteQueue queueName s =
     (let dropped = s\<lparr>ms_groups := AList.delete queueName (ms_groups s),
                      ms_consumers := AList.delete queueName (ms_consumers s),
                      ms_topicIndex := RemoveQueue queueName (ms_topicIndex s)\<rparr>
      in (case map_of (ms_logs s) queueName of
            None \<Rightarrow> (None, dropped)
          | Some sl \<Rightarrow>
              if ml_deleted sl then (Some ErrQueueNotFound, s)
              else if Reserved (ml_config sl) then (Some ErrQueueNotFound, s)
              else (None, dropped\<lparr>ms_logs := AList.delete queueName (ms_logs s)\<rparr>)))"

definition ListQueues :: "mem_store \<Rightarrow> queue_config list" where
  "ListQueues s = map (ml_config \<circ> snd) (filter (\<lambda>(_, sl). \<not> ml_deleted sl) (ms_logs s))"

definition FindMatchingQueues :: "mem_store \<Rightarrow> string \<Rightarrow> string list" where
  "FindMatchingQueues s topic = FindMatching (ms_topicIndex s) topic"


section \<open>Appending\<close>

definition set_offset :: "u64 \<Rightarrow> envelope \<Rightarrow> envelope" where
  "set_offset off msg =
     msg\<lparr>ev_BrokerMeta := (ev_BrokerMeta msg)
       \<lparr>bm_Queue := (bm_Queue (ev_BrokerMeta msg))\<lparr>qm_Offset := off\<rparr>\<rparr>\<rparr>"

definition set_transfer :: "string \<Rightarrow> envelope \<Rightarrow> envelope" where
  "set_transfer key msg =
     msg\<lparr>ev_BrokerMeta := (ev_BrokerMeta msg)
       \<lparr>bm_Transfer := (bm_Transfer (ev_BrokerMeta msg))\<lparr>tm_ID := key\<rparr>\<rparr>\<rparr>"

abbreviation offset_of :: "envelope \<Rightarrow> u64" where
  "offset_of msg \<equiv> qm_Offset (bm_Queue (ev_BrokerMeta msg))"

abbreviation transfer_of :: "envelope \<Rightarrow> string" where
  "transfer_of msg \<equiv> tm_ID (bm_Transfer (ev_BrokerMeta msg))"

text \<open>Assign the next offset and append: the shared tail of the four append operations.\<close>

definition push :: "envelope \<Rightarrow> mem_log \<Rightarrow> mem_log" where
  "push msg sl =
     sl\<lparr>ml_tail := ml_tail sl + 1, ml_messages := ml_messages sl @ [set_offset (ml_tail sl) msg]\<rparr>"

definition Append :: "string \<Rightarrow> envelope \<Rightarrow> mem_store \<Rightarrow> (store_error + u64) \<times> mem_store" where
  "Append queueName msg s =
     (case getQueueLog s queueName of
        Inl err \<Rightarrow> (Inl err, s)
      | Inr sl \<Rightarrow> (Inr (ml_tail sl), put_log queueName (push msg sl) s))"

definition AppendAndSync :: "string \<Rightarrow> envelope \<Rightarrow> mem_store \<Rightarrow> (store_error + u64) \<times> mem_store" where
  "AppendAndSync queueName msg s = Append queueName msg s"

definition SupportsDurableSync :: bool where
  "SupportsDurableSync = False"

definition AppendBatch :: "string \<Rightarrow> envelope list \<Rightarrow> mem_store \<Rightarrow> (store_error + u64) \<times> mem_store" where
  "AppendBatch queueName msgs s =
     (if length msgs = 0 then (Inr 0, s)
      else (case getQueueLog s queueName of
              Inl err \<Rightarrow> (Inl err, s)
            | Inr sl \<Rightarrow> (Inr (ml_tail sl), put_log queueName (fold push msgs sl) s)))"

text \<open>The result is the offset and whether the record was a duplicate.\<close>

definition AppendOnce ::
  "string \<Rightarrow> string \<Rightarrow> envelope \<Rightarrow> mem_store \<Rightarrow> (store_error + u64 \<times> bool) \<times> mem_store" where
  "AppendOnce queueName dedupeKey msg s =
     (if dedupeKey = [] then (Inl ErrDeduplicationKeyRequired, s)
      else (case getQueueLog s queueName of
              Inl err \<Rightarrow> (Inl err, s)
            | Inr sl \<Rightarrow>
                (case map_of (ml_dedupe sl) dedupeKey of
                   Some off \<Rightarrow> (Inr (off, True), s)
                 | None \<Rightarrow>
                     (let off = ml_tail sl;
                          sl = push (set_transfer dedupeKey msg) sl;
                          sl = sl\<lparr>ml_dedupe := AList.update dedupeKey off (ml_dedupe sl)\<rparr>
                      in (Inr (off, False), put_log queueName sl s)))))"

definition AppendOnceAndSync ::
  "string \<Rightarrow> string \<Rightarrow> envelope \<Rightarrow> mem_store \<Rightarrow> (store_error + u64 \<times> bool) \<times> mem_store" where
  "AppendOnceAndSync queueName dedupeKey msg s = AppendOnce queueName dedupeKey msg s"


section \<open>Reading\<close>

definition Read :: "mem_store \<Rightarrow> string \<Rightarrow> u64 \<Rightarrow> store_error + envelope" where
  "Read s queueName off =
     (case getQueueLog s queueName of
        Inl err \<Rightarrow> Inl err
      | Inr sl \<Rightarrow>
          if off < ml_head sl \<or> off \<ge> ml_tail sl then Inl ErrOffsetOutOfRange
          else
            (let idx = sint (off - ml_head sl)
             in if idx < 0 \<or> idx \<ge> int (length (ml_messages sl)) then Inl ErrOffsetOutOfRange
                else Inr (Envelope_Clone (ml_messages sl ! nat idx))))"

text \<open>
  \<open>None\<close> is the panic of \<^verbatim>\<open>make\<close> with a negative capacity, or of a slice expression out of bounds, which a
  negative limit provokes.
\<close>

definition ReadBatch :: "mem_store \<Rightarrow> string \<Rightarrow> u64 \<Rightarrow> int \<Rightarrow> (store_error + envelope list) option" where
  "ReadBatch s queueName startOffset limit =
     (case getQueueLog s queueName of
        Inl err \<Rightarrow> Some (Inl err)
      | Inr sl \<Rightarrow>
          (let startOffset = (if startOffset < ml_head sl then ml_head sl else startOffset)
           in if startOffset \<ge> ml_tail sl then Some (Inr [])
              else
                (let startIdx = sint (startOffset - ml_head sl);
                     endIdx = wrap_int (startIdx + limit);
                     endIdx = (if endIdx > int (length (ml_messages sl)) then int (length (ml_messages sl)) else endIdx)
                 in if startIdx < 0 \<or> endIdx < startIdx then None
                    else Some (Inr (map Envelope_Clone
                           (take (nat (endIdx - startIdx)) (drop (nat startIdx) (ml_messages sl))))))))"

definition Head :: "mem_store \<Rightarrow> string \<Rightarrow> store_error + u64" where
  "Head s queueName = map_sum id ml_head (getQueueLog s queueName)"

definition Tail :: "mem_store \<Rightarrow> string \<Rightarrow> store_error + u64" where
  "Tail s queueName = map_sum id ml_tail (getQueueLog s queueName)"

definition Count :: "mem_store \<Rightarrow> string \<Rightarrow> store_error + u64" where
  "Count s queueName = map_sum id (\<lambda>sl. ml_tail sl - ml_head sl) (getQueueLog s queueName)"

abbreviation created_of :: "envelope \<Rightarrow> instant" where
  "created_of msg \<equiv> qm_CreatedAt (bm_Queue (ev_BrokerMeta msg))"

fun first_since :: "instant \<Rightarrow> nat \<Rightarrow> envelope list \<Rightarrow> nat option" where
  "first_since ts i [] = None"
| "first_since ts i (msg # msgs) =
     (if created_of msg \<noteq> zero_time \<and> \<not> created_of msg < ts then Some i else first_since ts (Suc i) msgs)"

definition OffsetByTime :: "mem_store \<Rightarrow> string \<Rightarrow> instant \<Rightarrow> store_error + u64" where
  "OffsetByTime s queueName ts =
     (case getQueueLog s queueName of
        Inl err \<Rightarrow> Inl err
      | Inr sl \<Rightarrow>
          if length (ml_messages sl) = 0 then Inr (ml_head sl)
          else (case first_since ts 0 (ml_messages sl) of
                  Some i \<Rightarrow> Inr (ml_head sl + of_nat i)
                | None \<Rightarrow> Inr (ml_tail sl)))"

definition messageSize :: "envelope \<Rightarrow> int" where
  "messageSize msg =
     (let size = int (length (PayloadBytes msg)) + int (length (ev_Topic msg)) +
                 int (length (pm_MessageID (ev_PublisherMeta msg)));
          size = fold (\<lambda>(k, v) size. size + int (length k + length v)) (pm_Properties (ev_PublisherMeta msg)) size
      in size + 200)"

text \<open>
  The loop from the last message back. The messages still to visit are given last first; \<open>n\<close> is their
  number, so the index of the one visited is \<open>n - 1\<close>. The result is \<^verbatim>\<open>i+1\<close> of the message that goes
  over the budget.
\<close>

fun size_cut :: "int \<Rightarrow> int \<Rightarrow> envelope list \<Rightarrow> nat option" where
  "size_cut budget tot [] = None"
| "size_cut budget tot (msg # older) =
     (let tot = tot + messageSize msg
      in if tot > budget then Some (Suc (length older)) else size_cut budget tot older)"

definition OffsetBySize :: "mem_store \<Rightarrow> string \<Rightarrow> int \<Rightarrow> store_error + u64" where
  "OffsetBySize s queueName retentionBytes =
     (case getQueueLog s queueName of
        Inl err \<Rightarrow> Inl err
      | Inr sl \<Rightarrow>
          if retentionBytes \<le> 0 \<or> length (ml_messages sl) = 0 then Inr (ml_head sl)
          else (case size_cut retentionBytes 0 (rev (ml_messages sl)) of
                  Some i \<Rightarrow> Inr (ml_head sl + of_nat i)
                | None \<Rightarrow> Inr (ml_head sl)))"

definition Truncate :: "string \<Rightarrow> u64 \<Rightarrow> mem_store \<Rightarrow> store_error option \<times> mem_store" where
  "Truncate queueName minOffset s =
     (case getQueueLog s queueName of
        Inl err \<Rightarrow> (Some err, s)
      | Inr sl \<Rightarrow>
          if minOffset \<le> ml_head sl then (None, s)
          else
            (let minOffset = (if minOffset > ml_tail sl then ml_tail sl else minOffset);
                 removeCount = sint (minOffset - ml_head sl);
                 removeCount = (if removeCount > int (length (ml_messages sl))
                                then int (length (ml_messages sl)) else removeCount)
             in (None, put_log queueName
                   (sl\<lparr>ml_messages := drop (nat removeCount) (ml_messages sl), ml_head := minOffset,
                       ml_dedupe := filter (\<lambda>(_, off). \<not> off < minOffset) (ml_dedupe sl)\<rparr>) s)))"


section \<open>Snapshots\<close>

record queue_snapshot =
  qs_head :: u64
  qs_tail :: u64
  qs_records :: "envelope list"
  qs_next :: nat

definition OpenQueueSnapshot :: "mem_store \<Rightarrow> string \<Rightarrow> store_error + queue_snapshot" where
  "OpenQueueSnapshot s queueName =
     (case getQueueLog s queueName of
        Inl err \<Rightarrow> Inl err
      | Inr sl \<Rightarrow>
          (let records = map Envelope_Clone (ml_messages sl)
           in Inr \<lparr>qs_head = ml_head sl, qs_tail = ml_head sl + of_nat (length records),
                   qs_records = records, qs_next = 0\<rparr>))"

text \<open>\<^verbatim>\<open>Next\<close>: the offset and record, or \<open>None\<close> at the end of the view.\<close>

definition Snapshot_Next :: "queue_snapshot \<Rightarrow> (u64 \<times> envelope) option \<times> queue_snapshot" where
  "Snapshot_Next r =
     (if qs_next r \<ge> length (qs_records r) then (None, r)
      else (Some (qs_head r + of_nat (qs_next r), qs_records r ! qs_next r), r\<lparr>qs_next := qs_next r + 1\<rparr>))"

definition RestoreQueue :: "queue_config \<Rightarrow> u64 \<Rightarrow> mem_store \<Rightarrow> store_error option \<times> mem_store" where
  "RestoreQueue config head s =
     (case QueueConfig_Validate config of
        Some err \<Rightarrow> (Some (ErrStoreConfig err), s)
      | None \<Rightarrow>
          (None, s\<lparr>ms_logs := AList.update (QName config) (empty_log config head)
                                (AList.delete (QName config) (ms_logs s)),
                   ms_topicIndex := AddQueue (QName config) (QTopics config) (ms_topicIndex s),
                   ms_groups := AList.update (QName config) [] (ms_groups s),
                   ms_consumers := AList.update (QName config) [] (ms_consumers s)\<rparr>))"

definition RestoreRecord :: "string \<Rightarrow> u64 \<Rightarrow> envelope \<Rightarrow> mem_store \<Rightarrow> store_error option \<times> mem_store" where
  "RestoreRecord queueName off msg s =
     (case getQueueLog s queueName of
        Inl err \<Rightarrow> (Some err, s)
      | Inr sl \<Rightarrow>
          if off \<noteq> ml_tail sl then (Some ErrOffsetOutOfRange, s)
          else
            (let msg = set_offset off msg;
                 sl = sl\<lparr>ml_messages := ml_messages sl @ [msg], ml_tail := ml_tail sl + 1\<rparr>;
                 sl = (if transfer_of msg \<noteq> []
                       then sl\<lparr>ml_dedupe := AList.update (transfer_of msg) off (ml_dedupe sl)\<rparr> else sl)
             in (None, put_log queueName sl s)))"

definition reset_queue :: "string \<Rightarrow> mem_store \<Rightarrow> mem_store" where
  "reset_queue name s =
     (case map_of (ms_logs s) name of
        None \<Rightarrow> s
      | Some _ \<Rightarrow>
          s\<lparr>ms_logs := AList.delete name (ms_logs s),
            ms_topicIndex := RemoveQueue name (ms_topicIndex s),
            ms_groups := AList.delete name (ms_groups s),
            ms_consumers := AList.delete name (ms_consumers s)\<rparr>)"

definition ResetForRestore :: "string list \<Rightarrow> mem_store \<Rightarrow> store_error option \<times> mem_store" where
  "ResetForRestore queueNames s = (None, fold reset_queue queueNames s)"



section \<open>Consumer groups\<close>

definition CreateConsumerGroup :: "consumer_group \<Rightarrow> mem_store \<Rightarrow> store_error option \<times> mem_store" where
  "CreateConsumerGroup g s =
     (case map_of (ms_groups s) (cg_QueueName g) of
        None \<Rightarrow> (Some ErrQueueNotFound, s)
      | Some groups \<Rightarrow>
          (case map_of groups (cg_ID g) of
             Some _ \<Rightarrow> (Some ErrConsumerGroupExists, s)
           | None \<Rightarrow>
               (None, s\<lparr>ms_groups := AList.update (cg_QueueName g) (AList.update (cg_ID g) g groups) (ms_groups s)\<rparr>)))"

definition GetConsumerGroup :: "mem_store \<Rightarrow> string \<Rightarrow> string \<Rightarrow> store_error + consumer_group" where
  "GetConsumerGroup s queueName groupID =
     (case map_of (ms_groups s) queueName of
        None \<Rightarrow> Inl ErrQueueNotFound
      | Some groups \<Rightarrow>
          (case map_of groups groupID of None \<Rightarrow> Inl ErrConsumerNotFound | Some g \<Rightarrow> Inr g))"

definition UpdateConsumerGroup :: "consumer_group \<Rightarrow> mem_store \<Rightarrow> store_error option \<times> mem_store" where
  "UpdateConsumerGroup g s =
     (case map_of (ms_groups s) (cg_QueueName g) of
        None \<Rightarrow> (Some ErrQueueNotFound, s)
      | Some groups \<Rightarrow>
          (None, s\<lparr>ms_groups := AList.update (cg_QueueName g) (AList.update (cg_ID g) g groups) (ms_groups s)\<rparr>))"

definition DeleteConsumerGroup :: "string \<Rightarrow> string \<Rightarrow> mem_store \<Rightarrow> store_error option \<times> mem_store" where
  "DeleteConsumerGroup queueName groupID s =
     (case map_of (ms_groups s) queueName of
        None \<Rightarrow> (Some ErrQueueNotFound, s)
      | Some groups \<Rightarrow>
          (None, s\<lparr>ms_groups := AList.update queueName (AList.delete groupID groups) (ms_groups s)\<rparr>))"

definition ListConsumerGroups :: "mem_store \<Rightarrow> string \<Rightarrow> store_error + consumer_group list" where
  "ListConsumerGroups s queueName =
     (case map_of (ms_groups s) queueName of
        None \<Rightarrow> Inl ErrQueueNotFound
      | Some groups \<Rightarrow> Inr (map snd groups))"

text \<open>A change through the pointer that \<^verbatim>\<open>GetConsumerGroup\<close> returned.\<close>

definition put_group :: "string \<Rightarrow> string \<Rightarrow> consumer_group \<Rightarrow> mem_store \<Rightarrow> mem_store" where
  "put_group queueName groupID g s =
     (case map_of (ms_groups s) queueName of
        None \<Rightarrow> s
      | Some groups \<Rightarrow>
          s\<lparr>ms_groups := AList.update queueName (AList.update groupID g groups) (ms_groups s)\<rparr>)"

definition AddPendingEntry ::
  "instant \<Rightarrow> string \<Rightarrow> string \<Rightarrow> pending_entry \<Rightarrow> mem_store \<Rightarrow> store_error option \<times> mem_store" where
  "AddPendingEntry now queueName groupID entry s =
     (case GetConsumerGroup s queueName groupID of
        Inl err \<Rightarrow> (Some err, s)
      | Inr g \<Rightarrow> (None, put_group queueName groupID (AddPending now (pe_ConsumerID entry) entry g) s))"

definition RemovePendingEntry ::
  "instant \<Rightarrow> string \<Rightarrow> string \<Rightarrow> string \<Rightarrow> u64 \<Rightarrow> mem_store \<Rightarrow> store_error option \<times> mem_store" where
  "RemovePendingEntry now queueName groupID consumerID off s =
     (case GetConsumerGroup s queueName groupID of
        Inl err \<Rightarrow> (Some err, s)
      | Inr g \<Rightarrow>
          (case RemovePending now consumerID off g of (ok, g) \<Rightarrow>
           if \<not> ok then (Some ErrPendingEntryNotFound, s) else (None, put_group queueName groupID g s)))"

definition GetPendingEntries :: "mem_store \<Rightarrow> string \<Rightarrow> string \<Rightarrow> string \<Rightarrow> store_error + pending_entry list" where
  "GetPendingEntries s queueName groupID consumerID =
     map_sum id (\<lambda>g. pel_of g consumerID) (GetConsumerGroup s queueName groupID)"

definition GetAllPendingEntries :: "mem_store \<Rightarrow> string \<Rightarrow> string \<Rightarrow> store_error + pending_entry list" where
  "GetAllPendingEntries s queueName groupID =
     map_sum id (\<lambda>g. concat (map snd (cg_PEL g))) (GetConsumerGroup s queueName groupID)"

definition TransferPendingEntry ::
  "instant \<Rightarrow> string \<Rightarrow> string \<Rightarrow> u64 \<Rightarrow> string \<Rightarrow> string \<Rightarrow> mem_store \<Rightarrow> store_error option \<times> mem_store" where
  "TransferPendingEntry now queueName groupID off fromConsumer toConsumer s =
     (case GetConsumerGroup s queueName groupID of
        Inl err \<Rightarrow> (Some err, s)
      | Inr g \<Rightarrow>
          (case TransferPending now off fromConsumer toConsumer g of (ok, g) \<Rightarrow>
           if \<not> ok then (Some ErrPendingEntryNotFound, s) else (None, put_group queueName groupID g s)))"

definition UpdateCursor ::
  "instant \<Rightarrow> string \<Rightarrow> string \<Rightarrow> u64 \<Rightarrow> mem_store \<Rightarrow> store_error option \<times> mem_store" where
  "UpdateCursor now queueName groupID cursor s =
     (case GetConsumerGroup s queueName groupID of
        Inl err \<Rightarrow> (Some err, s)
      | Inr g \<Rightarrow> (None, put_group queueName groupID (SetCursorPosition now cursor g) s))"

definition UpdateCommitted ::
  "instant \<Rightarrow> string \<Rightarrow> string \<Rightarrow> u64 \<Rightarrow> mem_store \<Rightarrow> store_error option \<times> mem_store" where
  "UpdateCommitted now queueName groupID committed s =
     (case GetConsumerGroup s queueName groupID of
        Inl err \<Rightarrow> (Some err, s)
      | Inr g \<Rightarrow> (None, put_group queueName groupID (SetCommitted now committed g) s))"


section \<open>Consumers\<close>

definition RegisterConsumer :: "consumer \<Rightarrow> mem_store \<Rightarrow> store_error option \<times> mem_store" where
  "RegisterConsumer c s =
     (case map_of (ms_consumers s) (co_QueueName c) of
        None \<Rightarrow> (Some ErrQueueNotFound, s)
      | Some queueConsumers \<Rightarrow>
          (let groupConsumers = (case map_of queueConsumers (co_GroupID c) of None \<Rightarrow> [] | Some m \<Rightarrow> m);
               groupConsumers = AList.update (co_ID c) c groupConsumers
           in (None, s\<lparr>ms_consumers := AList.update (co_QueueName c)
                 (AList.update (co_GroupID c) groupConsumers queueConsumers) (ms_consumers s)\<rparr>)))"

definition UnregisterConsumer :: "string \<Rightarrow> string \<Rightarrow> string \<Rightarrow> mem_store \<Rightarrow> store_error option \<times> mem_store" where
  "UnregisterConsumer queueName groupID consumerID s =
     (case map_of (ms_consumers s) queueName of
        None \<Rightarrow> (Some ErrQueueNotFound, s)
      | Some queueConsumers \<Rightarrow>
          (case map_of queueConsumers groupID of
             None \<Rightarrow> (Some ErrConsumerNotFound, s)
           | Some groupConsumers \<Rightarrow>
               (None, s\<lparr>ms_consumers := AList.update queueName
                  (AList.update groupID (AList.delete consumerID groupConsumers) queueConsumers) (ms_consumers s)\<rparr>)))"

definition Store_GetConsumer :: "mem_store \<Rightarrow> string \<Rightarrow> string \<Rightarrow> string \<Rightarrow> store_error + consumer" where
  "Store_GetConsumer s queueName groupID consumerID =
     (case map_of (ms_consumers s) queueName of
        None \<Rightarrow> Inl ErrQueueNotFound
      | Some queueConsumers \<Rightarrow>
          (case map_of queueConsumers groupID of
             None \<Rightarrow> Inl ErrConsumerNotFound
           | Some groupConsumers \<Rightarrow>
               (case map_of groupConsumers consumerID of None \<Rightarrow> Inl ErrConsumerNotFound | Some c \<Rightarrow> Inr c)))"

definition ListConsumers :: "mem_store \<Rightarrow> string \<Rightarrow> string \<Rightarrow> store_error + consumer list" where
  "ListConsumers s queueName groupID =
     (case map_of (ms_consumers s) queueName of
        None \<Rightarrow> Inl ErrQueueNotFound
      | Some queueConsumers \<Rightarrow>
          (case map_of queueConsumers groupID of None \<Rightarrow> Inr [] | Some m \<Rightarrow> Inr (map snd m)))"

definition ListGroups :: "mem_store \<Rightarrow> string \<Rightarrow> store_error + string list" where
  "ListGroups s queueName =
     (case map_of (ms_consumers s) queueName of
        None \<Rightarrow> Inl ErrQueueNotFound
      | Some queueConsumers \<Rightarrow> Inr (gomap_keys queueConsumers))"

definition UpdateHeartbeat ::
  "string \<Rightarrow> string \<Rightarrow> string \<Rightarrow> instant \<Rightarrow> mem_store \<Rightarrow> store_error option \<times> mem_store" where
  "UpdateHeartbeat queueName groupID consumerID timestamp s =
     (case Store_GetConsumer s queueName groupID consumerID of
        Inl err \<Rightarrow> (Some err, s)
      | Inr c \<Rightarrow>
          (let c = c\<lparr>co_LastHeartbeat := timestamp\<rparr>;
               queueConsumers = the (map_of (ms_consumers s) queueName);
               groupConsumers = the (map_of queueConsumers groupID)
           in (None, s\<lparr>ms_consumers := AList.update queueName
                 (AList.update groupID (AList.update consumerID c groupConsumers) queueConsumers) (ms_consumers s)\<rparr>)))"



section \<open>The invariant of a log\<close>

text \<open>
  Offsets are contiguous from the head, every record carries its own offset, and the deduplication
  index names records that are still there. The bound keeps the conversions of an offset
  difference to \<^verbatim>\<open>int\<close> exact.
\<close>

definition log_inv :: "mem_log \<Rightarrow> bool" where
  "log_inv sl \<longleftrightarrow>
     \<not> ml_deleted sl \<and> unat (ml_tail sl) = unat (ml_head sl) + length (ml_messages sl) \<and>
     unat (ml_tail sl) < 2 ^ 63 \<and>
     (\<forall>i < length (ml_messages sl). offset_of (ml_messages sl ! i) = ml_head sl + of_nat i) \<and>
     distinct (map fst (ml_dedupe sl)) \<and>
     (\<forall>k off. map_of (ml_dedupe sl) k = Some off \<longrightarrow>
        k \<noteq> [] \<and> ml_head sl \<le> off \<and> off < ml_tail sl \<and>
        transfer_of (ml_messages sl ! (unat off - unat (ml_head sl))) = k)"

text \<open>The abstraction: the record at an offset.\<close>

definition log_at :: "mem_log \<Rightarrow> u64 \<Rightarrow> envelope option" where
  "log_at sl off =
     (if ml_head sl \<le> off \<and> off < ml_tail sl
      then Some (ml_messages sl ! (unat off - unat (ml_head sl))) else None)"

lemma Envelope_Clone_id [simp]: "Envelope_Clone e = e"
  by (simp add: Envelope_Clone_def)

lemma map_Envelope_Clone [simp]: "map Envelope_Clone ms = ms"
  by (induction ms) simp_all

lemma log_invD:
  assumes "log_inv sl"
  shows "unat (ml_tail sl) = unat (ml_head sl) + length (ml_messages sl)" and "unat (ml_tail sl) < 2 ^ 63"
    and "\<not> ml_deleted sl" and "ml_head sl \<le> ml_tail sl"
  using assms by (simp_all add: log_inv_def word_le_nat_alt)

lemma offset_index:
  assumes "log_inv sl" and "ml_head sl \<le> off" and "off \<le> ml_tail sl"
  shows "sint (off - ml_head sl) = int (unat off - unat (ml_head sl))"
    and "unat off - unat (ml_head sl) \<le> length (ml_messages sl)"
proof -
  have u: "unat (off - ml_head sl) = unat off - unat (ml_head sl)"
    using assms(2) by (simp add: unat_sub)
  have "unat off \<le> unat (ml_tail sl)" using assms(3) by (simp add: word_le_nat_alt)
  then show "unat off - unat (ml_head sl) \<le> length (ml_messages sl)"
    using log_invD(1) [OF assms(1)] by simp
  have "unat (off - ml_head sl) < 2 ^ 63"
    using u \<open>unat off \<le> unat (ml_tail sl)\<close> log_invD(2) [OF assms(1)] by simp
  from sint_small [OF this] u show "sint (off - ml_head sl) = int (unat off - unat (ml_head sl))"
    by simp
qed

lemma offset_index_less:
  assumes "log_inv sl" and "ml_head sl \<le> off" and "off < ml_tail sl"
  shows "unat off - unat (ml_head sl) < length (ml_messages sl)"
proof -
  have "unat off < unat (ml_tail sl)" "unat (ml_head sl) \<le> unat off"
    using assms(2,3) by (simp_all add: word_less_nat_alt word_le_nat_alt)
  then show ?thesis using log_invD(1) [OF assms(1)] by simp
qed

lemma Read_spec:
  assumes "getQueueLog s q = Inr sl" and "log_inv sl"
  shows "Read s q off = (case log_at sl off of None \<Rightarrow> Inl ErrOffsetOutOfRange | Some m \<Rightarrow> Inr m)"
proof (cases "ml_head sl \<le> off \<and> off < ml_tail sl")
  case True
  then have "off \<le> ml_tail sl" by auto
  with True offset_index(1) [OF assms(2)] offset_index_less [OF assms(2)] show ?thesis
    by (auto simp: Read_def assms(1) log_at_def Let_def not_less not_le)
next
  case False
  then show ?thesis by (auto simp: Read_def assms(1) log_at_def not_less not_le)
qed

lemma getQueueLog_put [simp]:
  "getQueueLog (put_log q sl s) q' = (if q' = q then (if ml_deleted sl then Inl ErrQueueNotFound else Inr sl)
     else getQueueLog s q')"
  by (simp add: getQueueLog_def put_log_def)

lemma room_succ:
  assumes "log_inv sl" and "unat (ml_tail sl) + 1 < 2 ^ 63"
  shows "unat (ml_tail sl + 1) = unat (ml_tail sl) + 1" and "ml_tail sl < ml_tail sl + 1"
proof -
  show "unat (ml_tail sl + 1) = unat (ml_tail sl) + 1"
    using assms(2) by (intro unat_plus_1) simp
  then show "ml_tail sl < ml_tail sl + 1" by (simp add: word_less_nat_alt)
qed


lemma log_inv_push:
  assumes "log_inv sl" and "unat (ml_tail sl) + 1 < 2 ^ 63"
  shows "log_inv (push m sl)"
proof -
  note room = room_succ [OF assms]
  note inv = log_invD [OF assms(1)]
  have t: "ml_tail sl = ml_head sl + of_nat (length (ml_messages sl))"
    using inv(1) by (rule u64_eq_plus)
  have "offset_of ((ml_messages sl @ [set_offset (ml_tail sl) m]) ! i) = ml_head sl + of_nat i"
    if "i < Suc (length (ml_messages sl))" for i
  proof (cases "i < length (ml_messages sl)")
    case True
    then show ?thesis using assms(1) by (simp add: nth_append log_inv_def)
  next
    case False
    then have "i = length (ml_messages sl)" using that by simp
    then show ?thesis using t by (simp add: set_offset_def)
  qed
  moreover have "off < ml_tail sl + 1 \<and>
      transfer_of ((ml_messages sl @ [set_offset (ml_tail sl) m]) ! (unat off - unat (ml_head sl))) = k"
    if "map_of (ml_dedupe sl) k = Some off" for k off
  proof -
    have o: "ml_head sl \<le> off" "off < ml_tail sl" "transfer_of (ml_messages sl ! (unat off - unat (ml_head sl))) = k"
      using assms(1) that by (auto simp: log_inv_def)
    with offset_index_less [OF assms(1) o(1,2)] room(2) show ?thesis
      by (auto simp: nth_append)
  qed
  ultimately show ?thesis
    using assms inv room by (auto simp: log_inv_def push_def)
qed

lemma log_at_push:
  assumes "log_inv sl" and "unat (ml_tail sl) + 1 < 2 ^ 63"
  shows "log_at (push m sl) = (log_at sl)(ml_tail sl \<mapsto> set_offset (ml_tail sl) m)"
proof
  fix off
  note room = room_succ [OF assms]
  note inv = log_invD [OF assms(1)]
  have le: "off < ml_tail sl + 1 \<longleftrightarrow> off \<le> ml_tail sl"
    using assms(2) by (intro u64_less_succ) simp
  show "log_at (push m sl) off = ((log_at sl)(ml_tail sl \<mapsto> set_offset (ml_tail sl) m)) off"
  proof (cases "off = ml_tail sl")
    case True
    then show ?thesis using inv le by (simp add: log_at_def push_def nth_append)
  next
    case False
    then have "off \<le> ml_tail sl \<longleftrightarrow> off < ml_tail sl" by auto
    then show ?thesis
      using False le offset_index_less [OF assms(1)] by (simp add: log_at_def push_def nth_append)
  qed
qed

end
