(* ===== verification/Mem_Log_Props.thy ===== *)
theory Mem_Log_Props
  imports Mem_Log
begin

text \<open>
  What the in-memory queue store promises: appended records read back at their offset until they are
  truncated, batches are repeated appends, a deduplication key is honoured for as long as its record
  is retained, truncation and retention queries cut exactly where they say, a snapshot restores the
  log it was taken from, and the topic index agrees with the registered queues.
\<close>

section \<open>The operations on one log\<close>

text \<open>The log that each operation leaves behind, on logs that satisfy the invariant.\<close>

definition truncated :: "u64 \<Rightarrow> mem_log \<Rightarrow> mem_log" where
  "truncated minOffset sl =
     (let cut = max (ml_head sl) (min minOffset (ml_tail sl))
      in sl\<lparr>ml_messages := drop (unat cut - unat (ml_head sl)) (ml_messages sl), ml_head := cut,
            ml_dedupe := filter (\<lambda>(_, off). \<not> off < cut) (ml_dedupe sl)\<rparr>)"

definition once :: "string \<Rightarrow> envelope \<Rightarrow> mem_log \<Rightarrow> mem_log" where
  "once key msg sl =
     (case map_of (ml_dedupe sl) key of
        Some _ \<Rightarrow> sl
      | None \<Rightarrow> (push (set_transfer key msg) sl)
                  \<lparr>ml_dedupe := AList.update key (ml_tail sl) (ml_dedupe sl)\<rparr>)"

lemma update_same: "map_of m k = Some v \<Longrightarrow> AList.update k v m = m"
  by (induction m) auto

lemma put_log_same: "getQueueLog s q = Inr sl \<Longrightarrow> put_log q sl s = s"
  by (simp add: put_log_def getQueueLog_def update_same split: option.splits if_splits)

lemma log_inv_dedupe:
  assumes "log_inv sl" and "map_of (ml_dedupe sl) k = Some off"
  shows "k \<noteq> []" "ml_head sl \<le> off" "off < ml_tail sl"
    and "transfer_of (ml_messages sl ! (unat off - unat (ml_head sl))) = k"
  using assms by (auto simp: log_inv_def)

lemma log_inv_dedupe_distinct: "log_inv sl \<Longrightarrow> distinct (map fst (ml_dedupe sl))"
  by (simp add: log_inv_def)

lemma truncated_noop:
  assumes "log_inv sl" and "minOffset \<le> ml_head sl"
  shows "truncated minOffset sl = sl"
proof -
  have cut: "max (ml_head sl) (min minOffset (ml_tail sl)) = ml_head sl"
    using assms(2) by (auto simp: max_def min_def)
  have "\<not> off < ml_head sl" if "(k, off) \<in> set (ml_dedupe sl)" for k off
    using log_inv_dedupe(2) [OF assms(1)] that log_inv_dedupe_distinct [OF assms(1)]
    by (metis map_of_is_SomeI not_less)
  then have "filter (\<lambda>(_, off). \<not> off < ml_head sl) (ml_dedupe sl) = ml_dedupe sl"
    by (intro filter_True) auto
  then show ?thesis by (simp add: truncated_def cut)
qed

lemma Truncate_eq:
  assumes g: "getQueueLog s q = Inr sl" and inv: "log_inv sl"
  shows "Truncate q minOffset s = (None, put_log q (truncated minOffset sl) s)"
proof (cases "minOffset \<le> ml_head sl")
  case True
  then show ?thesis
    using g by (simp add: Truncate_def truncated_noop [OF inv] put_log_same)
next
  case False
  define cut where "cut = (if minOffset > ml_tail sl then ml_tail sl else minOffset)"
  have c: "ml_head sl \<le> cut" "cut \<le> ml_tail sl"
    using False log_invD(4) [OF inv] by (auto simp: cut_def)
  have m: "max (ml_head sl) (min minOffset (ml_tail sl)) = cut"
    using False log_invD(4) [OF inv] by (auto simp: cut_def max_def min_def)
  show ?thesis
    using False offset_index [OF inv c]
    by (simp add: Truncate_def g truncated_def m Let_def cut_def [symmetric])
qed

lemma AppendOnce_eq:
  assumes "key \<noteq> []" and "getQueueLog s q = Inr sl"
  shows "AppendOnce q key msg s =
    (Inr (case map_of (ml_dedupe sl) key of Some off \<Rightarrow> (off, True) | None \<Rightarrow> (ml_tail sl, False)),
     put_log q (once key msg sl) s)"
  using assms by (simp add: AppendOnce_def once_def Let_def put_log_same push_def split: option.split)

lemma log_inv_once:
  assumes "log_inv sl" and "unat (ml_tail sl) + 1 < 2 ^ 63" and "key \<noteq> []"
  shows "log_inv (once key msg sl)"
proof (cases "map_of (ml_dedupe sl) key")
  case None
  let ?sl = "push (set_transfer key msg) sl"
  have inv: "log_inv ?sl" by (rule log_inv_push [OF assms(1,2)])
  have l: "unat (ml_tail sl) - unat (ml_head sl) = length (ml_messages sl)"
    using log_invD(1) [OF assms(1)] by simp
  have "transfer_of (ml_messages ?sl ! (unat (ml_tail sl) - unat (ml_head sl))) = key"
    by (simp add: l) (simp add: push_def nth_append set_offset_def set_transfer_def)
  then show ?thesis
    using inv None assms(3) log_invD(4) [OF assms(1)] room_succ(2) [OF assms(1,2)]
    by (auto simp: once_def log_inv_def push_def split: if_splits)
qed (simp add: once_def assms(1))

lemma log_at_once:
  assumes "log_inv sl" and "unat (ml_tail sl) + 1 < 2 ^ 63"
  shows "log_at (once key msg sl) =
    (case map_of (ml_dedupe sl) key of
       Some _ \<Rightarrow> log_at sl
     | None \<Rightarrow> (log_at sl)(ml_tail sl \<mapsto> set_offset (ml_tail sl) (set_transfer key msg)))"
proof -
  have "log_at (sl'\<lparr>ml_dedupe := d\<rparr>) = log_at sl'" for sl' :: mem_log and d
    by (rule ext) (simp add: log_at_def)
  then show ?thesis
    by (simp add: once_def log_at_push [OF assms] split: option.split)
qed

lemma truncated_cut:
  assumes "log_inv sl"
  shows "ml_head sl \<le> ml_head (truncated m sl)" "ml_head (truncated m sl) \<le> ml_tail sl"
    and "ml_tail (truncated m sl) = ml_tail sl"
  using log_invD(4) [OF assms] by (auto simp: truncated_def Let_def)

lemma log_inv_truncated:
  assumes "log_inv sl"
  shows "log_inv (truncated m sl)"
proof -
  define cut where "cut = ml_head (truncated m sl)"
  have c: "ml_head sl \<le> cut" "cut \<le> ml_tail sl" using truncated_cut [OF assms] by (simp_all add: cut_def)
  define n where "n = unat cut - unat (ml_head sl)"
  have le: "unat (ml_head sl) \<le> unat cut" "unat cut \<le> unat (ml_tail sl)" using c by (simp_all add: word_le_nat_alt)
  have n: "n \<le> length (ml_messages sl)" using offset_index(2) [OF assms c] by (simp add: n_def)
  have t: "truncated m sl = sl\<lparr>ml_messages := drop n (ml_messages sl), ml_head := cut,
      ml_dedupe := filter (\<lambda>(_, off). \<not> off < cut) (ml_dedupe sl)\<rparr>"
    by (simp add: truncated_def Let_def cut_def n_def)
  have cut_n: "cut = ml_head sl + of_nat n"
    using le by (intro u64_eq_plus) (simp add: n_def)
  have off: "offset_of (drop n (ml_messages sl) ! i) = cut + of_nat i"
    if "i < length (ml_messages sl) - n" for i
    using assms that n cut_n by (simp add: log_inv_def add.assoc)
  have ded: "k \<noteq> [] \<and> cut \<le> off \<and> off < ml_tail sl \<and>
      transfer_of (drop n (ml_messages sl) ! (unat off - unat cut)) = k"
    if "map_of (filter (\<lambda>(_, off). \<not> off < cut) (ml_dedupe sl)) k = Some off" for k off
  proof -
    have k: "map_of (ml_dedupe sl) k = Some off" "cut \<le> off"
      using that by (auto simp: map_of_filter_distinct [OF log_inv_dedupe_distinct [OF assms]]
          split: option.splits if_splits)
    note d = log_inv_dedupe [OF assms k(1)]
    have "unat cut \<le> unat off" using k(2) by (simp add: word_le_nat_alt)
    then have "n + (unat off - unat cut) = unat off - unat (ml_head sl)" using le by (simp add: n_def)
    with d k n show ?thesis by simp
  qed
  show ?thesis
    using log_invD [OF assms] le n off ded distinct_map_filter [OF log_inv_dedupe_distinct [OF assms]]
    by (simp add: t log_inv_def n_def)
qed

lemma log_at_truncated:
  assumes "log_inv sl"
  shows "log_at (truncated m sl) off = (if off < m then None else log_at sl off)"
proof -
  define cut where "cut = ml_head (truncated m sl)"
  have c: "ml_head sl \<le> cut" "cut \<le> ml_tail sl" using truncated_cut [OF assms] by (simp_all add: cut_def)
  have below: "off < cut \<longleftrightarrow> off < m" if "ml_head sl \<le> off" "off < ml_tail sl"
    using that by (auto simp: cut_def truncated_def Let_def max_def min_def)
  have le: "unat (ml_head sl) \<le> unat cut" using c by (simp add: word_le_nat_alt)
  have idx: "drop (unat cut - unat (ml_head sl)) (ml_messages sl) ! (unat off - unat cut) =
      ml_messages sl ! (unat off - unat (ml_head sl))" if "cut \<le> off"
  proof -
    have "unat cut \<le> unat off" using that by (simp add: word_le_nat_alt)
    then have "unat cut - unat (ml_head sl) + (unat off - unat cut) = unat off - unat (ml_head sl)" using le by simp
    moreover have "unat cut - unat (ml_head sl) \<le> length (ml_messages sl)" by (rule offset_index(2) [OF assms c])
    ultimately show ?thesis by simp
  qed
  have ms: "ml_messages (truncated m sl) = drop (unat cut - unat (ml_head sl)) (ml_messages sl)"
    by (simp add: truncated_def Let_def cut_def)
  show ?thesis
  proof (cases "cut \<le> off \<and> off < ml_tail sl")
    case True
    then have "ml_head sl \<le> off" using c by auto
    then show ?thesis using True below idx truncated_cut(3) [OF assms]
      by (auto simp: log_at_def ms cut_def [symmetric])
  next
    case False
    then show ?thesis using c below truncated_cut(3) [OF assms]
      by (auto simp: log_at_def cut_def [symmetric] not_le)
  qed
qed

lemma dedupe_truncated:
  assumes "log_inv sl"
  shows "map_of (ml_dedupe (truncated m sl)) k =
    (case map_of (ml_dedupe sl) k of None \<Rightarrow> None
     | Some off \<Rightarrow> if ml_head (truncated m sl) \<le> off then Some off else None)"
  by (simp add: truncated_def Let_def map_of_filter_distinct [OF log_inv_dedupe_distinct [OF assms]] not_less
      split: option.split)


section \<open>The abstract log\<close>

text \<open>
  The contract of a queue log without slices, pruning or machine arithmetic: every record ever
  appended in order, the first offset still retained, and the offset recorded for a deduplication
  key, which counts only while that offset is retained.
\<close>

record abs_log =
  al_all :: "envelope list"
  al_from :: nat
  al_keys :: "string \<rightharpoonup> nat"

datatype log_op =
  OpAppend envelope
| OpBatch "envelope list"
| OpOnce string envelope
| OpTruncate u64

definition abs_push :: "envelope \<Rightarrow> abs_log \<Rightarrow> abs_log" where
  "abs_push msg al = al\<lparr>al_all := al_all al @ [set_offset (of_nat (length (al_all al))) msg]\<rparr>"

definition abs_key :: "abs_log \<Rightarrow> string \<Rightarrow> nat option" where
  "abs_key al key =
     (case al_keys al key of None \<Rightarrow> None | Some i \<Rightarrow> if al_from al \<le> i then Some i else None)"

fun abs_step :: "log_op \<Rightarrow> abs_log \<Rightarrow> abs_log" where
  "abs_step (OpAppend msg) al = abs_push msg al"
| "abs_step (OpBatch msgs) al = fold abs_push msgs al"
| "abs_step (OpOnce key msg) al =
     (if key = [] \<or> abs_key al key \<noteq> None then al
      else (abs_push (set_transfer key msg) al)\<lparr>al_keys := (al_keys al)(key \<mapsto> length (al_all al))\<rparr>)"
| "abs_step (OpTruncate m) al = al\<lparr>al_from := max (al_from al) (min (unat m) (length (al_all al)))\<rparr>"

definition abs_empty :: abs_log where
  "abs_empty = \<lparr>al_all = [], al_from = 0, al_keys = Map.empty\<rparr>"

definition abs_read :: "abs_log \<Rightarrow> u64 \<Rightarrow> envelope option" where
  "abs_read al off =
     (if al_from al \<le> unat off \<and> unat off < length (al_all al) then Some (al_all al ! unat off) else None)"

text \<open>The operations of the store in the same vocabulary, and the number of records they may add.\<close>

fun store_op :: "string \<Rightarrow> log_op \<Rightarrow> mem_store \<Rightarrow> mem_store" where
  "store_op q (OpAppend msg) s = snd (Append q msg s)"
| "store_op q (OpBatch msgs) s = snd (AppendBatch q msgs s)"
| "store_op q (OpOnce key msg) s = snd (AppendOnce q key msg s)"
| "store_op q (OpTruncate m) s = snd (Truncate q m s)"

fun op_size :: "log_op \<Rightarrow> nat" where
  "op_size (OpAppend _) = 1"
| "op_size (OpBatch msgs) = length msgs"
| "op_size (OpOnce _ _) = 1"
| "op_size (OpTruncate _) = 0"

fun log_step :: "log_op \<Rightarrow> mem_log \<Rightarrow> mem_log" where
  "log_step (OpAppend msg) sl = push msg sl"
| "log_step (OpBatch msgs) sl = fold push msgs sl"
| "log_step (OpOnce key msg) sl = (if key = [] then sl else once key msg sl)"
| "log_step (OpTruncate m) sl = truncated m sl"

definition refines :: "mem_log \<Rightarrow> abs_log \<Rightarrow> bool" where
  "refines sl al \<longleftrightarrow>
     log_inv sl \<and> unat (ml_head sl) = al_from al \<and> unat (ml_tail sl) = length (al_all al) \<and>
     ml_messages sl = drop (al_from al) (al_all al) \<and>
     (\<forall>k. map_of (ml_dedupe sl) k = map_option of_nat (abs_key al k)) \<and>
     (\<forall>k i. al_keys al k = Some i \<longrightarrow> i < length (al_all al))"

lemma refinesD:
  assumes "refines sl al"
  shows "log_inv sl" "unat (ml_head sl) = al_from al" "unat (ml_tail sl) = length (al_all al)"
    and "ml_messages sl = drop (al_from al) (al_all al)" "al_from al \<le> length (al_all al)"
    and "map_of (ml_dedupe sl) k = map_option of_nat (abs_key al k)"
    and "al_keys al k = Some i \<Longrightarrow> i < length (al_all al)"
  using assms log_invD(4) [of sl] by (auto simp: refines_def word_le_nat_alt)

lemma ml_tail_nat: "refines sl al \<Longrightarrow> ml_tail sl = of_nat (length (al_all al))"
  using u64_eq_plus [of "ml_tail sl" 0 "length (al_all al)"] refinesD(3) by simp

lemma abs_key_push [simp]: "abs_key (abs_push msg al) = abs_key al"
  by (rule ext) (simp add: abs_key_def abs_push_def split: option.split)

lemma refines_push:
  assumes "refines sl al" and "unat (ml_tail sl) + 1 < 2 ^ 63"
  shows "refines (push msg sl) (abs_push msg al)"
  unfolding refines_def
proof (intro conjI allI)
  note r = refinesD [OF assms(1)]
  show "log_inv (push msg sl)" using log_inv_push [OF r(1) assms(2)] .
  show "unat (ml_tail (push msg sl)) = length (al_all (abs_push msg al))"
    using room_succ(1) [OF r(1) assms(2)] r(3) by (simp add: push_def abs_push_def)
  show "ml_messages (push msg sl) = drop (al_from (abs_push msg al)) (al_all (abs_push msg al))"
    using r(4,5) ml_tail_nat [OF assms(1)] by (simp add: push_def abs_push_def)
  show "unat (ml_head (push msg sl)) = al_from (abs_push msg al)"
    using r(2) by (simp add: push_def abs_push_def)
  show "map_of (ml_dedupe (push msg sl)) k = map_option of_nat (abs_key (abs_push msg al) k)" for k
    using r(6) by (simp add: push_def)
  show "al_keys (abs_push msg al) k = Some i \<longrightarrow> i < length (al_all (abs_push msg al))" for k i
    using r(7) by (auto simp: abs_push_def intro: less_SucI)
qed

lemma refines_fold_push:
  "refines sl al \<Longrightarrow> unat (ml_tail sl) + length msgs < 2 ^ 63 \<Longrightarrow>
   refines (fold push msgs sl) (fold abs_push msgs al)"
proof (induction msgs arbitrary: sl al)
  case (Cons m msgs)
  have room: "unat (ml_tail sl) + 1 < 2 ^ 63" using Cons.prems(2) by simp
  have "unat (ml_tail (push m sl)) = unat (ml_tail sl) + 1"
    using room_succ(1) [OF refinesD(1) [OF Cons.prems(1)] room] by (simp add: push_def)
  with Cons.IH [OF refines_push [OF Cons.prems(1) room]] Cons.prems(2) show ?case by simp
qed simp

lemma refines_once:
  assumes "refines sl al" and "unat (ml_tail sl) + 1 < 2 ^ 63" and "key \<noteq> []"
  shows "refines (once key msg sl) (abs_step (OpOnce key msg) al)"
proof (cases "abs_key al key")
  case None
  note r = refinesD [OF assms(1)]
  let ?al = "(abs_push (set_transfer key msg) al)\<lparr>al_keys := (al_keys al)(key \<mapsto> length (al_all al))\<rparr>"
  have o: "once key msg sl = (push (set_transfer key msg) sl)
      \<lparr>ml_dedupe := AList.update key (ml_tail sl) (ml_dedupe sl)\<rparr>"
    using None r(6) by (simp add: once_def)
  have "map_of (AList.update key (ml_tail sl) (ml_dedupe sl)) k = map_option of_nat (abs_key ?al k)" for k
    using r(5,6) ml_tail_nat [OF assms(1)] by (simp add: abs_key_def abs_push_def split: option.split)
  moreover have "i < length (al_all ?al)" if "al_keys ?al k = Some i" for k i
    using that r(7) [of k i] by (auto simp: abs_push_def split: if_splits)
  ultimately show ?thesis
    using refines_push [OF assms(1,2), of "set_transfer key msg"] log_inv_once [OF r(1) assms(2,3), of msg] None assms(3)
    by (simp add: refines_def o)
next
  case (Some i)
  then show ?thesis using refinesD(6) [OF assms(1), of key] assms(1) by (simp add: once_def)
qed

lemma refines_truncated:
  assumes "refines sl al"
  shows "refines (truncated m sl) (abs_step (OpTruncate m) al)"
  unfolding refines_def
proof (intro conjI allI)
  note r = refinesD [OF assms]
  have h: "unat (ml_head (truncated m sl)) = max (al_from al) (min (unat m) (length (al_all al)))"
    using r(2,3) by (auto simp: truncated_def Let_def max_def min_def word_le_nat_alt)
  then show "unat (ml_head (truncated m sl)) = al_from (abs_step (OpTruncate m) al)" by simp
  show "log_inv (truncated m sl)" by (rule log_inv_truncated [OF r(1)])
  show "unat (ml_tail (truncated m sl)) = length (al_all (abs_step (OpTruncate m) al))"
    using r(3) truncated_cut(3) [OF r(1)] by simp
  have "ml_messages (truncated m sl) =
      drop (unat (ml_head (truncated m sl)) - unat (ml_head sl)) (ml_messages sl)"
    by (simp add: truncated_def Let_def)
  then show "ml_messages (truncated m sl) =
      drop (al_from (abs_step (OpTruncate m) al)) (al_all (abs_step (OpTruncate m) al))"
    using h r(2,4) by simp
  show "map_of (ml_dedupe (truncated m sl)) k = map_option of_nat (abs_key (abs_step (OpTruncate m) al) k)" for k
  proof (cases "abs_key al k")
    case None
    then show ?thesis
      using r(6) by (auto simp: dedupe_truncated [OF r(1)] abs_key_def split: option.splits if_splits)
  next
    case (Some i)
    then have d: "map_of (ml_dedupe sl) k = Some (of_nat i)" "al_keys al k = Some i" "al_from al \<le> i"
      using r(6) by (auto simp: abs_key_def split: option.splits if_splits)
    have i: "unat (of_nat i :: u64) = i"
      using r(3) r(7) [OF d(2)] log_invD(2) [OF r(1)] by (intro unat_of_nat_u64) simp
    show ?thesis
      using d h i by (simp add: dedupe_truncated [OF r(1)] abs_key_def word_le_nat_alt)
  qed
  show "al_keys (abs_step (OpTruncate m) al) k = Some i \<longrightarrow> i < length (al_all (abs_step (OpTruncate m) al))" for k i
    using r(7) by simp
qed


lemma refines_step:
  assumes "refines sl al" and "unat (ml_tail sl) + op_size op < 2 ^ 63"
  shows "refines (log_step op sl) (abs_step op al)"
proof (cases op)
  case (OpOnce key msg)
  then show ?thesis
    using refines_once [OF assms(1), of key msg] assms by (cases "key = []") simp_all
qed (use assms refines_push refines_fold_push refines_truncated in auto)

lemma tail_step_inv: "unat (ml_tail (log_step op sl)) \<le> unat (ml_tail sl) + op_size op"
proof -
  have p: "unat (x + 1 :: u64) \<le> unat x + 1" for x
    using mod_less_eq_dividend [of "unat x + 1" "2 ^ 64"] by (simp add: unat_word_ariths)
  have "unat (ml_tail (fold push msgs sl)) \<le> unat (ml_tail sl) + length msgs" for msgs
  proof (induction msgs arbitrary: sl)
    case (Cons m msgs)
    show ?case using Cons.IH [of "push m sl"] p [of "ml_tail sl"] by (simp add: push_def)
  qed simp
  then show ?thesis
    using p by (cases op) (simp_all add: push_def once_def truncated_def Let_def split: option.split)
qed

lemma put_put [simp]: "put_log q a (put_log q b s) = put_log q a s"
proof -
  have "AList.update q a (AList.update q b m) = AList.update q a m" for m :: "(string, mem_log) gomap"
    by (induction m) auto
  then show ?thesis by (simp add: put_log_def)
qed

lemma fold_push_deleted [simp]: "ml_deleted (fold push msgs sl) = ml_deleted sl"
  by (induction msgs arbitrary: sl) (simp_all add: push_def)

lemma store_op_log:
  assumes "getQueueLog s q = Inr sl" and "log_inv sl"
  shows "store_op q op s = put_log q (log_step op sl) s"
  using assms
  by (cases op) (simp_all add: Append_def AppendBatch_def AppendOnce_def [of _ "[]"] AppendOnce_eq
      Truncate_eq put_log_same)

text \<open>Every run of operations on a queue keeps the log of the store a refinement of the abstract log.\<close>

lemma store_run:
  "getQueueLog s q = Inr sl \<Longrightarrow> refines sl al \<Longrightarrow>
   unat (ml_tail sl) + sum_list (map op_size ops) < 2 ^ 63 \<Longrightarrow>
   \<exists>sl'. getQueueLog (fold (store_op q) ops s) q = Inr sl' \<and> refines sl' (fold abs_step ops al) \<and>
         unat (ml_tail sl') \<le> unat (ml_tail sl) + sum_list (map op_size ops)"
proof (induction ops arbitrary: s sl al)
  case (Cons op ops)
  have room: "unat (ml_tail sl) + op_size op < 2 ^ 63" using Cons.prems(3) by simp
  note r = refines_step [OF Cons.prems(2) room]
  have g: "getQueueLog (store_op q op s) q = Inr (log_step op sl)"
    using store_op_log [OF Cons.prems(1) refinesD(1) [OF Cons.prems(2)]] log_invD(3) [OF refinesD(1) [OF r]]
    by simp
  have t: "unat (ml_tail (log_step op sl)) \<le> unat (ml_tail sl) + op_size op"
    by (rule tail_step_inv)
  have "unat (ml_tail (log_step op sl)) + sum_list (map op_size ops) < 2 ^ 63"
    using t Cons.prems(3) by simp
  from Cons.IH [OF g r this] t show ?case by fastforce
qed auto

lemma log_at_refines:
  assumes "refines sl al"
  shows "log_at sl off = abs_read al off"
  using refinesD [OF assms] by (auto simp: log_at_def abs_read_def word_le_nat_alt word_less_nat_alt)

lemma empty_refines: "refines (empty_log config 0) abs_empty"
  by (simp add: refines_def empty_log_def abs_empty_def log_inv_def abs_key_def)


section \<open>Batches\<close>

lemma put_missing: "getQueueLog s q = Inl e \<Longrightarrow> snd (Append q m s) = s"
  by (simp add: Append_def)

lemma fold_Append:
  "getQueueLog s q = Inr sl \<Longrightarrow>
   fold (\<lambda>m s. snd (Append q m s)) msgs s = put_log q (fold push msgs sl) s"
proof (induction msgs arbitrary: s sl)
  case (Cons m msgs)
  have "\<not> ml_deleted sl" using Cons.prems by (simp add: getQueueLog_def split: option.splits if_splits)
  then have "getQueueLog (put_log q (push m sl) s) q = Inr (push m sl)" by (simp add: push_def)
  from Cons.IH [OF this] show ?case by (simp add: Append_def Cons.prems)
qed (simp add: put_log_same)

lemma fold_Append_missing:
  "getQueueLog s q = Inl e \<Longrightarrow> fold (\<lambda>m s. snd (Append q m s)) msgs s = s"
  by (induction msgs) (simp_all add: put_missing)


section \<open>Retention by size and time\<close>

lemma size_cut_None: "size_cut budget tot ms = None \<Longrightarrow> tot \<le> budget \<Longrightarrow>
  tot + sum_list (map messageSize ms) \<le> budget"
  by (induction budget tot ms rule: size_cut.induct) (auto simp: Let_def add.assoc split: if_splits)

lemma size_cut_Some:
  "size_cut budget tot ms = Some i \<Longrightarrow> tot \<le> budget \<Longrightarrow>
   0 < i \<and> i \<le> length ms \<and> tot + sum_list (map messageSize (take (length ms - i) ms)) \<le> budget \<and>
   budget < tot + sum_list (map messageSize (take (Suc (length ms - i)) ms))"
proof (induction budget tot ms rule: size_cut.induct)
  case (2 budget tot msg older)
  show ?case
  proof (cases "tot + messageSize msg > budget")
    case True
    then show ?thesis using 2 by (simp add: Let_def)
  next
    case False
    then have "size_cut budget (tot + messageSize msg) older = Some i" using "2.prems"(1) by (simp add: Let_def)
    from "2.IH" [OF refl False this] False show ?thesis
      by (simp add: Suc_diff_le add.assoc)
  qed
qed simp

lemma sum_take_rev:
  "i \<le> length ms \<Longrightarrow> sum_list (map f (take (length ms - i) (rev ms))) = sum_list (map f (drop i ms))"
  for f :: "'a \<Rightarrow> int"
  by (simp add: take_rev rev_map [symmetric] sum_list_rev)

lemma first_since_Some:
  "first_since ts n ms = Some i \<Longrightarrow>
   n \<le> i \<and> i < n + length ms \<and> created_of (ms ! (i - n)) \<noteq> zero_time \<and> ts \<le> created_of (ms ! (i - n)) \<and>
   (\<forall>j < i - n. created_of (ms ! j) = zero_time \<or> created_of (ms ! j) < ts)"
proof (induction ts n ms rule: first_since.induct)
  case (2 ts n msg msgs)
  show ?case
  proof (cases "created_of msg \<noteq> zero_time \<and> \<not> created_of msg < ts")
    case True
    then show ?thesis using "2.prems" by auto
  next
    case False
    have r: "Suc n \<le> i" "i < Suc n + length msgs" "created_of (msgs ! (i - Suc n)) \<noteq> zero_time"
      "ts \<le> created_of (msgs ! (i - Suc n))"
      "\<forall>j < i - Suc n. created_of (msgs ! j) = zero_time \<or> created_of (msgs ! j) < ts"
      using "2.IH" [OF False] "2.prems" False by (auto split: if_splits)
    obtain k where k: "i - n = Suc k" "i - Suc n = k" using r(1) by (metis Suc_diff_Suc Suc_le_lessD)
    show ?thesis using r False by (auto simp: k nth_Cons' split: if_splits)
  qed
qed simp

lemma first_since_None:
  "first_since ts n ms = None \<Longrightarrow> m \<in> set ms \<Longrightarrow> created_of m = zero_time \<or> created_of m < ts"
  by (induction ts n ms rule: first_since.induct) (auto split: if_splits)


section \<open>Snapshot and restore\<close>

text \<open>Drain a snapshot reader, and replay its records into a restored queue until one is refused.\<close>

function snapshot_records :: "queue_snapshot \<Rightarrow> (u64 \<times> envelope) list" where
  "snapshot_records r =
     (case Snapshot_Next r of (None, _) \<Rightarrow> [] | (Some x, r') \<Rightarrow> x # snapshot_records r')"
  by pat_completeness auto
termination
  by (relation "measure (\<lambda>r. length (qs_records r) - qs_next r)")
     (auto simp: Snapshot_Next_def split: if_splits)

declare snapshot_records.simps [simp del]

fun restore_records :: "string \<Rightarrow> (u64 \<times> envelope) list \<Rightarrow> mem_store \<Rightarrow> store_error option \<times> mem_store" where
  "restore_records q [] s = (None, s)"
| "restore_records q ((off, msg) # recs) s =
     (case RestoreRecord q off msg s of
        (Some err, s) \<Rightarrow> (Some err, s)
      | (None, s) \<Rightarrow> restore_records q recs s)"

lemma snapshot_records_eq:
  "snapshot_records r =
     map (\<lambda>i. (qs_head r + of_nat i, qs_records r ! i)) [qs_next r..<length (qs_records r)]"
proof (induction r rule: snapshot_records.induct)
  case (1 r)
  show ?case
  proof (cases "qs_next r \<ge> length (qs_records r)")
    case True
    then show ?thesis by (simp add: snapshot_records.simps [of r] Snapshot_Next_def)
  next
    case False
    let ?r = "r\<lparr>qs_next := qs_next r + 1\<rparr>"
    have n: "Snapshot_Next r = (Some (qs_head r + of_nat (qs_next r), qs_records r ! qs_next r), ?r)"
      using False by (simp add: Snapshot_Next_def)
    from 1 [OF n [symmetric] refl] False show ?thesis
      by (simp add: snapshot_records.simps [of r] n upt_conv_Cons)
  qed
qed

definition restored :: "envelope \<Rightarrow> mem_log \<Rightarrow> mem_log" where
  "restored msg sl =
     (push msg sl)\<lparr>ml_dedupe :=
        (if transfer_of msg \<noteq> [] then AList.update (transfer_of msg) (ml_tail sl) (ml_dedupe sl)
         else ml_dedupe sl)\<rparr>"

lemma transfer_set_offset [simp]: "transfer_of (set_offset off msg) = transfer_of msg"
  by (simp add: set_offset_def)

lemma set_offset_same: "offset_of msg = off \<Longrightarrow> set_offset off msg = msg"
  by (simp add: set_offset_def)

lemma RestoreRecord_eq:
  assumes "getQueueLog s q = Inr sl"
  shows "RestoreRecord q (ml_tail sl) msg s = (None, put_log q (restored msg sl) s)"
  by (cases sl) (simp add: RestoreRecord_def assms restored_def push_def Let_def)

lemma log_inv_restored:
  assumes "log_inv sl" and "unat (ml_tail sl) + 1 < 2 ^ 63"
  shows "log_inv (restored msg sl)"
proof -
  have inv: "log_inv (push msg sl)" by (rule log_inv_push [OF assms])
  have l: "unat (ml_tail sl) - unat (ml_head sl) = length (ml_messages sl)"
    using log_invD(1) [OF assms(1)] by simp
  have "transfer_of (ml_messages (push msg sl) ! (unat (ml_tail sl) - unat (ml_head sl))) = transfer_of msg"
    by (simp add: l) (simp add: push_def nth_append)
  then show ?thesis
    using inv log_invD(4) [OF assms(1)] room_succ(2) [OF assms]
    by (auto simp: restored_def log_inv_def push_def split: if_splits)
qed

lemma restored_simps [simp]:
  "ml_tail (restored msg sl) = ml_tail sl + 1" "ml_head (restored msg sl) = ml_head sl"
  "ml_messages (restored msg sl) = ml_messages sl @ [set_offset (ml_tail sl) msg]"
  "ml_deleted (restored msg sl) = ml_deleted sl"
  by (simp_all add: restored_def push_def)

lemma dedupe_restored:
  "map_of (ml_dedupe (restored msg sl)) k \<noteq> None \<longleftrightarrow>
   map_of (ml_dedupe sl) k \<noteq> None \<or> k \<noteq> [] \<and> k = transfer_of msg"
  by (auto simp: restored_def push_def)

lemma restore_records_eq:
  "getQueueLog s q = Inr sl \<Longrightarrow>
   restore_records q (map (\<lambda>i. (ml_tail sl + of_nat i, ms ! i)) [0..<length ms]) s =
     (None, put_log q (fold restored ms sl) s)"
proof (induction ms arbitrary: s sl)
  case (Cons m ms)
  have "\<not> ml_deleted sl" using Cons.prems by (simp add: getQueueLog_def split: option.splits if_splits)
  then have g: "getQueueLog (put_log q (restored m sl) s) q = Inr (restored m sl)" by simp
  have "map (\<lambda>i. (ml_tail sl + of_nat i, (m # ms) ! i)) [0..<length (m # ms)] =
      (ml_tail sl, m) # map (\<lambda>i. (ml_tail (restored m sl) + of_nat i, ms ! i)) [0..<length ms]"
    by (simp add: upt_conv_Cons map_Suc_upt [symmetric] add.assoc del: upt_Suc)
  then show ?case using Cons.IH [OF g] by (simp add: RestoreRecord_eq [OF Cons.prems])
qed (simp add: put_log_same)

lemma fold_restored:
  "log_inv sl \<Longrightarrow> unat (ml_tail sl) + length ms < 2 ^ 63 \<Longrightarrow>
   \<forall>i < length ms. offset_of (ms ! i) = ml_tail sl + of_nat i \<Longrightarrow>
   log_inv (fold restored ms sl) \<and> ml_head (fold restored ms sl) = ml_head sl \<and>
   ml_messages (fold restored ms sl) = ml_messages sl @ ms \<and>
   (\<forall>k. map_of (ml_dedupe (fold restored ms sl)) k \<noteq> None \<longleftrightarrow>
      map_of (ml_dedupe sl) k \<noteq> None \<or> k \<noteq> [] \<and> k \<in> transfer_of ` set ms)"
proof (induction ms arbitrary: sl)
  case (Cons m ms)
  have room: "unat (ml_tail sl) + 1 < 2 ^ 63" using Cons.prems(2) by simp
  have t: "unat (ml_tail (restored m sl)) = unat (ml_tail sl) + 1"
    using room_succ(1) [OF Cons.prems(1) room] by simp
  have o: "offset_of m = ml_tail sl" using spec [OF Cons.prems(3), of 0] by simp
  have os: "\<forall>i < length ms. offset_of (ms ! i) = ml_tail (restored m sl) + of_nat i"
  proof (intro allI impI)
    fix i assume "i < length ms"
    then show "offset_of (ms ! i) = ml_tail (restored m sl) + of_nat i"
      using spec [OF Cons.prems(3), of "Suc i"] by (simp add: add.assoc)
  qed
  have "unat (ml_tail (restored m sl)) + length ms < 2 ^ 63" using t Cons.prems(2) by simp
  from Cons.IH [OF log_inv_restored [OF Cons.prems(1) room] this os] show ?case
    by (auto simp: set_offset_same [OF o] dedupe_restored simp del: not_None_eq)
qed simp

lemma empty_log_inv: "unat head < 2 ^ 63 \<Longrightarrow> log_inv (empty_log config head)"
  by (simp add: log_inv_def empty_log_def)


section \<open>The invariant of the store\<close>

text \<open>
  Every log is well formed and carries the name it is filed under, the topic index, the groups and the
  consumers know exactly the queues that have a log, and every indexed pattern is a valid filter. With
  \<open>keep\<close> the index also holds exactly the filters of the configuration of each queue.
\<close>

definition store_inv :: "bool \<Rightarrow> mem_store \<Rightarrow> bool" where
  "store_inv keep s \<longleftrightarrow>
     index_inv (ms_topicIndex s) \<and>
     (\<forall>q sl. map_of (ms_logs s) q = Some sl \<longrightarrow> log_inv sl \<and> QName (ml_config sl) = q \<and>
        (keep \<longrightarrow> bindings (ms_topicIndex s) q = QTopics (ml_config sl))) \<and>
     (\<forall>q. map_of (ms_logs s) q = None \<longrightarrow> bindings (ms_topicIndex s) q = []) \<and>
     dom (map_of (ms_groups s)) = dom (map_of (ms_logs s)) \<and>
     dom (map_of (ms_consumers s)) = dom (map_of (ms_logs s)) \<and>
     (\<forall>q p. p \<in> set (bindings (ms_topicIndex s) q) \<longrightarrow> ValidateTopicFilter p = None)"

text \<open>Operations that only touch the groups or the consumers of an existing queue.\<close>

datatype member_op =
  MCreateGroup consumer_group
| MUpdateGroup consumer_group
| MDeleteGroup string string
| MAddPending instant string string pending_entry
| MRemovePending instant string string string u64
| MTransferPending instant string string u64 string string
| MUpdateCursor instant string string u64
| MUpdateCommitted instant string string u64
| MRegister consumer
| MUnregister string string string
| MHeartbeat string string string instant

fun member_step :: "member_op \<Rightarrow> mem_store \<Rightarrow> mem_store" where
  "member_step (MCreateGroup g) s = snd (CreateConsumerGroup g s)"
| "member_step (MUpdateGroup g) s = snd (UpdateConsumerGroup g s)"
| "member_step (MDeleteGroup q i) s = snd (DeleteConsumerGroup q i s)"
| "member_step (MAddPending now q i e) s = snd (AddPendingEntry now q i e s)"
| "member_step (MRemovePending now q i c off) s = snd (RemovePendingEntry now q i c off s)"
| "member_step (MTransferPending now q i off c d) s = snd (TransferPendingEntry now q i off c d s)"
| "member_step (MUpdateCursor now q i off) s = snd (UpdateCursor now q i off s)"
| "member_step (MUpdateCommitted now q i off) s = snd (UpdateCommitted now q i off s)"
| "member_step (MRegister c) s = snd (RegisterConsumer c s)"
| "member_step (MUnregister q i c) s = snd (UnregisterConsumer q i c s)"
| "member_step (MHeartbeat q i c t) s = snd (UpdateHeartbeat q i c t s)"

lemma dom_update_present: "map_of m k \<noteq> None \<Longrightarrow> dom (map_of (AList.update k v m)) = dom (map_of m)"
  by (auto simp: dom_def)

lemma put_group_frame:
  "ms_logs (put_group q i g s) = ms_logs s" "ms_topicIndex (put_group q i g s) = ms_topicIndex s"
  "ms_consumers (put_group q i g s) = ms_consumers s"
  "dom (map_of (ms_groups (put_group q i g s))) = dom (map_of (ms_groups s))"
  by (auto simp: put_group_def dom_update_present split: option.splits)

lemma member_step_frame:
  "ms_logs (member_step op s) = ms_logs s \<and> ms_topicIndex (member_step op s) = ms_topicIndex s \<and>
   dom (map_of (ms_groups (member_step op s))) = dom (map_of (ms_groups s)) \<and>
   dom (map_of (ms_consumers (member_step op s))) = dom (map_of (ms_consumers s))"
proof (cases op)
  case (MRemovePending now q i c off)
  then show ?thesis
    by (simp add: RemovePendingEntry_def put_group_frame split: sum.split prod.split)
next
  case (MTransferPending now q i off c d)
  then show ?thesis
    by (simp add: TransferPendingEntry_def put_group_frame split: sum.split prod.split)
next
  case (MHeartbeat q i c t)
  then show ?thesis
    by (auto simp: UpdateHeartbeat_def Store_GetConsumer_def Let_def split: sum.splits option.splits)
qed (auto simp: CreateConsumerGroup_def UpdateConsumerGroup_def DeleteConsumerGroup_def AddPendingEntry_def
       UpdateCursor_def UpdateCommitted_def RegisterConsumer_def UnregisterConsumer_def put_group_frame Let_def
       split: option.splits sum.splits)

lemma store_inv_member: "store_inv keep s \<Longrightarrow> store_inv keep (member_step op s)"
  using member_step_frame [of op s] by (simp add: store_inv_def)

lemma store_inv_log:
  assumes "store_inv keep s" and "getQueueLog s q = Inr sl"
  shows "map_of (ms_logs s) q = Some sl" "log_inv sl" "QName (ml_config sl) = q"
  using assms by (auto simp: store_inv_def getQueueLog_def split: option.splits if_splits)

lemma getQueueLog_iff:
  assumes "store_inv keep s"
  shows "getQueueLog s q = (case map_of (ms_logs s) q of None \<Rightarrow> Inl ErrQueueNotFound | Some sl \<Rightarrow> Inr sl)"
  using assms log_invD(3) by (fastforce simp: store_inv_def getQueueLog_def split: option.splits)

text \<open>Adding, dropping and replacing a log, the three ways the operations change the set of logs.\<close>

lemma store_inv_put:
  assumes "store_inv keep s" and "map_of (ms_logs s) q = Some sl" and "log_inv sl'"
    and "QName (ml_config sl') = q" and "keep \<Longrightarrow> QTopics (ml_config sl') = QTopics (ml_config sl)"
  shows "store_inv keep (put_log q sl' s)"
  using assms unfolding store_inv_def by (auto simp: put_log_def)

lemma store_inv_insert:
  assumes "store_inv keep s" and "log_inv sl" and "QueueConfig_Validate (ml_config sl) = None"
    and "QName (ml_config sl) = q"
    and "map_of m q = Some sl" and "\<And>q'. q' \<noteq> q \<Longrightarrow> map_of m q' = map_of (ms_logs s) q'"
  shows "store_inv keep (s\<lparr>ms_logs := m, ms_topicIndex := AddQueue q (QTopics (ml_config sl)) (ms_topicIndex s),
    ms_groups := AList.update q [] (ms_groups s), ms_consumers := AList.update q [] (ms_consumers s)\<rparr>)"
proof -
  have m: "map_of m = (map_of (ms_logs s))(q \<mapsto> sl)" using assms(5,6) by (auto simp: fun_eq_iff)
  have v: "\<forall>f \<in> set (QTopics (ml_config sl)). ValidateTopicFilter f = None"
    using assms(3) by (simp add: Validate_None)
  have b: "bindings (AddQueue q (QTopics (ml_config sl)) (ms_topicIndex s)) =
      (bindings (ms_topicIndex s))(q := QTopics (ml_config sl))"
    by (rule bindings_add)
  show ?thesis
    using assms(1,2,4) v tidx.inv_add unfolding store_inv_def
    by (auto simp: m b split: if_splits)
qed

lemma store_inv_drop:
  assumes "store_inv keep s"
  shows "store_inv keep (s\<lparr>ms_logs := AList.delete q (ms_logs s), ms_topicIndex := RemoveQueue q (ms_topicIndex s),
    ms_groups := AList.delete q (ms_groups s), ms_consumers := AList.delete q (ms_consumers s)\<rparr>)"
proof -
  have i: "index_inv (ms_topicIndex s)" using assms by (simp add: store_inv_def)
  have b: "bindings (RemoveQueue q (ms_topicIndex s)) = (bindings (ms_topicIndex s))(q := [])"
    by (rule tidx.bound_remove [OF i])
  show ?thesis
    using assms tidx.inv_remove [OF i] unfolding store_inv_def
    by (auto simp: b split: if_splits)
qed

lemma delete_absent: "map_of m k = None \<Longrightarrow> AList.delete k m = m"
  by (simp add: map_of_eq_None_iff delete_id)

lemma record_order:
  "s\<lparr>ms_groups := g, ms_consumers := c, ms_topicIndex := t, ms_logs := l\<rparr> =
   s\<lparr>ms_logs := l, ms_topicIndex := t, ms_groups := g, ms_consumers := c\<rparr>"
  "s\<lparr>ms_groups := g, ms_consumers := c, ms_topicIndex := t\<rparr> =
   s\<lparr>ms_topicIndex := t, ms_groups := g, ms_consumers := c\<rparr>" for s :: mem_store
  by (cases s, simp)+

lemma store_inv_CreateQueue:
  assumes "store_inv keep s"
  shows "store_inv keep (snd (CreateQueue config s))"
proof (cases "QueueConfig_Validate config = None \<and> map_of (ms_logs s) (QName config) = None")
  case True
  have "log_inv (empty_log config 0)" by (rule empty_log_inv) simp
  from store_inv_insert [OF assms this, of "QName config" "AList.update (QName config) (empty_log config 0) (ms_logs s)"] True
  show ?thesis by (simp add: CreateQueue_def empty_log_def)
next
  case False
  then show ?thesis using assms by (auto simp: CreateQueue_def split: option.splits)
qed

lemma store_inv_RestoreQueue:
  assumes "store_inv keep s" and "unat head < 2 ^ 63"
  shows "store_inv keep (snd (RestoreQueue config head s))"
proof (cases "QueueConfig_Validate config")
  case None
  from store_inv_insert [OF assms(1) empty_log_inv [OF assms(2), of config], of "QName config"
      "AList.update (QName config) (empty_log config head) (AList.delete (QName config) (ms_logs s))"] None
  show ?thesis by (simp add: RestoreQueue_def empty_log_def)
next
  case (Some e)
  then show ?thesis using assms(1) by (simp add: RestoreQueue_def)
qed

lemma store_inv_UpdateQueue:
  assumes "store_inv keep s"
    and "keep \<Longrightarrow> \<forall>old. GetQueue s (QName config) = Inr old \<longrightarrow> QTopics config = QTopics old"
  shows "store_inv keep (snd (UpdateQueue config s))"
proof (cases "getQueueLog s (QName config)")
  case (Inr sl)
  note l = store_inv_log [OF assms(1) Inr]
  have "log_inv (sl\<lparr>ml_config := config\<rparr>)" using l(2) by (simp add: log_inv_def)
  from store_inv_put [OF assms(1) l(1) this] assms(2) show ?thesis
    by (simp add: UpdateQueue_def Inr GetQueue_def assms(1) split: option.split)
next
  case (Inl e)
  then show ?thesis using assms(1) by (simp add: UpdateQueue_def split: option.split)
qed

lemma store_inv_DeleteQueue:
  assumes "store_inv keep s"
  shows "store_inv keep (snd (DeleteQueue q s))"
proof (cases "map_of (ms_logs s) q")
  case None
  then show ?thesis
    using store_inv_drop [OF assms, of q] by (simp add: DeleteQueue_def Let_def delete_absent record_order(2))
next
  case (Some sl)
  then show ?thesis
    using store_inv_drop [OF assms, of q] assms by (simp add: DeleteQueue_def Let_def record_order(1))
qed

lemma store_inv_reset: "store_inv keep s \<Longrightarrow> store_inv keep (reset_queue q s)"
  using store_inv_drop [of keep s q] by (simp add: reset_queue_def split: option.split)

lemma store_inv_ResetForRestore: "store_inv keep s \<Longrightarrow> store_inv keep (snd (ResetForRestore qs s))"
  unfolding ResetForRestore_def by (induction qs arbitrary: s) (simp_all add: store_inv_reset)

lemma config_log_step: "ml_config (log_step op sl) = ml_config sl"
proof -
  have "ml_config (fold push ms sl) = ml_config sl" for ms
    by (induction ms arbitrary: sl) (simp_all add: push_def)
  then show ?thesis
    by (cases op) (simp_all add: push_def once_def truncated_def Let_def split: option.split)
qed

lemma log_inv_step:
  assumes "log_inv sl" and "unat (ml_tail sl) + op_size op < 2 ^ 63"
  shows "log_inv (log_step op sl)"
proof (cases op)
  case (OpBatch msgs)
  have "log_inv (fold push msgs sl)" using assms(1) assms(2) [unfolded OpBatch, simplified]
  proof (induction msgs arbitrary: sl)
    case (Cons m msgs)
    have room: "unat (ml_tail sl) + 1 < 2 ^ 63" using Cons.prems(2) by simp
    have "unat (ml_tail (push m sl)) = unat (ml_tail sl) + 1"
      using room_succ(1) [OF Cons.prems(1) room] by (simp add: push_def)
    with Cons.IH [OF log_inv_push [OF Cons.prems(1) room]] Cons.prems(2) show ?case by simp
  qed simp
  then show ?thesis by (simp add: OpBatch)
qed (use assms in \<open>auto simp: log_inv_push log_inv_once log_inv_truncated\<close>)

lemma store_inv_op:
  assumes "store_inv keep s"
    and "\<And>sl. getQueueLog s q = Inr sl \<Longrightarrow> unat (ml_tail sl) + op_size op < 2 ^ 63"
  shows "store_inv keep (store_op q op s)"
proof (cases "getQueueLog s q")
  case (Inl e)
  then have "store_op q op s = s"
    by (cases op) (simp_all add: Append_def AppendBatch_def AppendOnce_def Truncate_def)
  with assms(1) show ?thesis by simp
next
  case (Inr sl)
  note l = store_inv_log [OF assms(1) Inr]
  from store_inv_put [OF assms(1) l(1) log_inv_step [OF l(2) assms(2) [OF Inr]]] l(3)
  show ?thesis by (simp add: store_op_log [OF Inr l(2)] config_log_step)
qed

lemma store_inv_RestoreRecord:
  assumes "store_inv keep s"
    and "\<And>sl. getQueueLog s q = Inr sl \<Longrightarrow> unat (ml_tail sl) + 1 < 2 ^ 63"
  shows "store_inv keep (snd (RestoreRecord q off msg s))"
proof (cases "\<exists>sl. getQueueLog s q = Inr sl \<and> off = ml_tail sl")
  case True
  then obtain sl where Inr: "getQueueLog s q = Inr sl" and off: "off = ml_tail sl" by blast
  note l = store_inv_log [OF assms(1) Inr]
  have "ml_config (restored msg sl) = ml_config sl" by (simp add: restored_def push_def)
  with store_inv_put [OF assms(1) l(1) log_inv_restored [OF l(2) assms(2) [OF Inr]]] l(3)
  show ?thesis by (simp add: off RestoreRecord_eq [OF Inr])
next
  case False
  then show ?thesis using assms(1) by (auto simp: RestoreRecord_def split: sum.split)
qed

lemma store_inv_new: "store_inv keep Mem_New"
  using tidx.inv_empty tidx.bound_empty by (simp add: store_inv_def Mem_New_def)

text \<open>
  The stores that any sequence of calls leaves behind. The guards keep offsets below \<open>2 ^ 63\<close>; with
  \<open>keep\<close> updates do not change the filters of a queue.
\<close>

inductive mem_reachable :: "bool \<Rightarrow> mem_store \<Rightarrow> bool" for keep where
  new: "mem_reachable keep Mem_New"
| create: "mem_reachable keep s \<Longrightarrow> mem_reachable keep (snd (CreateQueue config s))"
| update: "mem_reachable keep s \<Longrightarrow>
    (keep \<Longrightarrow> \<forall>old. GetQueue s (QName config) = Inr old \<longrightarrow> QTopics config = QTopics old) \<Longrightarrow>
    mem_reachable keep (snd (UpdateQueue config s))"
| delete: "mem_reachable keep s \<Longrightarrow> mem_reachable keep (snd (DeleteQueue q s))"
| append: "mem_reachable keep s \<Longrightarrow>
    (\<And>sl. getQueueLog s q = Inr sl \<Longrightarrow> unat (ml_tail sl) + op_size op < 2 ^ 63) \<Longrightarrow>
    mem_reachable keep (store_op q op s)"
| restore: "mem_reachable keep s \<Longrightarrow> unat head < 2 ^ 63 \<Longrightarrow>
    mem_reachable keep (snd (RestoreQueue config head s))"
| replay: "mem_reachable keep s \<Longrightarrow>
    (\<And>sl. getQueueLog s q = Inr sl \<Longrightarrow> unat (ml_tail sl) + 1 < 2 ^ 63) \<Longrightarrow>
    mem_reachable keep (snd (RestoreRecord q off msg s))"
| reset: "mem_reachable keep s \<Longrightarrow> mem_reachable keep (snd (ResetForRestore qs s))"
| member: "mem_reachable keep s \<Longrightarrow> mem_reachable keep (member_step op s)"

lemma mem_reachable_inv: "mem_reachable keep s \<Longrightarrow> store_inv keep s"
proof (induction rule: mem_reachable.induct)
  case (update s config)
  then show ?case by (intro store_inv_UpdateQueue)
next
  case (append s q op)
  then show ?case by (intro store_inv_op)
next
  case (replay s q off msg)
  then show ?case by (intro store_inv_RestoreRecord)
qed (simp_all add: store_inv_new store_inv_CreateQueue store_inv_DeleteQueue store_inv_RestoreQueue
      store_inv_ResetForRestore store_inv_member)


section \<open>Deduplication\<close>

lemma once_key:
  assumes "log_inv sl" and "key \<noteq> []" and "unat (ml_tail sl) + 1 < 2 ^ 63"
    and "AppendOnce q key msg s = (Inr (off, dup), s1)" and "getQueueLog s q = Inr sl"
  shows "map_of (ml_dedupe (once key msg sl)) key = Some off" "s1 = put_log q (once key msg sl) s"
    and "off < ml_tail (once key msg sl)"
  using assms(4) log_inv_dedupe(3) [OF assms(1)] room_succ(2) [OF assms(1,3)]
  by (auto simp: AppendOnce_eq [OF assms(2,5)] once_def push_def split: option.splits)

definition key_held :: "string \<Rightarrow> u64 \<Rightarrow> mem_log \<Rightarrow> bool" where
  "key_held key off sl \<longleftrightarrow>
     off < ml_tail sl \<and> (ml_head sl \<le> off \<longrightarrow> map_of (ml_dedupe sl) key = Some off)"

lemma key_held_push:
  assumes "log_inv sl" and "unat (ml_tail sl) + 1 < 2 ^ 63" and "key_held key off sl"
  shows "key_held key off (push msg sl)"
  using assms(3) room_succ(2) [OF assms(1,2)] by (auto simp: key_held_def push_def)

lemma key_held_step:
  assumes "log_inv sl" and "unat (ml_tail sl) + op_size op < 2 ^ 63" and "key_held key off sl"
  shows "key_held key off (log_step op sl)"
proof (cases op)
  case (OpBatch msgs)
  have "key_held key off (fold push msgs sl)" using assms(1) assms(2) [unfolded OpBatch, simplified] assms(3)
  proof (induction msgs arbitrary: sl)
    case (Cons m msgs)
    have room: "unat (ml_tail sl) + 1 < 2 ^ 63" using Cons.prems(2) by simp
    have "unat (ml_tail (push m sl)) = unat (ml_tail sl) + 1"
      using room_succ(1) [OF Cons.prems(1) room] by (simp add: push_def)
    with Cons.IH [OF log_inv_push [OF Cons.prems(1) room]] Cons.prems(2)
      key_held_push [OF Cons.prems(1) room Cons.prems(3)] show ?case by simp
  qed simp
  then show ?thesis by (simp add: OpBatch)
next
  case (OpOnce k m)
  have room: "unat (ml_tail sl) + 1 < 2 ^ 63" using assms(2) by (simp add: OpOnce)
  have "key_held key off (once k m sl)"
    using key_held_push [OF assms(1) room assms(3), of "set_transfer k m"] assms(3)
    by (auto simp: key_held_def once_def push_def split: option.split)
  with assms(3) show ?thesis by (simp add: OpOnce)
next
  case (OpTruncate m)
  then show ?thesis
    using assms(3) truncated_cut [OF assms(1), of m]
    by (auto simp: key_held_def dedupe_truncated [OF assms(1)])
qed (use assms key_held_push in auto)

lemma key_held_run:
  "getQueueLog s q = Inr sl \<Longrightarrow> log_inv sl \<Longrightarrow> key_held key off sl \<Longrightarrow>
   unat (ml_tail sl) + sum_list (map op_size ops) < 2 ^ 63 \<Longrightarrow>
   \<exists>sl'. getQueueLog (fold (store_op q) ops s) q = Inr sl' \<and> log_inv sl' \<and> key_held key off sl'"
proof (induction ops arbitrary: s sl)
  case (Cons op ops)
  have room: "unat (ml_tail sl) + op_size op < 2 ^ 63" using Cons.prems(4) by simp
  note inv = log_inv_step [OF Cons.prems(2) room]
  have g: "getQueueLog (store_op q op s) q = Inr (log_step op sl)"
    using store_op_log [OF Cons.prems(1,2)] log_invD(3) [OF inv] by simp
  have "unat (ml_tail (log_step op sl)) + sum_list (map op_size ops) < 2 ^ 63"
    using tail_step_inv [of op sl] Cons.prems(4) by simp
  from Cons.IH [OF g inv key_held_step [OF Cons.prems(2) room Cons.prems(3)] this] show ?case by simp
qed auto


section \<open>Batch reads\<close>

text \<open>The end index of a batch, with the wrap-around of \<^verbatim>\<open>startIdx + limit\<close>.\<close>

lemma wrap_int_over:
  assumes "2 ^ 63 \<le> x" and "x < 2 ^ 64"
  shows "wrap_int x < 0"
proof -
  have "(word_of_int x :: u64) = word_of_int (x - 2 ^ 64)"
    by (simp only: word_of_int_eq_iff take_bit_eq_mod) simp
  then have "wrap_int x = wrap_int (x - 2 ^ 64)" by (simp only: wrap_int_def)
  also have "\<dots> = x - 2 ^ 64" using assms by (intro wrap_int_id) simp_all
  finally show ?thesis using assms(2) by simp
qed

lemma batch_end:
  fixes n :: nat and limit :: int and ms :: "envelope list"
  assumes "n < length ms" and "length ms < 2 ^ 63" and "- (2 ^ 63) \<le> limit" and "limit < 2 ^ 63"
  shows "(let e = wrap_int (int n + limit); e = (if e > int (length ms) then int (length ms) else e)
     in if int n < 0 \<or> e < int n then None
        else Some (Inr (take (nat (e - int n)) (drop n ms)) :: store_error + envelope list)) =
    (if limit < 0 \<or> 2 ^ 63 \<le> int n + limit then None else Some (Inr (take (nat limit) (drop n ms))))"
proof -
  consider "2 ^ 63 \<le> int n + limit" | "int n + limit < 2 ^ 63" "limit < 0" | "int n + limit < 2 ^ 63" "0 \<le> limit"
    by linarith
  then show ?thesis
  proof cases
    case 1
    moreover have "wrap_int (int n + limit) < 0"
      using 1 assms by (intro wrap_int_over) simp_all
    ultimately show ?thesis by (simp add: Let_def)
  next
    case 2
    moreover have "wrap_int (int n + limit) = int n + limit" using 2 assms by (intro wrap_int_id) simp_all
    ultimately show ?thesis using assms(1) by (simp add: Let_def)
  next
    case 3
    moreover have "wrap_int (int n + limit) = int n + limit" using 3 assms by (intro wrap_int_id) simp_all
    ultimately show ?thesis using assms(1) by (auto simp: Let_def)
  qed
qed

lemma log_at_index:
  assumes "log_inv sl" and "ml_head sl \<le> start" and "start < ml_tail sl"
    and "i < length (ml_messages sl) - (unat start - unat (ml_head sl))"
  shows "log_at sl (start + of_nat i) =
    Some (drop (unat start - unat (ml_head sl)) (ml_messages sl) ! i)"
proof -
  have le: "unat (ml_head sl) \<le> unat start" using assms(2) by (simp add: word_le_nat_alt)
  have lt: "unat start + i < unat (ml_tail sl)"
    using assms(4) log_invD(1) [OF assms(1)] le by simp
  have u: "unat (start + of_nat i) = unat start + i"
    using lt u64_lt_bound [of "ml_tail sl"] by (intro unat_plus_nat) simp
  show ?thesis
    using le lt assms(4) by (simp add: log_at_def word_le_nat_alt word_less_nat_alt u)
qed


lemma Read_set:
  assumes "getQueueLog s q = Inr sl" and "log_inv sl"
  shows "x \<in> f ` set (ml_messages sl) \<longleftrightarrow> (\<exists>off m. Read s q off = Inr m \<and> f m = x)"
proof -
  have "\<exists>off. Read s q off = Inr (ml_messages sl ! i)" if "i < length (ml_messages sl)" for i
  proof -
    have "ml_head sl < ml_tail sl" using that log_invD(1) [OF assms(2)] by (auto simp: word_less_nat_alt)
    from log_at_index [OF assms(2) _ this, of i] that show ?thesis
      by (intro exI [of _ "ml_head sl + of_nat i"]) (simp add: Read_spec [OF assms])
  qed
  moreover have "m \<in> set (ml_messages sl)" if "Read s q off = Inr m" for off m
    using that offset_index_less [OF assms(2)]
    by (auto simp: Read_spec [OF assms] log_at_def split: if_splits)
  ultimately show ?thesis by (auto simp: in_set_conv_nth image_iff) (metis nth_mem)+
qed


section \<open>Properties\<close>

text \<open>A queue for the witnesses below.\<close>

definition orders :: queue_config where
  "orders = DefaultQueueConfig ''orders'' [''orders/#'']"

definition orders_store :: mem_store where
  "orders_store = snd (CreateQueue orders Mem_New)"

lemma orders_valid: "QueueConfig_Validate orders = None" "QName orders = ''orders''"
  by code_simp+

lemma orders_created: "CreateQueue orders Mem_New = (None, orders_store)"
  by (simp add: orders_store_def CreateQueue_def orders_valid Mem_New_def)

lemma orders_log: "getQueueLog orders_store ''orders'' = Inr (empty_log orders 0)"
  by (simp add: orders_store_def CreateQueue_def orders_valid Mem_New_def getQueueLog_def)
     (simp add: empty_log_def)

lemma orders_inv: "log_inv (empty_log orders 0)"
  by (rule empty_log_inv) simp

lemma CreateQueue_log:
  assumes "CreateQueue config s = (None, s0)"
  shows "getQueueLog s0 (QName config) = Inr (empty_log config 0)"
  using assms by (auto simp: CreateQueue_def getQueueLog_def empty_log_def split: option.splits)

text \<open>
  C26. The log of a queue is the abstract log. From the creation of a queue on, any sequence of
  appends, batches, deduplicated appends and truncations leaves a store whose head, tail, count,
  reads and duplicate reports are those of the list of all records, the first retained offset and
  the recorded keys, as long as fewer than \<open>2 ^ 63\<close> records were appended.
\<close>

theorem store_history:
  assumes "CreateQueue config s = (None, s0)" and "sum_list (map op_size ops) < 2 ^ 63"
  shows "let q = QName config; s' = fold (store_op q) ops s0; al = fold abs_step ops abs_empty in
    Head s' q = Inr (of_nat (al_from al)) \<and> Tail s' q = Inr (of_nat (length (al_all al))) \<and>
    Count s' q = Inr (of_nat (length (al_all al) - al_from al)) \<and>
    (\<forall>off. Read s' q off = (case abs_read al off of None \<Rightarrow> Inl ErrOffsetOutOfRange | Some m \<Rightarrow> Inr m)) \<and>
    (\<forall>key msg. key \<noteq> [] \<longrightarrow> fst (AppendOnce q key msg s') =
       Inr (case abs_key al key of
              Some i \<Rightarrow> (of_nat i, True) | None \<Rightarrow> (of_nat (length (al_all al)), False)))"
proof -
  let ?q = "QName config" and ?al = "fold abs_step ops abs_empty"
  have "unat (ml_tail (empty_log config 0)) + sum_list (map op_size ops) < 2 ^ 63"
    using assms(2) by (simp add: empty_log_def)
  from store_run [OF CreateQueue_log [OF assms(1)] empty_refines this]
  obtain sl where g: "getQueueLog (fold (store_op ?q) ops s0) ?q = Inr sl" and r: "refines sl ?al" by blast
  note rD = refinesD [OF r]
  have t: "ml_tail sl = of_nat (length (al_all ?al))" by (rule ml_tail_nat [OF r])
  have h: "ml_head sl = of_nat (al_from ?al)" using u64_eq_plus [of "ml_head sl" 0] rD(2) by simp
  have c: "ml_tail sl - ml_head sl = of_nat (length (al_all ?al) - al_from ?al)"
    using rD(5) by (simp add: t h)
  show ?thesis
    using g t h c rD(6) by (simp add: Let_def Head_def Tail_def Count_def Read_spec [OF g rD(1)]
        log_at_refines [OF r] AppendOnce_eq split: option.split)
qed

theorem store_history_witness:
  "\<exists>s'. s' = fold (store_op ''orders'') [OpAppend Acquire, OpOnce ''k'' Acquire, OpTruncate 1] orders_store \<and>
     Head s' ''orders'' = Inr 1 \<and> Tail s' ''orders'' = Inr 2 \<and>
     Read s' ''orders'' 0 = Inl ErrOffsetOutOfRange \<and>
     fst (AppendOnce ''orders'' ''k'' Acquire s') = Inr (1, True)"
proof -
  let ?ops = "[OpAppend Acquire, OpOnce ''k'' Acquire, OpTruncate 1]"
  have n: "sum_list (map op_size ?ops) < 2 ^ 63" by simp
  have a: "al_from (fold abs_step ?ops abs_empty) = 1" "length (al_all (fold abs_step ?ops abs_empty)) = 2"
    "abs_key (fold abs_step ?ops abs_empty) ''k'' = Some 1" "abs_read (fold abs_step ?ops abs_empty) 0 = None"
    by (simp_all add: abs_empty_def abs_push_def abs_key_def abs_read_def)
  from store_history [OF orders_created n] a show ?thesis by (simp add: Let_def orders_valid del: fold.simps)
qed

text \<open>
  A batch is the sequence of its single appends: the store after \<^verbatim>\<open>AppendBatch\<close> is the store
  after appending the messages one by one, and the offset returned is that of the first append.
\<close>

theorem AppendBatch_iterated:
  "snd (AppendBatch q msgs s) = fold (\<lambda>m s. snd (Append q m s)) msgs s \<and>
   fst (AppendBatch q msgs s) = (case msgs of [] \<Rightarrow> Inr 0 | m # _ \<Rightarrow> fst (Append q m s))"
proof
  show "snd (AppendBatch q msgs s) = fold (\<lambda>m s. snd (Append q m s)) msgs s"
    by (cases "getQueueLog s q") (simp_all add: AppendBatch_def fold_Append fold_Append_missing put_log_same)
  show "fst (AppendBatch q msgs s) = (case msgs of [] \<Rightarrow> Inr 0 | m # _ \<Rightarrow> fst (Append q m s))"
    by (cases "getQueueLog s q") (simp_all add: AppendBatch_def Append_def split: list.split)
qed


text \<open>
  C28. A deduplication key is honoured exactly as long as its record is retained. After
  \<^verbatim>\<open>AppendOnce\<close> placed or found a key at an offset, and any further appends and truncations, a
  retry with the key reports that same offset as a duplicate and changes nothing if the offset is
  still retained; once it was truncated, the retry never reports it.
\<close>

theorem AppendOnce_exactly_once:
  assumes "getQueueLog s q = Inr sl" and "log_inv sl" and "key \<noteq> []"
    and "AppendOnce q key msg s = (Inr (off, dup), s1)"
    and "unat (ml_tail sl) + 1 + sum_list (map op_size ops) < 2 ^ 63"
  shows "\<exists>head. Head (fold (store_op q) ops s1) q = Inr head \<and>
    (if head \<le> off
     then AppendOnce q key msg' (fold (store_op q) ops s1) = (Inr (off, True), fold (store_op q) ops s1)
     else fst (AppendOnce q key msg' (fold (store_op q) ops s1)) \<noteq> Inr (off, True))"
proof -
  have room: "unat (ml_tail sl) + 1 < 2 ^ 63" using assms(5) by simp
  let ?sl = "once key msg sl"
  note o = once_key [OF assms(2,3) room assms(4,1)] and inv = log_inv_once [OF assms(2) room assms(3), of msg]
  have g: "getQueueLog s1 q = Inr ?sl" using log_invD(3) [OF inv] by (simp add: o(2))
  have "unat (ml_tail ?sl) + sum_list (map op_size ops) < 2 ^ 63"
    using tail_step_inv [of "OpOnce key msg" sl] assms(3,5) by simp
  moreover have "key_held key off ?sl" using o(1,3) by (simp add: key_held_def)
  ultimately obtain sl' where
    sl': "getQueueLog (fold (store_op q) ops s1) q = Inr sl'" "log_inv sl'" "key_held key off sl'"
    using key_held_run [OF g inv] by blast
  have "map_of (ml_dedupe sl') key \<noteq> Some off" if "\<not> ml_head sl' \<le> off"
    using log_inv_dedupe(2) [OF sl'(2)] that by blast
  then show ?thesis
    using sl'(3) by (auto simp: Head_def sl'(1) AppendOnce_eq [OF assms(3) sl'(1)] key_held_def once_def
        put_log_same [OF sl'(1)] split: option.split)
qed

theorem AppendOnce_exactly_once_witness:
  "AppendOnce ''orders'' ''k'' Acquire orders_store = (Inr (0, False), snd (AppendOnce ''orders'' ''k'' Acquire orders_store)) \<and>
   (\<exists>head. Head (fold (store_op ''orders'') [OpAppend Acquire, OpTruncate 1]
        (snd (AppendOnce ''orders'' ''k'' Acquire orders_store))) ''orders'' = Inr head)"
proof -
  have a: "AppendOnce ''orders'' ''k'' Acquire orders_store =
      (Inr (0, False), snd (AppendOnce ''orders'' ''k'' Acquire orders_store))"
    by (simp add: AppendOnce_eq [OF _ orders_log]) (simp add: empty_log_def)
  have "unat (ml_tail (empty_log orders 0)) + 1 + sum_list (map op_size [OpAppend Acquire, OpTruncate 1]) < 2 ^ 63"
    by (simp add: empty_log_def)
  from AppendOnce_exactly_once [OF orders_log orders_inv _ a this] a show ?thesis by blast
qed


text \<open>
  C30. \<^verbatim>\<open>ReadBatch\<close> returns the retained records in offset order from the requested offset, or from the
  head if that was truncated, at most \<open>limit\<close> of them, and each is what \<^verbatim>\<open>Read\<close> returns. It panics
  exactly when there is something to read and the limit is negative or overflows the end index.
\<close>

theorem ReadBatch_spec:
  assumes "getQueueLog s q = Inr sl" and "log_inv sl" and "- (2 ^ 63) \<le> limit" and "limit < 2 ^ 63"
  shows "let start = max startOffset (ml_head sl); n = unat start - unat (ml_head sl) in
    ReadBatch s q startOffset limit =
      (if ml_tail sl \<le> start then Some (Inr [])
       else if limit < 0 \<or> 2 ^ 63 \<le> int n + limit then None
       else Some (Inr (take (nat limit) (drop n (ml_messages sl))))) \<and>
    (\<forall>i. i < length (ml_messages sl) - n \<and> start < ml_tail sl \<longrightarrow>
       Read s q (start + of_nat i) = Inr (drop n (ml_messages sl) ! i))"
proof -
  define start where "start = max startOffset (ml_head sl)"
  define n where "n = unat start - unat (ml_head sl)"
  have st: "(if startOffset < ml_head sl then ml_head sl else startOffset) = start"
    by (auto simp: start_def)
  have h: "ml_head sl \<le> start" by (simp add: start_def)
  have "ReadBatch s q startOffset limit =
      (if ml_tail sl \<le> start then Some (Inr [])
       else if limit < 0 \<or> 2 ^ 63 \<le> int n + limit then None
       else Some (Inr (take (nat limit) (drop n (ml_messages sl)))))"
  proof (cases "ml_tail sl \<le> start")
    case True
    then show ?thesis by (simp add: ReadBatch_def assms(1) st Let_def)
  next
    case False
    then have le: "start \<le> ml_tail sl" "start < ml_tail sl" by simp_all
    have i: "sint (start - ml_head sl) = int n" "n < length (ml_messages sl)"
      using offset_index(1) [OF assms(2) h le(1)] offset_index_less [OF assms(2) h le(2)] by (simp_all add: n_def)
    have len: "length (ml_messages sl) < 2 ^ 63" using log_invD(1,2) [OF assms(2)] by simp
    show ?thesis
      using False batch_end [OF i(2) len assms(3,4)] 
      by (simp add: ReadBatch_def assms(1) st Let_def i(1) cong: if_cong split del: if_split)
  qed
  moreover have "Read s q (start + of_nat i) = Inr (drop n (ml_messages sl) ! i)"
    if "i < length (ml_messages sl) - n" "start < ml_tail sl" for i
    using log_at_index [OF assms(2) h that(2)] that(1) by (simp add: Read_spec [OF assms(1,2)] n_def)
  ultimately show ?thesis unfolding Let_def start_def [symmetric] n_def [symmetric] by blast
qed

theorem ReadBatch_spec_witness:
  "ReadBatch orders_store ''orders'' 0 5 = Some (Inr [])"
  using ReadBatch_spec [OF orders_log orders_inv, of 5 0] by (simp add: Let_def empty_log_def)


text \<open>
  C31. Size retention keeps the longest suffix of the log within the budget. Truncating at the
  offset that \<^verbatim>\<open>OffsetBySize\<close> names leaves records whose sizes add up to at most the budget, and if
  anything is cut, one more record would have exceeded it.
\<close>

theorem size_retention:
  assumes "getQueueLog s q = Inr sl" and "log_inv sl" and "0 < budget"
  shows "\<exists>cut sl'. OffsetBySize s q budget = Inr cut \<and> Truncate q cut s = (None, put_log q sl' s) \<and>
    ml_messages sl' = drop (unat cut - unat (ml_head sl)) (ml_messages sl) \<and> ml_head sl' = cut \<and>
    sum_list (map messageSize (ml_messages sl')) \<le> budget \<and>
    (cut \<noteq> ml_head sl \<longrightarrow>
       budget < sum_list (map messageSize (drop (unat cut - unat (ml_head sl) - 1) (ml_messages sl))))"
proof (cases "size_cut budget 0 (rev (ml_messages sl))")
  case None
  have o: "OffsetBySize s q budget = Inr (ml_head sl)"
    by (simp add: OffsetBySize_def assms(1) None)
  have "sum_list (map messageSize (ml_messages sl)) \<le> budget"
    using size_cut_None [OF None] assms(3) by (simp add: rev_map [symmetric] sum_list_rev)
  then show ?thesis
    using o truncated_noop [OF assms(2), of "ml_head sl"] Truncate_eq [OF assms(1,2), of "ml_head sl"] by auto
next
  case (Some i)
  let ?ms = "ml_messages sl" and ?cut = "ml_head sl + of_nat i"
  have i: "0 < i" "i \<le> length ?ms" "sum_list (map messageSize (drop i ?ms)) \<le> budget"
    "budget < sum_list (map messageSize (drop (i - 1) ?ms))"
    using size_cut_Some [OF Some] assms(3) sum_take_rev [of i ?ms messageSize] sum_take_rev [of "i - 1" ?ms messageSize]
    by (auto simp: Suc_diff_le)
  have "?ms \<noteq> []" using i by auto
  then have o: "OffsetBySize s q budget = Inr ?cut"
    using assms(3) by (simp add: OffsetBySize_def assms(1) Some)
  have le: "unat (ml_head sl) + i \<le> unat (ml_tail sl)" using i(2) log_invD(1) [OF assms(2)] by simp
  have u: "unat ?cut = unat (ml_head sl) + i"
    using le u64_lt_bound [of "ml_tail sl"] by (intro unat_plus_nat) simp
  have c: "max (ml_head sl) (min ?cut (ml_tail sl)) = ?cut"
    using le u by (simp add: max_def min_def word_le_nat_alt)
  have "ml_messages (truncated ?cut sl) = drop i ?ms" "ml_head (truncated ?cut sl) = ?cut"
    by (simp_all add: truncated_def Let_def c u)
  then show ?thesis using o i(3,4) Truncate_eq [OF assms(1,2), of ?cut] u by auto
qed

theorem size_retention_witness:
  "\<exists>sl. getQueueLog (snd (Append ''orders'' Acquire orders_store)) ''orders'' = Inr sl \<and> log_inv sl \<and>
    (\<exists>cut sl'. OffsetBySize (snd (Append ''orders'' Acquire orders_store)) ''orders'' 100 = Inr cut \<and>
      Truncate ''orders'' cut (snd (Append ''orders'' Acquire orders_store)) =
        (None, put_log ''orders'' sl' (snd (Append ''orders'' Acquire orders_store))) \<and>
      sum_list (map messageSize (ml_messages sl')) \<le> 100)"
proof -
  let ?s = "snd (Append ''orders'' Acquire orders_store)" and ?sl = "push Acquire (empty_log orders 0)"
  have g: "getQueueLog ?s ''orders'' = Inr ?sl"
    by (simp add: Append_def orders_log) (simp add: push_def empty_log_def)
  have inv: "log_inv ?sl" by (rule log_inv_push [OF orders_inv]) (simp add: empty_log_def)
  from size_retention [OF g inv, of 100] g inv show ?thesis by auto
qed

text \<open>
  \<^verbatim>\<open>OffsetByTime\<close> returns the first retained offset whose record is stamped at or after the given
  time, or the tail: every retained record before it is older or carries no stamp.
\<close>

theorem OffsetByTime_first:
  assumes "getQueueLog s q = Inr sl" and "log_inv sl"
  shows "\<exists>off. OffsetByTime s q ts = Inr off \<and> ml_head sl \<le> off \<and> off \<le> ml_tail sl \<and>
    (\<forall>o' m. o' < off \<and> Read s q o' = Inr m \<longrightarrow> created_of m = zero_time \<or> created_of m < ts) \<and>
    (off < ml_tail sl \<longrightarrow> (\<exists>m. Read s q off = Inr m \<and> created_of m \<noteq> zero_time \<and> ts \<le> created_of m))"
proof -
  note inv = log_invD [OF assms(2)]
  have read: "Read s q o' = Inr m \<longleftrightarrow>
      ml_head sl \<le> o' \<and> o' < ml_tail sl \<and> m = ml_messages sl ! (unat o' - unat (ml_head sl))" for o' m
    by (auto simp: Read_spec [OF assms] log_at_def)
  show ?thesis
  proof (cases "first_since ts 0 (ml_messages sl)")
    case None
    have "OffsetByTime s q ts = Inr (ml_tail sl)"
    proof (cases "ml_messages sl")
      case Nil
      then have "ml_head sl = ml_tail sl" using inv(1) by (simp add: u64_eq_iff_unat)
      then show ?thesis by (simp add: OffsetByTime_def assms(1) Nil)
    qed (use None in \<open>simp add: OffsetByTime_def assms(1)\<close>)
    moreover have "created_of m = zero_time \<or> created_of m < ts" if "Read s q o' = Inr m" for o' m
      using that first_since_None [OF None] offset_index_less [OF assms(2)] by (auto simp: read)
    ultimately show ?thesis using inv(4) by auto
  next
    case (Some i)
    let ?off = "ml_head sl + of_nat i"
    note f = first_since_Some [OF Some, simplified]
    have "ml_messages sl \<noteq> []" using f by auto
    then have o: "OffsetByTime s q ts = Inr ?off" by (simp add: OffsetByTime_def assms(1) Some)
    have lt: "unat (ml_head sl) + i < unat (ml_tail sl)" using f inv(1) by simp
    have u: "unat ?off = unat (ml_head sl) + i"
      using lt u64_lt_bound [of "ml_tail sl"] by (intro unat_plus_nat) simp
    have b: "ml_head sl \<le> ?off" "?off < ml_tail sl" using lt u by (simp_all add: word_le_nat_alt word_less_nat_alt)
    have old: "created_of m = zero_time \<or> created_of m < ts" if "o' < ?off" "Read s q o' = Inr m" for o' m
    proof -
      have "unat o' - unat (ml_head sl) < i" using that u by (auto simp: read word_less_nat_alt word_le_nat_alt)
      then show ?thesis using f that(2) by (auto simp: read)
    qed
    have "Read s q ?off = Inr (ml_messages sl ! i)" using b u by (simp add: read)
    with o b old f show ?thesis by (intro exI [of _ ?off]) auto
  qed
qed

theorem OffsetByTime_first_witness:
  "\<exists>off. OffsetByTime orders_store ''orders'' 7 = Inr off \<and> off \<le> ml_tail (empty_log orders 0)"
  using OffsetByTime_first [OF orders_log orders_inv, of 7] by blast






text \<open>
  An update of the filters of a queue is stored but never takes effect on routing: the new
  configuration is returned by \<^verbatim>\<open>GetQueue\<close>, while the queues a topic is routed to stay those of the old
  filters.
\<close>

theorem UpdateQueue_not_routed:
  assumes "GetQueue s (QName config) = Inr old" and "ValidateTopicFilters (QTopics config) = None"
  shows "\<exists>s'. UpdateQueue config s = (None, s') \<and> GetQueue s' (QName config) = Inr config \<and>
    (\<forall>topic. FindMatchingQueues s' topic = FindMatchingQueues s topic)"
proof -
  obtain sl where g: "getQueueLog s (QName config) = Inr sl"
    using assms(1) by (auto simp: GetQueue_def map_sum_def split: sum.splits)
  then have "\<not> ml_deleted sl" by (auto simp: getQueueLog_def split: option.splits if_splits)
  then show ?thesis
    by (simp add: UpdateQueue_def assms(2) g GetQueue_def FindMatchingQueues_def) (simp add: put_log_def)
qed

theorem UpdateQueue_not_routed_witness:
  "\<exists>s'. UpdateQueue (orders\<lparr>QTopics := [''sales/#'']\<rparr>) orders_store = (None, s') \<and>
     GetQueue s' ''orders'' = Inr (orders\<lparr>QTopics := [''sales/#'']\<rparr>) \<and>
     FindMatchingQueues s' ''sales/1'' = [] \<and> FindMatchingQueues s' ''orders/1'' = [''orders'']"
proof -
  let ?c = "orders\<lparr>QTopics := [''sales/#'']\<rparr>"
  have q: "GetQueue orders_store (QName ?c) = Inr orders"
    by (simp add: orders_valid GetQueue_def orders_log) (simp add: empty_log_def)
  have v: "ValidateTopicFilters (QTopics ?c) = None" by code_simp
  have f: "FindMatchingQueues orders_store ''sales/1'' = []" "FindMatchingQueues orders_store ''orders/1'' = [''orders'']"
    by code_simp+
  from UpdateQueue_not_routed [OF q v] f show ?thesis by (auto simp: orders_valid)
qed

end
