(* ===== verification/Consumer_State.thy ===== *)
theory Consumer_State
  imports Flux_Prelude
begin

text \<open>
  \<^verbatim>\<open>logstorage/consumer_state.go\<close>: the durable progress of a consumer group. A sharded pending entry
  list with an index by consumer, the acknowledgement floor, and the persistence that protects them:
  every change is applied in memory and appended to an operation log, a compaction writes snapshots
  and empties the log, and reopening loads the snapshots and replays the log.

  The directory is part of the state: the last snapshot of the group state, the snapshot of each
  shard, and the operation log, where \<open>None\<close> is a line that does not decode. JSON encoding is the
  identity on these values. An I/O call that fails is an argument of the operation that makes it. The
  background compaction that \<^verbatim>\<open>writeOp\<close> starts is counted in \<open>cs_spawned\<close> and is a call of \<open>Compact\<close> at
  some later moment.
\<close>

section \<open>State\<close>

record consumer_state_config =
  NumPELShards :: nat
  MaxBatchSize :: nat
  BatchFlushDelay :: duration
  CompactThreshold :: nat
  RedeliveryTimeout :: duration
  MaxRedeliveryCount :: nat
  RedeliveryBatchSize :: nat

definition DefaultConsumerStateConfig :: consumer_state_config where
  "DefaultConsumerStateConfig =
     \<lparr>NumPELShards = 8, MaxBatchSize = 1000, BatchFlushDelay = 10 * 1000000, CompactThreshold = 10000,
      RedeliveryTimeout = 30 * 1000000000, MaxRedeliveryCount = 5, RedeliveryBatchSize = 100\<rparr>"

record group_state =
  gs_AckFloor :: u64
  gs_Cursor :: u64
  gs_Delivered :: u64
  gs_CreatedAt :: int
  gs_UpdatedAt :: int

record cs_entry =
  ce_Offset :: u64
  ce_ConsumerID :: string
  ce_DeliveredAt :: int
  ce_DeliveryCount :: u16
  ce_LastAttempt :: int

record pel_shard =
  sh_entries :: "(u64, cs_entry) gomap"
  sh_byConsumer :: "(string, u64 list) gomap"
  sh_dirty :: bool

datatype op_type =
  OpDeliver | OpAck | OpAckBatch | OpNack | OpClaim | OpClaimBatch | OpAdvanceFloor | OpSetCursor
| OpRestorePending | OpRelease

record operation =
  op_Type :: op_type
  op_Offset :: u64
  op_Offsets :: "u64 list"
  op_ConsumerID :: string
  op_Timestamp :: int
  op_DeliveryCount :: u16

record cs_disk =
  d_state :: "(u64 \<times> group_state) option"
  d_pel :: "(nat, (u64, cs_entry) gomap) gomap"
  d_ops :: "operation option list"

record consumer_state =
  cs_groupID :: string
  cs_config :: consumer_state_config
  cs_state :: group_state
  cs_pelShards :: "pel_shard list"
  cs_dirty :: bool
  cs_lastSync :: instant
  cs_opCount :: nat
  cs_snapVersion :: u64
  cs_spawned :: nat
  cs_disk :: cs_disk

datatype cs_error =
  ErrMkdir | ErrOpenLog | ErrReadLog | ErrWriteOp | ErrSaveState | ErrSavePEL nat
| ErrTruncateLog | ErrSeekLog | ErrSyncLog | ErrCloseLog

definition empty_disk :: cs_disk where
  "empty_disk = \<lparr>d_state = None, d_pel = [], d_ops = []\<rparr>"

definition empty_shard :: pel_shard where
  "empty_shard = \<lparr>sh_entries = [], sh_byConsumer = [], sh_dirty = False\<rparr>"

definition unix_epoch :: instant where
  "unix_epoch = 62135596800 * 1000000000"

definition UnixMilli :: "instant \<Rightarrow> int" where
  "UnixMilli t = (t - unix_epoch) div 1000000"

definition plain_op :: "op_type \<Rightarrow> u64 \<Rightarrow> int \<Rightarrow> operation" where
  "plain_op t off ts =
     \<lparr>op_Type = t, op_Offset = off, op_Offsets = [], op_ConsumerID = [], op_Timestamp = ts, op_DeliveryCount = 0\<rparr>"


section \<open>Shards\<close>

definition ShardKey :: "consumer_state \<Rightarrow> u64 \<Rightarrow> nat" where
  "ShardKey cs off = unat (off mod of_nat (NumPELShards (cs_config cs)))"

text \<open>FNV-1a over the bytes of the consumer id.\<close>

definition fnv32a :: "string \<Rightarrow> 32 word" where
  "fnv32a s = fold (\<lambda>c h. xor h (of_nat (of_char c)) * 16777619) s 2166136261"

definition ConsumerShardKey :: "string \<Rightarrow> nat \<Rightarrow> nat" where
  "ConsumerShardKey consumerID numShards = unat (fnv32a consumerID mod of_nat numShards)"

definition shard_of :: "consumer_state \<Rightarrow> u64 \<Rightarrow> pel_shard" where
  "shard_of cs off = cs_pelShards cs ! ShardKey cs off"

definition put_shard :: "u64 \<Rightarrow> pel_shard \<Rightarrow> consumer_state \<Rightarrow> consumer_state" where
  "put_shard off shard cs = cs\<lparr>cs_pelShards := (cs_pelShards cs)[ShardKey cs off := shard]\<rparr>"

definition index_add :: "string \<Rightarrow> u64 \<Rightarrow> (string, u64 list) gomap \<Rightarrow> (string, u64 list) gomap" where
  "index_add consumerID off m =
     AList.update consumerID (List.insert off (case map_of m consumerID of None \<Rightarrow> [] | Some offs \<Rightarrow> offs)) m"

definition index_remove :: "string \<Rightarrow> u64 \<Rightarrow> (string, u64 list) gomap \<Rightarrow> (string, u64 list) gomap" where
  "index_remove consumerID off m =
     (case map_of m consumerID of
        None \<Rightarrow> m
      | Some offs \<Rightarrow>
          (let offs = removeAll off offs
           in if offs = [] then AList.delete consumerID m else AList.update consumerID offs m))"


section \<open>Applying operations in memory\<close>

definition insert_entry :: "cs_entry \<Rightarrow> consumer_state \<Rightarrow> consumer_state" where
  "insert_entry entry cs =
     (let off = ce_Offset entry; shard = shard_of cs off
      in put_shard off
           (shard\<lparr>sh_entries := AList.update off entry (sh_entries shard),
                  sh_byConsumer := index_add (ce_ConsumerID entry) off (sh_byConsumer shard),
                  sh_dirty := True\<rparr>) cs)"

definition applyDeliver :: "u64 \<Rightarrow> string \<Rightarrow> int \<Rightarrow> consumer_state \<Rightarrow> consumer_state" where
  "applyDeliver off consumerID ts cs =
     (let st = cs_state cs;
          st = st\<lparr>gs_Delivered := gs_Delivered st + 1\<rparr>;
          st = (if off \<ge> gs_Cursor st then st\<lparr>gs_Cursor := off + 1\<rparr> else st);
          st = st\<lparr>gs_UpdatedAt := ts\<rparr>
      in insert_entry \<lparr>ce_Offset = off, ce_ConsumerID = consumerID, ce_DeliveredAt = ts,
                       ce_DeliveryCount = 1, ce_LastAttempt = ts\<rparr>
           (cs\<lparr>cs_state := st\<rparr>))"

definition applyRestorePending :: "u64 \<Rightarrow> string \<Rightarrow> int \<Rightarrow> u16 \<Rightarrow> consumer_state \<Rightarrow> consumer_state" where
  "applyRestorePending off consumerID ts deliveryCount cs =
     (let deliveryCount = (if deliveryCount = 0 then 1 else deliveryCount);
          cs = insert_entry \<lparr>ce_Offset = off, ce_ConsumerID = consumerID, ce_DeliveredAt = ts,
                             ce_DeliveryCount = deliveryCount, ce_LastAttempt = ts\<rparr> cs
      in cs\<lparr>cs_state := (cs_state cs)\<lparr>gs_UpdatedAt := ts\<rparr>\<rparr>)"

text \<open>The loop of \<^verbatim>\<open>tryAdvanceAckFloor\<close>; \<open>pending\<close> is the test for an entry in the shard of an offset.\<close>

function advance_floor :: "(u64 \<Rightarrow> bool) \<Rightarrow> u64 \<Rightarrow> u64 \<Rightarrow> u64 \<Rightarrow> u64" where
  "advance_floor pending cursor off newFloor =
     (if off < cursor
      then if pending off then newFloor else advance_floor pending cursor (off + 1) off
      else newFloor)"
  by pat_completeness auto
termination
  by (relation "measure (\<lambda>(pending, cursor, off, newFloor). unat cursor - unat off)")
     (auto simp: unat_succ word_less_nat_alt)

declare advance_floor.simps [simp del]

definition entry_at :: "consumer_state \<Rightarrow> u64 \<Rightarrow> cs_entry option" where
  "entry_at cs off = map_of (sh_entries (shard_of cs off)) off"

definition tryAdvanceAckFloor :: "int \<Rightarrow> consumer_state \<Rightarrow> consumer_state" where
  "tryAdvanceAckFloor now cs =
     (let flr = gs_AckFloor (cs_state cs);
          newFloor = advance_floor (\<lambda>off. entry_at cs off \<noteq> None) (gs_Cursor (cs_state cs)) (flr + 1) flr
      in if newFloor > flr
         then cs\<lparr>cs_state := (cs_state cs)\<lparr>gs_AckFloor := newFloor, gs_UpdatedAt := now\<rparr>, cs_dirty := True\<rparr>
         else cs)"

definition applyAck :: "int \<Rightarrow> u64 \<Rightarrow> consumer_state \<Rightarrow> consumer_state" where
  "applyAck now off cs =
     (let shard = shard_of cs off
      in (case map_of (sh_entries shard) off of
            None \<Rightarrow> cs
          | Some entry \<Rightarrow>
              tryAdvanceAckFloor now
                (put_shard off
                   (shard\<lparr>sh_byConsumer := index_remove (ce_ConsumerID entry) off (sh_byConsumer shard),
                          sh_entries := AList.delete off (sh_entries shard),
                          sh_dirty := True\<rparr>) cs)))"

definition applyNack :: "u64 \<Rightarrow> int \<Rightarrow> consumer_state \<Rightarrow> consumer_state" where
  "applyNack off ts cs =
     (let shard = shard_of cs off
      in (case map_of (sh_entries shard) off of
            None \<Rightarrow> cs
          | Some entry \<Rightarrow>
              put_shard off
                (shard\<lparr>sh_entries := AList.update off
                         (entry\<lparr>ce_DeliveryCount := ce_DeliveryCount entry + 1, ce_LastAttempt := ts\<rparr>)
                         (sh_entries shard),
                       sh_dirty := True\<rparr>) cs))"

definition applyRelease :: "u64 \<Rightarrow> int \<Rightarrow> consumer_state \<Rightarrow> consumer_state" where
  "applyRelease off ts cs =
     (let shard = shard_of cs off
      in (case map_of (sh_entries shard) off of
            None \<Rightarrow> cs
          | Some entry \<Rightarrow>
              put_shard off
                (shard\<lparr>sh_entries := AList.update off (entry\<lparr>ce_LastAttempt := ts\<rparr>) (sh_entries shard),
                       sh_dirty := True\<rparr>) cs))"

definition applyClaim :: "u64 \<Rightarrow> string \<Rightarrow> int \<Rightarrow> consumer_state \<Rightarrow> consumer_state" where
  "applyClaim off newConsumerID ts cs =
     (let shard = shard_of cs off
      in (case map_of (sh_entries shard) off of
            None \<Rightarrow> cs
          | Some entry \<Rightarrow>
              (let idx = index_remove (ce_ConsumerID entry) off (sh_byConsumer shard);
                   entry = entry\<lparr>ce_ConsumerID := newConsumerID,
                                 ce_DeliveryCount := ce_DeliveryCount entry + 1, ce_LastAttempt := ts\<rparr>
               in put_shard off
                    (shard\<lparr>sh_entries := AList.update off entry (sh_entries shard),
                           sh_byConsumer := index_add newConsumerID off idx,
                           sh_dirty := True\<rparr>) cs)))"

definition applyAdvanceFloor :: "int \<Rightarrow> u64 \<Rightarrow> consumer_state \<Rightarrow> consumer_state" where
  "applyAdvanceFloor now flr cs =
     (if flr > gs_AckFloor (cs_state cs)
      then cs\<lparr>cs_state := (cs_state cs)\<lparr>gs_AckFloor := flr, gs_UpdatedAt := now\<rparr>\<rparr>
      else cs)"

definition applySetCursor :: "u64 \<Rightarrow> int \<Rightarrow> consumer_state \<Rightarrow> consumer_state" where
  "applySetCursor cursor ts cs =
     cs\<lparr>cs_state := (cs_state cs)\<lparr>gs_Cursor := cursor, gs_UpdatedAt := ts\<rparr>\<rparr>"

definition applyOp :: "int \<Rightarrow> operation \<Rightarrow> consumer_state \<Rightarrow> consumer_state" where
  "applyOp now op cs =
     (case op_Type op of
        OpDeliver \<Rightarrow> applyDeliver (op_Offset op) (op_ConsumerID op) (op_Timestamp op) cs
      | OpAck \<Rightarrow> applyAck now (op_Offset op) cs
      | OpAckBatch \<Rightarrow> fold (applyAck now) (op_Offsets op) cs
      | OpNack \<Rightarrow> applyNack (op_Offset op) (op_Timestamp op) cs
      | OpClaim \<Rightarrow> applyClaim (op_Offset op) (op_ConsumerID op) (op_Timestamp op) cs
      | OpClaimBatch \<Rightarrow> fold (\<lambda>off. applyClaim off (op_ConsumerID op) (op_Timestamp op)) (op_Offsets op) cs
      | OpAdvanceFloor \<Rightarrow> applyAdvanceFloor now (op_Offset op) cs
      | OpSetCursor \<Rightarrow> applySetCursor (op_Offset op) (op_Timestamp op) cs
      | OpRestorePending \<Rightarrow>
          applyRestorePending (op_Offset op) (op_ConsumerID op) (op_Timestamp op) (op_DeliveryCount op) cs
      | OpRelease \<Rightarrow> applyRelease (op_Offset op) (op_Timestamp op) cs)"


section \<open>The operation log\<close>

datatype write_outcome = WriteOk | WriteNothing | WriteTorn

text \<open>A script of the outcomes of the coming I/O calls; past its end every call succeeds.\<close>

fun next_io :: "write_outcome list \<Rightarrow> write_outcome \<times> write_outcome list" where
  "next_io [] = (WriteOk, [])"
| "next_io (io # script) = (io, script)"

definition writeOp :: "write_outcome \<Rightarrow> operation \<Rightarrow> consumer_state \<Rightarrow> cs_error option \<times> consumer_state" where
  "writeOp io op cs =
     (let disk = cs_disk cs
      in (case io of
            WriteNothing \<Rightarrow> (Some ErrWriteOp, cs)
          | WriteTorn \<Rightarrow> (Some ErrWriteOp, cs\<lparr>cs_disk := disk\<lparr>d_ops := d_ops disk @ [None]\<rparr>\<rparr>)
          | WriteOk \<Rightarrow>
              (let cs = cs\<lparr>cs_disk := disk\<lparr>d_ops := d_ops disk @ [Some op]\<rparr>,
                           cs_opCount := cs_opCount cs + 1, cs_dirty := True\<rparr>
               in (None, if cs_opCount cs \<ge> CompactThreshold (cs_config cs)
                         then cs\<lparr>cs_spawned := cs_spawned cs + 1\<rparr> else cs))))"

fun replay :: "int \<Rightarrow> operation option list \<Rightarrow> consumer_state \<Rightarrow> consumer_state" where
  "replay now [] cs = cs"
| "replay now (None # _) cs = cs"
| "replay now (Some op # ops) cs =
     replay now ops ((applyOp now op cs)\<lparr>cs_opCount := cs_opCount (applyOp now op cs) + 1\<rparr>)"

definition replayOpLog :: "int \<Rightarrow> consumer_state \<Rightarrow> consumer_state" where
  "replayOpLog now cs = replay now (d_ops (cs_disk cs)) cs"

definition load_shard :: "cs_disk \<Rightarrow> nat \<Rightarrow> pel_shard \<Rightarrow> pel_shard" where
  "load_shard disk i shard =
     (case map_of (d_pel disk) i of
        None \<Rightarrow> shard
      | Some entries \<Rightarrow>
          shard\<lparr>sh_entries := entries,
                sh_byConsumer := fold (\<lambda>(off, entry). index_add (ce_ConsumerID entry) off) entries []\<rparr>)"

definition cs_load :: "consumer_state \<Rightarrow> consumer_state" where
  "cs_load cs =
     (let disk = cs_disk cs;
          cs = (case d_state disk of
                  None \<Rightarrow> cs
                | Some (version, st) \<Rightarrow> cs\<lparr>cs_state := st, cs_snapVersion := version\<rparr>)
      in cs\<lparr>cs_pelShards :=
              map (\<lambda>i. load_shard disk i (cs_pelShards cs ! i)) [0..<NumPELShards (cs_config cs)]\<rparr>)"

definition NewConsumerState ::
  "instant \<Rightarrow> cs_error option \<Rightarrow> string \<Rightarrow> consumer_state_config \<Rightarrow> cs_disk \<Rightarrow> cs_error + consumer_state" where
  "NewConsumerState now failure groupID config disk =
     (let ms = UnixMilli now;
          cs = \<lparr>cs_groupID = groupID, cs_config = config,
                cs_state = \<lparr>gs_AckFloor = 0, gs_Cursor = 0, gs_Delivered = 0, gs_CreatedAt = ms, gs_UpdatedAt = ms\<rparr>,
                cs_pelShards = replicate (NumPELShards config) empty_shard, cs_dirty = False, cs_lastSync = now,
                cs_opCount = 0, cs_snapVersion = 0, cs_spawned = 0, cs_disk = disk\<rparr>
      in (case failure of
            Some err \<Rightarrow> Inl err
          | None \<Rightarrow> Inr (replayOpLog ms (cs_load cs))))"


section \<open>Public operations\<close>

definition CS_Deliver ::
  "instant \<Rightarrow> write_outcome \<Rightarrow> u64 \<Rightarrow> string \<Rightarrow> consumer_state \<Rightarrow> cs_error option \<times> consumer_state" where
  "CS_Deliver now io off consumerID cs =
     (let ts = UnixMilli now
      in writeOp io ((plain_op OpDeliver off ts)\<lparr>op_ConsumerID := consumerID\<rparr>) (applyDeliver off consumerID ts cs))"

definition CS_RestorePending ::
  "instant \<Rightarrow> write_outcome \<Rightarrow> u64 \<Rightarrow> string \<Rightarrow> instant \<Rightarrow> u16 \<Rightarrow> consumer_state \<Rightarrow> cs_error option \<times> consumer_state" where
  "CS_RestorePending now io off consumerID claimedAt deliveryCount cs =
     (let ts = (if claimedAt = zero_time then UnixMilli now else UnixMilli claimedAt)
      in writeOp io ((plain_op OpRestorePending off ts)\<lparr>op_ConsumerID := consumerID, op_DeliveryCount := deliveryCount\<rparr>)
           (applyRestorePending off consumerID ts deliveryCount cs))"

definition CS_RestoreAckFloor ::
  "instant \<Rightarrow> write_outcome \<Rightarrow> u64 \<Rightarrow> consumer_state \<Rightarrow> cs_error option \<times> consumer_state" where
  "CS_RestoreAckFloor now io flr cs =
     writeOp io (plain_op OpAdvanceFloor flr (UnixMilli now)) (applyAdvanceFloor (UnixMilli now) flr cs)"

fun write_delivers ::
  "(nat \<Rightarrow> write_outcome) \<Rightarrow> nat \<Rightarrow> u64 list \<Rightarrow> string \<Rightarrow> int \<Rightarrow> consumer_state \<Rightarrow> cs_error option \<times> consumer_state" where
  "write_delivers io i [] consumerID ts cs = (None, cs)"
| "write_delivers io i (off # offs) consumerID ts cs =
     (case writeOp (io i) ((plain_op OpDeliver off ts)\<lparr>op_ConsumerID := consumerID\<rparr>) cs of
        (Some err, cs) \<Rightarrow> (Some err, cs)
      | (None, cs) \<Rightarrow> write_delivers io (Suc i) offs consumerID ts cs)"

definition CS_DeliverBatch ::
  "instant \<Rightarrow> (nat \<Rightarrow> write_outcome) \<Rightarrow> u64 list \<Rightarrow> string \<Rightarrow> consumer_state \<Rightarrow> cs_error option \<times> consumer_state" where
  "CS_DeliverBatch now io offs consumerID cs =
     (let ts = UnixMilli now
      in write_delivers io 0 offs consumerID ts (fold (\<lambda>off. applyDeliver off consumerID ts) offs cs))"

definition CS_Ack :: "instant \<Rightarrow> write_outcome \<Rightarrow> u64 \<Rightarrow> consumer_state \<Rightarrow> cs_error option \<times> consumer_state" where
  "CS_Ack now io off cs =
     writeOp io (plain_op OpAck off (UnixMilli now)) (applyAck (UnixMilli now) off cs)"

definition CS_AckBatch :: "instant \<Rightarrow> write_outcome \<Rightarrow> u64 list \<Rightarrow> consumer_state \<Rightarrow> cs_error option \<times> consumer_state" where
  "CS_AckBatch now io offs cs =
     writeOp io ((plain_op OpAckBatch 0 (UnixMilli now))\<lparr>op_Offsets := offs\<rparr>) (fold (applyAck (UnixMilli now)) offs cs)"

definition CS_NackAt :: "write_outcome \<Rightarrow> u64 \<Rightarrow> instant \<Rightarrow> consumer_state \<Rightarrow> cs_error option \<times> consumer_state" where
  "CS_NackAt io off attemptedAt cs =
     (let ts = UnixMilli attemptedAt in writeOp io (plain_op OpNack off ts) (applyNack off ts cs))"

definition CS_Nack :: "instant \<Rightarrow> write_outcome \<Rightarrow> u64 \<Rightarrow> consumer_state \<Rightarrow> cs_error option \<times> consumer_state" where
  "CS_Nack now io off cs = CS_NackAt io off now cs"

definition CS_ReleaseAt :: "write_outcome \<Rightarrow> u64 \<Rightarrow> instant \<Rightarrow> consumer_state \<Rightarrow> cs_error option \<times> consumer_state" where
  "CS_ReleaseAt io off attemptedAt cs =
     (let ts = UnixMilli attemptedAt in writeOp io (plain_op OpRelease off ts) (applyRelease off ts cs))"

definition CS_Claim ::
  "instant \<Rightarrow> write_outcome \<Rightarrow> u64 \<Rightarrow> string \<Rightarrow> consumer_state \<Rightarrow> cs_error option \<times> consumer_state" where
  "CS_Claim now io off newConsumerID cs =
     (let ts = UnixMilli now
      in writeOp io ((plain_op OpClaim off ts)\<lparr>op_ConsumerID := newConsumerID\<rparr>) (applyClaim off newConsumerID ts cs))"

definition CS_ClaimBatch ::
  "instant \<Rightarrow> write_outcome \<Rightarrow> u64 list \<Rightarrow> string \<Rightarrow> consumer_state \<Rightarrow> cs_error option \<times> consumer_state" where
  "CS_ClaimBatch now io offs newConsumerID cs =
     (let ts = UnixMilli now
      in writeOp io ((plain_op OpClaimBatch 0 ts)\<lparr>op_Offsets := offs, op_ConsumerID := newConsumerID\<rparr>)
           (fold (\<lambda>off. applyClaim off newConsumerID ts) offs cs))"

definition CS_SetCursor :: "instant \<Rightarrow> write_outcome \<Rightarrow> u64 \<Rightarrow> consumer_state \<Rightarrow> cs_error option \<times> consumer_state" where
  "CS_SetCursor now io cursor cs =
     (let ts = UnixMilli now in writeOp io (plain_op OpSetCursor cursor ts) (applySetCursor cursor ts cs))"


section \<open>Queries\<close>

definition GetGroupState :: "consumer_state \<Rightarrow> group_state" where
  "GetGroupState cs = cs_state cs"

definition GetPending :: "consumer_state \<Rightarrow> u64 \<Rightarrow> cs_entry option" where
  "GetPending cs off = entry_at cs off"

definition GetPendingByConsumer :: "consumer_state \<Rightarrow> string \<Rightarrow> cs_entry list" where
  "GetPendingByConsumer cs consumerID =
     concat (map (\<lambda>shard.
       (case map_of (sh_byConsumer shard) consumerID of
          None \<Rightarrow> []
        | Some offs \<Rightarrow> List.map_filter (map_of (sh_entries shard)) offs)) (cs_pelShards cs))"

definition GetPendingByShard :: "consumer_state \<Rightarrow> int \<Rightarrow> cs_entry list" where
  "GetPendingByShard cs shardID =
     (if shardID < 0 \<or> shardID \<ge> int (length (cs_pelShards cs)) then []
      else map snd (sh_entries (cs_pelShards cs ! nat shardID)))"

text \<open>
  The scans for redelivery and dead letters append a match and stop once \<open>maxCount\<close> results are there.
  The flag says that the scan stopped.
\<close>

fun collect :: "(cs_entry \<Rightarrow> bool) \<Rightarrow> int \<Rightarrow> cs_entry list \<Rightarrow> cs_entry list \<Rightarrow> cs_entry list \<times> bool" where
  "collect P maxCount [] acc = (acc, False)"
| "collect P maxCount (e # es) acc =
     (if P e
      then if int (length (acc @ [e])) \<ge> maxCount then (acc @ [e], True) else collect P maxCount es (acc @ [e])
      else collect P maxCount es acc)"

fun collect_shards :: "(cs_entry \<Rightarrow> bool) \<Rightarrow> int \<Rightarrow> pel_shard list \<Rightarrow> cs_entry list \<Rightarrow> cs_entry list" where
  "collect_shards P maxCount [] acc = acc"
| "collect_shards P maxCount (shard # shards) acc =
     (case collect P maxCount (map snd (sh_entries shard)) acc of
        (acc, True) \<Rightarrow> acc
      | (acc, False) \<Rightarrow> collect_shards P maxCount shards acc)"

text \<open>\<open>None\<close> is the panic of \<^verbatim>\<open>make\<close> with a negative capacity.\<close>

definition GetRedeliveryCandidates ::
  "instant \<Rightarrow> consumer_state \<Rightarrow> int \<Rightarrow> duration \<Rightarrow> int \<Rightarrow> (int \<times> cs_entry list) option" where
  "GetRedeliveryCandidates now cs shardID timeout maxCount =
     (if shardID < 0 \<or> shardID \<ge> int (length (cs_pelShards cs)) then Some (shardID, [])
      else if maxCount < 0 then None
      else (let cutoff = UnixMilli (now - timeout)
            in Some (shardID, fst (collect (\<lambda>e. ce_LastAttempt e < cutoff) maxCount
                      (map snd (sh_entries (cs_pelShards cs ! nat shardID))) []))))"

definition GetAllRedeliveryCandidates ::
  "instant \<Rightarrow> consumer_state \<Rightarrow> duration \<Rightarrow> int \<Rightarrow> cs_entry list option" where
  "GetAllRedeliveryCandidates now cs timeout maxCount =
     (let cutoff = UnixMilli (now - timeout)
      in if maxCount < 0 then None
         else Some (collect_shards (\<lambda>e. ce_LastAttempt e < cutoff) maxCount (cs_pelShards cs) []))"

definition GetDeadLetterCandidates :: "consumer_state \<Rightarrow> int \<Rightarrow> int \<Rightarrow> cs_entry list option" where
  "GetDeadLetterCandidates cs maxDeliveries maxCount =
     (if maxCount < 0 then None
      else Some (collect_shards (\<lambda>e. int (unat (ce_DeliveryCount e)) \<ge> maxDeliveries) maxCount (cs_pelShards cs) []))"

definition CS_PendingCount :: "consumer_state \<Rightarrow> nat" where
  "CS_PendingCount cs = fold (\<lambda>shard n. n + length (sh_entries shard)) (cs_pelShards cs) 0"

definition PendingCountByShard :: "consumer_state \<Rightarrow> (nat, nat) gomap" where
  "PendingCountByShard cs =
     map (\<lambda>i. (i, length (sh_entries (cs_pelShards cs ! i)))) [0..<length (cs_pelShards cs)]"

definition NumShards :: "consumer_state \<Rightarrow> nat" where
  "NumShards cs = length (cs_pelShards cs)"


section \<open>Compaction\<close>

text \<open>
  The I/O calls of a compaction are, in order, the snapshot of the group state, one snapshot per shard,
  the truncation of the log and the seek. \<open>io\<close> is the number of calls that succeed before one fails (or
  before the process dies), so the disk left behind by every partial compaction is covered.
\<close>

definition save_state :: "consumer_state \<Rightarrow> consumer_state" where
  "save_state cs = cs\<lparr>cs_disk := (cs_disk cs)\<lparr>d_state := Some (cs_snapVersion cs, cs_state cs)\<rparr>\<rparr>"

definition save_shard :: "nat \<Rightarrow> consumer_state \<Rightarrow> consumer_state" where
  "save_shard i cs =
     cs\<lparr>cs_disk := (cs_disk cs)\<lparr>d_pel := AList.update i (sh_entries (cs_pelShards cs ! i)) (d_pel (cs_disk cs))\<rparr>,
        cs_pelShards := (cs_pelShards cs)[i := (cs_pelShards cs ! i)\<lparr>sh_dirty := False\<rparr>]\<rparr>"

definition compactLocked :: "instant \<Rightarrow> nat \<Rightarrow> consumer_state \<Rightarrow> cs_error option \<times> consumer_state" where
  "compactLocked now io cs =
     (let cs = cs\<lparr>cs_snapVersion := cs_snapVersion cs + 1\<rparr>; n = length (cs_pelShards cs)
      in if io = 0 then (Some ErrSaveState, cs)
         else
           (let cs = save_state cs; saved = min n (io - 1);
                cs = fold save_shard [0..<saved] cs
            in if saved < n then (Some (ErrSavePEL saved), cs)
               else if io = n + 1 then (Some ErrTruncateLog, cs)
               else
                 (let cs = cs\<lparr>cs_disk := (cs_disk cs)\<lparr>d_ops := []\<rparr>\<rparr>
                  in if io = n + 2 then (Some ErrSeekLog, cs)
                     else (None, cs\<lparr>cs_opCount := 0, cs_dirty := False, cs_lastSync := now\<rparr>))))"

definition Compact :: "instant \<Rightarrow> nat \<Rightarrow> consumer_state \<Rightarrow> cs_error option \<times> consumer_state" where
  "Compact now io cs = compactLocked now io cs"

definition CS_Sync :: "bool \<Rightarrow> consumer_state \<Rightarrow> cs_error option" where
  "CS_Sync ok cs = (if ok then None else Some ErrSyncLog)"

definition CS_Close :: "instant \<Rightarrow> nat \<Rightarrow> bool \<Rightarrow> consumer_state \<Rightarrow> cs_error option \<times> consumer_state" where
  "CS_Close now io ok cs =
     (let cs = (if cs_dirty cs then snd (compactLocked now io cs) else cs)
      in (if ok then None else Some ErrCloseLog, cs))"

record shard_stats =
  ss_ShardID :: nat
  ss_PendingCount :: nat
  ss_ConsumerCount :: nat

record consumer_state_stats =
  cst_GroupID :: string
  cst_AckFloor :: u64
  cst_Cursor :: u64
  cst_Delivered :: u64
  cst_NumShards :: nat
  cst_TotalPending :: nat
  cst_OpCount :: nat
  cst_SnapshotVersion :: u64
  cst_ShardStats :: "shard_stats list"

definition CS_Stats :: "consumer_state \<Rightarrow> consumer_state_stats" where
  "CS_Stats cs =
     \<lparr>cst_GroupID = cs_groupID cs, cst_AckFloor = gs_AckFloor (cs_state cs), cst_Cursor = gs_Cursor (cs_state cs),
      cst_Delivered = gs_Delivered (cs_state cs), cst_NumShards = length (cs_pelShards cs),
      cst_TotalPending = fold (\<lambda>shard n. n + length (sh_entries shard)) (cs_pelShards cs) 0,
      cst_OpCount = cs_opCount cs, cst_SnapshotVersion = cs_snapVersion cs,
      cst_ShardStats = map (\<lambda>i. \<lparr>ss_ShardID = i, ss_PendingCount = length (sh_entries (cs_pelShards cs ! i)),
                                 ss_ConsumerCount = length (sh_byConsumer (cs_pelShards cs ! i))\<rparr>)
                         [0..<length (cs_pelShards cs)]\<rparr>"

end
