(* ===== verification/Group_Files.thy ===== *)
theory Group_Files
  imports Consumer_Group Consumer_State "HOL-Library.Char_ord" "HOL-Library.List_Lexorder"
begin

text \<open>
  \<^verbatim>\<open>logstorage/consumer_group.go\<close>: the metadata store of consumer groups. A map of groups in memory, one
  JSON file per group below the store directory, and the set of groups whose file is behind.

  A path is the list of its elements below the root of the file system; \<open>clean_path\<close> is what
  \<^verbatim>\<open>filepath.Join\<close> makes of it. A file is its decoded content, where \<open>Malformed\<close> is one that cannot be
  read or decoded. JSON encoding is the identity on the values kept here. Each write or removal takes its
  outcome from the script \<open>gf_io\<close>; a write goes to a temporary file that is renamed, so a failed or torn
  one leaves the old file.
\<close>

section \<open>Paths\<close>

definition backslash :: char where "backslash = CHR 0x5C"

definition enc_char :: "char \<Rightarrow> string" where
  "enc_char c =
     (if c = CHR ''%'' then ''%25'' else if c = CHR ''/'' then ''%2F''
      else if c = backslash then ''%5C'' else [c])"

definition encodePathComponent :: "string \<Rightarrow> string" where
  "encodePathComponent name =
     (if name = ''.'' then ''%2E''
      else if name = ''..'' then ''%2E%2E''
      else if \<not> contains_any name [CHR ''%'', CHR ''/'', backslash] then name
      else concat (map enc_char name))"

text \<open>\<^verbatim>\<open>filepath.Clean\<close> on an absolute path, as a stack of elements (the last element first).\<close>

definition clean_step :: "string \<Rightarrow> string list \<Rightarrow> string list" where
  "clean_step el stack =
     (if el = [] \<or> el = ''.'' then stack else if el = ''..'' then tl stack else el # stack)"

definition clean_path :: "string list \<Rightarrow> string list" where
  "clean_path els = rev (fold clean_step els [])"

text \<open>\<^verbatim>\<open>filepath.Join(dir, names...)\<close>: a name contributes the elements between its separators.\<close>

definition join_path :: "string list \<Rightarrow> string list \<Rightarrow> string list" where
  "join_path dir names = clean_path (dir @ concat (map (str_split (CHR ''/'')) names))"

definition is_below :: "string list \<Rightarrow> string list \<Rightarrow> bool" where
  "is_below dir path \<longleftrightarrow> take (length dir) path = dir"


section \<open>State\<close>

record group_file =
  file_Version :: nat
  file_State :: "consumer_group option"
  file_hasAutoCommit :: bool

datatype file_content = Malformed | Encoded group_file

datatype logstorage_error =
  ErrGroupNotFound
| ErrLogQueueNotFound
| ErrSegmentClosed
| ErrPELEntryNotFound
| ErrOutsideGroupDir
| ErrWriteGroup
| ErrRemoveGroup
| ErrConsumerState cs_error

record group_files =
  gf_dir :: "string list"
  gf_groups :: "(string, (string, consumer_group) gomap) gomap"
  gf_dirty :: "(string \<times> string) list"
  gf_files :: "(string list, file_content) gomap"
  gf_io :: "write_outcome list"

definition consumerGroupVersion :: nat where "consumerGroupVersion = 2"

definition contained :: "group_files \<Rightarrow> string list \<Rightarrow> bool" where
  "contained s path = is_below (gf_dir s) path"

definition groupPath :: "group_files \<Rightarrow> string \<Rightarrow> string \<Rightarrow> string list" where
  "groupPath s queueName groupID =
     join_path (gf_dir s) [encodePathComponent queueName, encodePathComponent groupID @ ''.json'']"

definition legacyGroupPath :: "group_files \<Rightarrow> string \<Rightarrow> string \<Rightarrow> string list" where
  "legacyGroupPath s queueName groupID = join_path (gf_dir s) [queueName, groupID @ ''.json'']"

definition groups_of :: "group_files \<Rightarrow> string \<Rightarrow> (string, consumer_group) gomap" where
  "groups_of s queueName = (case map_of (gf_groups s) queueName of None \<Rightarrow> [] | Some gs \<Rightarrow> gs)"

definition set_group :: "string \<Rightarrow> string \<Rightarrow> consumer_group \<Rightarrow> group_files \<Rightarrow> group_files" where
  "set_group queueName groupID g s =
     s\<lparr>gf_groups := AList.update queueName (AList.update groupID g (groups_of s queueName)) (gf_groups s)\<rparr>"

definition group_at :: "group_files \<Rightarrow> string \<Rightarrow> string \<Rightarrow> consumer_group option" where
  "group_at s queueName groupID = map_of (groups_of s queueName) groupID"


section \<open>Loading\<close>

definition decodeConsumerGroupState :: "file_content \<Rightarrow> unit + (consumer_group option \<times> bool)" where
  "decodeConsumerGroupState content =
     (case content of
        Malformed \<Rightarrow> Inl ()
      | Encoded wrapper \<Rightarrow>
          if file_Version wrapper > consumerGroupVersion then Inl ()
          else (case file_State wrapper of
                  None \<Rightarrow> Inr (None, False)
                | Some state \<Rightarrow> Inr (Some state, file_hasAutoCommit wrapper)))"

definition fill_defaults :: "bool \<Rightarrow> consumer_group \<Rightarrow> consumer_group" where
  "fill_defaults hasAutoCommit g =
     (let g = (if cg_Cursor g = None then g\<lparr>cg_Cursor := Some zero_cursor\<rparr> else g);
          g = (if cg_Mode g = [] then g\<lparr>cg_Mode := GroupModeQueue\<rparr> else g)
      in if hasAutoCommit then g else g\<lparr>cg_AutoCommit := True\<rparr>)"

definition has_json_ext :: "string list \<Rightarrow> bool" where
  "has_json_ext path \<longleftrightarrow> path \<noteq> [] \<and> take 5 (rev (last path)) = rev ''.json''"

definition load_file :: "string list \<times> file_content \<Rightarrow> group_files \<Rightarrow> group_files" where
  "load_file file s =
     (if \<not> has_json_ext (fst file) \<or> \<not> is_below (gf_dir s) (fst file) then s
      else (case decodeConsumerGroupState (snd file) of
              Inl _ \<Rightarrow> s
            | Inr (None, _) \<Rightarrow> s
            | Inr (Some state, hasAutoCommit) \<Rightarrow>
                (let state = fill_defaults hasAutoCommit state
                 in set_group (cg_QueueName state) (cg_ID state) state s)))"

text \<open>\<^verbatim>\<open>filepath.Walk\<close> visits the files in the lexical order of their path elements.\<close>

definition loadAll :: "group_files \<Rightarrow> group_files" where
  "loadAll s = fold load_file (sort_key fst (gf_files s)) s"

definition NewConsumerGroupStateStore ::
  "string list \<Rightarrow> (string list, file_content) gomap \<Rightarrow> write_outcome list \<Rightarrow> group_files" where
  "NewConsumerGroupStateStore dir files io =
     loadAll \<lparr>gf_dir = dir, gf_groups = [], gf_dirty = [], gf_files = files, gf_io = io\<rparr>"


section \<open>Operations\<close>

definition writeGroup ::
  "string \<times> string \<Rightarrow> consumer_group \<Rightarrow> group_files \<Rightarrow> logstorage_error option \<times> group_files" where
  "writeGroup ref state s =
     (let path = groupPath s (fst ref) (snd ref)
      in if \<not> contained s path then (Some ErrOutsideGroupDir, s)
         else
           (let (io, script) = next_io (gf_io s); s = s\<lparr>gf_io := script\<rparr>;
                wrapper = \<lparr>file_Version = consumerGroupVersion, file_State = Some state,
                           file_hasAutoCommit = True\<rparr>
            in if io = WriteOk then (None, s\<lparr>gf_files := AList.update path (Encoded wrapper) (gf_files s)\<rparr>)
               else (Some ErrWriteGroup, s)))"

definition flush ::
  "string \<times> string \<Rightarrow> consumer_group \<Rightarrow> group_files \<Rightarrow> logstorage_error option \<times> group_files" where
  "flush ref state s =
     (case writeGroup ref state (s\<lparr>gf_dirty := removeAll ref (gf_dirty s)\<rparr>) of
        (None, s) \<Rightarrow> (None, s)
      | (Some err, s) \<Rightarrow> (Some err, s\<lparr>gf_dirty := List.insert ref (gf_dirty s)\<rparr>))"

definition Save :: "consumer_group \<Rightarrow> group_files \<Rightarrow> logstorage_error option \<times> group_files" where
  "Save state s =
     (let ref = (cg_QueueName state, cg_ID state);
          s = set_group (cg_QueueName state) (cg_ID state) state s
      in flush ref state (s\<lparr>gf_dirty := List.insert ref (gf_dirty s)\<rparr>))"

definition Group_Get :: "group_files \<Rightarrow> string \<Rightarrow> string \<Rightarrow> logstorage_error + consumer_group" where
  "Group_Get s queueName groupID =
     (case map_of (gf_groups s) queueName of
        None \<Rightarrow> Inl ErrGroupNotFound
      | Some groups \<Rightarrow>
          (case map_of groups groupID of None \<Rightarrow> Inl ErrGroupNotFound | Some state \<Rightarrow> Inr state))"

fun remove_files :: "string list list \<Rightarrow> group_files \<Rightarrow> logstorage_error option \<times> group_files" where
  "remove_files [] s = (None, s)"
| "remove_files (path # paths) s =
     (if \<not> contained s path \<or> map_of (gf_files s) path = None then remove_files paths s
      else (let (io, script) = next_io (gf_io s); s = s\<lparr>gf_io := script\<rparr>
            in if io = WriteOk then remove_files paths (s\<lparr>gf_files := AList.delete path (gf_files s)\<rparr>)
               else (Some ErrRemoveGroup, s)))"

text \<open>The part of \<^verbatim>\<open>Delete\<close> under the map lock.\<close>

definition drop_group :: "string \<Rightarrow> string \<Rightarrow> group_files \<Rightarrow> group_files" where
  "drop_group queueName groupID s =
     (let s = (case map_of (gf_groups s) queueName of
                 None \<Rightarrow> s
               | Some groups \<Rightarrow>
                   (let groups = AList.delete groupID groups
                    in s\<lparr>gf_groups := (if groups = [] then AList.delete queueName (gf_groups s)
                                       else AList.update queueName groups (gf_groups s))\<rparr>))
      in s\<lparr>gf_dirty := removeAll (queueName, groupID) (gf_dirty s)\<rparr>)"

definition Group_Delete :: "string \<Rightarrow> string \<Rightarrow> group_files \<Rightarrow> logstorage_error option \<times> group_files" where
  "Group_Delete queueName groupID s =
     remove_files [groupPath s queueName groupID, legacyGroupPath s queueName groupID]
       (drop_group queueName groupID s)"

definition Group_List :: "group_files \<Rightarrow> string \<Rightarrow> consumer_group list" where
  "Group_List s queueName = map snd (groups_of s queueName)"

definition ListAll :: "group_files \<Rightarrow> consumer_group list" where
  "ListAll s = concat (map (\<lambda>(_, groups). map snd groups) (gf_groups s))"

definition sync_step :: "string \<times> string \<Rightarrow> bool \<times> group_files \<Rightarrow> bool \<times> group_files" where
  "sync_step ref = (\<lambda>(failed, s).
     (case group_at s (fst ref) (snd ref) of
        None \<Rightarrow> (failed, s)
      | Some state \<Rightarrow> (let (err, s) = flush ref state s in (failed \<or> err \<noteq> None, s))))"

definition Group_Sync :: "group_files \<Rightarrow> logstorage_error option \<times> group_files" where
  "Group_Sync s =
     (let (failed, s) = fold sync_step (gf_dirty s) (False, s)
      in (if failed then Some ErrWriteGroup else None, s))"

definition Group_Close :: "group_files \<Rightarrow> logstorage_error option \<times> group_files" where
  "Group_Close s = Group_Sync s"

definition Group_Exists :: "group_files \<Rightarrow> string \<Rightarrow> string \<Rightarrow> bool" where
  "Group_Exists s queueName groupID =
     (case map_of (gf_groups s) queueName of
        None \<Rightarrow> False | Some groups \<Rightarrow> map_of groups groupID \<noteq> None)"

definition CreateIfNotExists :: "consumer_group \<Rightarrow> group_files \<Rightarrow> logstorage_error option \<times> group_files" where
  "CreateIfNotExists state s =
     (let ref = (cg_QueueName state, cg_ID state)
      in if group_at s (cg_QueueName state) (cg_ID state) \<noteq> None then (None, s)
         else (let s = set_group (cg_QueueName state) (cg_ID state) state s
               in flush ref state (s\<lparr>gf_dirty := List.insert ref (gf_dirty s)\<rparr>)))"

definition Group_UpdateCursor ::
  "instant \<Rightarrow> string \<Rightarrow> string \<Rightarrow> u64 \<Rightarrow> u64 \<Rightarrow> group_files \<Rightarrow> logstorage_error option \<times> group_files" where
  "Group_UpdateCursor now queueName groupID cursor committed s =
     (case Group_Get s queueName groupID of
        Inl err \<Rightarrow> (Some err, s)
      | Inr state \<Rightarrow>
          (let s = set_group queueName groupID (SetCursor now cursor committed state) s
           in (None, s\<lparr>gf_dirty := List.insert (queueName, groupID) (gf_dirty s)\<rparr>)))"

definition Group_GetCursor :: "group_files \<Rightarrow> string \<Rightarrow> string \<Rightarrow> logstorage_error + queue_cursor" where
  "Group_GetCursor s queueName groupID = map_sum id CursorView (Group_Get s queueName groupID)"


section \<open>Names and paths\<close>

text \<open>The inverse of the encoding, for the proofs.\<close>

fun decode_name :: "string \<Rightarrow> string" where
  "decode_name (a # b # c # rest) =
     (if [a, b, c] = ''%25'' then CHR ''%'' # decode_name rest
      else if [a, b, c] = ''%2F'' then CHR ''/'' # decode_name rest
      else if [a, b, c] = ''%5C'' then backslash # decode_name rest
      else if [a, b, c] = ''%2E'' then CHR ''.'' # decode_name rest
      else a # decode_name (b # c # rest))"
| "decode_name s = s"

lemma decode_name_plain: "c \<noteq> CHR ''%'' \<Longrightarrow> decode_name (c # s) = c # decode_name s"
  by (cases s rule: decode_name.cases) auto

lemma decode_name_id: "CHR ''%'' \<notin> set s \<Longrightarrow> decode_name s = s"
  by (induction s) (auto simp: decode_name_plain)

lemma decode_enc_char: "decode_name (enc_char c @ s) = c # decode_name s"
  by (simp add: enc_char_def decode_name_plain)

lemma decode_encode [simp]: "decode_name (encodePathComponent name) = name"
proof -
  have "decode_name (concat (map enc_char name)) = name"
    by (induction name) (simp_all add: decode_enc_char)
  moreover have "\<not> contains_any name [CHR ''%'', CHR ''/'', backslash] \<Longrightarrow> decode_name name = name"
    by (rule decode_name_id) (auto simp: contains_any_def)
  ultimately show ?thesis
    unfolding encodePathComponent_def by simp
qed

lemma encode_inject [simp]: "encodePathComponent a = encodePathComponent b \<longleftrightarrow> a = b"
  by (metis decode_encode)

lemma encode_no_separator: "CHR ''/'' \<notin> set (encodePathComponent name)"
  by (auto simp: encodePathComponent_def enc_char_def contains_any_def split: if_splits)

lemma enc_char_special:
  "c \<in> {CHR ''%'', CHR ''/'', backslash} \<Longrightarrow> CHR ''%'' \<in> set (enc_char c)"
  by (auto simp: enc_char_def)

lemma encode_cases:
  obtains (plain) "encodePathComponent name = name" "name \<noteq> ''.''" "name \<noteq> ''..''"
  | (encoded) "CHR ''%'' \<in> set (encodePathComponent name)" "name \<noteq> []"
proof (cases "contains_any name [CHR ''%'', CHR ''/'', backslash]")
  case True
  then obtain c where "c \<in> set name" "c \<in> {CHR ''%'', CHR ''/'', backslash}"
    by (auto simp: contains_any_def)
  then have "CHR ''%'' \<in> set (concat (map enc_char name))" "name \<noteq> []"
    using enc_char_special by fastforce+
  then show ?thesis
    using True encoded by (auto simp: encodePathComponent_def)
next
  case False
  then show ?thesis
    using plain encoded by (cases "name = ''.'' \<or> name = ''..''") (auto simp: encodePathComponent_def)
qed

lemma encode_Nil_iff [simp]: "encodePathComponent name = [] \<longleftrightarrow> name = []"
  by (rule encode_cases[of name]) auto

lemma encode_not_dots: "encodePathComponent name \<noteq> ''.''" "encodePathComponent name \<noteq> ''..''"
  by (rule encode_cases[of name]; auto)+


definition plain_dir :: "string list \<Rightarrow> bool" where
  "plain_dir dir \<longleftrightarrow> (\<forall>el \<in> set dir. el \<noteq> [] \<and> el \<noteq> ''.'' \<and> el \<noteq> ''..'')"

lemma fold_clean_plain: "plain_dir els \<Longrightarrow> fold clean_step els stack = rev els @ stack"
  by (induction els arbitrary: stack) (auto simp: plain_dir_def clean_step_def)

lemma groupPath_eq:
  assumes "plain_dir (gf_dir s)"
  shows "groupPath s q g =
     gf_dir s @ (if q = [] then [] else [encodePathComponent q]) @ [encodePathComponent g @ ''.json'']"
proof -
  have "CHR ''/'' \<notin> set (encodePathComponent g @ ''.json'')"
    using encode_no_separator by simp
  then have "groupPath s q g = clean_path (gf_dir s @ [encodePathComponent q, encodePathComponent g @ ''.json''])"
    by (simp add: groupPath_def join_path_def str_split_single encode_no_separator)
  moreover have "plain_dir (gf_dir s @ (if q = [] then [] else [encodePathComponent q]) @
      [encodePathComponent g @ ''.json''])"
    using assms encode_not_dots by (auto simp: plain_dir_def append_eq_Cons_conv)
  moreover have "fold clean_step (gf_dir s @ [encodePathComponent q, x]) [] =
      fold clean_step (gf_dir s @ (if q = [] then [] else [encodePathComponent q]) @ [x]) []" for x
    by (simp add: clean_step_def)
  ultimately show ?thesis
    unfolding clean_path_def by (simp only: fold_clean_plain append_Nil2 rev_rev_ident)
qed

lemma groupPath_inject:
  "plain_dir (gf_dir s) \<Longrightarrow> groupPath s q g = groupPath s q' g' \<longleftrightarrow> q = q' \<and> g = g'"
  by (auto simp: groupPath_eq)

lemma groupPath_below: "plain_dir (gf_dir s) \<Longrightarrow> is_below (gf_dir s) (groupPath s q g)"
  by (simp add: groupPath_eq is_below_def)

lemma groupPath_json: "plain_dir (gf_dir s) \<Longrightarrow> has_json_ext (groupPath s q g)"
  by (simp add: groupPath_eq has_json_ext_def)

lemma groupPath_cong: "gf_dir s = gf_dir s' \<Longrightarrow> groupPath s q g = groupPath s' q g"
  by (simp add: groupPath_def)


section \<open>Recovery\<close>

definition wrapped :: "consumer_group \<Rightarrow> file_content" where
  "wrapped state = Encoded \<lparr>file_Version = consumerGroupVersion, file_State = Some state, file_hasAutoCommit = True\<rparr>"

definition saved_state :: "file_content \<Rightarrow> consumer_group option" where
  "saved_state content = (case content of Malformed \<Rightarrow> None | Encoded w \<Rightarrow> file_State w)"

lemma saved_state_wrapped [simp]: "saved_state (wrapped state) = Some state"
  by (simp add: saved_state_def wrapped_def)

text \<open>
  Every file is the canonical file of the group it names, and a group that is not dirty is in its file,
  up to the defaults that loading fills in.
\<close>

definition own_files :: "group_files \<Rightarrow> bool" where
  "own_files s \<longleftrightarrow>
     plain_dir (gf_dir s) \<and> distinct (map fst (gf_files s)) \<and>
     (\<forall>(path, content) \<in> set (gf_files s).
        \<exists>state. content = wrapped state \<and> path = groupPath s (cg_QueueName state) (cg_ID state))"

definition gf_inv :: "group_files \<Rightarrow> bool" where
  "gf_inv s \<longleftrightarrow>
     own_files s \<and>
     (\<forall>q g state. group_at s q g = Some state \<longrightarrow>
        cg_QueueName state = q \<and> cg_ID state = g \<and>
        ((q, g) \<notin> set (gf_dirty s) \<longrightarrow>
           (\<exists>saved. map_of (gf_files s) (groupPath s q g) = Some (wrapped saved) \<and>
                    fill_defaults True saved = fill_defaults True state)))"

lemma fill_defaults_idem [simp]: "fill_defaults b (fill_defaults True g) = fill_defaults b g"
  by (simp add: fill_defaults_def Let_def GroupModeQueue_def)

lemma fill_defaults_fields [simp]:
  "cg_QueueName (fill_defaults b g) = cg_QueueName g" "cg_ID (fill_defaults b g) = cg_ID g"
  by (simp_all add: fill_defaults_def Let_def)

lemma group_at_set [simp]:
  "group_at (set_group q g state s) q' g' = (if q' = q \<and> g' = g then Some state else group_at s q' g')"
  by (simp add: group_at_def groups_of_def set_group_def)

lemma set_group_frame [simp]:
  "gf_dir (set_group q g state s) = gf_dir s" "gf_files (set_group q g state s) = gf_files s"
  "gf_dirty (set_group q g state s) = gf_dirty s" "gf_io (set_group q g state s) = gf_io s"
  by (simp_all add: set_group_def)

lemma group_at_frame [simp]:
  "group_at (s\<lparr>gf_dirty := d\<rparr>) = group_at s" "group_at (s\<lparr>gf_files := fs\<rparr>) = group_at s"
  "group_at (s\<lparr>gf_io := io\<rparr>) = group_at s"
  by (simp_all add: group_at_def groups_of_def fun_eq_iff)

lemma load_file_wrapped:
  assumes "plain_dir (gf_dir s)"
  shows "load_file (groupPath s (cg_QueueName state) (cg_ID state), wrapped state) s =
     set_group (cg_QueueName state) (cg_ID state) (fill_defaults True state) s"
  using assms
  by (simp add: load_file_def wrapped_def decodeConsumerGroupState_def groupPath_json groupPath_below Let_def)

lemma fold_load_file:
  assumes "plain_dir (gf_dir s)" "distinct (map fst files)"
    and "\<forall>(path, content) \<in> set files.
           \<exists>state. content = wrapped state \<and> path = groupPath s (cg_QueueName state) (cg_ID state)"
  shows "group_at (fold load_file files s) q g =
           (case map_of files (groupPath s q g) of
              None \<Rightarrow> group_at s q g
            | Some content \<Rightarrow> map_option (fill_defaults True) (saved_state content))
         \<and> gf_dir (fold load_file files s) = gf_dir s \<and> gf_files (fold load_file files s) = gf_files s
         \<and> gf_dirty (fold load_file files s) = gf_dirty s"
  using assms
proof (induction files arbitrary: s)
  case (Cons f files)
  obtain state where head_file: "f = (groupPath s (cg_QueueName state) (cg_ID state), wrapped state)"
    using Cons.prems by (cases f) auto
  define s' where "s' = set_group (cg_QueueName state) (cg_ID state) (fill_defaults True state) s"
  have "load_file f s = s'"
    using Cons.prems by (simp add: head_file s'_def load_file_wrapped)
  moreover have path: "groupPath s' = groupPath s"
    by (simp add: s'_def fun_eq_iff groupPath_def)
  ultimately show ?case
    using Cons.IH[of s'] Cons.prems map_of_eq_None_iff[of files "groupPath s q g"]
    by (auto simp: head_file s'_def groupPath_inject split: option.split)
qed simp


lemma own_files_state:
  assumes "own_files s" "map_of (gf_files s) path = Some content"
  obtains state where "content = wrapped state" "path = groupPath s (cg_QueueName state) (cg_ID state)"
  using assms unfolding own_files_def by (blast dest: map_of_SomeD)

definition Reopen :: "write_outcome list \<Rightarrow> group_files \<Rightarrow> group_files" where
  "Reopen io s = NewConsumerGroupStateStore (gf_dir s) (gf_files s) io"

lemma group_at_Reopen:
  assumes "own_files s"
  shows "group_at (Reopen io s) q g =
           (case map_of (gf_files s) (groupPath s q g) of
              None \<Rightarrow> None | Some content \<Rightarrow> map_option (fill_defaults True) (saved_state content))"
    and "gf_dir (Reopen io s) = gf_dir s" "gf_files (Reopen io s) = gf_files s" "gf_dirty (Reopen io s) = []"
proof -
  define s0 where "s0 = \<lparr>gf_dir = gf_dir s, gf_groups = [], gf_dirty = [], gf_files = gf_files s, gf_io = io\<rparr>"
  let ?files = "sort_key fst (gf_files s)"
  have keys: "distinct (map fst ?files)"
    using assms by (simp add: own_files_def distinct_map)
  have lookup: "map_of ?files = map_of (gf_files s)"
    using assms keys by (simp add: own_files_def map_of_inject_set)
  have path: "groupPath s0 = groupPath s"
    by (simp add: s0_def fun_eq_iff groupPath_def)
  have "group_at s0 q g = None"
    by (simp add: s0_def group_at_def groups_of_def)
  moreover have "Reopen io s = fold load_file ?files s0"
    by (simp add: Reopen_def NewConsumerGroupStateStore_def loadAll_def s0_def)
  moreover have "plain_dir (gf_dir s0)"
    using assms by (simp add: own_files_def s0_def)
  moreover have "\<forall>(path, content) \<in> set ?files.
      \<exists>state. content = wrapped state \<and> path = groupPath s0 (cg_QueueName state) (cg_ID state)"
    using assms by (simp add: own_files_def path)
  ultimately show "group_at (Reopen io s) q g =
           (case map_of (gf_files s) (groupPath s q g) of
              None \<Rightarrow> None | Some content \<Rightarrow> map_option (fill_defaults True) (saved_state content))"
    and "gf_dir (Reopen io s) = gf_dir s" "gf_files (Reopen io s) = gf_files s" "gf_dirty (Reopen io s) = []"
    using fold_load_file[of s0 ?files q g] keys by (simp_all add: lookup path cong: option.case_cong) (simp_all add: s0_def)
qed

lemma gf_inv_Reopen:
  assumes "own_files s"
  shows "gf_inv (Reopen io s)"
proof -
  note reopened = group_at_Reopen[OF assms, of io]
  have path: "groupPath (Reopen io s) = groupPath s"
    by (simp add: reopened fun_eq_iff groupPath_def)
  have files: "own_files (Reopen io s)"
    using assms by (simp add: own_files_def reopened path)
  show ?thesis
    unfolding gf_inv_def
  proof (intro conjI allI impI, rule files)
    fix q g state
    assume "group_at (Reopen io s) q g = Some state"
    then obtain content where content: "map_of (gf_files s) (groupPath s q g) = Some content"
        "map_option (fill_defaults True) (saved_state content) = Some state"
      by (auto simp: reopened split: option.splits)
    then obtain saved where saved: "content = wrapped saved" "groupPath s q g = groupPath s (cg_QueueName saved) (cg_ID saved)"
      using own_files_state[OF assms] by metis
    moreover have "q = cg_QueueName saved" "g = cg_ID saved"
      using saved assms by (auto simp: groupPath_inject own_files_def)
    ultimately show "cg_QueueName state = q" "cg_ID state = g"
      and "\<exists>saved. map_of (gf_files (Reopen io s)) (groupPath (Reopen io s) q g) = Some (wrapped saved) \<and>
              fill_defaults True saved = fill_defaults True state"
      using content by (auto simp: reopened path)
  qed
qed


lemma groupPath_frame [simp]:
  "groupPath (s\<lparr>gf_dirty := d\<rparr>) = groupPath s" "groupPath (s\<lparr>gf_files := fs\<rparr>) = groupPath s"
  "groupPath (s\<lparr>gf_io := io\<rparr>) = groupPath s" "groupPath (s\<lparr>gf_groups := gs\<rparr>) = groupPath s"
  "groupPath (set_group q g state s) = groupPath s"
  by (simp_all add: fun_eq_iff groupPath_def)

lemma own_files_frame [simp]:
  "own_files (s\<lparr>gf_dirty := d\<rparr>) = own_files s" "own_files (s\<lparr>gf_io := io\<rparr>) = own_files s"
  "own_files (s\<lparr>gf_groups := gs\<rparr>) = own_files s" "own_files (set_group q g state s) = own_files s"
  by (simp_all add: own_files_def)

lemma own_files_cong: "gf_dir s = gf_dir s' \<Longrightarrow> gf_files s = gf_files s' \<Longrightarrow> own_files s = own_files s'"
  by (simp add: own_files_def groupPath_cong[of s s'])

lemma own_files_update:
  assumes "own_files s"
  shows "own_files (s\<lparr>gf_files := AList.update (groupPath s (cg_QueueName state) (cg_ID state)) (wrapped state) (gf_files s)\<rparr>)"
  using assms set_update_subset[of "groupPath s (cg_QueueName state) (cg_ID state)" "wrapped state" "gf_files s"]
  by (fastforce simp: own_files_def distinct_update)

lemma own_files_delete: "own_files s \<Longrightarrow> own_files (s\<lparr>gf_files := AList.delete path (gf_files s)\<rparr>)"
  by (auto simp: own_files_def distinct_delete set_delete_eq)

lemma flush_cases:
  assumes "own_files s" "cg_QueueName state = q" "cg_ID state = g"
  obtains (written) script where "flush (q, g) state s =
      (None, s\<lparr>gf_dirty := removeAll (q, g) (gf_dirty s), gf_io := script,
               gf_files := AList.update (groupPath s q g) (wrapped state) (gf_files s)\<rparr>)"
  | (failed) script where "flush (q, g) state s =
      (Some ErrWriteGroup, s\<lparr>gf_io := script, gf_dirty := List.insert (q, g) (removeAll (q, g) (gf_dirty s))\<rparr>)"
proof -
  obtain io script where outcome: "next_io (gf_io s) = (io, script)"
    by (cases "next_io (gf_io s)")
  have "plain_dir (gf_dir s)"
    using assms by (simp add: own_files_def)
  then show thesis
    using that outcome
    by (cases "io = WriteOk") (simp_all add: flush_def writeGroup_def contained_def groupPath_below wrapped_def Let_def)
qed

lemma gf_inv_flush:
  assumes "gf_inv (s\<lparr>gf_dirty := List.insert (q, g) (gf_dirty s)\<rparr>)" "group_at s q g = Some state"
  shows "gf_inv (snd (flush (q, g) state s))"
proof -
  have own: "own_files s" and fields: "cg_QueueName state = q" "cg_ID state = g" and plain: "plain_dir (gf_dir s)"
    using assms by (auto simp: gf_inv_def own_files_def)
  from own fields show ?thesis
  proof (cases rule: flush_cases)
    case (written script)
    have "own_files (s\<lparr>gf_files := AList.update (groupPath s q g) (wrapped state) (gf_files s)\<rparr>)"
      using own_files_update[OF own, of state] fields by simp
    then have "own_files (snd (flush (q, g) state s))"
      by (rule own_files_cong[THEN iffD1, rotated 2]) (simp_all add: written)
    then show ?thesis
      using assms plain by (auto simp: gf_inv_def written groupPath_inject)
  next
    case (failed script)
    then show ?thesis
      using assms by (simp add: gf_inv_def)
  qed
qed

lemma gf_inv_dirty:
  assumes "gf_inv s" "cg_QueueName state = q" "cg_ID state = g"
  shows "gf_inv (set_group q g state s\<lparr>gf_dirty := List.insert (q, g) (gf_dirty s)\<rparr>)"
  using assms by (simp add: gf_inv_def)

lemma gf_inv_Save: "gf_inv s \<Longrightarrow> gf_inv (snd (Save state s))"
  unfolding Save_def Let_def
  by (rule gf_inv_flush) (simp_all add: gf_inv_dirty)

lemma gf_inv_Create: "gf_inv s \<Longrightarrow> gf_inv (snd (CreateIfNotExists state s))"
  unfolding CreateIfNotExists_def Let_def
  by (auto intro!: gf_inv_flush simp: gf_inv_dirty)


lemma Group_Get_at:
  "Group_Get s q g = (case group_at s q g of None \<Rightarrow> Inl ErrGroupNotFound | Some state \<Rightarrow> Inr state)"
  by (simp add: Group_Get_def group_at_def groups_of_def split: option.split)

lemma gf_inv_UpdateCursor:
  assumes "gf_inv s"
  shows "gf_inv (snd (Group_UpdateCursor now q g cursor committed s))"
proof (cases "group_at s q g")
  case (Some state)
  then have "cg_QueueName (SetCursor now cursor committed state) = q" "cg_ID (SetCursor now cursor committed state) = g"
    using assms by (simp_all add: gf_inv_def SetCursor_def)
  then show ?thesis
    using gf_inv_dirty[OF assms] Some by (simp add: Group_UpdateCursor_def Group_Get_at Let_def)
qed (simp add: Group_UpdateCursor_def Group_Get_at assms)

lemma gf_inv_flush_present:
  assumes "gf_inv s" "group_at s q g = Some state"
  shows "gf_inv (snd (flush (q, g) state s))"
  using assms by (intro gf_inv_flush) (simp_all add: gf_inv_def)

lemma gf_inv_Sync: "gf_inv s \<Longrightarrow> gf_inv (snd (Group_Sync s))"
proof -
  assume "gf_inv s"
  then have "gf_inv (snd (fold sync_step refs (failed, s)))" for refs failed
  proof (induction refs arbitrary: failed s)
    case (Cons ref refs)
    have "gf_inv (snd (sync_step ref (failed, s)))"
      using Cons.prems gf_inv_flush_present[of s "fst ref" "snd ref"]
      by (auto simp: sync_step_def split: option.split prod.split)
    then show ?case
      using Cons.IH by (cases "sync_step ref (failed, s)") simp
  qed simp
  then show ?thesis
    by (simp add: Group_Sync_def split: prod.split) (metis snd_conv)
qed

text \<open>Removal takes files away, and when it succeeds it takes all of them.\<close>

lemma remove_files_spec:
  assumes "own_files s"
  shows "own_files (snd (remove_files paths s))
     \<and> group_at (snd (remove_files paths s)) = group_at s
     \<and> gf_dirty (snd (remove_files paths s)) = gf_dirty s
     \<and> gf_dir (snd (remove_files paths s)) = gf_dir s
     \<and> (\<forall>path. path \<notin> set paths \<longrightarrow> map_of (gf_files (snd (remove_files paths s))) path = map_of (gf_files s) path)
     \<and> (\<forall>path. map_of (gf_files s) path = None \<longrightarrow> map_of (gf_files (snd (remove_files paths s))) path = None)
     \<and> (fst (remove_files paths s) = None \<longrightarrow>
          (\<forall>path \<in> set paths. contained s path \<longrightarrow> map_of (gf_files (snd (remove_files paths s))) path = None))"
  using assms
proof (induction paths arbitrary: s)
  case (Cons path paths)
  obtain io script where outcome: "next_io (gf_io s) = (io, script)"
    by (cases "next_io (gf_io s)")
  define s' where "s' = s\<lparr>gf_io := script, gf_files := AList.delete path (gf_files s)\<rparr>"
  have "own_files s'"
    using own_files_delete[OF Cons.prems, of path] own_files_cong[of s' "s\<lparr>gf_files := AList.delete path (gf_files s)\<rparr>"]
    by (simp add: s'_def)
  moreover have "group_at s' = group_at s" "gf_dirty s' = gf_dirty s" "gf_dir s' = gf_dir s"
      "map_of (gf_files s') = (map_of (gf_files s))(path := None)"
    by (simp_all add: s'_def delete_conv)
  ultimately show ?case
    using Cons.IH[of s] Cons.IH[of s'] Cons.prems outcome
    by (auto simp: Let_def contained_def simp flip: s'_def)
qed simp

text \<open>
  \<^verbatim>\<open>Delete\<close> also removes the file at the path the group had before names were encoded. That file is another
  group's for some names, so the invariant needs a group whose old path is no other group's file.
\<close>

definition legacy_free :: "group_files \<Rightarrow> string \<Rightarrow> string \<Rightarrow> bool" where
  "legacy_free s q g \<longleftrightarrow> (\<forall>q' g'. groupPath s q' g' = legacyGroupPath s q g \<longrightarrow> q' = q \<and> g' = g)"

lemma group_at_drop: "group_at (drop_group q g s) q' g' = (if q' = q \<and> g' = g then None else group_at s q' g')"
proof (cases "map_of (gf_groups s) q")
  case (Some groups)
  have "AList.delete g groups = [] \<Longrightarrow> h \<noteq> g \<Longrightarrow> None = map_of groups h" for h
    by (metis map_of_delete delete_conv fun_upd_def map_of.simps(1))
  then show ?thesis
    using Some by (auto simp: drop_group_def group_at_def groups_of_def Let_def delete_conv)
qed (auto simp: drop_group_def group_at_def groups_of_def)

lemma drop_group_frame [simp]:
  "gf_files (drop_group q g s) = gf_files s" "gf_dir (drop_group q g s) = gf_dir s"
  "gf_dirty (drop_group q g s) = removeAll (q, g) (gf_dirty s)"
  by (simp_all add: drop_group_def Let_def split: option.split)

declare remove_files.simps [simp del]

lemma gf_inv_Delete:
  assumes "gf_inv s" "legacy_free s q g"
  shows "gf_inv (snd (Group_Delete q g s))"
    and "fst (Group_Delete q g s) = None \<Longrightarrow> map_of (gf_files (snd (Group_Delete q g s))) (groupPath s q g) = None"
    and "groupPath (snd (Group_Delete q g s)) = groupPath s"
proof -
  define s' where "s' = snd (Group_Delete q g s)"
  have own: "own_files (drop_group q g s)" and plain: "plain_dir (gf_dir s)"
    using assms own_files_cong[of "drop_group q g s" s] by (simp_all add: gf_inv_def own_files_def)
  note removed = remove_files_spec[OF own, of "[groupPath s q g, legacyGroupPath s q g]",
      folded Group_Delete_def, folded s'_def]
  have other: "map_of (gf_files s') (groupPath s q' g') = map_of (gf_files s) (groupPath s q' g')"
    if "(q', g') \<noteq> (q, g)" for q' g'
  proof -
    have "groupPath s q' g' \<noteq> groupPath s q g" "groupPath s q' g' \<noteq> legacyGroupPath s q g"
      using that assms(2) plain by (auto simp: groupPath_inject legacy_free_def)
    then show ?thesis
      using removed by simp
  qed
  have path: "groupPath s' = groupPath s"
    using removed by (simp add: fun_eq_iff groupPath_def)
  then show "groupPath (snd (Group_Delete q g s)) = groupPath s"
    by (simp add: s'_def)
  have kept: "(q', g') \<noteq> (q, g)" "group_at s q' g' = Some state" if "group_at s' q' g' = Some state" for q' g' state
    using that removed by (auto simp: group_at_drop split: if_splits)
  have "gf_inv s'"
    unfolding gf_inv_def path
  proof (intro conjI allI impI)
    fix q' g' state
    assume "group_at s' q' g' = Some state"
    note held = kept[OF this]
    then show "cg_QueueName state = q'" "cg_ID state = g'"
      using assms(1) by (simp_all add: gf_inv_def)
    assume "(q', g') \<notin> set (gf_dirty s')"
    then have "(q', g') \<notin> set (gf_dirty s)"
      using held removed by auto
    then show "\<exists>saved. map_of (gf_files s') (groupPath s q' g') = Some (wrapped saved) \<and>
        fill_defaults True saved = fill_defaults True state"
      using held other assms(1) by (simp add: gf_inv_def)
  qed (use removed in simp)
  then show "gf_inv (snd (Group_Delete q g s))"
    by (simp add: s'_def)
  show "fst (Group_Delete q g s) = None \<Longrightarrow> map_of (gf_files (snd (Group_Delete q g s))) (groupPath s q g) = None"
    using removed plain by (simp add: contained_def groupPath_below flip: s'_def)
qed

inductive gf_reachable :: "string list \<Rightarrow> group_files \<Rightarrow> bool" for dir where
  created: "gf_reachable dir (NewConsumerGroupStateStore dir [] io)"
| saved: "gf_reachable dir s \<Longrightarrow> gf_reachable dir (snd (Save state s))"
| ensured: "gf_reachable dir s \<Longrightarrow> gf_reachable dir (snd (CreateIfNotExists state s))"
| moved: "gf_reachable dir s \<Longrightarrow> gf_reachable dir (snd (Group_UpdateCursor now q g cursor committed s))"
| deleted: "gf_reachable dir s \<Longrightarrow> legacy_free s q g \<Longrightarrow> gf_reachable dir (snd (Group_Delete q g s))"
| synced: "gf_reachable dir s \<Longrightarrow> gf_reachable dir (snd (Group_Sync s))"
| reopened: "gf_reachable dir s \<Longrightarrow> gf_reachable dir (Reopen io s)"

lemma gf_reachable_inv: "gf_reachable dir s \<Longrightarrow> plain_dir dir \<Longrightarrow> gf_inv s"
proof (induction rule: gf_reachable.induct)
  case (created io)
  define s0 where "s0 = \<lparr>gf_dir = dir, gf_groups = [], gf_dirty = [], gf_files = [], gf_io = io\<rparr>"
  have "own_files s0"
    using created by (simp add: s0_def own_files_def)
  then show ?case
    using gf_inv_Reopen[of s0 io] by (simp add: s0_def Reopen_def)
next
  case (reopened s io)
  then show ?case
    by (intro gf_inv_Reopen) (simp add: gf_inv_def)
qed (simp_all add: gf_inv_Save gf_inv_Create gf_inv_UpdateCursor gf_inv_Delete gf_inv_Sync)

lemma Reopen_clean:
  assumes "gf_inv s" "group_at s q g = Some state" "(q, g) \<notin> set (gf_dirty s)"
  shows "group_at (Reopen io s) q g = Some (fill_defaults True state)"
proof -
  obtain saved where "map_of (gf_files s) (groupPath s q g) = Some (wrapped saved)"
      "fill_defaults True saved = fill_defaults True state"
    using assms unfolding gf_inv_def by blast
  then show ?thesis
    using assms(1) group_at_Reopen(1)[of s io q g] by (simp add: gf_inv_def)
qed

lemma Save_done:
  assumes "gf_inv s" "Save state s = (None, s')"
  shows "group_at s' (cg_QueueName state) (cg_ID state) = Some state"
    and "(cg_QueueName state, cg_ID state) \<notin> set (gf_dirty s')"
proof -
  define s1 where "s1 = set_group (cg_QueueName state) (cg_ID state) state s
      \<lparr>gf_dirty := List.insert (cg_QueueName state, cg_ID state) (gf_dirty s)\<rparr>"
  have flushed: "flush (cg_QueueName state, cg_ID state) state s1 = (None, s')"
    using assms by (simp add: Save_def s1_def Let_def)
  have own: "own_files s1"
    using assms by (simp add: s1_def gf_inv_def)
  have "group_at s' = group_at s1 \<and> (cg_QueueName state, cg_ID state) \<notin> set (gf_dirty s')"
    by (rule flush_cases[OF own refl[of "cg_QueueName state"] refl]) (use flushed in auto)
  then show "group_at s' (cg_QueueName state) (cg_ID state) = Some state"
    and "(cg_QueueName state, cg_ID state) \<notin> set (gf_dirty s')"
    by (simp_all add: s1_def)
qed


section \<open>Properties\<close>

text \<open>
  C38. The file of a consumer group lies inside the store directory, whatever the names of the queue and
  the group are, and two different groups never share a file.
\<close>

theorem group_file_own:
  assumes "plain_dir (gf_dir s)"
  shows "contained s (groupPath s q g) \<and> (groupPath s q g = groupPath s q' g' \<longleftrightarrow> q = q' \<and> g = g')"
  using assms by (simp add: contained_def groupPath_below groupPath_inject)

theorem group_file_own_witness:
  "let s = NewConsumerGroupStateStore [''data'', ''groups''] [] []
   in contained s (groupPath s ''$dlq/tasks'' ''workers'') \<and>
      groupPath s ''$dlq/tasks'' ''workers'' \<noteq> groupPath s ''$dlq'' ''tasks/workers''"
proof -
  let ?s = "NewConsumerGroupStateStore [''data'', ''groups''] [] []"
  have "plain_dir (gf_dir ?s)"
    by (simp add: NewConsumerGroupStateStore_def loadAll_def plain_dir_def)
  from group_file_own[OF this, of "''$dlq/tasks''" "''workers''" "''$dlq''" "''tasks/workers''"] show ?thesis
    by simp
qed



definition example_group :: consumer_group where
  "example_group = NewConsumerGroupState 0 ''$dlq/tasks'' ''workers'' ''#''"


text \<open>
  Two effects of the files kept from before names were encoded. A group whose name has a percent sign is
  loaded from its old file even after it was saved under its new name, because the old file sorts later.
  And deleting a group whose name reads like an encoded one removes the file of the group it is the
  encoding of.
\<close>

lemma legacy_file_wins:
  "let dir = [''groups''];
       old = NewConsumerGroupState 0 ''50%off'' ''g'' ''#''; new = SetCursorPosition 1 9 old;
       s = NewConsumerGroupStateStore dir [([''groups'', ''50%off'', ''g.json''], wrapped old)] [];
       s = snd (Save new s)
   in qc_Cursor (CursorView (the (group_at s ''50%off'' ''g''))) = 9
    \<and> qc_Cursor (CursorView (the (group_at (Reopen [] s) ''50%off'' ''g''))) = 0"
  by code_simp

lemma Delete_hits_other:
  "let s = NewConsumerGroupStateStore [''groups''] [] [];
       s = snd (Save (NewConsumerGroupState 0 ''a/b'' ''g'' ''#'') s);
       s = snd (Group_Delete ''a%2Fb'' ''g'' s)
   in group_at s ''a/b'' ''g'' \<noteq> None \<and> gf_dirty s = [] \<and> group_at (Reopen [] s) ''a/b'' ''g'' = None"
  by code_simp

end
