(* ===== verification/Log_Groups.thy ===== *)
theory Log_Groups
  imports Group_Files
begin

text \<open>
  \<^verbatim>\<open>logstorage/consumer_manager.go\<close> and the consumer half of \<^verbatim>\<open>logstorage/store.go\<close>: the consumer states of
  all groups of all queues, opened on demand, and the operations that look a state up and pass the call
  on. The directory of a group that is not open is kept in \<open>cmg_dirs\<close>; a group id is a single path
  element. I/O outcomes come from the script \<open>lg_io\<close>, one element per call that reaches the disk.
\<close>

section \<open>The consumer manager of a queue\<close>

record consumer_manager =
  cmg_config :: consumer_state_config
  cmg_groups :: "(string, consumer_state) gomap"
  cmg_dirs :: "(string, cs_disk) gomap"
  cmg_closed :: bool

definition open_state ::
  "instant \<Rightarrow> write_outcome \<Rightarrow> string \<Rightarrow> consumer_manager \<Rightarrow> logstorage_error + consumer_state" where
  "open_state now io groupID cm =
     map_sum ErrConsumerState id
       (NewConsumerState now (if io = WriteOk then None else Some ErrMkdir) groupID (cmg_config cm)
          (case map_of (cmg_dirs cm) groupID of None \<Rightarrow> empty_disk | Some disk \<Rightarrow> disk))"

definition CM_put :: "string \<Rightarrow> consumer_state \<Rightarrow> consumer_manager \<Rightarrow> consumer_manager" where
  "CM_put groupID state cm =
     cm\<lparr>cmg_groups := AList.update groupID state (cmg_groups cm), cmg_dirs := AList.delete groupID (cmg_dirs cm)\<rparr>"

fun loadGroups ::
  "instant \<Rightarrow> write_outcome list \<Rightarrow> string list \<Rightarrow> consumer_manager \<Rightarrow> logstorage_error + consumer_manager" where
  "loadGroups now script [] cm = Inr cm"
| "loadGroups now script (groupID # rest) cm =
     (let (io, script) = next_io script
      in (case open_state now io groupID cm of
            Inl err \<Rightarrow> Inl err
          | Inr state \<Rightarrow> loadGroups now script rest (CM_put groupID state cm)))"

definition NewConsumerManager ::
  "instant \<Rightarrow> write_outcome list \<Rightarrow> consumer_state_config \<Rightarrow> (string, cs_disk) gomap \<Rightarrow>
   logstorage_error + consumer_manager" where
  "NewConsumerManager now script config dirs =
     loadGroups now script (map fst dirs)
       \<lparr>cmg_config = config, cmg_groups = [], cmg_dirs = dirs, cmg_closed = False\<rparr>"

definition CM_GetOrCreate ::
  "instant \<Rightarrow> write_outcome \<Rightarrow> string \<Rightarrow> consumer_manager \<Rightarrow> (logstorage_error + consumer_state) \<times> consumer_manager" where
  "CM_GetOrCreate now io groupID cm =
     (if cmg_closed cm then (Inl ErrSegmentClosed, cm)
      else (case map_of (cmg_groups cm) groupID of
              Some state \<Rightarrow> (Inr state, cm)
            | None \<Rightarrow>
                (case open_state now io groupID cm of
                   Inl err \<Rightarrow> (Inl err, cm)
                 | Inr state \<Rightarrow> (Inr state, CM_put groupID state cm))))"

definition CM_Get :: "consumer_manager \<Rightarrow> string \<Rightarrow> consumer_state option" where
  "CM_Get cm groupID = map_of (cmg_groups cm) groupID"

text \<open>The outcome of \<^verbatim>\<open>RemoveAll\<close> is the last argument; \<^verbatim>\<open>Close\<close> may compact first and its error is ignored.\<close>

definition CM_Delete ::
  "instant \<Rightarrow> nat \<Rightarrow> write_outcome \<Rightarrow> string \<Rightarrow> consumer_manager \<Rightarrow> logstorage_error option \<times> consumer_manager" where
  "CM_Delete now compaction io groupID cm =
     (case map_of (cmg_groups cm) groupID of
        None \<Rightarrow> (None, cm)
      | Some state \<Rightarrow>
          (let state = snd (CS_Close now compaction True state);
               cm = cm\<lparr>cmg_groups := AList.delete groupID (cmg_groups cm)\<rparr>
           in if io = WriteOk then (None, cm)
              else (Some ErrRemoveGroup, cm\<lparr>cmg_dirs := AList.update groupID (cs_disk state) (cmg_dirs cm)\<rparr>)))"

definition CM_List :: "consumer_manager \<Rightarrow> string list" where
  "CM_List cm = gomap_keys (cmg_groups cm)"

definition CM_Exists :: "consumer_manager \<Rightarrow> string \<Rightarrow> bool" where
  "CM_Exists cm groupID \<longleftrightarrow> map_of (cmg_groups cm) groupID \<noteq> None"

definition CM_Sync :: "(string \<Rightarrow> bool) \<Rightarrow> consumer_manager \<Rightarrow> logstorage_error option" where
  "CM_Sync ok cm =
     fold (\<lambda>(groupID, state) lastErr.
        (case CS_Sync (ok groupID) state of None \<Rightarrow> lastErr | Some err \<Rightarrow> Some (ErrConsumerState err)))
       (cmg_groups cm) None"

text \<open>The loops of \<^verbatim>\<open>Compact\<close> and \<^verbatim>\<open>Close\<close> over the groups, which keep the last error.\<close>

fun each_group ::
  "(string \<Rightarrow> consumer_state \<Rightarrow> cs_error option \<times> consumer_state) \<Rightarrow> (string, consumer_state) gomap \<Rightarrow>
   logstorage_error option \<Rightarrow> logstorage_error option \<times> (string, consumer_state) gomap" where
  "each_group f [] lastErr = (lastErr, [])"
| "each_group f ((groupID, state) # rest) lastErr =
     (let (err, state) = f groupID state;
          lastErr = (case err of None \<Rightarrow> lastErr | Some err \<Rightarrow> Some (ErrConsumerState err));
          (lastErr, rest) = each_group f rest lastErr
      in (lastErr, (groupID, state) # rest))"

definition CM_Compact ::
  "instant \<Rightarrow> (string \<Rightarrow> nat) \<Rightarrow> consumer_manager \<Rightarrow> logstorage_error option \<times> consumer_manager" where
  "CM_Compact now io cm =
     (let (err, groups) = each_group (\<lambda>groupID. Compact now (io groupID)) (cmg_groups cm) None
      in (err, cm\<lparr>cmg_groups := groups\<rparr>))"

definition CM_Close ::
  "instant \<Rightarrow> (string \<Rightarrow> nat) \<Rightarrow> (string \<Rightarrow> bool) \<Rightarrow> consumer_manager \<Rightarrow> logstorage_error option \<times> consumer_manager" where
  "CM_Close now io ok cm =
     (if cmg_closed cm then (None, cm)
      else (let (err, groups) = each_group (\<lambda>groupID. CS_Close now (io groupID) (ok groupID)) (cmg_groups cm) None
            in (err, cm\<lparr>cmg_groups := groups, cmg_closed := True\<rparr>)))"

record consumer_manager_stats =
  cms_GroupCount :: nat
  cms_TotalPending :: nat
  cms_GroupStats :: "(string, consumer_state_stats) gomap"

definition CM_Stats :: "consumer_manager \<Rightarrow> consumer_manager_stats" where
  "CM_Stats cm =
     (let stats = map (\<lambda>(groupID, state). (groupID, CS_Stats state)) (cmg_groups cm)
      in \<lparr>cms_GroupCount = length (cmg_groups cm),
          cms_TotalPending = fold (\<lambda>(_, st) n. n + cst_TotalPending st) stats 0,
          cms_GroupStats = stats\<rparr>)"


section \<open>Redelivery batches and shard assignment\<close>

record redelivery_batch =
  rb_GroupID :: string
  rb_ShardID :: int
  rb_Entries :: "cs_entry list"
  rb_Timestamp :: instant

text \<open>\<open>None\<close> is the panic of a negative capacity in \<^verbatim>\<open>GetRedeliveryCandidates\<close>.\<close>

definition shard_batch ::
  "instant \<Rightarrow> string \<Rightarrow> consumer_state \<Rightarrow> duration \<Rightarrow> int \<Rightarrow> int \<Rightarrow> redelivery_batch list option" where
  "shard_batch now groupID state timeout maxCount shardID =
     map_option (\<lambda>(_, entries).
       if entries = [] then []
       else [\<lparr>rb_GroupID = groupID, rb_ShardID = shardID, rb_Entries = entries, rb_Timestamp = now\<rparr>])
       (GetRedeliveryCandidates now state shardID timeout maxCount)"

fun concat_opt :: "'a list option list \<Rightarrow> 'a list option" where
  "concat_opt [] = Some []"
| "concat_opt (None # _) = None"
| "concat_opt (Some xs # rest) = map_option (\<lambda>ys. xs @ ys) (concat_opt rest)"

definition CM_GetRedeliveryBatches ::
  "instant \<Rightarrow> duration \<Rightarrow> int \<Rightarrow> consumer_manager \<Rightarrow> redelivery_batch list option" where
  "CM_GetRedeliveryBatches now timeout maxPerShard cm =
     concat_opt (concat (map (\<lambda>(groupID, state).
       map (\<lambda>shardID. shard_batch now groupID state timeout maxPerShard (int shardID)) [0..<NumShards state])
       (cmg_groups cm)))"

definition GetRedeliveryBatchForShard ::
  "instant \<Rightarrow> string \<Rightarrow> int \<Rightarrow> duration \<Rightarrow> int \<Rightarrow> consumer_manager \<Rightarrow> redelivery_batch list option" where
  "GetRedeliveryBatchForShard now groupID shardID timeout maxCount cm =
     (case map_of (cmg_groups cm) groupID of
        None \<Rightarrow> Some []
      | Some state \<Rightarrow> shard_batch now groupID state timeout maxCount shardID)"

definition CM_ClaimBatch ::
  "instant \<Rightarrow> write_outcome \<Rightarrow> string \<Rightarrow> u64 list \<Rightarrow> string \<Rightarrow> consumer_manager \<Rightarrow>
   (logstorage_error + u64 list) \<times> consumer_manager" where
  "CM_ClaimBatch now io groupID offs newConsumerID cm =
     (case CM_Get cm groupID of
        None \<Rightarrow> (Inl ErrGroupNotFound, cm)
      | Some state \<Rightarrow>
          (let (err, state) = CS_ClaimBatch now io offs newConsumerID state
           in (case err of None \<Rightarrow> Inr offs | Some err \<Rightarrow> Inl (ErrConsumerState err), CM_put groupID state cm)))"

definition CM_AckBatch ::
  "instant \<Rightarrow> write_outcome \<Rightarrow> string \<Rightarrow> u64 list \<Rightarrow> consumer_manager \<Rightarrow> logstorage_error option \<times> consumer_manager" where
  "CM_AckBatch now io groupID offs cm =
     (case CM_Get cm groupID of
        None \<Rightarrow> (Some ErrGroupNotFound, cm)
      | Some state \<Rightarrow>
          (let (err, state) = CS_AckBatch now io offs state
           in (map_option ErrConsumerState err, CM_put groupID state cm)))"

definition GetDeadLetterBatches ::
  "instant \<Rightarrow> int \<Rightarrow> int \<Rightarrow> consumer_manager \<Rightarrow> redelivery_batch list option" where
  "GetDeadLetterBatches now maxDeliveries maxPerGroup cm =
     concat_opt (map (\<lambda>(groupID, state).
       map_option (\<lambda>entries.
         if entries = [] then []
         else [\<lparr>rb_GroupID = groupID, rb_ShardID = -1, rb_Entries = entries, rb_Timestamp = now\<rparr>])
         (GetDeadLetterCandidates state maxDeliveries maxPerGroup)) (cmg_groups cm))"

record shard_assignment =
  sa_NodeID :: string
  sa_GroupID :: string
  sa_ShardIDs :: "nat list"
  sa_AssignedAt :: instant

definition assign_shard :: "nat \<Rightarrow> shard_assignment list \<Rightarrow> shard_assignment list" where
  "assign_shard shardID assignments =
     (let nodeIdx = shardID mod length assignments
      in assignments[nodeIdx := (assignments ! nodeIdx)
           \<lparr>sa_ShardIDs := sa_ShardIDs (assignments ! nodeIdx) @ [shardID]\<rparr>])"

definition GetShardAssignments :: "instant \<Rightarrow> string \<Rightarrow> string list \<Rightarrow> consumer_manager \<Rightarrow> shard_assignment list" where
  "GetShardAssignments now groupID nodeIDs cm =
     (case CM_Get cm groupID of
        None \<Rightarrow> []
      | Some state \<Rightarrow>
          if nodeIDs = [] then []
          else fold assign_shard [0..<NumShards state]
                 (map (\<lambda>nodeID. \<lparr>sa_NodeID = nodeID, sa_GroupID = groupID, sa_ShardIDs = [], sa_AssignedAt = now\<rparr>)
                    nodeIDs))"


section \<open>The consumer operations of the store\<close>

record log_groups =
  lg_config :: consumer_state_config
  lg_consumers :: "(string, consumer_manager) gomap"
  lg_io :: "write_outcome list"

definition getConsumerManager :: "log_groups \<Rightarrow> string \<Rightarrow> logstorage_error + consumer_manager" where
  "getConsumerManager s queueName =
     (case map_of (lg_consumers s) queueName of None \<Rightarrow> Inl ErrLogQueueNotFound | Some cm \<Rightarrow> Inr cm)"

definition put_manager :: "string \<Rightarrow> consumer_manager \<Rightarrow> log_groups \<Rightarrow> log_groups" where
  "put_manager queueName cm s = s\<lparr>lg_consumers := AList.update queueName cm (lg_consumers s)\<rparr>"

text \<open>\<^verbatim>\<open>CreateQueue\<close> and \<^verbatim>\<open>getOrCreateQueue\<close> give a new queue its consumer manager.\<close>

definition create_consumers :: "instant \<Rightarrow> string \<Rightarrow> log_groups \<Rightarrow> logstorage_error option \<times> log_groups" where
  "create_consumers now queueName s =
     (case NewConsumerManager now [] (lg_config s) [] of
        Inl err \<Rightarrow> (Some err, s)
      | Inr cm \<Rightarrow> (None, put_manager queueName cm s))"

text \<open>
  The two shapes of a call: on the state of a group that is created on demand, and on the state of a group
  that must exist. The operation takes the outcomes of the writes it makes.
\<close>

definition script_io :: "write_outcome list \<Rightarrow> nat \<Rightarrow> write_outcome" where
  "script_io script i = (if i < length script then script ! i else WriteOk)"

definition on_created ::
  "instant \<Rightarrow> string \<Rightarrow> string \<Rightarrow> nat \<Rightarrow>
   ((nat \<Rightarrow> write_outcome) \<Rightarrow> consumer_state \<Rightarrow> cs_error option \<times> consumer_state) \<Rightarrow>
   log_groups \<Rightarrow> logstorage_error option \<times> log_groups" where
  "on_created now queueName groupID writes f s =
     (case getConsumerManager s queueName of
        Inl err \<Rightarrow> (Some err, s)
      | Inr cm \<Rightarrow>
          (let (io, script) =
                 (if CM_Exists cm groupID \<or> cmg_closed cm then (WriteOk, lg_io s) else next_io (lg_io s));
               s = s\<lparr>lg_io := script\<rparr>;
               (r, cm) = CM_GetOrCreate now io groupID cm
           in (case r of
                 Inl err \<Rightarrow> (Some err, s)
               | Inr state \<Rightarrow>
                   (let (err, state) = f (script_io script) state
                    in (map_option ErrConsumerState err,
                        put_manager queueName (CM_put groupID state cm) (s\<lparr>lg_io := drop writes script\<rparr>))))))"

definition on_existing ::
  "string \<Rightarrow> string \<Rightarrow> (write_outcome \<Rightarrow> consumer_state \<Rightarrow> cs_error option \<times> consumer_state) \<Rightarrow>
   log_groups \<Rightarrow> logstorage_error option \<times> log_groups" where
  "on_existing queueName groupID f s =
     (case getConsumerManager s queueName of
        Inl err \<Rightarrow> (Some err, s)
      | Inr cm \<Rightarrow>
          (case CM_Get cm groupID of
             None \<Rightarrow> (Some ErrGroupNotFound, s)
           | Some state \<Rightarrow>
               (let (io, script) = next_io (lg_io s);
                    (err, state) = f io state
                in (map_option ErrConsumerState err,
                    put_manager queueName (CM_put groupID state cm) (s\<lparr>lg_io := script\<rparr>)))))"

definition LS_Deliver :: "instant \<Rightarrow> string \<Rightarrow> string \<Rightarrow> u64 \<Rightarrow> string \<Rightarrow> log_groups \<Rightarrow> logstorage_error option \<times> log_groups" where
  "LS_Deliver now queueName groupID off consumerID =
     on_created now queueName groupID 1 (\<lambda>io. CS_Deliver now (io 0) off consumerID)"

definition LS_DeliverBatch ::
  "instant \<Rightarrow> string \<Rightarrow> string \<Rightarrow> u64 list \<Rightarrow> string \<Rightarrow> log_groups \<Rightarrow> logstorage_error option \<times> log_groups" where
  "LS_DeliverBatch now queueName groupID offs consumerID =
     on_created now queueName groupID (length offs) (\<lambda>io. CS_DeliverBatch now io offs consumerID)"

definition LS_Ack :: "instant \<Rightarrow> string \<Rightarrow> string \<Rightarrow> u64 \<Rightarrow> log_groups \<Rightarrow> logstorage_error option \<times> log_groups" where
  "LS_Ack now queueName groupID off = on_existing queueName groupID (\<lambda>io. CS_Ack now io off)"

definition LS_AckBatch :: "instant \<Rightarrow> string \<Rightarrow> string \<Rightarrow> u64 list \<Rightarrow> log_groups \<Rightarrow> logstorage_error option \<times> log_groups" where
  "LS_AckBatch now queueName groupID offs = on_existing queueName groupID (\<lambda>io. CS_AckBatch now io offs)"

definition LS_NackAt :: "string \<Rightarrow> string \<Rightarrow> u64 \<Rightarrow> instant \<Rightarrow> log_groups \<Rightarrow> logstorage_error option \<times> log_groups" where
  "LS_NackAt queueName groupID off attemptedAt =
     on_existing queueName groupID (\<lambda>io. CS_NackAt io off attemptedAt)"

definition LS_Nack :: "instant \<Rightarrow> string \<Rightarrow> string \<Rightarrow> u64 \<Rightarrow> log_groups \<Rightarrow> logstorage_error option \<times> log_groups" where
  "LS_Nack now queueName groupID off = LS_NackAt queueName groupID off now"

definition LS_ReleaseAt :: "string \<Rightarrow> string \<Rightarrow> u64 \<Rightarrow> instant \<Rightarrow> log_groups \<Rightarrow> logstorage_error option \<times> log_groups" where
  "LS_ReleaseAt queueName groupID off attemptedAt =
     on_existing queueName groupID (\<lambda>io. CS_ReleaseAt io off attemptedAt)"

definition LS_Claim :: "instant \<Rightarrow> string \<Rightarrow> string \<Rightarrow> u64 \<Rightarrow> string \<Rightarrow> log_groups \<Rightarrow> logstorage_error option \<times> log_groups" where
  "LS_Claim now queueName groupID off newConsumerID =
     on_existing queueName groupID (\<lambda>io. CS_Claim now io off newConsumerID)"

definition LS_ClaimBatch ::
  "instant \<Rightarrow> string \<Rightarrow> string \<Rightarrow> u64 list \<Rightarrow> string \<Rightarrow> log_groups \<Rightarrow> logstorage_error option \<times> log_groups" where
  "LS_ClaimBatch now queueName groupID offs newConsumerID =
     on_existing queueName groupID (\<lambda>io. CS_ClaimBatch now io offs newConsumerID)"

definition LS_SetCursor :: "instant \<Rightarrow> string \<Rightarrow> string \<Rightarrow> u64 \<Rightarrow> log_groups \<Rightarrow> logstorage_error option \<times> log_groups" where
  "LS_SetCursor now queueName groupID cursor = on_created now queueName groupID 1 (\<lambda>io. CS_SetCursor now (io 0) cursor)"

definition LS_CommitOffset :: "instant \<Rightarrow> string \<Rightarrow> string \<Rightarrow> u64 \<Rightarrow> log_groups \<Rightarrow> logstorage_error option \<times> log_groups" where
  "LS_CommitOffset = LS_Ack"

record pel_entry =
  pl_Offset :: u64
  pl_ConsumerID :: string
  pl_ClaimedAt :: int
  pl_DeliveryCount :: u16

definition LS_AddPending :: "instant \<Rightarrow> string \<Rightarrow> string \<Rightarrow> pel_entry \<Rightarrow> log_groups \<Rightarrow> logstorage_error option \<times> log_groups" where
  "LS_AddPending now queueName groupID entry = LS_Deliver now queueName groupID (pl_Offset entry) (pl_ConsumerID entry)"

definition of_UnixMilli :: "int \<Rightarrow> instant" where
  "of_UnixMilli ms = unix_epoch + ms * 1000000"

definition LS_RestorePending :: "instant \<Rightarrow> string \<Rightarrow> string \<Rightarrow> pel_entry \<Rightarrow> log_groups \<Rightarrow> logstorage_error option \<times> log_groups" where
  "LS_RestorePending now queueName groupID entry =
     on_created now queueName groupID 1
       (\<lambda>io. CS_RestorePending now (io 0) (pl_Offset entry) (pl_ConsumerID entry) (of_UnixMilli (pl_ClaimedAt entry))
               (pl_DeliveryCount entry))"

definition LS_RestoreAckFloor :: "instant \<Rightarrow> string \<Rightarrow> string \<Rightarrow> u64 \<Rightarrow> log_groups \<Rightarrow> logstorage_error option \<times> log_groups" where
  "LS_RestoreAckFloor now queueName groupID flr =
     on_created now queueName groupID 1 (\<lambda>io. CS_RestoreAckFloor now (io 0) flr)"

definition LS_AckPending :: "instant \<Rightarrow> string \<Rightarrow> string \<Rightarrow> u64 \<Rightarrow> log_groups \<Rightarrow> logstorage_error option \<times> log_groups" where
  "LS_AckPending = LS_Ack"

definition LS_ClaimPending :: "instant \<Rightarrow> string \<Rightarrow> string \<Rightarrow> u64 \<Rightarrow> string \<Rightarrow> log_groups \<Rightarrow> logstorage_error option \<times> log_groups" where
  "LS_ClaimPending = LS_Claim"

definition LS_CreateConsumerGroup :: "instant \<Rightarrow> string \<Rightarrow> string \<Rightarrow> log_groups \<Rightarrow> logstorage_error option \<times> log_groups" where
  "LS_CreateConsumerGroup now queueName groupID s =
     (case getConsumerManager s queueName of
        Inl err \<Rightarrow> (Some err, s)
      | Inr cm \<Rightarrow>
          (let (io, script) =
                 (if CM_Exists cm groupID \<or> cmg_closed cm then (WriteOk, lg_io s) else next_io (lg_io s));
               (r, cm) = CM_GetOrCreate now io groupID cm;
               s = s\<lparr>lg_io := script\<rparr>
           in (case r of Inl err \<Rightarrow> (Some err, s) | Inr _ \<Rightarrow> (None, put_manager queueName cm s))))"

definition LS_DeleteConsumerGroup ::
  "instant \<Rightarrow> nat \<Rightarrow> string \<Rightarrow> string \<Rightarrow> log_groups \<Rightarrow> logstorage_error option \<times> log_groups" where
  "LS_DeleteConsumerGroup now compaction queueName groupID s =
     (case getConsumerManager s queueName of
        Inl err \<Rightarrow> (Some err, s)
      | Inr cm \<Rightarrow>
          (let (io, script) = (if CM_Exists cm groupID then next_io (lg_io s) else (WriteOk, lg_io s));
               (err, cm) = CM_Delete now compaction io groupID cm
           in (err, put_manager queueName cm (s\<lparr>lg_io := script\<rparr>))))"

definition ConsumerGroupExists :: "log_groups \<Rightarrow> string \<Rightarrow> string \<Rightarrow> bool" where
  "ConsumerGroupExists s queueName groupID =
     (case getConsumerManager s queueName of Inl _ \<Rightarrow> False | Inr cm \<Rightarrow> CM_Exists cm groupID)"

definition LS_ListConsumerGroups :: "log_groups \<Rightarrow> string \<Rightarrow> string list" where
  "LS_ListConsumerGroups s queueName =
     (case getConsumerManager s queueName of Inl _ \<Rightarrow> [] | Inr cm \<Rightarrow> CM_List cm)"


section \<open>Queries of the store\<close>

definition zero_group_state :: group_state where
  "zero_group_state = \<lparr>gs_AckFloor = 0, gs_Cursor = 0, gs_Delivered = 0, gs_CreatedAt = 0, gs_UpdatedAt = 0\<rparr>"

text \<open>A query on a group that has no state answers \<open>d\<close>.\<close>

definition query :: "'a \<Rightarrow> (consumer_state \<Rightarrow> 'a) \<Rightarrow> log_groups \<Rightarrow> string \<Rightarrow> string \<Rightarrow> logstorage_error + 'a" where
  "query d f s queueName groupID =
     map_sum id (\<lambda>cm. case CM_Get cm groupID of None \<Rightarrow> d | Some state \<Rightarrow> f state) (getConsumerManager s queueName)"

definition LS_GetGroupState :: "log_groups \<Rightarrow> string \<Rightarrow> string \<Rightarrow> logstorage_error + group_state" where
  "LS_GetGroupState = query zero_group_state GetGroupState"

definition LS_GetAckFloor :: "log_groups \<Rightarrow> string \<Rightarrow> string \<Rightarrow> logstorage_error + u64" where
  "LS_GetAckFloor s queueName groupID = map_sum id gs_AckFloor (LS_GetGroupState s queueName groupID)"

definition LS_GetCursor :: "log_groups \<Rightarrow> string \<Rightarrow> string \<Rightarrow> logstorage_error + u64" where
  "LS_GetCursor s queueName groupID = map_sum id gs_Cursor (LS_GetGroupState s queueName groupID)"

definition LS_GetCommittedOffset :: "log_groups \<Rightarrow> string \<Rightarrow> string \<Rightarrow> logstorage_error + u64" where
  "LS_GetCommittedOffset = LS_GetAckFloor"

definition GetConsumerState :: "log_groups \<Rightarrow> string \<Rightarrow> string \<Rightarrow> logstorage_error + consumer_state" where
  "GetConsumerState s queueName groupID =
     (case getConsumerManager s queueName of
        Inl err \<Rightarrow> Inl err
      | Inr cm \<Rightarrow> (case CM_Get cm groupID of None \<Rightarrow> Inl ErrGroupNotFound | Some state \<Rightarrow> Inr state))"

definition LS_GetPending :: "log_groups \<Rightarrow> string \<Rightarrow> string \<Rightarrow> u64 \<Rightarrow> logstorage_error + cs_entry" where
  "LS_GetPending s queueName groupID off =
     (case GetConsumerState s queueName groupID of
        Inl err \<Rightarrow> Inl err
      | Inr state \<Rightarrow> (case GetPending state off of None \<Rightarrow> Inl ErrPELEntryNotFound | Some e \<Rightarrow> Inr e))"

definition LS_GetPendingByConsumer :: "log_groups \<Rightarrow> string \<Rightarrow> string \<Rightarrow> string \<Rightarrow> logstorage_error + cs_entry list" where
  "LS_GetPendingByConsumer s queueName groupID consumerID =
     query [] (\<lambda>state. GetPendingByConsumer state consumerID) s queueName groupID"

definition LS_GetPendingByShard :: "log_groups \<Rightarrow> string \<Rightarrow> string \<Rightarrow> int \<Rightarrow> logstorage_error + cs_entry list" where
  "LS_GetPendingByShard s queueName groupID shardID =
     query [] (\<lambda>state. GetPendingByShard state shardID) s queueName groupID"

definition LS_PendingCount :: "log_groups \<Rightarrow> string \<Rightarrow> string \<Rightarrow> logstorage_error + nat" where
  "LS_PendingCount = query 0 CS_PendingCount"

definition LS_GetRedeliveryCandidates ::
  "instant \<Rightarrow> log_groups \<Rightarrow> string \<Rightarrow> string \<Rightarrow> int \<Rightarrow> duration \<Rightarrow> int \<Rightarrow> logstorage_error + cs_entry list option" where
  "LS_GetRedeliveryCandidates now s queueName groupID shardID timeout maxCount =
     query (Some []) (\<lambda>state. map_option snd (GetRedeliveryCandidates now state shardID timeout maxCount)) s queueName groupID"

definition LS_GetAllRedeliveryCandidates ::
  "instant \<Rightarrow> log_groups \<Rightarrow> string \<Rightarrow> string \<Rightarrow> duration \<Rightarrow> int \<Rightarrow> logstorage_error + cs_entry list option" where
  "LS_GetAllRedeliveryCandidates now s queueName groupID timeout maxCount =
     query (Some []) (\<lambda>state. GetAllRedeliveryCandidates now state timeout maxCount) s queueName groupID"

definition LS_GetRedeliveryBatches ::
  "instant \<Rightarrow> log_groups \<Rightarrow> string \<Rightarrow> duration \<Rightarrow> int \<Rightarrow> logstorage_error + redelivery_batch list option" where
  "LS_GetRedeliveryBatches now s queueName timeout maxPerShard =
     map_sum id (CM_GetRedeliveryBatches now timeout maxPerShard) (getConsumerManager s queueName)"

definition LS_GetDeadLetterCandidates ::
  "log_groups \<Rightarrow> string \<Rightarrow> string \<Rightarrow> int \<Rightarrow> int \<Rightarrow> logstorage_error + cs_entry list option" where
  "LS_GetDeadLetterCandidates s queueName groupID maxDeliveries maxCount =
     query (Some []) (\<lambda>state. GetDeadLetterCandidates state maxDeliveries maxCount) s queueName groupID"

definition LS_NumPELShards :: "log_groups \<Rightarrow> string \<Rightarrow> string \<Rightarrow> logstorage_error + nat" where
  "LS_NumPELShards s queueName groupID = map_sum id NumShards (GetConsumerState s queueName groupID)"

definition GetStealableEntries ::
  "instant \<Rightarrow> log_groups \<Rightarrow> string \<Rightarrow> string \<Rightarrow> duration \<Rightarrow> string \<Rightarrow> logstorage_error + cs_entry list option" where
  "GetStealableEntries now s queueName groupID timeout excludeConsumer =
     map_sum id (map_option (filter (\<lambda>e. ce_ConsumerID e \<noteq> excludeConsumer)))
       (LS_GetAllRedeliveryCandidates now s queueName groupID timeout 1000)"

definition to_pel_entry :: "cs_entry \<Rightarrow> pel_entry" where
  "to_pel_entry e =
     \<lparr>pl_Offset = ce_Offset e, pl_ConsumerID = ce_ConsumerID e, pl_ClaimedAt = ce_LastAttempt e,
      pl_DeliveryCount = ce_DeliveryCount e\<rparr>"

text \<open>\<^verbatim>\<open>result[id] = append(result[id], entry)\<close>.\<close>

definition file_under :: "('e \<Rightarrow> 'k) \<Rightarrow> 'e \<Rightarrow> ('k, 'e list) gomap \<Rightarrow> ('k, 'e list) gomap" where
  "file_under key e m = AList.update (key e) ((case map_of m (key e) of None \<Rightarrow> [] | Some es \<Rightarrow> es) @ [e]) m"

definition GetAllPending :: "log_groups \<Rightarrow> string \<Rightarrow> string \<Rightarrow> logstorage_error + (string, pel_entry list) gomap" where
  "GetAllPending s queueName groupID =
     map_sum id (\<lambda>state.
       fold (\<lambda>shardID result. fold (\<lambda>e. file_under pl_ConsumerID (to_pel_entry e)) (GetPendingByShard state (int shardID)) result)
         [0..<NumShards state] []) (GetConsumerState s queueName groupID)"

record cursor_state =
  cu_Cursor :: u64
  cu_Committed :: u64
  cu_UpdatedAt :: int

definition GetCursorState :: "log_groups \<Rightarrow> string \<Rightarrow> string \<Rightarrow> logstorage_error + cursor_state" where
  "GetCursorState s queueName groupID =
     map_sum id (\<lambda>gs. \<lparr>cu_Cursor = gs_Cursor gs, cu_Committed = gs_AckFloor gs, cu_UpdatedAt = gs_UpdatedAt gs\<rparr>)
       (LS_GetGroupState s queueName groupID)"

end
