(* ===== verification/Consumer_State_Props.thy ===== *)
theory Consumer_State_Props
  imports Consumer_State
begin

text \<open>
  What the durable consumer state promises. Sharding is invisible: every operation acts on the map
  from offsets to pending entries as if there were one list. Reopening after any sequence of written
  operations and completed compactions gives back that map and the counters. The acknowledgement
  floor never passes a pending offset other than zero. Three executions show where the code falls
  short of its contract.
\<close>

section \<open>Sharding is invisible\<close>

definition cs_wf :: "consumer_state \<Rightarrow> bool" where
  "cs_wf cs \<longleftrightarrow>
     0 < NumPELShards (cs_config cs) \<and> NumPELShards (cs_config cs) < 2 ^ 64 \<and>
     length (cs_pelShards cs) = NumPELShards (cs_config cs) \<and>
     (\<forall>i < length (cs_pelShards cs).
        distinct (map fst (sh_entries (cs_pelShards cs ! i))) \<and>
        (\<forall>(off, e) \<in> set (sh_entries (cs_pelShards cs ! i)). ShardKey cs off = i \<and> ce_Offset e = off))"

lemma ShardKey_bound:
  assumes "cs_wf cs"
  shows "ShardKey cs off < length (cs_pelShards cs)"
proof -
  let ?n = "NumPELShards (cs_config cs)"
  have n: "0 < ?n" "?n < 2 ^ 64" "length (cs_pelShards cs) = ?n" using assms by (auto simp: cs_wf_def)
  have u: "unat (of_nat ?n :: u64) = ?n" using n(2) by (rule unat_of_nat_u64)
  have "unat (off mod of_nat ?n) = unat off mod ?n" using u by (simp add: unat_mod_distrib)
  then show ?thesis using n by (simp add: ShardKey_def)
qed

lemma ShardKey_simps [simp]:
  "ShardKey (cs\<lparr>cs_state := st\<rparr>) = ShardKey cs" "ShardKey (cs\<lparr>cs_pelShards := ps\<rparr>) = ShardKey cs"
  "ShardKey (cs\<lparr>cs_dirty := b\<rparr>) = ShardKey cs" "ShardKey (cs\<lparr>cs_disk := d\<rparr>) = ShardKey cs"
  "ShardKey (cs\<lparr>cs_opCount := n\<rparr>) = ShardKey cs" "ShardKey (cs\<lparr>cs_spawned := n\<rparr>) = ShardKey cs"
  "ShardKey (cs\<lparr>cs_snapVersion := v\<rparr>) = ShardKey cs" "ShardKey (cs\<lparr>cs_lastSync := t\<rparr>) = ShardKey cs"
  by (simp_all add: ShardKey_def fun_eq_iff)

lemma entry_at_simps [simp]:
  "entry_at (cs\<lparr>cs_state := st\<rparr>) = entry_at cs"
  "entry_at (cs\<lparr>cs_dirty := b\<rparr>) = entry_at cs" "entry_at (cs\<lparr>cs_disk := d\<rparr>) = entry_at cs"
  "entry_at (cs\<lparr>cs_opCount := n\<rparr>) = entry_at cs" "entry_at (cs\<lparr>cs_spawned := n\<rparr>) = entry_at cs"
  "entry_at (cs\<lparr>cs_snapVersion := v\<rparr>) = entry_at cs" "entry_at (cs\<lparr>cs_lastSync := t\<rparr>) = entry_at cs"
  by (simp_all add: entry_at_def shard_of_def fun_eq_iff)

lemma cs_wf_simps [simp]:
  "cs_wf (cs\<lparr>cs_state := st\<rparr>) = cs_wf cs"
  "cs_wf (cs\<lparr>cs_dirty := b\<rparr>) = cs_wf cs" "cs_wf (cs\<lparr>cs_disk := d\<rparr>) = cs_wf cs"
  "cs_wf (cs\<lparr>cs_opCount := n\<rparr>) = cs_wf cs" "cs_wf (cs\<lparr>cs_spawned := n\<rparr>) = cs_wf cs"
  "cs_wf (cs\<lparr>cs_snapVersion := v\<rparr>) = cs_wf cs" "cs_wf (cs\<lparr>cs_lastSync := t\<rparr>) = cs_wf cs"
  by (simp_all add: cs_wf_def)

lemma put_shard_simps [simp]:
  "cs_state (put_shard off sh cs) = cs_state cs" "cs_disk (put_shard off sh cs) = cs_disk cs"
  "cs_config (put_shard off sh cs) = cs_config cs" "ShardKey (put_shard off sh cs) = ShardKey cs"
  by (simp_all add: put_shard_def)

lemma shard_wf:
  assumes "cs_wf cs"
  shows "distinct (map fst (sh_entries (shard_of cs off)))"
    and "(o', e) \<in> set (sh_entries (shard_of cs off)) \<Longrightarrow> ShardKey cs o' = ShardKey cs off \<and> ce_Offset e = o'"
  using assms ShardKey_bound [OF assms, of off] by (fastforce simp: cs_wf_def shard_of_def)+

lemma wf_nth:
  assumes "cs_wf cs" and "i < length (cs_pelShards cs)"
  shows "distinct (map fst (sh_entries (cs_pelShards cs ! i)))"
    and "(off, e) \<in> set (sh_entries (cs_pelShards cs ! i)) \<Longrightarrow> ShardKey cs off = i"
    and "(off, e) \<in> set (sh_entries (cs_pelShards cs ! i)) \<Longrightarrow> ce_Offset e = off"
  using assms by (fastforce simp: cs_wf_def)+

text \<open>Replacing the entry map of the shard of an offset by one that differs at that offset only.\<close>

lemma entry_at_put:
  assumes "cs_wf cs" and "map_of (sh_entries sh) = (map_of (sh_entries (shard_of cs off)))(off := v)"
  shows "entry_at (put_shard off sh cs) = (entry_at cs)(off := v)"
proof
  fix o'
  show "entry_at (put_shard off sh cs) o' = ((entry_at cs)(off := v)) o'"
  proof (cases "ShardKey cs o' = ShardKey cs off")
    case True
    then show ?thesis
      using assms(2) ShardKey_bound [OF assms(1), of off]
      by (simp add: entry_at_def shard_of_def put_shard_def)
  next
    case False
    then show ?thesis by (auto simp: entry_at_def shard_of_def put_shard_def)
  qed
qed

lemma cs_wf_put:
  assumes "cs_wf cs" and "distinct (map fst (sh_entries sh))"
    and "\<And>o' e. (o', e) \<in> set (sh_entries sh) \<Longrightarrow> ShardKey cs o' = ShardKey cs off \<and> ce_Offset e = o'"
  shows "cs_wf (put_shard off sh cs)"
  using assms ShardKey_bound [OF assms(1), of off] by (auto simp: cs_wf_def put_shard_def nth_list_update split: if_splits)

lemma wf_update:
  assumes "cs_wf cs" and "ce_Offset e = off" and "sh_entries sh = AList.update off e (sh_entries (shard_of cs off))"
  shows "cs_wf (put_shard off sh cs)"
proof (rule cs_wf_put [OF assms(1)])
  show "distinct (map fst (sh_entries sh))" using shard_wf(1) [OF assms(1)] by (simp add: assms(3))
  show "ShardKey cs o' = ShardKey cs off \<and> ce_Offset e' = o'" if "(o', e') \<in> set (sh_entries sh)" for o' e'
    using that shard_wf(2) [OF assms(1)] assms(2) set_update_subset unfolding assms(3) by fastforce
qed

lemma wf_delete:
  assumes "cs_wf cs"
  shows "cs_wf (put_shard off (shard_of cs off\<lparr>sh_byConsumer := idx,
           sh_entries := AList.delete off (sh_entries (shard_of cs off)), sh_dirty := d\<rparr>) cs)"
proof (rule cs_wf_put [OF assms])
  fix o' e'
  assume "(o', e') \<in> set (sh_entries (shard_of cs off\<lparr>sh_byConsumer := idx,
           sh_entries := AList.delete off (sh_entries (shard_of cs off)), sh_dirty := d\<rparr>))"
  then show "ShardKey cs o' = ShardKey cs off \<and> ce_Offset e' = o'"
    using shard_wf(2) [OF assms] by (auto simp: set_delete_eq)
qed (simp add: shard_wf(1) [OF assms])

text \<open>The abstract group: one pending map and the counters, without shards, index, clock or files.\<close>

record abs_group =
  ag_entries :: "u64 \<rightharpoonup> cs_entry"
  ag_floor :: u64
  ag_cursor :: u64
  ag_delivered :: u64

definition abs_cs :: "consumer_state \<Rightarrow> abs_group" where
  "abs_cs cs = \<lparr>ag_entries = entry_at cs, ag_floor = gs_AckFloor (cs_state cs),
     ag_cursor = gs_Cursor (cs_state cs), ag_delivered = gs_Delivered (cs_state cs)\<rparr>"

definition new_entry :: "u64 \<Rightarrow> string \<Rightarrow> int \<Rightarrow> u16 \<Rightarrow> cs_entry" where
  "new_entry off c ts n = \<lparr>ce_Offset = off, ce_ConsumerID = c, ce_DeliveredAt = ts, ce_DeliveryCount = n, ce_LastAttempt = ts\<rparr>"

definition abs_ack :: "u64 \<Rightarrow> abs_group \<Rightarrow> abs_group" where
  "abs_ack off a =
     (if ag_entries a off = None then a
      else (let entries = (ag_entries a)(off := None)
            in a\<lparr>ag_entries := entries,
                 ag_floor := max (ag_floor a)
                   (advance_floor (\<lambda>o'. entries o' \<noteq> None) (ag_cursor a) (ag_floor a + 1) (ag_floor a))\<rparr>))"

definition abs_change :: "(cs_entry \<Rightarrow> cs_entry) \<Rightarrow> u64 \<Rightarrow> abs_group \<Rightarrow> abs_group" where
  "abs_change f off a = a\<lparr>ag_entries := (ag_entries a)(off := map_option f (ag_entries a off))\<rparr>"

definition claimed :: "string \<Rightarrow> int \<Rightarrow> cs_entry \<Rightarrow> cs_entry" where
  "claimed c ts e = e\<lparr>ce_ConsumerID := c, ce_DeliveryCount := ce_DeliveryCount e + 1, ce_LastAttempt := ts\<rparr>"

definition nacked :: "int \<Rightarrow> cs_entry \<Rightarrow> cs_entry" where
  "nacked ts e = e\<lparr>ce_DeliveryCount := ce_DeliveryCount e + 1, ce_LastAttempt := ts\<rparr>"

definition released :: "int \<Rightarrow> cs_entry \<Rightarrow> cs_entry" where
  "released ts e = e\<lparr>ce_LastAttempt := ts\<rparr>"

definition abs_apply :: "operation \<Rightarrow> abs_group \<Rightarrow> abs_group" where
  "abs_apply op a =
     (case op_Type op of
        OpDeliver \<Rightarrow>
          a\<lparr>ag_entries := (ag_entries a)(op_Offset op \<mapsto> new_entry (op_Offset op) (op_ConsumerID op) (op_Timestamp op) 1),
            ag_cursor := (if op_Offset op \<ge> ag_cursor a then op_Offset op + 1 else ag_cursor a),
            ag_delivered := ag_delivered a + 1\<rparr>
      | OpAck \<Rightarrow> abs_ack (op_Offset op) a
      | OpAckBatch \<Rightarrow> fold abs_ack (op_Offsets op) a
      | OpNack \<Rightarrow> abs_change (nacked (op_Timestamp op)) (op_Offset op) a
      | OpClaim \<Rightarrow> abs_change (claimed (op_ConsumerID op) (op_Timestamp op)) (op_Offset op) a
      | OpClaimBatch \<Rightarrow> fold (abs_change (claimed (op_ConsumerID op) (op_Timestamp op))) (op_Offsets op) a
      | OpAdvanceFloor \<Rightarrow> a\<lparr>ag_floor := max (ag_floor a) (op_Offset op)\<rparr>
      | OpSetCursor \<Rightarrow> a\<lparr>ag_cursor := op_Offset op\<rparr>
      | OpRestorePending \<Rightarrow>
          a\<lparr>ag_entries := (ag_entries a)(op_Offset op \<mapsto> new_entry (op_Offset op) (op_ConsumerID op) (op_Timestamp op)
             (if op_DeliveryCount op = 0 then 1 else op_DeliveryCount op))\<rparr>
      | OpRelease \<Rightarrow> abs_change (released (op_Timestamp op)) (op_Offset op) a)"

lemma abs_cs_simps [simp]:
  "abs_cs (cs\<lparr>cs_dirty := b\<rparr>) = abs_cs cs" "abs_cs (cs\<lparr>cs_disk := d\<rparr>) = abs_cs cs"
  "abs_cs (cs\<lparr>cs_opCount := n\<rparr>) = abs_cs cs" "abs_cs (cs\<lparr>cs_spawned := n\<rparr>) = abs_cs cs"
  "abs_cs (cs\<lparr>cs_snapVersion := v\<rparr>) = abs_cs cs" "abs_cs (cs\<lparr>cs_lastSync := t\<rparr>) = abs_cs cs"
  by (simp_all add: abs_cs_def)

lemma insert_entry_refines:
  assumes "cs_wf cs"
  shows "entry_at (insert_entry e cs) = (entry_at cs)(ce_Offset e \<mapsto> e)" "cs_wf (insert_entry e cs)"
    and "cs_state (insert_entry e cs) = cs_state cs"
proof -
  show "cs_wf (insert_entry e cs)" unfolding insert_entry_def Let_def by (rule wf_update [OF assms refl]) simp
qed (use assms in \<open>simp_all add: insert_entry_def Let_def entry_at_put\<close>)

lemma tryAdvance_refines:
  "entry_at (tryAdvanceAckFloor now cs) = entry_at cs" "cs_wf (tryAdvanceAckFloor now cs) = cs_wf cs"
  "gs_Cursor (cs_state (tryAdvanceAckFloor now cs)) = gs_Cursor (cs_state cs)"
  "gs_Delivered (cs_state (tryAdvanceAckFloor now cs)) = gs_Delivered (cs_state cs)"
  "gs_AckFloor (cs_state (tryAdvanceAckFloor now cs)) =
     max (gs_AckFloor (cs_state cs)) (advance_floor (\<lambda>o'. entry_at cs o' \<noteq> None) (gs_Cursor (cs_state cs))
       (gs_AckFloor (cs_state cs) + 1) (gs_AckFloor (cs_state cs)))"
  by (auto simp: tryAdvanceAckFloor_def Let_def max_def)

lemma applyAck_refines:
  assumes "cs_wf cs"
  shows "abs_cs (applyAck now off cs) = abs_ack off (abs_cs cs)" "cs_wf (applyAck now off cs)"
proof -
  let ?sh = "shard_of cs off"
  have "abs_cs (applyAck now off cs) = abs_ack off (abs_cs cs) \<and> cs_wf (applyAck now off cs)"
  proof (cases "map_of (sh_entries ?sh) off")
    case None
    then show ?thesis using assms by (simp add: applyAck_def Let_def abs_ack_def abs_cs_def entry_at_def)
  next
    case (Some e)
    define cs' where "cs' = put_shard off (?sh\<lparr>sh_byConsumer := index_remove (ce_ConsumerID e) off (sh_byConsumer ?sh),
        sh_entries := AList.delete off (sh_entries ?sh), sh_dirty := True\<rparr>) cs"
    have e: "entry_at cs' = (entry_at cs)(off := None)"
      unfolding cs'_def using assms by (intro entry_at_put) (simp_all add: fun_eq_iff)
    have w: "cs_wf cs'" unfolding cs'_def by (rule wf_delete [OF assms])
    have a: "applyAck now off cs = tryAdvanceAckFloor now cs'" by (simp add: applyAck_def Let_def Some cs'_def)
    have s: "cs_state cs' = cs_state cs" by (simp add: cs'_def)
    have "entry_at cs off = Some e" by (simp add: entry_at_def Some)
    then show ?thesis
      using w by (simp add: a abs_cs_def tryAdvance_refines e s abs_ack_def Let_def)
  qed
  then show "abs_cs (applyAck now off cs) = abs_ack off (abs_cs cs)" "cs_wf (applyAck now off cs)" by simp_all
qed


text \<open>The operations that change an entry in place, with or without a change of the index.\<close>

lemma change_refines:
  assumes "cs_wf cs" and "\<And>e. ce_Offset (f e) = ce_Offset e"
    and "\<And>e. sh_entries (sh e) = AList.update off (f e) (sh_entries (shard_of cs off))"
  shows "abs_cs (case map_of (sh_entries (shard_of cs off)) off of None \<Rightarrow> cs | Some e \<Rightarrow> put_shard off (sh e) cs) =
      abs_change f off (abs_cs cs)"
    and "cs_wf (case map_of (sh_entries (shard_of cs off)) off of None \<Rightarrow> cs | Some e \<Rightarrow> put_shard off (sh e) cs)"
proof -
  let ?cs = "case map_of (sh_entries (shard_of cs off)) off of None \<Rightarrow> cs | Some e \<Rightarrow> put_shard off (sh e) cs"
  have "abs_cs ?cs = abs_change f off (abs_cs cs) \<and> cs_wf ?cs"
  proof (cases "map_of (sh_entries (shard_of cs off)) off")
    case None
    then have "entry_at cs off = None" by (simp add: entry_at_def)
    then show ?thesis using assms None by (simp add: abs_change_def abs_cs_def fun_upd_idem)
  next
    case (Some e)
    have o: "ce_Offset e = off" using shard_wf(2) [OF assms(1)] map_of_SomeD [OF Some] by blast
    have "entry_at cs off = Some e" by (simp add: entry_at_def Some)
    moreover have "entry_at (put_shard off (sh e) cs) = (entry_at cs)(off \<mapsto> f e)"
      using assms(1) by (intro entry_at_put) (simp_all add: assms(3))
    moreover have "cs_wf (put_shard off (sh e) cs)"
      using o assms(2) by (intro wf_update [OF assms(1) _ assms(3)]) simp
    ultimately show ?thesis by (simp add: Some abs_change_def abs_cs_def)
  qed
  then show "abs_cs ?cs = abs_change f off (abs_cs cs)" "cs_wf ?cs" by simp_all
qed

lemma applyNack_refines:
  assumes "cs_wf cs"
  shows "abs_cs (applyNack off ts cs) = abs_change (nacked ts) off (abs_cs cs)" "cs_wf (applyNack off ts cs)"
  unfolding applyNack_def Let_def
  by (rule change_refines(1) [OF assms]; simp add: nacked_def)
     (rule change_refines(2) [OF assms, where f = "nacked ts"]; simp add: nacked_def)

lemma applyRelease_refines:
  assumes "cs_wf cs"
  shows "abs_cs (applyRelease off ts cs) = abs_change (released ts) off (abs_cs cs)" "cs_wf (applyRelease off ts cs)"
  unfolding applyRelease_def Let_def
  by (rule change_refines(1) [OF assms]; simp add: released_def)
     (rule change_refines(2) [OF assms, where f = "released ts"]; simp add: released_def)

lemma applyClaim_refines:
  assumes "cs_wf cs"
  shows "abs_cs (applyClaim off c ts cs) = abs_change (claimed c ts) off (abs_cs cs)" "cs_wf (applyClaim off c ts cs)"
  unfolding applyClaim_def Let_def
  by (rule change_refines(1) [OF assms]; simp add: claimed_def)
     (rule change_refines(2) [OF assms, where f = "claimed c ts"]; simp add: claimed_def)

lemma applyDeliver_refines:
  assumes "cs_wf cs"
  shows "abs_cs (applyDeliver off c ts cs) =
      (abs_cs cs)\<lparr>ag_entries := (ag_entries (abs_cs cs))(off \<mapsto> new_entry off c ts 1),
        ag_cursor := (if off \<ge> ag_cursor (abs_cs cs) then off + 1 else ag_cursor (abs_cs cs)),
        ag_delivered := ag_delivered (abs_cs cs) + 1\<rparr>"
    and "cs_wf (applyDeliver off c ts cs)"
  using assms by (simp_all add: applyDeliver_def Let_def abs_cs_def insert_entry_refines new_entry_def)

lemma counters_refine:
  assumes "cs_wf cs"
  shows "abs_cs (applyAdvanceFloor now flr cs) = (abs_cs cs)\<lparr>ag_floor := max (ag_floor (abs_cs cs)) flr\<rparr>"
    and "abs_cs (applySetCursor cur ts cs) = (abs_cs cs)\<lparr>ag_cursor := cur\<rparr>"
    and "abs_cs (applyRestorePending off c ts n cs) = (abs_cs cs)\<lparr>ag_entries := (ag_entries (abs_cs cs))
      (off \<mapsto> new_entry off c ts (if n = 0 then 1 else n))\<rparr>"
    and "cs_wf (applyAdvanceFloor now flr cs)" "cs_wf (applySetCursor cur ts cs)" "cs_wf (applyRestorePending off c ts n cs)"
  using assms by (auto simp: applyAdvanceFloor_def applySetCursor_def applyRestorePending_def Let_def
      insert_entry_refines new_entry_def abs_cs_def max_def)

lemma fold_refines:
  assumes "\<And>off cs. cs_wf cs \<Longrightarrow> abs_cs (f off cs) = g off (abs_cs cs)" and "\<And>off cs. cs_wf cs \<Longrightarrow> cs_wf (f off cs)"
  shows "cs_wf cs \<Longrightarrow> abs_cs (fold f offs cs) = fold g offs (abs_cs cs) \<and> cs_wf (fold f offs cs)"
  by (induction offs arbitrary: cs) (simp_all add: assms)

lemma applyOp_refines:
  assumes "cs_wf cs"
  shows "abs_cs (applyOp now op cs) = abs_apply op (abs_cs cs)" "cs_wf (applyOp now op cs)"
proof -
  have b: "abs_cs (fold (applyAck now) offs cs) = fold abs_ack offs (abs_cs cs) \<and> cs_wf (fold (applyAck now) offs cs)" for offs
    using fold_refines [of "applyAck now" abs_ack, OF applyAck_refines] assms by blast
  have c: "abs_cs (fold (\<lambda>off. applyClaim off c ts) offs cs) = fold (abs_change (claimed c ts)) offs (abs_cs cs) \<and>
      cs_wf (fold (\<lambda>off. applyClaim off c ts) offs cs)" for c ts offs
    using fold_refines [of "\<lambda>off. applyClaim off c ts" "abs_change (claimed c ts)", OF applyClaim_refines] assms by blast
  show "abs_cs (applyOp now op cs) = abs_apply op (abs_cs cs)" "cs_wf (applyOp now op cs)"
    using b c by (cases "op_Type op"; simp add: applyOp_def abs_apply_def applyDeliver_refines [OF assms] applyAck_refines [OF assms]
        applyNack_refines [OF assms] applyClaim_refines [OF assms] applyRelease_refines [OF assms] counters_refine [OF assms])+
qed


section \<open>Recovery\<close>

text \<open>What a directory stands for before its log is replayed.\<close>

definition disk_base :: "consumer_state_config \<Rightarrow> cs_disk \<Rightarrow> abs_group" where
  "disk_base config d =
     \<lparr>ag_entries = (\<lambda>off. case map_of (d_pel d) (unat (off mod of_nat (NumPELShards config))) of
                          None \<Rightarrow> None | Some es \<Rightarrow> map_of es off),
      ag_floor = (case d_state d of None \<Rightarrow> 0 | Some (_, st) \<Rightarrow> gs_AckFloor st),
      ag_cursor = (case d_state d of None \<Rightarrow> 0 | Some (_, st) \<Rightarrow> gs_Cursor st),
      ag_delivered = (case d_state d of None \<Rightarrow> 0 | Some (_, st) \<Rightarrow> gs_Delivered st)\<rparr>"

definition disk_wf :: "consumer_state_config \<Rightarrow> cs_disk \<Rightarrow> bool" where
  "disk_wf config d \<longleftrightarrow>
     0 < NumPELShards config \<and> NumPELShards config < 2 ^ 64 \<and>
     (\<forall>i es. map_of (d_pel d) i = Some es \<longrightarrow> distinct (map fst es) \<and>
        (\<forall>(off, e) \<in> set es. unat (off mod of_nat (NumPELShards config)) = i \<and> ce_Offset e = off))"

lemma apply_frame:
  "cs_config (applyDeliver off c ts cs) = cs_config cs" "cs_disk (applyDeliver off c ts cs) = cs_disk cs"
  "cs_config (applyAck now off cs) = cs_config cs" "cs_disk (applyAck now off cs) = cs_disk cs"
  "cs_config (applyClaim off c ts cs) = cs_config cs" "cs_disk (applyClaim off c ts cs) = cs_disk cs"
  by (auto simp: applyDeliver_def applyAck_def applyClaim_def insert_entry_def tryAdvanceAckFloor_def Let_def
      split: option.split)

lemma fold_frame:
  assumes "\<And>x cs. cs_config (f x cs) = cs_config cs" and "\<And>x cs. cs_disk (f x cs) = cs_disk cs"
  shows "cs_config (fold f xs cs) = cs_config cs \<and> cs_disk (fold f xs cs) = cs_disk cs"
  by (induction xs arbitrary: cs) (simp_all add: assms)

lemma applyOp_frame: "cs_config (applyOp now op cs) = cs_config cs" "cs_disk (applyOp now op cs) = cs_disk cs"
proof -
  have a: "cs_config (fold (applyAck now) xs cs) = cs_config cs \<and> cs_disk (fold (applyAck now) xs cs) = cs_disk cs" for xs
    by (rule fold_frame) (simp_all add: apply_frame)
  have c: "cs_config (fold (\<lambda>off. applyClaim off c ts) xs cs) = cs_config cs \<and>
      cs_disk (fold (\<lambda>off. applyClaim off c ts) xs cs) = cs_disk cs" for c ts xs
    by (rule fold_frame) (simp_all add: apply_frame)
  show "cs_config (applyOp now op cs) = cs_config cs" "cs_disk (applyOp now op cs) = cs_disk cs"
    using a c by (auto simp: applyOp_def apply_frame applyNack_def applyRelease_def applyAdvanceFloor_def
        applySetCursor_def applyRestorePending_def insert_entry_def Let_def split: op_type.split option.split)
qed

lemma replay_refines:
  "cs_wf cs \<Longrightarrow>
   abs_cs (replay now (map Some ops) cs) = fold abs_apply ops (abs_cs cs) \<and> cs_wf (replay now (map Some ops) cs) \<and>
   cs_config (replay now (map Some ops) cs) = cs_config cs \<and> cs_disk (replay now (map Some ops) cs) = cs_disk cs"
  by (induction ops arbitrary: cs) (simp_all add: applyOp_refines applyOp_frame)

lemma load_refines:
  assumes "disk_wf config (cs_disk cs)" and "cs_config cs = config"
    and "cs_pelShards cs = replicate (NumPELShards config) empty_shard"
    and "gs_AckFloor (cs_state cs) = 0" "gs_Cursor (cs_state cs) = 0" "gs_Delivered (cs_state cs) = 0"
  shows "cs_wf (cs_load cs)" "abs_cs (cs_load cs) = disk_base config (cs_disk cs)"
    and "cs_config (cs_load cs) = config" "cs_disk (cs_load cs) = cs_disk cs"
proof -
  let ?d = "cs_disk cs" and ?n = "NumPELShards config"
  have f: "cs_config (cs_load cs) = config" "cs_disk (cs_load cs) = ?d"
    "cs_pelShards (cs_load cs) = map (\<lambda>i. load_shard ?d i empty_shard) [0..<?n]"
    using assms(2,3) by (auto simp: cs_load_def Let_def split: option.splits)
  then show "cs_config (cs_load cs) = config" "cs_disk (cs_load cs) = ?d" by simp_all
  have k: "ShardKey (cs_load cs) off = unat (off mod of_nat ?n)" for off by (simp add: ShardKey_def f)
  have e: "sh_entries (load_shard ?d i empty_shard) = (case map_of (d_pel ?d) i of None \<Rightarrow> [] | Some es \<Rightarrow> es)" for i
    by (simp add: load_shard_def empty_shard_def split: option.split)
  show w: "cs_wf (cs_load cs)"
    using assms(1) by (fastforce simp: cs_wf_def f k e disk_wf_def split: option.splits)
  have "entry_at (cs_load cs) off = ag_entries (disk_base config ?d) off" for off
    using ShardKey_bound [OF w, of off]
    by (simp add: entry_at_def shard_of_def k f e disk_base_def split: option.split)
  then show "abs_cs (cs_load cs) = disk_base config ?d"
    using assms(4-6) by (auto simp: abs_cs_def disk_base_def cs_load_def Let_def split: option.splits)
qed

lemma open_refines:
  assumes "disk_wf config d" and "d_ops d = map Some ops"
  shows "\<exists>cs. NewConsumerState now None gid config d = Inr cs \<and> cs_wf cs \<and> cs_config cs = config \<and> cs_disk cs = d \<and>
    abs_cs cs = fold abs_apply ops (disk_base config d)"
proof -
  let ?ms = "UnixMilli now"
  define cs0 where "cs0 = \<lparr>cs_groupID = gid, cs_config = config,
     cs_state = \<lparr>gs_AckFloor = 0, gs_Cursor = 0, gs_Delivered = 0, gs_CreatedAt = ?ms, gs_UpdatedAt = ?ms\<rparr>,
     cs_pelShards = replicate (NumPELShards config) empty_shard, cs_dirty = False, cs_lastSync = now,
     cs_opCount = 0, cs_snapVersion = 0, cs_spawned = 0, cs_disk = d\<rparr>"
  have n: "NewConsumerState now None gid config d = Inr (replayOpLog ?ms (cs_load cs0))"
    by (simp add: NewConsumerState_def cs0_def Let_def)
  have l: "cs_wf (cs_load cs0)" "abs_cs (cs_load cs0) = disk_base config d" "cs_config (cs_load cs0) = config"
    "cs_disk (cs_load cs0) = d"
    using load_refines [of config cs0] assms(1) by (simp_all add: cs0_def)
  from replay_refines [OF l(1), of ?ms ops] l show ?thesis
    by (simp add: n replayOpLog_def assms(2))
qed

text \<open>Memory is the directory plus its log.\<close>

definition durable :: "consumer_state \<Rightarrow> operation list \<Rightarrow> bool" where
  "durable cs ops \<longleftrightarrow>
     cs_wf cs \<and> disk_wf (cs_config cs) (cs_disk cs) \<and> d_ops (cs_disk cs) = map Some ops \<and>
     abs_cs cs = fold abs_apply ops (disk_base (cs_config cs) (cs_disk cs))"

lemma writeOp_ok:
  "cs_wf (snd (writeOp WriteOk op cs)) = cs_wf cs" "abs_cs (snd (writeOp WriteOk op cs)) = abs_cs cs"
  "cs_config (snd (writeOp WriteOk op cs)) = cs_config cs"
  "cs_disk (snd (writeOp WriteOk op cs)) = (cs_disk cs)\<lparr>d_ops := d_ops (cs_disk cs) @ [Some op]\<rparr>"
  "fst (writeOp WriteOk op cs) = None"
  by (simp_all add: writeOp_def Let_def)

lemma disk_ops_irrelevant [simp]:
  "disk_base config (d\<lparr>d_ops := x\<rparr>) = disk_base config d" "disk_wf config (d\<lparr>d_ops := x\<rparr>) = disk_wf config d"
  by (simp_all add: disk_base_def disk_wf_def)

lemma durable_op: "durable cs ops \<Longrightarrow> durable (snd (writeOp WriteOk op (applyOp now op cs))) (ops @ [op])"
  by (simp add: durable_def writeOp_ok applyOp_refines applyOp_frame)


lemma public_ops:
  "CS_Deliver now io off c cs = (let op = (plain_op OpDeliver off (UnixMilli now))\<lparr>op_ConsumerID := c\<rparr>
     in writeOp io op (applyOp (UnixMilli now) op cs))"
  "CS_RestorePending now io off c t n cs = (let op = (plain_op OpRestorePending off (if t = zero_time then UnixMilli now else UnixMilli t))
       \<lparr>op_ConsumerID := c, op_DeliveryCount := n\<rparr> in writeOp io op (applyOp (UnixMilli now) op cs))"
  "CS_RestoreAckFloor now io off cs = (let op = plain_op OpAdvanceFloor off (UnixMilli now)
     in writeOp io op (applyOp (UnixMilli now) op cs))"
  "CS_Ack now io off cs = (let op = plain_op OpAck off (UnixMilli now) in writeOp io op (applyOp (UnixMilli now) op cs))"
  "CS_AckBatch now io offs cs = (let op = (plain_op OpAckBatch 0 (UnixMilli now))\<lparr>op_Offsets := offs\<rparr>
     in writeOp io op (applyOp (UnixMilli now) op cs))"
  "CS_NackAt io off t cs = (let op = plain_op OpNack off (UnixMilli t) in writeOp io op (applyOp (UnixMilli t) op cs))"
  "CS_ReleaseAt io off t cs = (let op = plain_op OpRelease off (UnixMilli t) in writeOp io op (applyOp (UnixMilli t) op cs))"
  "CS_Claim now io off c cs = (let op = (plain_op OpClaim off (UnixMilli now))\<lparr>op_ConsumerID := c\<rparr>
     in writeOp io op (applyOp (UnixMilli now) op cs))"
  "CS_ClaimBatch now io offs c cs = (let op = (plain_op OpClaimBatch 0 (UnixMilli now))\<lparr>op_Offsets := offs, op_ConsumerID := c\<rparr>
     in writeOp io op (applyOp (UnixMilli now) op cs))"
  "CS_SetCursor now io cur cs = (let op = plain_op OpSetCursor cur (UnixMilli now) in writeOp io op (applyOp (UnixMilli now) op cs))"
  by (simp_all add: CS_Deliver_def CS_RestorePending_def CS_RestoreAckFloor_def CS_Ack_def CS_AckBatch_def CS_NackAt_def
      CS_ReleaseAt_def CS_Claim_def CS_ClaimBatch_def CS_SetCursor_def plain_op_def applyOp_def Let_def)

text \<open>A batch of deliveries is applied first and written afterwards, record by record.\<close>

definition deliver_op :: "string \<Rightarrow> int \<Rightarrow> u64 \<Rightarrow> operation" where
  "deliver_op c ts off = (plain_op OpDeliver off ts)\<lparr>op_ConsumerID := c\<rparr>"

lemma write_delivers_ok:
  "write_delivers (\<lambda>_. WriteOk) i offs c ts cs = (None, snd (write_delivers (\<lambda>_. WriteOk) i offs c ts cs)) \<and>
   cs_wf (snd (write_delivers (\<lambda>_. WriteOk) i offs c ts cs)) = cs_wf cs \<and>
   abs_cs (snd (write_delivers (\<lambda>_. WriteOk) i offs c ts cs)) = abs_cs cs \<and>
   cs_config (snd (write_delivers (\<lambda>_. WriteOk) i offs c ts cs)) = cs_config cs \<and>
   cs_disk (snd (write_delivers (\<lambda>_. WriteOk) i offs c ts cs)) =
     (cs_disk cs)\<lparr>d_ops := d_ops (cs_disk cs) @ map Some (map (deliver_op c ts) offs)\<rparr>"
proof (induction offs arbitrary: i cs)
  case (Cons off offs)
  let ?op = "deliver_op c ts off"
  have w: "writeOp WriteOk ?op cs = (None, snd (writeOp WriteOk ?op cs))"
    using writeOp_ok(5) [of ?op cs] by (simp add: prod_eq_iff)
  have "write_delivers (\<lambda>_. WriteOk) i (off # offs) c ts cs =
      write_delivers (\<lambda>_. WriteOk) (Suc i) offs c ts (snd (writeOp WriteOk ?op cs))"
    by (simp add: deliver_op_def [symmetric], subst w, simp)
  with Cons.IH [of "Suc i" "snd (writeOp WriteOk ?op cs)"] show ?case
    by (simp add: writeOp_ok)
qed simp

lemma fold_deliver_ops:
  "fold (\<lambda>off. applyDeliver off c ts) offs cs = fold (applyOp now) (map (deliver_op c ts) offs) cs"
  by (induction offs arbitrary: cs) (simp_all add: deliver_op_def plain_op_def applyOp_def)

lemma fold_applyOp:
  "cs_wf cs \<Longrightarrow> abs_cs (fold (applyOp now) ops cs) = fold abs_apply ops (abs_cs cs) \<and> cs_wf (fold (applyOp now) ops cs) \<and>
   cs_config (fold (applyOp now) ops cs) = cs_config cs \<and> cs_disk (fold (applyOp now) ops cs) = cs_disk cs"
  by (induction ops arbitrary: cs) (simp_all add: applyOp_refines applyOp_frame)

lemma durable_DeliverBatch:
  assumes "durable cs ops"
  shows "durable (snd (CS_DeliverBatch now (\<lambda>_. WriteOk) offs c cs)) (ops @ map (deliver_op c (UnixMilli now)) offs)"
proof -
  let ?ts = "UnixMilli now" and ?new = "map (deliver_op c (UnixMilli now)) offs"
  let ?cs = "fold (\<lambda>off. applyDeliver off c ?ts) offs cs"
  have w: "cs_wf cs" using assms by (simp add: durable_def)
  have f: "abs_cs ?cs = fold abs_apply ?new (abs_cs cs)" "cs_wf ?cs" "cs_config ?cs = cs_config cs" "cs_disk ?cs = cs_disk cs"
    using fold_applyOp [OF w, of 0 ?new] fold_deliver_ops [of c ?ts offs cs 0] by simp_all
  show ?thesis
    using assms f write_delivers_ok [of 0 offs c ?ts ?cs]
    by (simp add: durable_def CS_DeliverBatch_def Let_def)
qed

text \<open>The disk after any number of successful calls of a compaction.\<close>

lemma fold_save_shard:
  assumes "k \<le> length (cs_pelShards cs)"
  shows "let cs' = fold save_shard [0..<k] cs in
    (\<forall>i. map_of (d_pel (cs_disk cs')) i =
       (if i < k then Some (sh_entries (cs_pelShards cs ! i)) else map_of (d_pel (cs_disk cs)) i)) \<and>
    d_state (cs_disk cs') = d_state (cs_disk cs) \<and> d_ops (cs_disk cs') = d_ops (cs_disk cs) \<and>
    cs_state cs' = cs_state cs \<and> cs_config cs' = cs_config cs \<and>
    map sh_entries (cs_pelShards cs') = map sh_entries (cs_pelShards cs)"
  using assms
proof (induction k)
  case (Suc k)
  define cs' where "cs' = fold save_shard [0..<k] cs"
  have IH: "map_of (d_pel (cs_disk cs')) = (\<lambda>i. if i < k then Some (sh_entries (cs_pelShards cs ! i)) else map_of (d_pel (cs_disk cs)) i)"
    "d_state (cs_disk cs') = d_state (cs_disk cs)" "d_ops (cs_disk cs') = d_ops (cs_disk cs)"
    "cs_state cs' = cs_state cs" "cs_config cs' = cs_config cs"
    "map sh_entries (cs_pelShards cs') = map sh_entries (cs_pelShards cs)"
    using Suc by (simp_all add: cs'_def Let_def fun_eq_iff)
  have len: "length (cs_pelShards cs') = length (cs_pelShards cs)" using arg_cong [OF IH(6), of length] by simp
  have k: "sh_entries (cs_pelShards cs' ! k) = sh_entries (cs_pelShards cs ! k)"
    using arg_cong [OF IH(6), of "\<lambda>xs. xs ! k"] Suc.prems len by simp
  have m: "map sh_entries ((cs_pelShards cs')[k := (cs_pelShards cs' ! k)\<lparr>sh_dirty := False\<rparr>]) = map sh_entries (cs_pelShards cs)"
    using IH(6) k by (simp add: map_update list_update_same_conv nth_map) (metis list_update_id nth_map Suc.prems Suc_le_lessD len)
  have eq: "fold save_shard [0..<Suc k] cs = save_shard k cs'" by (simp add: cs'_def)
  show ?case
    unfolding eq Let_def using IH m by (simp add: save_shard_def k less_Suc_eq)
qed simp


lemma compact_disk:
  assumes "cs_wf cs"
  shows "let n = length (cs_pelShards cs); cs' = snd (compactLocked now io cs); saved = min n (io - 1) in
    (\<forall>i. map_of (d_pel (cs_disk cs')) i =
       (if i < saved then Some (sh_entries (cs_pelShards cs ! i)) else map_of (d_pel (cs_disk cs)) i)) \<and>
    (d_state (cs_disk cs') = (if io = 0 then d_state (cs_disk cs) else Some (cs_snapVersion cs + 1, cs_state cs))) \<and>
    d_ops (cs_disk cs') = (if io \<le> n + 1 then d_ops (cs_disk cs) else []) \<and>
    cs_state cs' = cs_state cs \<and> cs_config cs' = cs_config cs \<and>
    map sh_entries (cs_pelShards cs') = map sh_entries (cs_pelShards cs)"
proof -
  define cs1 where "cs1 = save_state (cs\<lparr>cs_snapVersion := cs_snapVersion cs + 1\<rparr>)"
  let ?n = "length (cs_pelShards cs)"
  define saved where "saved = min ?n (io - 1)"
  define cs2 where "cs2 = fold save_shard [0..<saved] cs1"
  have "saved \<le> length (cs_pelShards cs1)" by (simp add: saved_def cs1_def save_state_def)
  from fold_save_shard [OF this] have
    f: "map_of (d_pel (cs_disk cs2)) i = (if i < saved then Some (sh_entries (cs_pelShards cs ! i)) else map_of (d_pel (cs_disk cs)) i)"
    "d_state (cs_disk cs2) = Some (cs_snapVersion cs + 1, cs_state cs)" "d_ops (cs_disk cs2) = d_ops (cs_disk cs)"
    "cs_state cs2 = cs_state cs" "cs_config cs2 = cs_config cs"
    "map sh_entries (cs_pelShards cs2) = map sh_entries (cs_pelShards cs)" for i
    by (simp_all add: Let_def cs2_def [symmetric]) (simp_all add: cs1_def save_state_def)
  show ?thesis
  proof (cases "io = 0")
    case True
    then show ?thesis by (simp add: compactLocked_def Let_def)
  next
    case False
    have "snd (compactLocked now io cs) =
        (if saved < ?n \<or> io = ?n + 1 then cs2
         else if io = ?n + 2 then cs2\<lparr>cs_disk := (cs_disk cs2)\<lparr>d_ops := []\<rparr>\<rparr>
         else cs2\<lparr>cs_disk := (cs_disk cs2)\<lparr>d_ops := []\<rparr>, cs_opCount := 0, cs_dirty := False, cs_lastSync := now\<rparr>)"
      using False by (simp add: compactLocked_def Let_def cs1_def saved_def cs2_def)
    then show ?thesis
      using False f by (auto simp: Let_def saved_def)
  qed
qed

lemma map_sh_entries_nth:
  "map sh_entries xs = map sh_entries ys \<Longrightarrow> i < length ys \<Longrightarrow> sh_entries (xs ! i) = sh_entries (ys ! i)"
  by (metis length_map nth_map)

lemma entry_at_same:
  assumes "map sh_entries (cs_pelShards cs') = map sh_entries (cs_pelShards cs)" and "cs_config cs' = cs_config cs" and "cs_wf cs"
  shows "entry_at cs' = entry_at cs" "cs_wf cs'"
proof -
  have k: "ShardKey cs' = ShardKey cs" by (simp add: ShardKey_def fun_eq_iff assms(2))
  have len: "length (cs_pelShards cs') = length (cs_pelShards cs)" using arg_cong [OF assms(1), of length] by simp
  have e: "sh_entries (cs_pelShards cs' ! i) = sh_entries (cs_pelShards cs ! i)" if "i < length (cs_pelShards cs)" for i
    using map_sh_entries_nth [OF assms(1) that] .
  show "entry_at cs' = entry_at cs"
    using e ShardKey_bound [OF assms(3)] by (simp add: entry_at_def shard_of_def k fun_eq_iff)
  show "cs_wf cs'" using assms(3) e by (simp add: cs_wf_def k len assms(2))
qed

lemma compact_disk_wf:
  assumes "cs_wf cs" and "disk_wf (cs_config cs) (cs_disk cs)"
  shows "disk_wf (cs_config cs) (cs_disk (snd (compactLocked now io cs)))"
proof -
  have n: "NumPELShards (cs_config cs) = length (cs_pelShards cs)" using assms(1) by (simp add: cs_wf_def)
  have sh: "distinct (map fst (sh_entries (cs_pelShards cs ! i))) \<and>
      (\<forall>(off, e) \<in> set (sh_entries (cs_pelShards cs ! i)). unat (off mod of_nat (NumPELShards (cs_config cs))) = i \<and> ce_Offset e = off)"
    if "i < length (cs_pelShards cs)" for i
    using assms(1) that by (auto simp: cs_wf_def ShardKey_def)
  show ?thesis
    using assms(2) sh compact_disk [OF assms(1), of now io]
    by (auto simp: disk_wf_def Let_def n split: if_splits)
qed

lemma durable_compact:
  assumes "durable cs ops" and "length (cs_pelShards cs) + 2 < io"
  shows "durable (snd (Compact now io cs)) []"
proof -
  let ?cs = "snd (compactLocked now io cs)"
  have w: "cs_wf cs" using assms(1) by (simp add: durable_def)
  note d = compact_disk [OF w, of now io, unfolded Let_def]
  have len: "length (cs_pelShards cs) = NumPELShards (cs_config cs)" using w by (simp add: cs_wf_def)
  have e: "entry_at ?cs = entry_at cs" "cs_wf ?cs" using entry_at_same [OF _ _ w] d by blast+
  have k: "unat (off mod of_nat (NumPELShards (cs_config cs))) = ShardKey cs off" for off by (simp add: ShardKey_def)
  have "disk_base (cs_config cs) (cs_disk ?cs) = abs_cs cs"
    using d assms(2) ShardKey_bound [OF w]
    by (simp add: disk_base_def abs_cs_def k entry_at_def [abs_def] shard_of_def fun_eq_iff min_def)
  moreover have "abs_cs ?cs = abs_cs cs" using e(1) d by (simp add: abs_cs_def)
  ultimately show ?thesis
    using e(2) d assms(2) compact_disk_wf [OF w, of now io] assms(1)
    by (simp add: durable_def Compact_def)
qed


lemma unat_succ_nz: "(x::u64) + 1 \<noteq> 0 \<Longrightarrow> unat (x + 1) = Suc (unat x)"
  by (metis add.commute unatSuc)

lemma succ_lt: "(x::u64) + 1 \<noteq> 0 \<Longrightarrow> x < x + 1"
  by (simp add: word_less_nat_alt unat_succ_nz)

lemma between_succ: "(x::u64) + 1 \<noteq> 0 \<Longrightarrow> x < y \<Longrightarrow> y = x + 1 \<or> x + 1 < y"
  by (auto simp: word_less_nat_alt unat_succ_nz u64_eq_iff_unat)


section \<open>Histories\<close>

datatype cs_call =
  CDeliver u64 string
| CDeliverBatch "u64 list" string
| CRestorePending u64 string instant u16
| CRestoreFloor u64
| CAck u64
| CAckBatch "u64 list"
| CNack u64 instant
| CRelease u64 instant
| CClaim u64 string
| CClaimBatch "u64 list" string
| CSetCursor u64

fun cs_step :: "instant \<Rightarrow> cs_call \<Rightarrow> consumer_state \<Rightarrow> cs_error option \<times> consumer_state" where
  "cs_step now (CDeliver off c) cs = CS_Deliver now WriteOk off c cs"
| "cs_step now (CDeliverBatch offs c) cs = CS_DeliverBatch now (\<lambda>_. WriteOk) offs c cs"
| "cs_step now (CRestorePending off c t n) cs = CS_RestorePending now WriteOk off c t n cs"
| "cs_step now (CRestoreFloor off) cs = CS_RestoreAckFloor now WriteOk off cs"
| "cs_step now (CAck off) cs = CS_Ack now WriteOk off cs"
| "cs_step now (CAckBatch offs) cs = CS_AckBatch now WriteOk offs cs"
| "cs_step now (CNack off t) cs = CS_NackAt WriteOk off t cs"
| "cs_step now (CRelease off t) cs = CS_ReleaseAt WriteOk off t cs"
| "cs_step now (CClaim off c) cs = CS_Claim now WriteOk off c cs"
| "cs_step now (CClaimBatch offs c) cs = CS_ClaimBatch now WriteOk offs c cs"
| "cs_step now (CSetCursor off) cs = CS_SetCursor now WriteOk off cs"

text \<open>
  The states that calls, completed compactions and restarts produce; with \<open>fresh\<close>, deliveries are of
  offsets at or above the cursor, one at a time, and nothing rewinds the cursor or seeds state.
\<close>

fun fresh_call :: "cs_call \<Rightarrow> consumer_state \<Rightarrow> bool" where
  "fresh_call (CDeliver off c) cs \<longleftrightarrow> gs_Cursor (cs_state cs) \<le> off \<and> off + 1 \<noteq> 0"
| "fresh_call (CDeliverBatch offs c) cs \<longleftrightarrow> False"
| "fresh_call (CRestorePending off c t n) cs \<longleftrightarrow> False"
| "fresh_call (CRestoreFloor off) cs \<longleftrightarrow> False"
| "fresh_call (CSetCursor off) cs \<longleftrightarrow> False"
| "fresh_call _ cs \<longleftrightarrow> True"

inductive cs_reach :: "bool \<Rightarrow> consumer_state \<Rightarrow> bool" for fresh where
  create: "0 < NumPELShards config \<Longrightarrow> NumPELShards config < 2 ^ 64 \<Longrightarrow>
    NewConsumerState now None gid config empty_disk = Inr cs \<Longrightarrow> cs_reach fresh cs"
| call: "cs_reach fresh cs \<Longrightarrow> (fresh \<Longrightarrow> fresh_call c cs) \<Longrightarrow> cs_reach fresh (snd (cs_step now c cs))"
| compact: "cs_reach fresh cs \<Longrightarrow> length (cs_pelShards cs) + 2 < io \<Longrightarrow> cs_reach fresh (snd (Compact now io cs))"
| reopen: "cs_reach fresh cs \<Longrightarrow> NewConsumerState now None gid (cs_config cs) (cs_disk cs) = Inr cs' \<Longrightarrow>
    cs_reach fresh cs'"

lemma durable_step:
  assumes "durable cs ops"
  shows "\<exists>ops'. durable (snd (cs_step now c cs)) ops'"
  by (cases c) (auto simp: public_ops Let_def intro: durable_op [OF assms] durable_DeliverBatch [OF assms] exI)

lemma durable_reopen:
  assumes "durable cs ops"
  shows "\<exists>cs'. NewConsumerState now None gid (cs_config cs) (cs_disk cs) = Inr cs' \<and> durable cs' ops \<and>
    abs_cs cs' = abs_cs cs"
  using open_refines [of "cs_config cs" "cs_disk cs" ops now gid] assms by (auto simp: durable_def)

lemma empty_disk_base:
  "disk_base config empty_disk = \<lparr>ag_entries = Map.empty, ag_floor = 0, ag_cursor = 0, ag_delivered = 0\<rparr>"
  by (simp add: disk_base_def empty_disk_def fun_eq_iff)

lemma durable_create:
  assumes "0 < NumPELShards config" "NumPELShards config < 2 ^ 64"
    and "NewConsumerState now None gid config empty_disk = Inr cs"
  shows "durable cs []" "abs_cs cs = \<lparr>ag_entries = Map.empty, ag_floor = 0, ag_cursor = 0, ag_delivered = 0\<rparr>"
proof -
  have w: "disk_wf config empty_disk" using assms(1,2) by (simp add: disk_wf_def empty_disk_def)
  have o: "d_ops empty_disk = map Some []" by (simp add: empty_disk_def)
  have "cs_wf cs" "cs_config cs = config" "cs_disk cs = empty_disk" "abs_cs cs = disk_base config empty_disk"
    using open_refines [OF w o, of now gid] assms(3) by simp_all
  then show "durable cs []" "abs_cs cs = \<lparr>ag_entries = Map.empty, ag_floor = 0, ag_cursor = 0, ag_delivered = 0\<rparr>"
    using w o by (simp_all add: durable_def empty_disk_base)
qed

lemma reach_durable: "cs_reach fresh cs \<Longrightarrow> \<exists>ops. durable cs ops"
proof (induction rule: cs_reach.induct)
  case (call cs c now)
  then show ?case using durable_step by blast
next
  case (compact cs io now)
  then show ?case using durable_compact by blast
next
  case (reopen cs now gid cs')
  then show ?case using durable_reopen [of cs _ now gid] by force
qed (use durable_create in blast)


section \<open>The acknowledgement floor\<close>

lemma advance_floor_spec:
  fixes nf :: u64
  assumes "off = nf + 1" and "off \<noteq> 0"
  shows "nf \<le> advance_floor P cur off nf"
    and "advance_floor P cur off nf = nf \<or> advance_floor P cur off nf < cur"
    and "\<And>x. nf < x \<Longrightarrow> x \<le> advance_floor P cur off nf \<Longrightarrow> \<not> P x"
    and "cur \<le> advance_floor P cur off nf + 1 \<or> P (advance_floor P cur off nf + 1)"
proof -
  have "nf \<le> advance_floor P cur off nf \<and>
    (advance_floor P cur off nf = nf \<or> advance_floor P cur off nf < cur) \<and>
    (\<forall>x. nf < x \<and> x \<le> advance_floor P cur off nf \<longrightarrow> \<not> P x) \<and>
    (cur \<le> advance_floor P cur off nf + 1 \<or> P (advance_floor P cur off nf + 1))"
    using assms
  proof (induction P cur off nf rule: advance_floor.induct)
    case (1 P cur off nf)
    have lt: "nf < off" using "1.prems" succ_lt [of nf] by simp
    show ?case
    proof (cases "off < cur \<and> \<not> P off")
      case True
      have "off + 1 \<noteq> 0" using True succ_neq_0 by blast
      with "1.IH" True have r: "off \<le> advance_floor P cur (off + 1) off"
        "advance_floor P cur (off + 1) off = off \<or> advance_floor P cur (off + 1) off < cur"
        "\<forall>x. off < x \<and> x \<le> advance_floor P cur (off + 1) off \<longrightarrow> \<not> P x"
        "cur \<le> advance_floor P cur (off + 1) off + 1 \<or> P (advance_floor P cur (off + 1) off + 1)" by auto
      have "advance_floor P cur off nf = advance_floor P cur (off + 1) off"
        using True by (simp add: advance_floor.simps [of P cur off nf])
      moreover have "x = off \<or> off < x" if "nf < x" for x
        using that "1.prems" between_succ [of nf x] by auto
      ultimately show ?thesis using r True lt by auto
    next
      case False
      then have "advance_floor P cur off nf = nf"
        by (auto simp: advance_floor.simps [of P cur off nf])
      then show ?thesis using False "1.prems" by auto
    qed
  qed
  then show "nf \<le> advance_floor P cur off nf"
    and "advance_floor P cur off nf = nf \<or> advance_floor P cur off nf < cur"
    and "\<And>x. nf < x \<Longrightarrow> x \<le> advance_floor P cur off nf \<Longrightarrow> \<not> P x"
    and "cur \<le> advance_floor P cur off nf + 1 \<or> P (advance_floor P cur off nf + 1)"
    by blast+
qed

definition floor_ok :: "abs_group \<Rightarrow> bool" where
  "floor_ok a \<longleftrightarrow>
     (ag_floor a = 0 \<or> ag_floor a < ag_cursor a) \<and>
     (\<forall>o'. ag_entries a o' \<noteq> None \<longrightarrow> o' < ag_cursor a \<and> (o' = 0 \<or> ag_floor a < o'))"

lemma floor_succ: "floor_ok a \<Longrightarrow> ag_floor a + 1 \<noteq> 0"
  by (auto simp: floor_ok_def dest: succ_neq_0)

lemma abs_ack_floor:
  assumes "floor_ok a"
  shows "floor_ok (abs_ack off a)"
    and "ag_entries a off \<noteq> None \<Longrightarrow> ag_cursor a \<le> ag_floor (abs_ack off a) + 1 \<or>
      ag_entries (abs_ack off a) (ag_floor (abs_ack off a) + 1) \<noteq> None"
proof -
  define e where "e = (ag_entries a)(off := None)"
  define r where "r = advance_floor (\<lambda>o'. e o' \<noteq> None) (ag_cursor a) (ag_floor a + 1) (ag_floor a)"
  note sp = advance_floor_spec [OF refl floor_succ [OF assms], where P = "\<lambda>o'. e o' \<noteq> None" and cur = "ag_cursor a", folded r_def]
  have m: "max (ag_floor a) r = r" using sp(1) by (simp add: max_def)
  have ack: "abs_ack off a = (if ag_entries a off = None then a else a\<lparr>ag_entries := e, ag_floor := r\<rparr>)"
    unfolding abs_ack_def Let_def e_def [symmetric] r_def [symmetric] m by simp
  have pend: "o' < ag_cursor a \<and> (o' = 0 \<or> r < o')" if p: "e o' \<noteq> None" for o'
  proof -
    have "ag_entries a o' \<noteq> None" using p by (auto simp: e_def split: if_splits)
    then have c: "o' < ag_cursor a" "o' = 0 \<or> ag_floor a < o'" using assms unfolding floor_ok_def by blast+
    moreover have "r < o'" if "ag_floor a < o'" using sp(3) [OF that] p not_less by blast
    ultimately show ?thesis by blast
  qed
  have "ag_floor a = 0 \<or> ag_floor a < ag_cursor a" using assms by (simp add: floor_ok_def)
  then have fl: "r = 0 \<or> r < ag_cursor a" using sp(2) by auto
  have "floor_ok (a\<lparr>ag_entries := e, ag_floor := r\<rparr>)" using pend fl by (simp add: floor_ok_def)
  then show "floor_ok (abs_ack off a)" using assms by (simp add: ack)
  show "ag_cursor a \<le> ag_floor (abs_ack off a) + 1 \<or> ag_entries (abs_ack off a) (ag_floor (abs_ack off a) + 1) \<noteq> None"
    if "ag_entries a off \<noteq> None"
    using that sp(4) by (auto simp: ack)
qed

lemma abs_change_floor: "floor_ok a \<Longrightarrow> floor_ok (abs_change f off a)"
  by (auto simp: floor_ok_def abs_change_def)

lemma fold_floor: "(\<And>x a. floor_ok a \<Longrightarrow> floor_ok (f x a)) \<Longrightarrow> floor_ok a \<Longrightarrow> floor_ok (fold f xs a)"
  by (induction xs arbitrary: a) simp_all


lemma fresh_floor:
  assumes "durable cs ops" and "floor_ok (abs_cs cs)" and "fresh_call c cs"
  shows "floor_ok (abs_cs (snd (cs_step now c cs)))"
proof -
  have w: "cs_wf cs" using assms(1) by (simp add: durable_def)
  note simps = public_ops Let_def writeOp_ok applyOp_refines [OF w] abs_apply_def plain_op_def
  show ?thesis
  proof (cases c)
    case (CDeliver off cid)
    have c: "ag_cursor (abs_cs cs) \<le> off" "off + 1 \<noteq> 0" using assms(3) by (simp_all add: CDeliver abs_cs_def)
    have "off < off + 1" using succ_lt [OF c(2)] .
    then show ?thesis
      using assms(2) c unfolding floor_ok_def by (auto simp: CDeliver simps less_le_trans word_neq_0_conv [symmetric])
  qed (use assms(2,3) in \<open>auto simp: simps abs_ack_floor(1) abs_change_floor intro!: fold_floor\<close>)
qed

lemma reach_floor: "cs_reach True cs \<Longrightarrow> floor_ok (abs_cs cs)"
proof (induction rule: cs_reach.induct)
  case (create config now gid cs)
  then show ?case using durable_create(2) [of config now gid cs] by (simp add: floor_ok_def)
next
  case (call cs c now)
  then show ?case using fresh_floor reach_durable by blast
next
  case (compact cs io now)
  obtain ops where d: "durable cs ops" using reach_durable compact by blast
  then have w: "cs_wf cs" by (simp add: durable_def)
  have "abs_cs (snd (Compact now io cs)) = abs_cs cs"
    using compact_disk [OF w, of now io] entry_at_same(1) [OF _ _ w, of "snd (compactLocked now io cs)"]
    by (simp add: Let_def abs_cs_def Compact_def)
  with compact show ?case by simp
next
  case (reopen cs now gid cs')
  obtain ops where "durable cs ops" using reach_durable reopen by blast
  from durable_reopen [OF this, of now gid] reopen show ?case by auto
qed


section \<open>Replaying over a newer snapshot\<close>

text \<open>The effect of an operation on one offset, and the two shapes that a sequence of effects has.\<close>

definition eff :: "operation \<Rightarrow> u64 \<Rightarrow> cs_entry option \<Rightarrow> cs_entry option" where
  "eff op o' x =
     (case op_Type op of
        OpDeliver \<Rightarrow> if o' = op_Offset op then Some (new_entry o' (op_ConsumerID op) (op_Timestamp op) 1) else x
      | OpAck \<Rightarrow> if o' = op_Offset op then None else x
      | OpAckBatch \<Rightarrow> if o' \<in> set (op_Offsets op) then None else x
      | OpNack \<Rightarrow> if o' = op_Offset op then map_option (nacked (op_Timestamp op)) x else x
      | OpClaim \<Rightarrow> if o' = op_Offset op then map_option (claimed (op_ConsumerID op) (op_Timestamp op)) x else x
      | OpClaimBatch \<Rightarrow> fold (\<lambda>off x. if o' = off then map_option (claimed (op_ConsumerID op) (op_Timestamp op)) x else x)
                          (op_Offsets op) x
      | OpAdvanceFloor \<Rightarrow> x
      | OpSetCursor \<Rightarrow> x
      | OpRestorePending \<Rightarrow> if o' = op_Offset op then Some (new_entry o' (op_ConsumerID op) (op_Timestamp op)
             (if op_DeliveryCount op = 0 then 1 else op_DeliveryCount op)) else x
      | OpRelease \<Rightarrow> if o' = op_Offset op then map_option (released (op_Timestamp op)) x else x)"

lemma entries_abs_ack: "ag_entries (abs_ack off a) = (ag_entries a)(off := None)"
  by (auto simp: abs_ack_def Let_def fun_upd_idem)

lemma entries_ack_batch: "ag_entries (fold abs_ack offs a) o' = (if o' \<in> set offs then None else ag_entries a o')"
  by (induction offs arbitrary: a) (auto simp: entries_abs_ack)

lemma entries_claim_batch:
  "ag_entries (fold (abs_change f) offs a) o' = fold (\<lambda>off x. if o' = off then map_option f x else x) offs (ag_entries a o')"
proof (induction offs arbitrary: a)
  case (Cons off offs)
  have "ag_entries (abs_change f off a) o' = (if o' = off then map_option f (ag_entries a o') else ag_entries a o')"
    by (simp add: abs_change_def)
  then show ?case by (simp add: Cons.IH)
qed simp

lemma entries_apply: "ag_entries (abs_apply op a) o' = eff op o' (ag_entries a o')"
  by (cases "op_Type op") (simp_all add: abs_apply_def eff_def entries_abs_ack entries_ack_batch entries_claim_batch abs_change_def)

lemma entries_fold: "ag_entries (fold abs_apply ops a) o' = fold (\<lambda>op. eff op o') ops (ag_entries a o')"
  by (induction ops arbitrary: a) (simp_all add: entries_apply)

definition touched :: "string option \<Rightarrow> int option \<Rightarrow> u16 \<Rightarrow> cs_entry \<Rightarrow> cs_entry" where
  "touched c ts k e =
     e\<lparr>ce_ConsumerID := (case c of None \<Rightarrow> ce_ConsumerID e | Some c \<Rightarrow> c),
       ce_DeliveryCount := ce_DeliveryCount e + k,
       ce_LastAttempt := (case ts of None \<Rightarrow> ce_LastAttempt e | Some t \<Rightarrow> t)\<rparr>"

definition settled :: "(cs_entry option \<Rightarrow> cs_entry option) \<Rightarrow> bool" where
  "settled F \<longleftrightarrow> (\<exists>v. F = (\<lambda>_. v)) \<or> (\<exists>c ts k. F = map_option (touched c ts k))"

lemma touched_compose:
  "touched c ts k (touched c' ts' k' e) =
   touched (case c of None \<Rightarrow> c' | Some _ \<Rightarrow> c) (case ts of None \<Rightarrow> ts' | Some _ \<Rightarrow> ts) (k' + k) e"
  by (simp add: touched_def add.assoc split: option.split)

lemma touched_id: "touched None None 0 = id"
  by (rule ext) (simp add: touched_def)

lemma settled_id: "settled (\<lambda>x. x)"
proof -
  have "(\<lambda>x. x) = map_option (touched None None 0)" 
    unfolding touched_id option.map_id0 by (simp add: id_def)
  then show ?thesis unfolding settled_def by blast
qed

lemma settled_const: "settled (\<lambda>_. v)"
  by (auto simp: settled_def)

lemma settled_change: "settled (map_option (claimed c ts))" "settled (map_option (nacked ts))" "settled (map_option (released ts))"
proof -
  have "claimed c ts = touched (Some c) (Some ts) 1" "nacked ts = touched None (Some ts) 1" "released ts = touched None (Some ts) 0"
    by (rule ext, simp add: touched_def claimed_def nacked_def released_def)+
  then show "settled (map_option (claimed c ts))" "settled (map_option (nacked ts))" "settled (map_option (released ts))"
    unfolding settled_def by metis+
qed

lemma settled_compose: "settled F \<Longrightarrow> settled G \<Longrightarrow> settled (\<lambda>x. G (F x))"
proof -
  assume "settled F" "settled G"
  then consider v where "G = (\<lambda>_. v)" | c ts k v where "G = map_option (touched c ts k)" "F = (\<lambda>_. v)"
    | c ts k c' ts' k' where "G = map_option (touched c ts k)" "F = map_option (touched c' ts' k')"
    unfolding settled_def by blast
  then show ?thesis
  proof cases
    case 3
    then have "(\<lambda>x. G (F x)) = map_option (touched (case c of None \<Rightarrow> c' | Some _ \<Rightarrow> c) (case ts of None \<Rightarrow> ts' | Some _ \<Rightarrow> ts) (k' + k))"
      by (auto simp: fun_eq_iff option.map_comp comp_def touched_compose)
    then show ?thesis unfolding settled_def by blast
  qed (simp_all add: settled_const)
qed

lemma settled_fold: "(\<And>x. x \<in> set xs \<Longrightarrow> settled (g x)) \<Longrightarrow> settled (fold g xs)"
proof (induction xs)
  case Nil
  then show ?case using settled_id by (simp add: id_def)
next
  case (Cons x xs)
  have "settled (\<lambda>y. fold g xs (g x y))" using settled_compose [of "g x" "fold g xs"] Cons by simp
  then show ?case by (simp add: comp_def)
qed

lemma settled_if:
  "settled F \<Longrightarrow> settled (\<lambda>x. if b then F x else x)" "settled (If b v)"
proof -
  show "settled F \<Longrightarrow> settled (\<lambda>x. if b then F x else x)" using settled_id by (cases b) simp_all
  have "If b v = (if b then (\<lambda>_. v) else (\<lambda>x. x))" by (auto simp: fun_eq_iff)
  then show "settled (If b v)" using settled_const settled_id by simp
qed

lemma settled_eff: "settled (eff op o')"
proof -
  have b: "settled (fold (\<lambda>off x. if o' = off then map_option (claimed c ts) x else x) offs)" for c ts offs
  proof (rule settled_fold)
    fix off
    show "settled (\<lambda>x. if o' = off then map_option (claimed c ts) x else x)"
      by (rule settled_if(1) [OF settled_change(1)])
  qed
  show ?thesis
    by (cases "op_Type op") (simp_all add: eff_def [abs_def] settled_const settled_id settled_change settled_if b)
qed

text \<open>Entries up to the attempt counter.\<close>

definition uncounted :: "cs_entry \<Rightarrow> cs_entry" where
  "uncounted e = e\<lparr>ce_DeliveryCount := 0\<rparr>"

lemma settled_twice: "settled F \<Longrightarrow> map_option uncounted (F (F x)) = map_option uncounted (F x)"
  unfolding settled_def by (cases x) (auto simp: touched_def uncounted_def split: option.splits)


section \<open>The scans\<close>

lemma collect_spec:
  assumes "collect P maxCount es acc = (r, full)"
  shows "\<exists>xs. r = acc @ xs \<and> set xs \<subseteq> {e \<in> set es. P e} \<and> (full \<longrightarrow> maxCount \<le> int (length r)) \<and>
    (\<not> full \<longrightarrow> xs = filter P es) \<and> (int (length acc) < maxCount \<longrightarrow> int (length r) \<le> maxCount)"
  using assms
proof (induction es arbitrary: acc)
  case (Cons e es)
  show ?case
  proof (cases "P e")
    case True
    show ?thesis
    proof (cases "int (length (acc @ [e])) \<ge> maxCount")
      case stop: True
      then have "r = acc @ [e]" "full" using Cons.prems True by simp_all
      then show ?thesis using True stop by auto
    next
      case False
      then have "collect P maxCount es (acc @ [e]) = (r, full)" using Cons.prems True by simp
      from Cons.IH [OF this] obtain xs where "r = (acc @ [e]) @ xs" "set xs \<subseteq> {e \<in> set es. P e}"
        "full \<longrightarrow> maxCount \<le> int (length r)" "\<not> full \<longrightarrow> xs = filter P es"
        "int (length (acc @ [e])) < maxCount \<longrightarrow> int (length r) \<le> maxCount" by blast
      then show ?thesis using True False by (intro exI [of _ "e # xs"]) auto
    qed
  next
    case False
    then have "collect P maxCount es acc = (r, full)" using Cons.prems by simp
    from Cons.IH [OF this] False show ?thesis by auto
  qed
qed auto

lemma collect_room:
  "collect P maxCount es acc = (r, False) \<Longrightarrow> int (length acc) < maxCount \<Longrightarrow> int (length r) < maxCount"
  by (induction es arbitrary: acc) (auto split: if_splits)

definition all_entries :: "pel_shard list \<Rightarrow> cs_entry list" where
  "all_entries shards = concat (map (\<lambda>sh. map snd (sh_entries sh)) shards)"

lemma collect_shards_spec:
  "\<exists>xs. collect_shards P maxCount shards acc = acc @ xs \<and> set xs \<subseteq> {e \<in> set (all_entries shards). P e} \<and>
     (int (length (collect_shards P maxCount shards acc)) < maxCount \<longrightarrow> xs = filter P (all_entries shards)) \<and>
     (int (length acc) < maxCount \<longrightarrow> int (length (collect_shards P maxCount shards acc)) \<le> maxCount)"
proof (induction shards arbitrary: acc)
  case (Cons sh shards)
  obtain r full where c: "collect P maxCount (map snd (sh_entries sh)) acc = (r, full)" by (metis surj_pair)
  from collect_spec [OF c] obtain xs where xs: "r = acc @ xs" "set xs \<subseteq> {e \<in> set (map snd (sh_entries sh)). P e}"
    "full \<longrightarrow> maxCount \<le> int (length r)" "\<not> full \<longrightarrow> xs = filter P (map snd (sh_entries sh))"
    "int (length acc) < maxCount \<longrightarrow> int (length r) \<le> maxCount" by blast
  show ?case
  proof (cases full)
    case True
    then show ?thesis using xs c by (intro exI [of _ xs]) (auto simp: all_entries_def)
  next
    case False
    from Cons.IH [of r] obtain ys where ys: "collect_shards P maxCount shards r = r @ ys"
      "set ys \<subseteq> {e \<in> set (all_entries shards). P e}"
      "int (length (collect_shards P maxCount shards r)) < maxCount \<longrightarrow> ys = filter P (all_entries shards)"
      "int (length r) < maxCount \<longrightarrow> int (length (collect_shards P maxCount shards r)) \<le> maxCount" by blast
    have eq: "collect_shards P maxCount (sh # shards) acc = collect_shards P maxCount shards r" using False c by simp
    have lt: "int (length r) < maxCount" if "int (length acc) < maxCount"
      using collect_room [of P maxCount "map snd (sh_entries sh)" acc r] c False that by simp
    show ?thesis unfolding eq using xs(1,2,4) ys False lt
      by (intro exI [of _ "xs @ ys"]) (auto simp: all_entries_def)
  qed
qed (simp add: all_entries_def)


section \<open>The index by consumer\<close>

definition idx :: "(string, u64 list) gomap \<Rightarrow> string \<Rightarrow> u64 list" where
  "idx m c = (case map_of m c of None \<Rightarrow> [] | Some offs \<Rightarrow> offs)"

definition owns :: "(u64, cs_entry) gomap \<Rightarrow> string \<Rightarrow> u64 set" where
  "owns m c = {off. \<exists>e. map_of m off = Some e \<and> ce_ConsumerID e = c}"

definition idx_ok :: "pel_shard \<Rightarrow> bool" where
  "idx_ok sh \<longleftrightarrow> (\<forall>c. distinct (idx (sh_byConsumer sh) c) \<and> set (idx (sh_byConsumer sh) c) = owns (sh_entries sh) c)"

definition indexed :: "consumer_state \<Rightarrow> bool" where
  "indexed cs \<longleftrightarrow> (\<forall>sh \<in> set (cs_pelShards cs). idx_ok sh)"

lemma idx_add [simp]: "idx (index_add c off m) = (idx m)(c := List.insert off (idx m c))"
  by (auto simp: idx_def index_add_def fun_eq_iff)

lemma idx_remove [simp]: "idx (index_remove c off m) = (idx m)(c := removeAll off (idx m c))"
  by (auto simp: idx_def index_remove_def Let_def fun_eq_iff split: option.split)

lemma owns_update:
  "owns (AList.update off e m) c = (if ce_ConsumerID e = c then insert off (owns m c) else owns m c - {off})"
  by (auto simp: owns_def)

lemma owns_delete: "owns (AList.delete off m) c = owns m c - {off}"
  by (auto simp: owns_def)

lemma owns_other: "map_of m off = Some e \<Longrightarrow> ce_ConsumerID e \<noteq> c \<Longrightarrow> off \<notin> owns m c"
  by (auto simp: owns_def)

lemma idx_ok_insert:
  assumes "idx_ok sh" and "map_of (sh_entries sh) off = None"
  shows "idx_ok (sh\<lparr>sh_entries := AList.update off e (sh_entries sh),
    sh_byConsumer := index_add (ce_ConsumerID e) off (sh_byConsumer sh), sh_dirty := d\<rparr>)"
proof -
  have "off \<notin> owns (sh_entries sh) c" for c using assms(2) by (simp add: owns_def)
  then show ?thesis using assms(1) by (auto simp: idx_ok_def owns_update)
qed

lemma idx_ok_ack:
  assumes "idx_ok sh" and "map_of (sh_entries sh) off = Some e"
  shows "idx_ok (sh\<lparr>sh_byConsumer := index_remove (ce_ConsumerID e) off (sh_byConsumer sh),
    sh_entries := AList.delete off (sh_entries sh), sh_dirty := d\<rparr>)"
  using assms owns_other [OF assms(2)] by (auto simp: idx_ok_def owns_delete distinct_removeAll)

lemma idx_ok_claim:
  assumes "idx_ok sh" and "map_of (sh_entries sh) off = Some e" and "ce_ConsumerID e' = c"
  shows "idx_ok (sh\<lparr>sh_entries := AList.update off e' (sh_entries sh),
    sh_byConsumer := index_add c off (index_remove (ce_ConsumerID e) off (sh_byConsumer sh)), sh_dirty := d\<rparr>)"
  using assms owns_other [OF assms(2)] by (auto simp: idx_ok_def owns_update distinct_removeAll)

lemma idx_ok_same:
  assumes "idx_ok sh" and "map_of (sh_entries sh) off = Some e" and "ce_ConsumerID e' = ce_ConsumerID e"
  shows "idx_ok (sh\<lparr>sh_entries := AList.update off e' (sh_entries sh), sh_dirty := d\<rparr>)"
proof -
  have "owns (AList.update off e' (sh_entries sh)) c = owns (sh_entries sh) c" for c
    using assms(2,3) by (auto simp: owns_def)
  then show ?thesis using assms(1) by (simp add: idx_ok_def)
qed

lemma indexed_put: "indexed cs \<Longrightarrow> idx_ok sh \<Longrightarrow> indexed (put_shard off sh cs)"
  using set_update_subset_insert [of "cs_pelShards cs"] by (auto simp: indexed_def put_shard_def)

lemma indexed_shard: "indexed cs \<Longrightarrow> cs_wf cs \<Longrightarrow> idx_ok (shard_of cs off)"
  using ShardKey_bound [of cs off] by (simp add: indexed_def shard_of_def)

lemma indexed_simps [simp]:
  "indexed (cs\<lparr>cs_state := st\<rparr>) = indexed cs" "indexed (cs\<lparr>cs_dirty := b\<rparr>) = indexed cs"
  "indexed (cs\<lparr>cs_disk := d\<rparr>) = indexed cs" "indexed (cs\<lparr>cs_opCount := n\<rparr>) = indexed cs"
  "indexed (cs\<lparr>cs_spawned := n\<rparr>) = indexed cs"
  by (simp_all add: indexed_def)

lemma indexed_insert:
  assumes "indexed cs" and "cs_wf cs" and "entry_at cs (ce_Offset e) = None"
  shows "indexed (insert_entry e cs)"
  unfolding insert_entry_def Let_def
  using assms indexed_shard [OF assms(1,2)] by (intro indexed_put idx_ok_insert) (simp_all add: entry_at_def)

lemma indexed_ops:
  assumes "indexed cs" and "cs_wf cs"
  shows "indexed (applyAck now off cs)" "indexed (applyClaim off c ts cs)" "indexed (applyNack off ts cs)"
    and "indexed (applyRelease off ts cs)" and "entry_at cs off = None \<Longrightarrow> indexed (applyDeliver off c ts cs)"
proof -
  note ok = indexed_shard [OF assms, of off]
  have t: "indexed (tryAdvanceAckFloor now cs') = indexed cs'" for cs'
    by (simp add: tryAdvanceAckFloor_def Let_def)
  show "indexed (applyAck now off cs)"
    using assms(1) ok by (auto simp: applyAck_def Let_def t intro!: indexed_put idx_ok_ack split: option.split)
  show "indexed (applyClaim off c ts cs)"
    using assms(1) ok by (auto simp: applyClaim_def Let_def intro!: indexed_put idx_ok_claim split: option.split)
  show "indexed (applyNack off ts cs)" "indexed (applyRelease off ts cs)"
    using assms(1) ok by (auto simp: applyNack_def applyRelease_def Let_def intro!: indexed_put idx_ok_same split: option.split)
  show "indexed (applyDeliver off c ts cs)" if "entry_at cs off = None"
    unfolding applyDeliver_def Let_def by (rule indexed_insert) (simp_all add: that assms)
qed

lemma indexed_fold:
  assumes "\<And>off cs. indexed cs \<Longrightarrow> cs_wf cs \<Longrightarrow> indexed (f off cs) \<and> cs_wf (f off cs)"
  shows "indexed cs \<Longrightarrow> cs_wf cs \<Longrightarrow> indexed (fold f offs cs)"
  using assms by (induction offs arbitrary: cs) auto

text \<open>Operations that deliver only what is not pending, and logs of such operations.\<close>

definition fresh_op :: "operation \<Rightarrow> abs_group \<Rightarrow> bool" where
  "fresh_op op a \<longleftrightarrow>
     op_Type op \<notin> {OpAdvanceFloor, OpSetCursor, OpRestorePending} \<and>
     (op_Type op = OpDeliver \<longrightarrow> ag_entries a (op_Offset op) = None)"

fun fresh_log :: "abs_group \<Rightarrow> operation list \<Rightarrow> bool" where
  "fresh_log a [] = True"
| "fresh_log a (op # ops) = (fresh_op op a \<and> fresh_log (abs_apply op a) ops)"

lemma fresh_log_snoc: "fresh_log a (ops @ [op]) \<longleftrightarrow> fresh_log a ops \<and> fresh_op op (fold abs_apply ops a)"
  by (induction ops arbitrary: a) auto

lemma indexed_applyOp:
  assumes "indexed cs" and "cs_wf cs" and "fresh_op op (abs_cs cs)"
  shows "indexed (applyOp now op cs)"
proof -
  have acks: "indexed (fold (applyAck n) offs cs)" for n offs
    using indexed_fold [of "applyAck n"] indexed_ops(1) applyAck_refines(2) assms(1,2) by blast
  have claims: "indexed (fold (\<lambda>off. applyClaim off cid ts) offs cs)" for cid ts offs
    using indexed_fold [of "\<lambda>off. applyClaim off cid ts"] indexed_ops(2) applyClaim_refines(2) assms(1,2) by blast
  show ?thesis
    using assms(3) indexed_ops [OF assms(1,2)] acks claims
    by (auto simp: applyOp_def fresh_op_def abs_cs_def split: op_type.split)
qed

lemma indexed_replay:
  "indexed cs \<Longrightarrow> cs_wf cs \<Longrightarrow> fresh_log (abs_cs cs) ops \<Longrightarrow> indexed (replay now (map Some ops) cs)"
proof (induction ops arbitrary: cs)
  case (Cons op ops)
  then show ?case using Cons.IH [of "(applyOp now op cs)\<lparr>cs_opCount := cs_opCount (applyOp now op cs) + 1\<rparr>"]
    by (simp add: indexed_applyOp applyOp_refines)
qed simp

lemma fresh_step:
  assumes "fresh_call c cs" and "floor_ok (abs_cs cs)"
  shows "\<exists>op n. snd (cs_step now c cs) = snd (writeOp WriteOk op (applyOp n op cs)) \<and> fresh_op op (abs_cs cs)"
proof (cases c)
  case (CDeliver off cid)
  have "entry_at cs off = None"
    using assms by (auto simp: CDeliver floor_ok_def abs_cs_def)
  then show ?thesis
    by (intro exI [of _ "(plain_op OpDeliver off (UnixMilli now))\<lparr>op_ConsumerID := cid\<rparr>"] exI [of _ "UnixMilli now"])
       (simp add: CDeliver public_ops Let_def fresh_op_def plain_op_def abs_cs_def)
qed (use assms(1) in \<open>auto simp: public_ops Let_def fresh_op_def plain_op_def\<close>)

text \<open>Loading a shard rebuilds its index.\<close>

lemma fold_index_add:
  "distinct (map fst es) \<Longrightarrow> (\<forall>off. off \<in> fst ` set es \<longrightarrow> (\<forall>c. off \<notin> set (idx m c))) \<Longrightarrow> (\<forall>c. distinct (idx m c)) \<Longrightarrow>
   (\<forall>c. distinct (idx (fold (\<lambda>(off, e). index_add (ce_ConsumerID e) off) es m) c) \<and>
     set (idx (fold (\<lambda>(off, e). index_add (ce_ConsumerID e) off) es m) c) = set (idx m c) \<union> owns es c)"
proof (induction es arbitrary: m)
  case Nil
  then show ?case by (simp add: owns_def)
next
  case (Cons x es)
  obtain off e where x: "x = (off, e)" by (cases x)
  have fr: "map_of es off = None" using Cons.prems(1) by (simp add: x map_of_eq_None_iff)
  have o: "owns (x # es) c = (if ce_ConsumerID e = c then insert off (owns es c) else owns es c)" for c
    using fr by (auto simp: owns_def x)
  have p2: "\<forall>off'. off' \<in> fst ` set es \<longrightarrow> (\<forall>c. off' \<notin> set (idx (index_add (ce_ConsumerID e) off m) c))"
    using Cons.prems(1,2) by (auto simp: x)
  have p3: "\<forall>c. distinct (idx (index_add (ce_ConsumerID e) off m) c)" using Cons.prems(3) by simp
  from Cons.IH [OF _ p2 p3] Cons.prems(1) show ?case by (auto simp: x o [unfolded x])
qed

lemma idx_ok_load:
  assumes "disk_wf config d"
  shows "idx_ok (load_shard d i empty_shard)"
proof (cases "map_of (d_pel d) i")
  case None
  then show ?thesis by (simp add: load_shard_def empty_shard_def idx_ok_def idx_def owns_def)
next
  case (Some es)
  then have "distinct (map fst es)" using assms by (auto simp: disk_wf_def)
  from fold_index_add [OF this, of "[]"] show ?thesis
    by (simp add: load_shard_def empty_shard_def Some idx_ok_def) (simp add: idx_def)
qed


lemma open_indexed:
  assumes "NewConsumerState now None gid config d = Inr cs" and "disk_wf config d" and "d_ops d = map Some ops"
    and "fresh_log (disk_base config d) ops"
  shows "indexed cs \<and> cs_config cs = config \<and> cs_disk cs = d"
proof -
  let ?ms = "UnixMilli now"
  define cs0 where "cs0 = \<lparr>cs_groupID = gid, cs_config = config,
     cs_state = \<lparr>gs_AckFloor = 0, gs_Cursor = 0, gs_Delivered = 0, gs_CreatedAt = ?ms, gs_UpdatedAt = ?ms\<rparr>,
     cs_pelShards = replicate (NumPELShards config) empty_shard, cs_dirty = False, cs_lastSync = now,
     cs_opCount = 0, cs_snapVersion = 0, cs_spawned = 0, cs_disk = d\<rparr>"
  have l: "cs_wf (cs_load cs0)" "abs_cs (cs_load cs0) = disk_base config d" "cs_config (cs_load cs0) = config"
    "cs_disk (cs_load cs0) = d"
    using load_refines [of config cs0] assms(2) by (simp_all add: cs0_def)
  have c: "cs = replay ?ms (map Some ops) (cs_load cs0)"
    using assms(1) l(4) by (simp add: NewConsumerState_def cs0_def Let_def replayOpLog_def assms(3))
  have "cs_pelShards (cs_load cs0) = map (\<lambda>i. load_shard d i empty_shard) [0..<NumPELShards config]"
    by (auto simp: cs_load_def cs0_def Let_def split: option.splits)
  then have "indexed (cs_load cs0)" using idx_ok_load [OF assms(2)] by (auto simp: indexed_def)
  from indexed_replay [OF this l(1)] assms(4) l replay_refines [OF l(1)] show ?thesis by (simp add: c)
qed

lemma indexed_save:
  assumes "indexed cs" and "k < length (cs_pelShards cs)"
  shows "indexed (save_shard k cs)" "length (cs_pelShards (save_shard k cs)) = length (cs_pelShards cs)"
proof -
  have "idx_ok ((cs_pelShards cs ! k)\<lparr>sh_dirty := False\<rparr>)"
    using assms by (simp add: indexed_def idx_ok_def)
  then show "indexed (save_shard k cs)"
    using assms(1) set_update_subset_insert [of "cs_pelShards cs" k] by (auto simp: save_shard_def indexed_def)
  show "length (cs_pelShards (save_shard k cs)) = length (cs_pelShards cs)" by (simp add: save_shard_def)
qed

lemma indexed_saves:
  "indexed cs \<Longrightarrow> k \<le> length (cs_pelShards cs) \<Longrightarrow>
   indexed (fold save_shard [0..<k] cs) \<and> length (cs_pelShards (fold save_shard [0..<k] cs)) = length (cs_pelShards cs)"
  by (induction k) (simp_all add: indexed_save)

lemma reach_indexed:
  "cs_reach True cs \<Longrightarrow>
   indexed cs \<and> (\<exists>ops. durable cs ops \<and> fresh_log (disk_base (cs_config cs) (cs_disk cs)) ops)"
proof (induction rule: cs_reach.induct)
  case (create config now gid cs)
  have d: "durable cs []" using durable_create(1) create by blast
  have w: "disk_wf config empty_disk" using create by (simp add: disk_wf_def empty_disk_def)
  have "sh \<in> set (cs_pelShards cs) \<Longrightarrow> sh = load_shard empty_disk 0 empty_shard" for sh
    using create(3) by (auto simp: NewConsumerState_def Let_def replayOpLog_def cs_load_def empty_disk_def load_shard_def)
  then have "indexed cs" using idx_ok_load [OF w] by (auto simp: indexed_def)
  with d show ?case by force
next
  case (call cs c now)
  then obtain ops where d: "durable cs ops" "fresh_log (disk_base (cs_config cs) (cs_disk cs)) ops" by blast
  have fl: "floor_ok (abs_cs cs)" using reach_floor call by blast
  from fresh_step [OF _ fl, of c now] call obtain op n where
    st: "snd (cs_step now c cs) = snd (writeOp WriteOk op (applyOp n op cs))" "fresh_op op (abs_cs cs)" by blast
  have w: "cs_wf cs" using d(1) by (simp add: durable_def)
  have "indexed (snd (writeOp WriteOk op (applyOp n op cs)))"
    using indexed_applyOp [OF _ w st(2), of n] call by (simp add: writeOp_def Let_def)
  moreover have "fresh_log (disk_base (cs_config cs) (cs_disk cs)) (ops @ [op])"
    using d st(2) by (simp add: fresh_log_snoc durable_def)
  ultimately show ?case
    using durable_op [OF d(1), of op n] by (auto simp: st(1) writeOp_ok applyOp_frame)
next
  case (compact cs io now)
  then obtain ops where d: "durable cs ops" by blast
  have w: "cs_wf cs" using d by (simp add: durable_def)
  have "indexed (snd (Compact now io cs))"
    using compact indexed_saves [of "save_state (cs\<lparr>cs_snapVersion := cs_snapVersion cs + 1\<rparr>)"]
    by (auto simp: Compact_def compactLocked_def Let_def indexed_def save_state_def)
  with durable_compact [OF d compact(2)] show ?case by force
next
  case (reopen cs now gid cs')
  then obtain ops where d: "durable cs ops" "fresh_log (disk_base (cs_config cs) (cs_disk cs)) ops" by blast
  from durable_reopen [OF d(1), of now gid] reopen have d': "durable cs' ops" by auto
  have "indexed cs' \<and> cs_config cs' = cs_config cs \<and> cs_disk cs' = cs_disk cs"
    using open_indexed reopen(2) d by (simp add: durable_def)
  with d' d(2) show ?case by auto
qed


section \<open>What the queries see\<close>

lemma distinct_concat_keyed:
  "(\<And>i x. i < length xss \<Longrightarrow> distinct (xss ! i)) \<Longrightarrow> (\<And>i x. i < length xss \<Longrightarrow> x \<in> set (xss ! i) \<Longrightarrow> key x = i) \<Longrightarrow>
   distinct (concat xss)"
proof (induction xss rule: rev_induct)
  case (snoc xs xss)
  have d: "distinct (xss ! i)" if "i < length xss" for i
    using snoc.prems(1) [of i] that by (simp add: nth_append)
  have k: "key x = i" if "i < length xss" "x \<in> set (xss ! i)" for i x
    using snoc.prems(2) [of i x] that by (simp add: nth_append)
  have "key x < length xss" if "x \<in> set (concat xss)" for x
  proof -
    obtain i where "i < length xss" "x \<in> set (xss ! i)" using \<open>x \<in> set (concat xss)\<close> by (metis in_set_conv_nth set_concat UN_E)
    with k show ?thesis by metis
  qed
  moreover have "key x = length xss" if "x \<in> set xs" for x using snoc.prems(2) [of "length xss" x] that by simp
  moreover have "distinct xs" using snoc.prems(1) [of "length xss"] by simp
  ultimately show ?case using snoc.IH d k by (fastforce simp del: set_concat)
qed simp

lemma set_all_entries:
  assumes "cs_wf cs"
  shows "set (all_entries (cs_pelShards cs)) = ran (entry_at cs)"
proof -
  have "e \<in> ran (entry_at cs)" if i: "i < length (cs_pelShards cs)" and e: "(off, e) \<in> set (sh_entries (cs_pelShards cs ! i))" for i off e
  proof -
    have "ShardKey cs off = i" "distinct (map fst (sh_entries (cs_pelShards cs ! i)))" using assms i e by (auto simp: cs_wf_def)
    then have "entry_at cs off = Some e" using e by (simp add: entry_at_def shard_of_def)
    then show ?thesis by (rule ranI)
  qed
  moreover have "e \<in> set (all_entries (cs_pelShards cs))" if "entry_at cs off = Some e" for off e
  proof -
    have "cs_pelShards cs ! ShardKey cs off \<in> set (cs_pelShards cs)" using ShardKey_bound [OF assms] by simp
    moreover have "(off, e) \<in> set (sh_entries (cs_pelShards cs ! ShardKey cs off))"
      using map_of_SomeD that by (force simp: entry_at_def shard_of_def)
    ultimately show ?thesis by (force simp: all_entries_def)
  qed
  ultimately show ?thesis by (fastforce simp: all_entries_def ran_def in_set_conv_nth)
qed

lemma offsets_all_entries:
  assumes "cs_wf cs"
  shows "distinct (map ce_Offset (all_entries (cs_pelShards cs)))"
proof -
  let ?xss = "map (\<lambda>sh. map ce_Offset (map snd (sh_entries sh))) (cs_pelShards cs)"
  have eq: "map ce_Offset (map snd (sh_entries (cs_pelShards cs ! i))) = map fst (sh_entries (cs_pelShards cs ! i))"
    if "i < length (cs_pelShards cs)" for i
    using wf_nth(3) [OF assms that] by auto
  have "distinct (concat ?xss)"
  proof (rule distinct_concat_keyed [where key = "ShardKey cs"])
    show "distinct (?xss ! i)" if "i < length ?xss" for i
      using that wf_nth(1) [OF assms, of i] by (simp only: length_map nth_map eq)
    show "ShardKey cs x = i" if "i < length ?xss" "x \<in> set (?xss ! i)" for i x
    proof -
      have "i < length (cs_pelShards cs)" using \<open>i < length ?xss\<close> by simp
      moreover from this have "x \<in> set (map fst (sh_entries (cs_pelShards cs ! i)))"
        using \<open>x \<in> set (?xss ! i)\<close> by (simp only: nth_map eq)
      ultimately show ?thesis using wf_nth(2) [OF assms, of i] by auto
    qed
  qed
  moreover have "map ce_Offset (all_entries (cs_pelShards cs)) = concat ?xss"
    by (simp add: all_entries_def map_concat comp_def)
  ultimately show ?thesis by simp
qed

lemma PendingCount_length: "CS_PendingCount cs = length (all_entries (cs_pelShards cs))"
proof -
  have "fold (\<lambda>sh n. n + length (sh_entries sh)) shs k = k + length (all_entries shs)" for shs k
    by (induction shs arbitrary: k) (simp_all add: all_entries_def)
  then show ?thesis by (simp add: CS_PendingCount_def)
qed

lemma entry_offset: "cs_wf cs \<Longrightarrow> entry_at cs off = Some e \<Longrightarrow> ce_Offset e = off"
  using shard_wf(2) map_of_SomeD by (metis entry_at_def)

lemma CS_PendingCount_card:
  assumes "cs_wf cs"
  shows "CS_PendingCount cs = card (dom (entry_at cs))"
proof -
  let ?es = "all_entries (cs_pelShards cs)"
  have "ce_Offset ` ran (entry_at cs) = dom (entry_at cs)"
    using entry_offset [OF assms] by (force simp: ran_def dom_def image_iff)
  then have "set (map ce_Offset ?es) = dom (entry_at cs)" using set_all_entries [OF assms] by simp
  then show ?thesis
    using distinct_card [OF offsets_all_entries [OF assms]] by (simp add: PendingCount_length)
qed

lemma set_map_filter_eq: "set (List.map_filter f xs) = {y. \<exists>x \<in> set xs. f x = Some y}"
  by (induction xs) (auto simp: map_filter_simps split: option.splits)

lemma map_filter_owned:
  assumes "idx_ok sh"
  shows "set (List.map_filter (map_of (sh_entries sh)) (idx (sh_byConsumer sh) c)) =
    {e. \<exists>off. map_of (sh_entries sh) off = Some e \<and> ce_ConsumerID e = c}"
  using assms unfolding idx_ok_def set_map_filter_eq by (auto simp: owns_def)

lemma GetPendingByConsumer_spec:
  assumes "indexed cs" and "cs_wf cs"
  shows "set (GetPendingByConsumer cs c) = {e \<in> ran (entry_at cs). ce_ConsumerID e = c}"
proof -
  have g: "GetPendingByConsumer cs c =
      concat (map (\<lambda>sh. List.map_filter (map_of (sh_entries sh)) (idx (sh_byConsumer sh) c)) (cs_pelShards cs))"
    by (auto simp: GetPendingByConsumer_def idx_def map_filter_simps intro!: arg_cong [of _ _ concat] split: option.split)
  have "set (GetPendingByConsumer cs c) =
      (\<Union>sh \<in> set (cs_pelShards cs). {e. \<exists>off. map_of (sh_entries sh) off = Some e \<and> ce_ConsumerID e = c})"
    using assms(1) by (simp add: g map_filter_owned indexed_def)
  also have "\<dots> = {e \<in> set (all_entries (cs_pelShards cs)). ce_ConsumerID e = c}"
  proof -
    have "(\<exists>off. map_of (sh_entries sh) off = Some e) \<longleftrightarrow> e \<in> set (map snd (sh_entries sh))" if "sh \<in> set (cs_pelShards cs)" for sh e
    proof -
      have "distinct (map fst (sh_entries sh))" using assms(2) that by (auto simp: cs_wf_def in_set_conv_nth)
      from ran_distinct [OF this] have "e \<in> ran (map_of (sh_entries sh)) \<longleftrightarrow> e \<in> set (map snd (sh_entries sh))" by simp
      then show ?thesis by (simp only: ran_def mem_Collect_eq)
    qed
    then show ?thesis by (auto simp: all_entries_def)
  qed
  finally show ?thesis by (simp add: set_all_entries [OF assms(2)])
qed


section \<open>Properties\<close>

definition demo_config :: consumer_state_config where
  "demo_config = DefaultConsumerStateConfig\<lparr>NumPELShards := 2\<rparr>"

definition demo_state :: consumer_state where
  "demo_state = (case NewConsumerState 0 None ''g'' demo_config empty_disk of Inr cs \<Rightarrow> cs)"

lemma demo_open: "NewConsumerState 0 None ''g'' demo_config empty_disk = Inr demo_state"
  by (simp add: demo_state_def NewConsumerState_def Let_def)

lemma demo_reach: "cs_reach fresh demo_state"
  by (rule cs_reach.create [OF _ _ demo_open]) (simp_all add: demo_config_def)

definition run_calls :: "cs_call list \<Rightarrow> consumer_state \<Rightarrow> consumer_state" where
  "run_calls cs_calls cs = fold (\<lambda>c cs. snd (cs_step 0 c cs)) cs_calls cs"

text \<open>The operation a single call logs, and a run of such calls on the abstract group.\<close>

fun call_op :: "cs_call \<Rightarrow> operation" where
  "call_op (CDeliver off c) = (plain_op OpDeliver off (UnixMilli 0))\<lparr>op_ConsumerID := c\<rparr>"
| "call_op (CDeliverBatch offs c) = plain_op OpRelease 0 0"
| "call_op (CRestorePending off c t n) = (plain_op OpRestorePending off (if t = zero_time then UnixMilli 0 else UnixMilli t))
     \<lparr>op_ConsumerID := c, op_DeliveryCount := n\<rparr>"
| "call_op (CRestoreFloor off) = plain_op OpAdvanceFloor off (UnixMilli 0)"
| "call_op (CAck off) = plain_op OpAck off (UnixMilli 0)"
| "call_op (CAckBatch offs) = (plain_op OpAckBatch 0 (UnixMilli 0))\<lparr>op_Offsets := offs\<rparr>"
| "call_op (CNack off t) = plain_op OpNack off (UnixMilli t)"
| "call_op (CRelease off t) = plain_op OpRelease off (UnixMilli t)"
| "call_op (CClaim off c) = (plain_op OpClaim off (UnixMilli 0))\<lparr>op_ConsumerID := c\<rparr>"
| "call_op (CClaimBatch offs c) = (plain_op OpClaimBatch 0 (UnixMilli 0))\<lparr>op_Offsets := offs, op_ConsumerID := c\<rparr>"
| "call_op (CSetCursor off) = plain_op OpSetCursor off (UnixMilli 0)"

lemma run_calls_refines:
  "cs_wf cs \<Longrightarrow> \<forall>offs c. CDeliverBatch offs c \<notin> set calls \<Longrightarrow>
   cs_wf (run_calls calls cs) \<and> abs_cs (run_calls calls cs) = fold abs_apply (map call_op calls) (abs_cs cs)"
proof (induction calls arbitrary: cs)
  case (Cons c calls)
  have "cs_wf (snd (cs_step 0 c cs)) \<and> abs_cs (snd (cs_step 0 c cs)) = abs_apply (call_op c) (abs_cs cs)"
    using Cons.prems by (cases c) (auto simp: public_ops Let_def writeOp_ok applyOp_refines)
  with Cons.IH [of "snd (cs_step 0 c cs)"] Cons.prems(2) show ?case by (auto simp: run_calls_def)
qed (simp add: run_calls_def)

lemma demo_wf: "cs_wf demo_state"
  using reach_durable [OF demo_reach] by (auto simp: durable_def)

lemma demo_run:
  assumes "\<forall>offs c. CDeliverBatch offs c \<notin> set calls"
  shows "abs_cs (run_calls calls demo_state) = fold abs_apply (map call_op calls)
    \<lparr>ag_entries = Map.empty, ag_floor = 0, ag_cursor = 0, ag_delivered = 0\<rparr>"
proof -
  have "abs_cs demo_state = \<lparr>ag_entries = Map.empty, ag_floor = 0, ag_cursor = 0, ag_delivered = 0\<rparr>"
    by (rule durable_create(2) [OF _ _ demo_open]) (simp_all add: demo_config_def)
  with run_calls_refines [OF demo_wf assms] show ?thesis by simp
qed

lemma demo_view:
  assumes "\<forall>offs c. CDeliverBatch offs c \<notin> set calls"
  shows "entry_at (run_calls calls demo_state) = ag_entries (fold abs_apply (map call_op calls)
      \<lparr>ag_entries = Map.empty, ag_floor = 0, ag_cursor = 0, ag_delivered = 0\<rparr>)"
    and "gs_AckFloor (cs_state (run_calls calls demo_state)) = ag_floor (fold abs_apply (map call_op calls)
      \<lparr>ag_entries = Map.empty, ag_floor = 0, ag_cursor = 0, ag_delivered = 0\<rparr>)"
  unfolding demo_run [OF assms, symmetric] by (simp_all add: abs_cs_def)

lemmas demo_simps = abs_apply_def plain_op_def abs_ack_def abs_change_def Let_def advance_floor.simps max_def

text \<open>
  C35. Sharding is invisible: on the pending entries, the floor, the cursor and the delivery counter,
  every operation of the log acts as on one unsharded map, so two states that agree on them still
  agree after the same operations, however many shards each has.
\<close>

theorem shards_invisible:
  assumes "cs_wf cs" and "cs_wf cs'" and "abs_cs cs = abs_cs cs'"
  shows "abs_cs (applyOp now op cs) = abs_apply op (abs_cs cs) \<and>
    abs_cs (fold (applyOp now) ops cs) = abs_cs (fold (applyOp now') ops cs')"
  using assms by (simp add: applyOp_refines fold_applyOp)

theorem shards_invisible_witness:
  "cs_wf demo_state \<and> abs_cs (applyOp 5 (plain_op OpDeliver 3 4) demo_state) = abs_apply (plain_op OpDeliver 3 4) (abs_cs demo_state)"
proof -
  have w: "cs_wf demo_state" using reach_durable [OF demo_reach] by (auto simp: durable_def)
  from shards_invisible [OF w w refl] w show ?thesis by blast
qed

text \<open>
  C32. Reopening recovers the state. After any sequence of calls whose log writes succeeded, completed
  compactions and restarts, opening the directory again returns a state with the same pending
  entries, floor, cursor and delivery counter.
\<close>

theorem crash_recovery:
  assumes "cs_reach fresh cs"
  shows "\<exists>cs'. NewConsumerState now None (cs_groupID cs) (cs_config cs) (cs_disk cs) = Inr cs' \<and>
    (\<forall>off. GetPending cs' off = GetPending cs off) \<and>
    gs_AckFloor (GetGroupState cs') = gs_AckFloor (GetGroupState cs) \<and>
    gs_Cursor (GetGroupState cs') = gs_Cursor (GetGroupState cs) \<and>
    gs_Delivered (GetGroupState cs') = gs_Delivered (GetGroupState cs)"
proof -
  obtain ops where d: "durable cs ops" using reach_durable [OF assms] by blast
  from durable_reopen [OF d] obtain cs' where
    "NewConsumerState now None (cs_groupID cs) (cs_config cs) (cs_disk cs) = Inr cs'" "abs_cs cs' = abs_cs cs" by blast
  then show ?thesis by (auto simp: abs_cs_def GetPending_def GetGroupState_def)
qed

theorem crash_recovery_witness:
  "cs_reach False (run_calls [CDeliver 7 ''c'', CNack 7 9] demo_state) \<and>
   (\<exists>cs'. NewConsumerState 1 None (cs_groupID (run_calls [CDeliver 7 ''c'', CNack 7 9] demo_state))
      (cs_config (run_calls [CDeliver 7 ''c'', CNack 7 9] demo_state)) (cs_disk (run_calls [CDeliver 7 ''c'', CNack 7 9] demo_state)) = Inr cs' \<and>
    GetPending cs' 7 = GetPending (run_calls [CDeliver 7 ''c'', CNack 7 9] demo_state) 7)"
proof -
  let ?cs = "run_calls [CDeliver 7 ''c'', CNack 7 9] demo_state"
  have r: "cs_reach False ?cs"
    unfolding run_calls_def fold.simps comp_def id_def by (intro cs_reach.call demo_reach) simp_all
  from crash_recovery [OF r, of 1] r show ?thesis by blast
qed

text \<open>
  C33. A crash or an I/O error at any point of a compaction loses no pending entry and revives none: the
  directory it leaves reopens to the same pending offsets with the same owners, delivery times and
  last attempts. Only attempt counters may differ, since the log may be replayed over a newer
  snapshot.
\<close>

theorem compaction_crash:
  assumes "cs_reach fresh cs"
  shows "\<exists>cs'. NewConsumerState now None gid (cs_config cs) (cs_disk (snd (Compact t io cs))) = Inr cs' \<and>
    (\<forall>off. map_option uncounted (GetPending cs' off) = map_option uncounted (GetPending cs off))"
proof -
  obtain ops where d: "durable cs ops" using reach_durable [OF assms] by blast
  then have w: "cs_wf cs" and dw: "disk_wf (cs_config cs) (cs_disk cs)" and ops: "d_ops (cs_disk cs) = map Some ops"
    and a: "abs_cs cs = fold abs_apply ops (disk_base (cs_config cs) (cs_disk cs))" by (simp_all add: durable_def)
  let ?d = "cs_disk (snd (compactLocked t io cs))" and ?n = "length (cs_pelShards cs)"
  note cd = compact_disk [OF w, of t io, unfolded Let_def]
  define ops' where "ops' = (if io \<le> ?n + 1 then ops else [])"
  have o: "d_ops ?d = map Some ops'" using cd ops by (simp add: ops'_def)
  from open_refines [OF compact_disk_wf [OF w dw] o] obtain cs' where
    cs': "NewConsumerState now None gid (cs_config cs) ?d = Inr cs'" "abs_cs cs' = fold abs_apply ops' (disk_base (cs_config cs) ?d)" by blast
  have "map_option uncounted (entry_at cs' off) = map_option uncounted (entry_at cs off)" for off
  proof -
    let ?F = "fold (\<lambda>op. eff op off) ops" and ?b = "ag_entries (disk_base (cs_config cs) (cs_disk cs)) off"
    let ?b' = "ag_entries (disk_base (cs_config cs) ?d) off"
    have e: "entry_at cs off = ?F ?b" using arg_cong [OF a, of ag_entries] entries_fold [of ops _ off] by (simp add: abs_cs_def)
    have e': "entry_at cs' off = fold (\<lambda>op. eff op off) ops' ?b'"
      using arg_cong [OF cs'(2), of ag_entries] entries_fold [of ops' _ off] by (simp add: abs_cs_def)
    have b: "?b' = (if ShardKey cs off < min ?n (io - 1) then entry_at cs off else ?b)"
      using cd by (simp add: disk_base_def entry_at_def shard_of_def ShardKey_def)
    have tw: "map_option uncounted (?F (?F ?b)) = map_option uncounted (?F ?b)"
      by (rule settled_twice [OF settled_fold [OF settled_eff]])
    show ?thesis
      using ShardKey_bound [OF w, of off] tw by (auto simp: e' b e ops'_def split: if_splits)
  qed
  then show ?thesis using cs'(1) by (auto simp: Compact_def GetPending_def)
qed

theorem compaction_crash_witness:
  "cs_reach False (run_calls [CDeliver 7 ''c''] demo_state) \<and>
   (\<exists>cs'. NewConsumerState 1 None ''g'' (cs_config (run_calls [CDeliver 7 ''c''] demo_state))
      (cs_disk (snd (Compact 0 1 (run_calls [CDeliver 7 ''c''] demo_state)))) = Inr cs' \<and> GetPending cs' 7 \<noteq> None)"
proof -
  let ?cs = "run_calls [CDeliver 7 ''c''] demo_state"
  have r: "cs_reach False ?cs"
    unfolding run_calls_def fold.simps comp_def id_def by (intro cs_reach.call demo_reach) simp_all
  have p: "GetPending ?cs 7 \<noteq> None"
    using demo_view(1) [of "[CDeliver 7 ''c'']"] by (simp add: GetPending_def demo_simps)
  from compaction_crash [OF r, of 1 "''g''" 0 1] obtain cs' where
    "NewConsumerState 1 None ''g'' (cs_config ?cs) (cs_disk (snd (Compact 0 1 ?cs))) = Inr cs'"
    "map_option uncounted (GetPending cs' 7) = map_option uncounted (GetPending ?cs 7)" by blast
  with r p show ?thesis by (metis map_option_is_None)
qed


text \<open>
  C34. The acknowledgement floor is safe and tight. While deliveries are of fresh offsets, every pending
  offset other than zero is above the floor and every pending offset is below the cursor; and after
  an acknowledgement that settled an entry, the offset after the floor is pending or not yet
  delivered.
\<close>

theorem ack_floor_contiguous:
  assumes "cs_reach True cs"
  shows "(GetPending cs off \<noteq> None \<longrightarrow> off < gs_Cursor (GetGroupState cs) \<and> (off = 0 \<or> gs_AckFloor (GetGroupState cs) < off)) \<and>
    (GetPending cs off \<noteq> None \<longrightarrow>
      (let cs' = snd (CS_Ack now WriteOk off cs); next_off = gs_AckFloor (GetGroupState cs') + 1 in
       gs_AckFloor (GetGroupState cs) \<le> gs_AckFloor (GetGroupState cs') \<and>
       (gs_Cursor (GetGroupState cs') \<le> next_off \<or> GetPending cs' next_off \<noteq> None)))"
proof -
  obtain ops where "durable cs ops" using reach_durable [OF assms] by blast
  then have w: "cs_wf cs" by (simp add: durable_def)
  have fl: "floor_ok (abs_cs cs)" by (rule reach_floor [OF assms])
  let ?op = "plain_op OpAck off (UnixMilli now)"
  define cs' where "cs' = snd (CS_Ack now WriteOk off cs)"
  have a: "abs_cs cs' = abs_ack off (abs_cs cs)"
    by (simp add: cs'_def public_ops Let_def writeOp_ok applyOp_refines [OF w]) (simp add: abs_apply_def plain_op_def)
  have v: "GetPending cs' = ag_entries (abs_ack off (abs_cs cs))" "gs_AckFloor (GetGroupState cs') = ag_floor (abs_ack off (abs_cs cs))"
    "gs_Cursor (GetGroupState cs') = ag_cursor (abs_cs cs)"
    using arg_cong [OF a, of ag_entries] arg_cong [OF a, of ag_floor] arg_cong [OF a, of ag_cursor]
    by (simp_all add: abs_cs_def GetPending_def fun_eq_iff GetGroupState_def) (simp add: abs_ack_def Let_def)
  have mono: "ag_floor (abs_cs cs) \<le> ag_floor (abs_ack off (abs_cs cs))" by (simp add: abs_ack_def Let_def)
  have p: "GetPending cs off = ag_entries (abs_cs cs) off" by (simp add: GetPending_def abs_cs_def)
  have g: "gs_AckFloor (GetGroupState cs) = ag_floor (abs_cs cs)" "gs_Cursor (GetGroupState cs) = ag_cursor (abs_cs cs)"
    by (simp_all add: GetGroupState_def abs_cs_def)
  have "GetPending cs off \<noteq> None \<longrightarrow> off < gs_Cursor (GetGroupState cs) \<and> (off = 0 \<or> gs_AckFloor (GetGroupState cs) < off)"
    using fl unfolding p g floor_ok_def by blast
  moreover have "ag_cursor (abs_cs cs) \<le> ag_floor (abs_ack off (abs_cs cs)) + 1 \<or>
      ag_entries (abs_ack off (abs_cs cs)) (ag_floor (abs_ack off (abs_cs cs)) + 1) \<noteq> None" if "GetPending cs off \<noteq> None"
    using abs_ack_floor(2) [OF fl] that unfolding p .
  ultimately show ?thesis
    unfolding Let_def cs'_def [symmetric] v g using mono by blast
qed

theorem ack_floor_contiguous_witness:
  "cs_reach True (run_calls [CDeliver 1 ''c''] demo_state) \<and> gs_AckFloor (GetGroupState (run_calls [CDeliver 1 ''c''] demo_state)) < 1"
proof -
  let ?cs = "run_calls [CDeliver 1 ''c''] demo_state"
  have r: "cs_reach True ?cs"
    unfolding run_calls_def fold.simps comp_def id_def
    by (intro cs_reach.call demo_reach) (simp add: demo_state_def NewConsumerState_def Let_def replayOpLog_def cs_load_def empty_disk_def)
  have "GetPending ?cs 1 \<noteq> None" using demo_view(1) [of "[CDeliver 1 ''c'']"] by (simp add: GetPending_def demo_simps)
  with ack_floor_contiguous [OF r, of 1 0] r show ?thesis by simp
qed




section \<open>Where the code falls short of its contract\<close>

text \<open>
  The floor skips offset zero. The loop of \<^verbatim>\<open>tryAdvanceAckFloor\<close> starts at the offset after the floor, and the
  floor starts at zero, so an acknowledgement of offset one moves the floor past offset zero while it is
  still pending. The field is documented as the offset up to which everything is done.
\<close>

theorem floor_skips_zero:
  "gs_AckFloor (cs_state (run_calls [CDeliver 0 ''a'', CDeliver 1 ''b'', CAck 1] demo_state)) = 1 \<and>
   GetPending (run_calls [CDeliver 0 ''a'', CDeliver 1 ''b'', CAck 1] demo_state) 0 \<noteq> None"
  using demo_view [of "[CDeliver 0 ''a'', CDeliver 1 ''b'', CAck 1]"] by (simp add: GetPending_def demo_simps)


text \<open>
  A crash inside a compaction can move the floor past a pending entry. With the group state saved and the
  shards not, the log replays against the newer cursor: the acknowledgement of offset one then advances
  the floor over offset two, which the log delivers only afterwards.
\<close>

lemma run_calls_disk:
  "\<forall>offs c. CDeliverBatch offs c \<notin> set calls \<Longrightarrow>
   cs_config (run_calls calls cs) = cs_config cs \<and>
   cs_disk (run_calls calls cs) = (cs_disk cs)\<lparr>d_ops := d_ops (cs_disk cs) @ map (\<lambda>c. Some (call_op c)) calls\<rparr>"
proof (induction calls arbitrary: cs)
  case (Cons c calls)
  have "cs_config (snd (cs_step 0 c cs)) = cs_config cs \<and>
      cs_disk (snd (cs_step 0 c cs)) = (cs_disk cs)\<lparr>d_ops := d_ops (cs_disk cs) @ [Some (call_op c)]\<rparr>"
    using Cons.prems by (cases c) (auto simp: public_ops Let_def writeOp_ok applyOp_frame)
  with Cons.IH [of "snd (cs_step 0 c cs)"] Cons.prems show ?case by (auto simp: run_calls_def)
qed (simp add: run_calls_def)

lemma demo_disk: "cs_config demo_state = demo_config" "cs_disk demo_state = empty_disk"
  using open_refines [of demo_config empty_disk "[]" 0 "''g''"] demo_open
  by (simp_all add: disk_wf_def demo_config_def empty_disk_def)

theorem compaction_crash_floor:
  "let cs = run_calls [CDeliver 1 ''a'', CAck 1, CDeliver 2 ''b''] demo_state in
   gs_AckFloor (cs_state cs) = 1 \<and>
   (\<exists>cs'. NewConsumerState 1 None ''g'' (cs_config cs) (cs_disk (snd (Compact 0 1 cs))) = Inr cs' \<and>
      gs_AckFloor (cs_state cs') = 2 \<and> GetPending cs' 2 \<noteq> None)"
proof -
  let ?calls = "[CDeliver 1 ''a'', CAck 1, CDeliver 2 ''b'']"
  define cs where "cs = run_calls ?calls demo_state"
  have nb: "\<forall>offs c. CDeliverBatch offs c \<notin> set ?calls" by simp
  have w: "cs_wf cs" using run_calls_refines [OF demo_wf nb] by (simp add: cs_def)
  have dk: "cs_config cs = demo_config" "cs_disk cs = empty_disk\<lparr>d_ops := map (\<lambda>c. Some (call_op c)) ?calls\<rparr>"
    using run_calls_disk [OF nb, of demo_state] by (simp_all add: cs_def demo_disk empty_disk_def)
  have st: "gs_AckFloor (cs_state cs) = 1" "gs_Cursor (cs_state cs) = 3"
    using demo_run [OF nb] by (simp_all add: cs_def [symmetric] abs_cs_def demo_simps)
  let ?d = "cs_disk (snd (compactLocked 0 1 cs))"
  note cd = compact_disk [OF w, of 0 1, unfolded Let_def, simplified]
  have ops: "d_ops ?d = map Some (map call_op ?calls)" using cd by (simp add: dk)
  have dw: "disk_wf demo_config ?d"
    using compact_disk_wf [OF w, of 0 1] by (simp add: dk disk_wf_def demo_config_def empty_disk_def)
  have base: "disk_base demo_config ?d = \<lparr>ag_entries = Map.empty, ag_floor = 1, ag_cursor = 3,
      ag_delivered = gs_Delivered (cs_state cs)\<rparr>"
    using cd st by (simp add: disk_base_def dk empty_disk_def fun_eq_iff)
  from open_refines [OF dw ops, of 1 "''g''"] obtain cs' where
    cs': "NewConsumerState 1 None ''g'' demo_config ?d = Inr cs'" "abs_cs cs' = fold abs_apply (map call_op ?calls) (disk_base demo_config ?d)"
    by blast
  have "ag_floor (abs_cs cs') = 2" "ag_entries (abs_cs cs') 2 \<noteq> None"
    unfolding cs'(2) base by (simp_all add: demo_simps word_le_nat_alt)
  then show ?thesis
    using cs'(1) st(1) unfolding Let_def cs_def [symmetric] by (auto simp: dk Compact_def abs_cs_def GetPending_def)
qed

text \<open>
  A torn write hides every later operation. Replay stops at the first line that does not decode, and the
  log keeps that line: what is logged after it reports success and is lost at the next restart.
\<close>

theorem torn_write_hides_later:
  "fst (CS_Deliver 0 WriteOk 9 ''c'' (snd (CS_Ack 0 WriteTorn 5 demo_state))) = None \<and>
   (\<exists>cs'. NewConsumerState 1 None ''g'' demo_config
        (cs_disk (snd (CS_Deliver 0 WriteOk 9 ''c'' (snd (CS_Ack 0 WriteTorn 5 demo_state))))) = Inr cs' \<and>
      GetPending cs' 9 = None)"
proof -
  let ?cs = "snd (CS_Deliver 0 WriteOk 9 ''c'' (snd (CS_Ack 0 WriteTorn 5 demo_state)))"
  have ops: "cs_disk ?cs = empty_disk\<lparr>d_ops := [None, Some (call_op (CDeliver 9 ''c''))]\<rparr>"
    by (simp add: public_ops Let_def writeOp_ok applyOp_frame) (simp add: writeOp_def Let_def applyOp_frame demo_disk empty_disk_def)
  define cs' where "cs' = (case NewConsumerState 1 None ''g'' demo_config (cs_disk ?cs) of Inr cs \<Rightarrow> cs)"
  have n: "NewConsumerState 1 None ''g'' demo_config (cs_disk ?cs) = Inr cs'"
    by (simp add: cs'_def NewConsumerState_def Let_def)
  have e: "sh_entries sh = []" if "sh \<in> set (cs_pelShards cs')" for sh
    using n that by (auto simp: NewConsumerState_def Let_def ops replayOpLog_def cs_load_def load_shard_def empty_disk_def empty_shard_def)
  have "ShardKey cs' 9 < length (cs_pelShards cs')"
    using n by (auto simp: NewConsumerState_def Let_def ops replayOpLog_def cs_load_def empty_disk_def ShardKey_def demo_config_def)
  then have "GetPending cs' 9 = None" using e by (simp add: GetPending_def entry_at_def shard_of_def)
  moreover have "fst (CS_Deliver 0 WriteOk 9 ''c'' cs) = None" for cs by (simp add: public_ops Let_def writeOp_ok)
  ultimately show ?thesis using n by blast
qed

end
