(* ===== verification/Group_Adapter.thy ===== *)
theory Group_Adapter
  imports Log_Groups Mem_Log Consumer_State_Props
begin

text \<open>
  The consumer group half of \<^verbatim>\<open>logstorage/adapter.go\<close>: the group store of the queue manager. The metadata
  store keeps the group objects, the log store keeps cursor and pending entries; each operation updates
  both, and reading a group of mode other than stream copies cursor and pending entries from the log store
  into the object. The objects of the metadata store are shared pointers, so what one call writes into a
  group every holder of it sees: a group is named by its queue and id and read with \<open>group_at\<close>.
\<close>

record adapter =
  ad_store :: log_groups
  ad_groups :: group_files

datatype adapter_error = FromStorage store_error | FromLog logstorage_error

definition pelEntryToTypes :: "pel_entry \<Rightarrow> pending_entry" where
  "pelEntryToTypes entry =
     \<lparr>pe_Offset = pl_Offset entry, pe_ConsumerID = pl_ConsumerID entry,
      pe_ClaimedAt = of_UnixMilli (pl_ClaimedAt entry), pe_DeliveryCount = int (unat (pl_DeliveryCount entry))\<rparr>"

definition pendingEntryToTypes :: "cs_entry \<Rightarrow> pending_entry" where
  "pendingEntryToTypes entry =
     \<lparr>pe_Offset = ce_Offset entry, pe_ConsumerID = ce_ConsumerID entry,
      pe_ClaimedAt = of_UnixMilli (ce_LastAttempt entry), pe_DeliveryCount = int (unat (ce_DeliveryCount entry))\<rparr>"

definition typesToPelEntry :: "pending_entry \<Rightarrow> pel_entry" where
  "typesToPelEntry entry =
     \<lparr>pl_Offset = pe_Offset entry, pl_ConsumerID = pe_ConsumerID entry, pl_ClaimedAt = UnixMilli (pe_ClaimedAt entry),
      pl_DeliveryCount = of_int (pe_DeliveryCount entry)\<rparr>"


section \<open>Synchronising a group from the log store\<close>

definition syncCursorsFromStore :: "instant \<Rightarrow> string \<Rightarrow> string \<Rightarrow> log_groups \<Rightarrow> consumer_group \<Rightarrow> consumer_group" where
  "syncCursorsFromStore now queueName groupID s g =
     (case GetCursorState s queueName groupID of
        Inl _ \<Rightarrow> g | Inr c \<Rightarrow> SetCursorPosition now (cu_Cursor c) g)"

definition syncPELFromStore :: "instant \<Rightarrow> string \<Rightarrow> string \<Rightarrow> log_groups \<Rightarrow> consumer_group \<Rightarrow> consumer_group" where
  "syncPELFromStore now queueName groupID s g =
     (case GetAllPending s queueName groupID of
        Inl _ \<Rightarrow> g
      | Inr allEntries \<Rightarrow> ReplacePEL now (map (\<lambda>(c, es). (c, map pelEntryToTypes es)) allEntries) g)"

definition put_object :: "string \<Rightarrow> string \<Rightarrow> consumer_group \<Rightarrow> adapter \<Rightarrow> adapter" where
  "put_object queueName groupID g a = a\<lparr>ad_groups := set_group queueName groupID g (ad_groups a)\<rparr>"

definition A_GetConsumerGroup ::
  "instant \<Rightarrow> string \<Rightarrow> string \<Rightarrow> adapter \<Rightarrow> (adapter_error + consumer_group) \<times> adapter" where
  "A_GetConsumerGroup now queueName groupID a =
     (case Group_Get (ad_groups a) queueName groupID of
        Inl err \<Rightarrow> (Inl (FromLog err), a)
      | Inr g \<Rightarrow>
          if cg_Mode g = GroupModeStream then (Inr g, a)
          else (let g = syncPELFromStore now queueName groupID (ad_store a)
                          (syncCursorsFromStore now queueName groupID (ad_store a) g)
                in (Inr g, put_object queueName groupID g a)))"

text \<open>\<^verbatim>\<open>a.groupStore.Get\<close>, a change of the object, and \<^verbatim>\<open>Save\<close>; a group that is gone is left alone.\<close>

definition change_and_save ::
  "string \<Rightarrow> string \<Rightarrow> (consumer_group \<Rightarrow> consumer_group) \<Rightarrow> adapter \<Rightarrow> adapter_error option \<times> adapter" where
  "change_and_save queueName groupID f a =
     (case Group_Get (ad_groups a) queueName groupID of
        Inl _ \<Rightarrow> (None, a)
      | Inr g \<Rightarrow>
          (let (err, files) = Save (f g) (ad_groups a)
           in (map_option FromLog err, a\<lparr>ad_groups := files\<rparr>)))"


section \<open>Operations\<close>

fun restore_entries ::
  "instant \<Rightarrow> string \<Rightarrow> string \<Rightarrow> pending_entry list \<Rightarrow> log_groups \<Rightarrow> logstorage_error option \<times> log_groups" where
  "restore_entries now queueName groupID [] s = (None, s)"
| "restore_entries now queueName groupID (entry # entries) s =
     (case LS_RestorePending now queueName groupID (typesToPelEntry entry) s of
        (Some err, s) \<Rightarrow> (Some err, s)
      | (None, s) \<Rightarrow> restore_entries now queueName groupID entries s)"

definition seed_store :: "instant \<Rightarrow> group_snapshot \<Rightarrow> log_groups \<Rightarrow> logstorage_error option \<times> log_groups" where
  "seed_store now snapshot s =
     (let q = sn_QueueName snapshot; g = sn_ID snapshot
      in (case LS_CreateConsumerGroup now q g s of
            (Some err, s) \<Rightarrow> (Some err, s)
          | (None, s) \<Rightarrow>
              (case restore_entries now q g (concat (map snd (sn_PEL snapshot))) s of
                 (Some err, s) \<Rightarrow> (Some err, s)
               | (None, s) \<Rightarrow>
                   (case (if qc_Committed (sn_Cursor snapshot) > 0
                          then LS_RestoreAckFloor now q g (qc_Committed (sn_Cursor snapshot)) s else (None, s)) of
                      (Some err, s) \<Rightarrow> (Some err, s)
                    | (None, s) \<Rightarrow>
                        if qc_Cursor (sn_Cursor snapshot) > 0
                        then LS_SetCursor now q g (qc_Cursor (sn_Cursor snapshot)) s else (None, s)))))"

definition seedConsumerState :: "instant \<Rightarrow> consumer_group \<Rightarrow> adapter \<Rightarrow> adapter_error option \<times> adapter" where
  "seedConsumerState now g a =
     (if cg_Mode g = GroupModeStream then (None, a)
      else (let (err, s) = seed_store now (Group_Snapshot g) (ad_store a)
            in (map_option FromLog err, a\<lparr>ad_store := s\<rparr>)))"

definition A_CreateConsumerGroup :: "instant \<Rightarrow> consumer_group \<Rightarrow> adapter \<Rightarrow> adapter_error option \<times> adapter" where
  "A_CreateConsumerGroup now g a =
     (case Group_Get (ad_groups a) (cg_QueueName g) (cg_ID g) of
        Inr _ \<Rightarrow> (Some (FromStorage ErrConsumerGroupExists), a)
      | Inl _ \<Rightarrow>
          (case Save g (ad_groups a) of
             (Some err, files) \<Rightarrow> (Some (FromLog err), a\<lparr>ad_groups := files\<rparr>)
           | (None, files) \<Rightarrow> seedConsumerState now g (a\<lparr>ad_groups := files\<rparr>)))"

definition A_UpdateConsumerGroup :: "instant \<Rightarrow> consumer_group \<Rightarrow> adapter \<Rightarrow> adapter_error option \<times> adapter" where
  "A_UpdateConsumerGroup now g a =
     (let (err, files) = Save (touch now g) (ad_groups a)
      in (map_option FromLog err, a\<lparr>ad_groups := files\<rparr>))"

definition A_DeleteConsumerGroup :: "string \<Rightarrow> string \<Rightarrow> adapter \<Rightarrow> adapter_error option \<times> adapter" where
  "A_DeleteConsumerGroup queueName groupID a =
     (let (err, files) = Group_Delete queueName groupID (ad_groups a)
      in (map_option FromLog err, a\<lparr>ad_groups := files\<rparr>))"

definition A_ListConsumerGroups :: "adapter \<Rightarrow> string \<Rightarrow> consumer_group list" where
  "A_ListConsumerGroups a queueName = Group_List (ad_groups a) queueName"

definition storage_error :: "logstorage_error \<Rightarrow> adapter_error" where
  "storage_error err = (if err = ErrPELEntryNotFound then FromStorage ErrPendingEntryNotFound else FromLog err)"

definition A_AddPendingEntry ::
  "instant \<Rightarrow> string \<Rightarrow> string \<Rightarrow> pending_entry \<Rightarrow> adapter \<Rightarrow> adapter_error option \<times> adapter" where
  "A_AddPendingEntry now queueName groupID entry a =
     (case LS_AddPending now queueName groupID (typesToPelEntry entry) (ad_store a) of
        (Some err, s) \<Rightarrow> (Some (FromLog err), a\<lparr>ad_store := s\<rparr>)
      | (None, s) \<Rightarrow>
          change_and_save queueName groupID (AddPending now (pe_ConsumerID entry) entry) (a\<lparr>ad_store := s\<rparr>))"

definition remove_settled :: "instant \<Rightarrow> string \<Rightarrow> u64 \<Rightarrow> consumer_group \<Rightarrow> consumer_group" where
  "remove_settled now consumerID off g =
     (let owner = snd (FindPending g off)
      in snd (RemovePending now (if owner \<noteq> [] then owner else consumerID) off g))"

definition A_RemovePendingEntry ::
  "instant \<Rightarrow> string \<Rightarrow> string \<Rightarrow> string \<Rightarrow> u64 \<Rightarrow> adapter \<Rightarrow> adapter_error option \<times> adapter" where
  "A_RemovePendingEntry now queueName groupID consumerID off a =
     (case LS_AckPending now queueName groupID off (ad_store a) of
        (Some err, s) \<Rightarrow> (Some (storage_error err), a\<lparr>ad_store := s\<rparr>)
      | (None, s) \<Rightarrow>
          change_and_save queueName groupID (remove_settled now consumerID off) (a\<lparr>ad_store := s\<rparr>))"

definition A_GetPendingEntries ::
  "string \<Rightarrow> string \<Rightarrow> string \<Rightarrow> adapter \<Rightarrow> adapter_error + pending_entry list" where
  "A_GetPendingEntries queueName groupID consumerID a =
     map_sum FromLog (map pendingEntryToTypes) (LS_GetPendingByConsumer (ad_store a) queueName groupID consumerID)"

definition A_GetAllPendingEntries ::
  "instant \<Rightarrow> string \<Rightarrow> string \<Rightarrow> adapter \<Rightarrow> (adapter_error + pending_entry list) \<times> adapter" where
  "A_GetAllPendingEntries now queueName groupID a =
     (case Group_Get (ad_groups a) queueName groupID of
        Inl err \<Rightarrow> (Inl (FromLog err), a)
      | Inr g \<Rightarrow>
          (let g = syncPELFromStore now queueName groupID (ad_store a) g
           in (Inr (concat (map snd (cg_PEL g))), put_object queueName groupID g a)))"

definition A_TransferPendingEntry ::
  "instant \<Rightarrow> string \<Rightarrow> string \<Rightarrow> u64 \<Rightarrow> string \<Rightarrow> string \<Rightarrow> adapter \<Rightarrow> adapter_error option \<times> adapter" where
  "A_TransferPendingEntry now queueName groupID off fromConsumer toConsumer a =
     (case A_GetConsumerGroup now queueName groupID a of
        (Inl err, a) \<Rightarrow> (Some err, a)
      | (Inr current, a) \<Rightarrow>
          if snd (FindPending current off) \<noteq> fromConsumer
          then (Some (FromStorage ErrPendingEntryNotFound), a)
          else (case LS_ClaimPending now queueName groupID off toConsumer (ad_store a) of
                  (Some err, s) \<Rightarrow> (Some (storage_error err), a\<lparr>ad_store := s\<rparr>)
                | (None, s) \<Rightarrow>
                    change_and_save queueName groupID (\<lambda>g. snd (TransferPending now off fromConsumer toConsumer g))
                      (a\<lparr>ad_store := s\<rparr>)))"

definition A_RequeuePendingEntry ::
  "instant \<Rightarrow> string \<Rightarrow> string \<Rightarrow> string \<Rightarrow> u64 \<Rightarrow> instant \<Rightarrow> adapter \<Rightarrow> adapter_error option \<times> adapter" where
  "A_RequeuePendingEntry now queueName groupID consumerID off attemptedAt a =
     (case Group_Get (ad_groups a) queueName groupID of
        Inl err \<Rightarrow> (Some (FromLog err), a)
      | Inr g \<Rightarrow>
          (let owner = snd (FindPending g off)
           in if owner = [] then (Some (FromStorage ErrPendingEntryNotFound), a)
              else if owner \<noteq> consumerID then (Some (FromStorage ErrConsumerNotFound), a)
              else (case LS_ReleaseAt queueName groupID off attemptedAt (ad_store a) of
                      (Some err, s) \<Rightarrow> (Some (storage_error err), a\<lparr>ad_store := s\<rparr>)
                    | (None, s) \<Rightarrow>
                        (case RequeuePending now off consumerID attemptedAt g of
                           (False, _) \<Rightarrow> (Some (FromStorage ErrPendingEntryNotFound), a\<lparr>ad_store := s\<rparr>)
                         | (True, g) \<Rightarrow>
                             (let (err, files) = Save g (ad_groups a)
                              in (map_option FromLog err, a\<lparr>ad_store := s, ad_groups := files\<rparr>))))))"

definition A_UpdateCursor :: "instant \<Rightarrow> string \<Rightarrow> string \<Rightarrow> u64 \<Rightarrow> adapter \<Rightarrow> adapter_error option \<times> adapter" where
  "A_UpdateCursor now queueName groupID cursor a =
     (case LS_SetCursor now queueName groupID cursor (ad_store a) of
        (Some err, s) \<Rightarrow> (Some (FromLog err), a\<lparr>ad_store := s\<rparr>)
      | (None, s) \<Rightarrow> change_and_save queueName groupID (SetCursorPosition now cursor) (a\<lparr>ad_store := s\<rparr>))"

definition A_UpdateCommitted :: "instant \<Rightarrow> string \<Rightarrow> string \<Rightarrow> u64 \<Rightarrow> adapter \<Rightarrow> adapter_error option \<times> adapter" where
  "A_UpdateCommitted now queueName groupID committed a =
     change_and_save queueName groupID (AdvanceCommitted now committed) a"

definition on_group ::
  "string \<Rightarrow> string \<Rightarrow> (consumer_group \<Rightarrow> consumer_group) \<Rightarrow> adapter \<Rightarrow> adapter_error option \<times> adapter" where
  "on_group queueName groupID f a =
     (case Group_Get (ad_groups a) queueName groupID of
        Inl err \<Rightarrow> (Some (FromLog err), a)
      | Inr g \<Rightarrow>
          (let (err, files) = Save (f g) (ad_groups a)
           in (map_option FromLog err, a\<lparr>ad_groups := files\<rparr>)))"

definition A_RegisterConsumer :: "instant \<Rightarrow> string \<Rightarrow> string \<Rightarrow> consumer_info \<Rightarrow> adapter \<Rightarrow> adapter_error option \<times> adapter" where
  "A_RegisterConsumer now queueName groupID c = on_group queueName groupID (SetConsumer now (ci_ID c) c)"

definition A_UnregisterConsumer :: "instant \<Rightarrow> string \<Rightarrow> string \<Rightarrow> string \<Rightarrow> adapter \<Rightarrow> adapter_error option \<times> adapter" where
  "A_UnregisterConsumer now queueName groupID consumerID = on_group queueName groupID (DeleteConsumer now consumerID)"

definition A_ListConsumers :: "string \<Rightarrow> string \<Rightarrow> adapter \<Rightarrow> adapter_error + consumer_info list" where
  "A_ListConsumers queueName groupID a =
     map_sum FromLog (\<lambda>g. ForEachConsumer (\<lambda>_ info result. (True, result @ [info])) g [])
       (Group_Get (ad_groups a) queueName groupID)"

end
