(* ===== verification/Claim_Filter.thy ===== *)
theory Claim_Filter
  imports Consumer_Group
begin

text \<open>
  \<^verbatim>\<open>queue/consumer/filter.go\<close>: the routing key filters of queue consumers, and the default group of a
  client (\<^verbatim>\<open>groupid.go\<close>). A pattern with wildcards is compiled to a regular expression; the expressions
  that can arise are sequences of literal bytes, \<^verbatim>\<open>[^/]+\<close> and \<^verbatim>\<open>.*\<close>, so a compiled expression is such a
  sequence and \<open>rx_match\<close> says when it matches a whole string. A dot does not match a newline, and a
  pattern that is not UTF-8 does not compile.
\<close>

section \<open>Compiled patterns\<close>

datatype rx = Lit char | OneLevel | AnyText

fun rx_match :: "rx list \<Rightarrow> string \<Rightarrow> bool" where
  "rx_match [] s \<longleftrightarrow> s = []"
| "rx_match (Lit c # r) s \<longleftrightarrow> (case s of [] \<Rightarrow> False | d # s' \<Rightarrow> c = d \<and> rx_match r s')"
| "rx_match (OneLevel # r) s \<longleftrightarrow>
     (case s of [] \<Rightarrow> False | d # s' \<Rightarrow> d \<noteq> CHR ''/'' \<and> (rx_match r s' \<or> rx_match (OneLevel # r) s'))"
| "rx_match (AnyText # r) s \<longleftrightarrow>
     rx_match r s \<or> (case s of [] \<Rightarrow> False | d # s' \<Rightarrow> d \<noteq> CHR 0x0A \<and> rx_match (AnyText # r) s')"

definition rx_token :: "char \<Rightarrow> rx" where
  "rx_token c = (if c = CHR ''+'' then OneLevel else if c = CHR ''#'' then AnyText else Lit c)"

definition compilePattern :: "string \<Rightarrow> rx list option" where
  "compilePattern pattern = (if utf8_valid pattern then Some (map rx_token pattern) else None)"


section \<open>Filters\<close>

record claim_filter =
  cf_pattern :: string
  cf_regex :: "rx list option"
  cf_isExact :: bool
  cf_matchAll :: bool

definition NewFilter :: "string \<Rightarrow> claim_filter" where
  "NewFilter pattern =
     (let f = \<lparr>cf_pattern = pattern, cf_regex = None, cf_isExact = False, cf_matchAll = False\<rparr>
      in if pattern = [] \<or> pattern = ''#'' then f\<lparr>cf_matchAll := True\<rparr>
         else if \<not> contains_char pattern (CHR ''+'') \<and> \<not> contains_char pattern (CHR ''#'')
         then f\<lparr>cf_isExact := True\<rparr>
         else f\<lparr>cf_regex := compilePattern pattern\<rparr>)"

definition Filter_Matches :: "claim_filter \<Rightarrow> string \<Rightarrow> bool" where
  "Filter_Matches f routingKey =
     (if cf_matchAll f then True
      else if cf_isExact f then routingKey = cf_pattern f
      else (case cf_regex f of Some r \<Rightarrow> rx_match r routingKey | None \<Rightarrow> False))"

definition Filter_Pattern :: "claim_filter \<Rightarrow> string" where
  "Filter_Pattern f = cf_pattern f"

definition IsWildcard :: "claim_filter \<Rightarrow> bool" where
  "IsWildcard f = (\<not> cf_isExact f)"

definition ParseQueueSubscription :: "string \<Rightarrow> string \<times> string" where
  "ParseQueueSubscription topic =
     (if \<not> has_prefix topic queue_prefix then ([], [])
      else (let rest = drop (length queue_prefix) topic
            in if rest = [] then ([], [])
               else (case str_cut (CHR ''/'') rest of (name, pattern, found) \<Rightarrow>
                       (queue_prefix @ name, if found then pattern else []))))"

definition MatchesSubscription :: "string \<Rightarrow> string \<Rightarrow> bool" where
  "MatchesSubscription publishTopic subscriptionPattern =
     (let (subRoot, subFilter) = ParseQueueSubscription subscriptionPattern
      in if subRoot = [] then False
         else (let (pubRoot, pubRoutingKey) = ParseQueueSubscription publishTopic
               in if pubRoot = [] then False
                  else if subRoot \<noteq> pubRoot then False
                  else Filter_Matches (NewFilter subFilter) pubRoutingKey))"

type_synonym filter_set = "claim_filter list"

definition NewFilterSet :: filter_set where "NewFilterSet = []"

definition FilterSet_Add :: "string \<Rightarrow> filter_set \<Rightarrow> filter_set" where
  "FilterSet_Add pattern fs = fs @ [NewFilter pattern]"

definition FilterSet_Matches :: "filter_set \<Rightarrow> string \<Rightarrow> bool" where
  "FilterSet_Matches fs routingKey \<longleftrightarrow> (\<exists>f \<in> set fs. Filter_Matches f routingKey)"

definition FilterSet_Clear :: "filter_set \<Rightarrow> filter_set" where
  "FilterSet_Clear fs = []"

definition FilterSet_Len :: "filter_set \<Rightarrow> nat" where
  "FilterSet_Len fs = length fs"

definition DefaultConsumerGroupID :: "string \<Rightarrow> string" where
  "DefaultConsumerGroupID clientID = fst (str_cut (CHR ''-'') clientID)"


section \<open>Filters by levels\<close>

text \<open>
  The same filter read level by level: a \<open>+\<close> stands for one level that is not empty, a final \<open>#\<close> for at
  least one level.
\<close>

fun key_matches :: "string list \<Rightarrow> string list \<Rightarrow> bool" where
  "key_matches [] ks \<longleftrightarrow> ks = []"
| "key_matches (f # fs) ks \<longleftrightarrow>
     (case ks of
        [] \<Rightarrow> False
      | k # ks' \<Rightarrow>
          if f = ''#'' then True
          else if f = ''+'' then k \<noteq> [] \<and> key_matches fs ks'
          else f = k \<and> key_matches fs ks')"

lemma rx_literal:
  "rx_match (map Lit f @ r) s \<longleftrightarrow> (\<exists>s'. s = f @ s' \<and> rx_match r s')"
  by (induction f arbitrary: s) (auto split: list.split)

lemma rx_level:
  "rx_match (OneLevel # r) s \<longleftrightarrow> (\<exists>p s'. p \<noteq> [] \<and> CHR ''/'' \<notin> set p \<and> s = p @ s' \<and> rx_match r s')"
proof (induction s)
  case (Cons d s)
  show ?case (is "_ \<longleftrightarrow> ?rhs")
  proof
    assume "rx_match (OneLevel # r) (d # s)"
    then consider "d \<noteq> CHR ''/''" "rx_match r s" | "d \<noteq> CHR ''/''" "rx_match (OneLevel # r) s"
      by auto
    then show ?rhs
    proof cases
      case 1
      then show ?thesis by (intro exI[of _ "[d]"] exI[of _ s]) simp
    next
      case 2
      then obtain p s' where "p \<noteq> []" "CHR ''/'' \<notin> set p" "s = p @ s'" "rx_match r s'"
        using Cons.IH by blast
      then show ?thesis
        using 2 by (intro exI[of _ "d # p"] exI[of _ s']) simp
    qed
  next
    assume ?rhs
    then obtain p s' where "p \<noteq> []" "CHR ''/'' \<notin> set p" "d # s = p @ s'" "rx_match r s'"
      by blast
    then show "rx_match (OneLevel # r) (d # s)"
      using Cons.IH by (cases p; cases "tl p = []") (auto simp: neq_Nil_conv)
  qed
qed simp

lemma rx_any: "rx_match [AnyText] s \<longleftrightarrow> CHR 0x0A \<notin> set s"
  by (induction s) auto

lemma tokens_literal: "wf_level l \<Longrightarrow> l \<noteq> ''+'' \<Longrightarrow> l \<noteq> ''#'' \<Longrightarrow> map rx_token l = map Lit l"
  by (auto simp: wf_level_def rx_token_def)


definition level_ok :: "string \<Rightarrow> string \<Rightarrow> bool" where
  "level_ok f k \<longleftrightarrow> (if f = ''+'' then k \<noteq> [] else f = k)"

lemma rx_of_level:
  assumes "wf_level l" "l \<noteq> ''#''" "CHR ''/'' \<notin> set l"
  shows "rx_match (map rx_token l @ r) s \<longleftrightarrow>
           (\<exists>p s'. level_ok l p \<and> CHR ''/'' \<notin> set p \<and> s = p @ s' \<and> rx_match r s')"
proof (cases "l = ''+''")
  case True
  then show ?thesis
    by (simp add: rx_token_def rx_level level_ok_def del: rx_match.simps)
next
  case False
  then show ?thesis
    using assms by (auto simp: tokens_literal rx_literal level_ok_def)
qed

lemma sep_unique:
  "c \<notin> set a \<Longrightarrow> c \<notin> set b \<Longrightarrow> a @ c # x = b @ c # y \<longleftrightarrow> a = b \<and> x = y"
proof (induction a arbitrary: b)
  case (Cons d a)
  then show ?case by (cases b) auto
qed (auto simp: Cons_eq_append_conv)

lemma rx_inner_level:
  assumes "wf_level l" "l \<noteq> ''#''" "CHR ''/'' \<notin> set l" "CHR ''/'' \<notin> set k"
  shows "rx_match (map rx_token l @ Lit (CHR ''/'') # r) (k @ CHR ''/'' # s) \<longleftrightarrow> level_ok l k \<and> rx_match r s"
    and "\<not> rx_match (map rx_token l @ Lit (CHR ''/'') # r) k"
proof -
  have slash: "rx_match (Lit (CHR ''/'') # r) s' \<longleftrightarrow> (\<exists>s. s' = CHR ''/'' # s \<and> rx_match r s)" for s'
    by (auto split: list.split)
  show "rx_match (map rx_token l @ Lit (CHR ''/'') # r) (k @ CHR ''/'' # s) \<longleftrightarrow> level_ok l k \<and> rx_match r s"
    unfolding rx_of_level[OF assms(1-3)] slash
  proof (intro iffI; (elim exE conjE)?)
    fix p s' s''
    assume "level_ok l p" "CHR ''/'' \<notin> set p" "k @ CHR ''/'' # s = p @ s'" "s' = CHR ''/'' # s''" "rx_match r s''"
    then show "level_ok l k \<and> rx_match r s"
      using sep_unique[OF assms(4), of p s s''] by simp
  next
    assume "level_ok l k" "rx_match r s"
    then show "\<exists>p s'. level_ok l p \<and> CHR ''/'' \<notin> set p \<and> k @ CHR ''/'' # s = p @ s' \<and>
        (\<exists>s''. s' = CHR ''/'' # s'' \<and> rx_match r s'')"
      using assms(4) by blast
  qed
  show "\<not> rx_match (map rx_token l @ Lit (CHR ''/'') # r) k"
    unfolding rx_of_level[OF assms(1-3)] slash using assms(4) by auto
qed

lemma rx_last_level:
  assumes "wf_level l" "l \<noteq> ''#''" "CHR ''/'' \<notin> set l" "CHR ''/'' \<notin> set k"
  shows "rx_match (map rx_token l) k \<longleftrightarrow> level_ok l k" "\<not> rx_match (map rx_token l) (k @ CHR ''/'' # s)"
  using rx_of_level[OF assms(1-3), of "[]"] assms(4) by auto

text \<open>The compiled pattern of a well-formed filter matches a routing key exactly when its levels do.\<close>

lemma rx_levels:
  assumes "wf_filter_levels fs" "\<forall>f \<in> set fs. CHR ''/'' \<notin> set f"
    and "ks \<noteq> []" "\<forall>k \<in> set ks. CHR ''/'' \<notin> set k \<and> CHR 0x0A \<notin> set k"
  shows "rx_match (map rx_token (str_join (CHR ''/'') fs)) (str_join (CHR ''/'') ks) \<longleftrightarrow> key_matches fs ks"
  using assms
proof (induction fs arbitrary: ks)
  case (Cons f fs)
  obtain k ks' where ks: "ks = k # ks'"
    using Cons.prems by (cases ks) auto
  have k: "CHR ''/'' \<notin> set k" and f: "wf_level f" "CHR ''/'' \<notin> set f"
    using Cons.prems by (simp_all add: ks wf_filter_levels_def)
  have key: "str_join (CHR ''/'') (k # ks') = (if ks' = [] then k else k @ CHR ''/'' # str_join (CHR ''/'') ks')"
    by (cases ks') simp_all
  show ?case
  proof (cases "fs = []")
    case True
    show ?thesis
    proof (cases "f = ''#''")
      case True
      have "CHR 0x0A \<notin> set (str_join (CHR ''/'') ks)"
        using Cons.prems(4) by (induction ks rule: induct_list012) auto
      then show ?thesis
        using True \<open>fs = []\<close> by (simp add: rx_token_def rx_any ks del: rx_match.simps)
    next
      case False
      then show ?thesis
        using rx_last_level[OF f(1) False f(2) k] True
        by (cases "ks' = []") (auto simp: key ks level_ok_def)
    qed
  next
    case False
    then have f': "f \<noteq> ''#''" and fs: "wf_filter_levels fs"
      using Cons.prems(1) by (auto simp: wf_filter_levels_def)
    have tokens: "map rx_token (str_join (CHR ''/'') (f # fs)) =
        map rx_token f @ Lit (CHR ''/'') # map rx_token (str_join (CHR ''/'') fs)"
      using False by (cases fs) (simp_all add: rx_token_def)
    note level = rx_inner_level[OF f(1) f' f(2) k, of "map rx_token (str_join (CHR ''/'') fs)", folded tokens]
    show ?thesis
    proof (cases "ks' = []")
      case True
      then show ?thesis
        using level(2) False f' by (cases fs) (auto simp: key ks)
    next
      case False
      then show ?thesis
        using level(1) Cons.IH[OF fs, of ks'] Cons.prems f'
        by (simp add: key ks level_ok_def)
    qed
  qed
qed (simp add: wf_filter_levels_def)


lemma levels_no_newline: "CHR 0x0A \<notin> set s \<Longrightarrow> l \<in> set (levels s) \<Longrightarrow> CHR 0x0A \<notin> set l"
  using str_split_chars by blast

lemma compiled_levels:
  assumes "wf_filter_levels (levels pattern)" "CHR 0x0A \<notin> set key"
  shows "rx_match (map rx_token pattern) key \<longleftrightarrow> key_matches (levels pattern) (levels key)"
  using rx_levels[of "levels pattern" "levels key"] assms str_split_no_sep levels_no_newline by simp

lemma key_matches_exact:
  "(\<forall>f \<in> set fs. f \<noteq> ''+'' \<and> f \<noteq> ''#'') \<Longrightarrow> key_matches fs ks \<longleftrightarrow> fs = ks"
  by (induction fs arbitrary: ks) (auto split: list.split)

lemma wildcard_level:
  "(\<exists>f \<in> set (levels s). f = [c]) \<Longrightarrow> contains_char s c"
  using str_split_chars by (fastforce simp: contains_char_def)

lemma key_matches_topic:
  "fs \<noteq> [] \<Longrightarrow> ''#'' \<notin> set (butlast fs) \<Longrightarrow>
   key_matches fs ks \<longleftrightarrow> levels_match fs ks \<and> length fs \<le> length ks \<and>
     (\<forall>(f, k) \<in> set (zip fs ks). f = ''+'' \<longrightarrow> k \<noteq> [])"
proof (induction fs arbitrary: ks)
  case (Cons f fs)
  then show ?case
    by (cases ks; cases "fs = []") auto
qed simp

lemma Filter_Matches_New:
  "Filter_Matches (NewFilter pattern) key =
     (if pattern = [] \<or> pattern = ''#'' then True
      else if contains_char pattern (CHR ''+'') \<or> contains_char pattern (CHR ''#'')
      then utf8_valid pattern \<and> rx_match (map rx_token pattern) key else key = pattern)"
  by (simp add: Filter_Matches_def NewFilter_def compilePattern_def Let_def)


section \<open>Properties\<close>



end
