(* ===== verification/Consumer_Manager.thy ===== *)
theory Consumer_Manager
  imports Group_Adapter Claim_Filter "HOL-Library.Product_Lexorder"
begin

text \<open>
  \<^verbatim>\<open>queue/consumer/manager.go\<close>: claiming, settling and stealing queue messages, and moving exhausted ones to a
  dead-letter queue. The manager reaches its two stores through interfaces, so a store is a record of
  operations (\<open>queue_ops\<close>, \<open>group_ops\<close>) over a state of its own type. Every exported method holds the lock of
  one group for its whole run and is one function; the dead-letter transfers release the lock around the
  write to the destination, so they are two functions with the destination's answer in between. A group
  pointer is the pair of queue and group id, read through \<open>g_object\<close>, because the stores hand out the live
  object. One call reads the clock once. Metrics and log lines are left out.
\<close>

section \<open>Stores, configuration and state\<close>

record 'q queue_ops =
  q_Head :: "string \<Rightarrow> 'q \<Rightarrow> store_error + u64"
  q_Tail :: "string \<Rightarrow> 'q \<Rightarrow> store_error + u64"
  q_Read :: "string \<Rightarrow> u64 \<Rightarrow> 'q \<Rightarrow> store_error + envelope"

record 'g group_ops =
  g_CreateConsumerGroup :: "instant \<Rightarrow> consumer_group \<Rightarrow> 'g \<Rightarrow> adapter_error option \<times> 'g"
  g_GetConsumerGroup :: "instant \<Rightarrow> string \<Rightarrow> string \<Rightarrow> 'g \<Rightarrow> (adapter_error + consumer_group) \<times> 'g"
  g_UpdateConsumerGroup :: "instant \<Rightarrow> consumer_group \<Rightarrow> 'g \<Rightarrow> adapter_error option \<times> 'g"
  g_ListConsumerGroups :: "string \<Rightarrow> 'g \<Rightarrow> adapter_error + consumer_group list"
  g_AddPendingEntry :: "instant \<Rightarrow> string \<Rightarrow> string \<Rightarrow> pending_entry \<Rightarrow> 'g \<Rightarrow> adapter_error option \<times> 'g"
  g_RemovePendingEntry :: "instant \<Rightarrow> string \<Rightarrow> string \<Rightarrow> string \<Rightarrow> u64 \<Rightarrow> 'g \<Rightarrow> adapter_error option \<times> 'g"
  g_TransferPendingEntry ::
    "instant \<Rightarrow> string \<Rightarrow> string \<Rightarrow> u64 \<Rightarrow> string \<Rightarrow> string \<Rightarrow> 'g \<Rightarrow> adapter_error option \<times> 'g"
  g_UpdateCursor :: "instant \<Rightarrow> string \<Rightarrow> string \<Rightarrow> u64 \<Rightarrow> 'g \<Rightarrow> adapter_error option \<times> 'g"
  g_UpdateCommitted :: "instant \<Rightarrow> string \<Rightarrow> string \<Rightarrow> u64 \<Rightarrow> 'g \<Rightarrow> adapter_error option \<times> 'g"
  g_RegisterConsumer :: "instant \<Rightarrow> string \<Rightarrow> string \<Rightarrow> consumer_info \<Rightarrow> 'g \<Rightarrow> adapter_error option \<times> 'g"
  g_UnregisterConsumer :: "instant \<Rightarrow> string \<Rightarrow> string \<Rightarrow> string \<Rightarrow> 'g \<Rightarrow> adapter_error option \<times> 'g"
  g_RequeuePendingEntry ::
    "(instant \<Rightarrow> string \<Rightarrow> string \<Rightarrow> string \<Rightarrow> u64 \<Rightarrow> instant \<Rightarrow> 'g \<Rightarrow> adapter_error option \<times> 'g) option"
  g_object :: "string \<Rightarrow> string \<Rightarrow> 'g \<Rightarrow> consumer_group"

datatype manager_error =
  ErrNoMessages
| ErrScanIncomplete
| ErrNotConsumer
| ErrMessageNotPending
| ErrInvalidOffset
| ErrGroupModeMismatch
| ErrCommitOffsetOnlyForStreamMode
| ErrCommitOffsetNotMonotonic
| ErrPELFull
| ErrDLQHandlerUnavailable
| ErrTransferInProgress
| ErrDelayedNackUnsupported
| QueueErr store_error
| GroupErr adapter_error
| DLQErr string

definition is_no_messages :: "manager_error \<Rightarrow> bool" where
  "is_no_messages err \<longleftrightarrow> err = ErrNoMessages \<or> err = ErrScanIncomplete"

type_synonym 'q dlq_handler =
  "string \<Rightarrow> string \<Rightarrow> envelope \<Rightarrow> u64 \<Rightarrow> int \<Rightarrow> string \<Rightarrow> 'q \<Rightarrow> manager_error option \<times> 'q"

record 'q manager_config =
  mc_VisibilityTimeout :: duration
  mc_MaxDeliveryCount :: int
  mc_ClaimBatchSize :: int
  mc_StealBatchSize :: int
  mc_AutoCommitInterval :: duration
  mc_HeartbeatRefresh :: duration
  mc_MaxPELSize :: int
  mc_OnDLQ :: "'q dlq_handler option"
  mc_DLQUnavailable :: "(manager_error \<Rightarrow> bool) option"
  mc_DLQRetryBackoff :: duration

definition second :: duration where "second = 1000000000"

definition defaultDLQRetryBackoff :: duration where "defaultDLQRetryBackoff = 30 * second"

definition DefaultConfig :: "'q manager_config" where
  "DefaultConfig =
     \<lparr>mc_VisibilityTimeout = 30 * second, mc_MaxDeliveryCount = 5, mc_ClaimBatchSize = 10, mc_StealBatchSize = 5,
      mc_AutoCommitInterval = 5 * second, mc_HeartbeatRefresh = 0, mc_MaxPELSize = 100000, mc_OnDLQ = None,
      mc_DLQUnavailable = None, mc_DLQRetryBackoff = 0\<rparr>"

record poison_state =
  ps_retryAfter :: instant
  ps_noDestination :: bool

type_synonym transfer_key = "string \<times> string \<times> u64"

record ('q, 'g) manager =
  m_queueOps :: "'q queue_ops"
  m_groupOps :: "'g group_ops"
  m_config :: "'q manager_config"
  m_queues :: 'q
  m_groups :: 'g
  m_transfers :: "transfer_key list"
  m_lastCommit :: "(string, instant) gomap"
  m_poison :: "(string, (u64, poison_state) gomap) gomap"
  m_poisonTotal :: int
  m_poisonNoDestination :: int

definition NewManager ::
  "'q queue_ops \<Rightarrow> 'g group_ops \<Rightarrow> 'q manager_config \<Rightarrow> 'q \<Rightarrow> 'g \<Rightarrow> ('q, 'g) manager" where
  "NewManager queueOps groupOps config queues groups =
     \<lparr>m_queueOps = queueOps, m_groupOps = groupOps,
      m_config = (if mc_DLQRetryBackoff config \<le> 0 then config\<lparr>mc_DLQRetryBackoff := defaultDLQRetryBackoff\<rparr> else config),
      m_queues = queues, m_groups = groups, m_transfers = [], m_lastCommit = [], m_poison = [],
      m_poisonTotal = 0, m_poisonNoDestination = 0\<rparr>"

definition groupKey :: "string \<Rightarrow> string \<Rightarrow> string" where
  "groupKey queueName groupID = queueName @ CHR 0x00 # groupID"

definition splitGroupKey :: "string \<Rightarrow> string \<times> string \<times> bool" where
  "splitGroupKey key = str_cut (CHR 0x00) key"

text \<open>The object behind a group pointer, and a call of the group store.\<close>

definition object_of :: "string \<Rightarrow> string \<Rightarrow> ('q, 'g) manager \<Rightarrow> consumer_group" where
  "object_of q g m = g_object (m_groupOps m) q g (m_groups m)"

definition on_groups ::
  "('g group_ops \<Rightarrow> 'g \<Rightarrow> adapter_error option \<times> 'g) \<Rightarrow> ('q, 'g) manager \<Rightarrow> manager_error option \<times> ('q, 'g) manager" where
  "on_groups f m =
     (let (err, s) = f (m_groupOps m) (m_groups m) in (map_option GroupErr err, m\<lparr>m_groups := s\<rparr>))"

definition get_group ::
  "instant \<Rightarrow> string \<Rightarrow> string \<Rightarrow> ('q, 'g) manager \<Rightarrow> (adapter_error + consumer_group) \<times> ('q, 'g) manager" where
  "get_group now q g m =
     (let (r, s) = g_GetConsumerGroup (m_groupOps m) now q g (m_groups m) in (r, m\<lparr>m_groups := s\<rparr>))"


section \<open>Groups and members\<close>

definition applyAutoCommitLocked :: "instant \<Rightarrow> bool \<Rightarrow> consumer_group \<Rightarrow> consumer_group" where
  "applyAutoCommitLocked now autoCommit g =
     (if cg_Mode g \<noteq> GroupModeStream then SetAutoCommit now autoCommit g
      else (let cursor = CursorView g;
                g = (if qc_Committed cursor < qc_Cursor cursor then SetCommitted now (qc_Cursor cursor) g else g);
                g = (if autoCommit then snd (ClearPending now g) else g)
            in SetAutoCommit now autoCommit g))"

definition is_group_missing :: "adapter_error \<Rightarrow> bool" where
  "is_group_missing err \<longleftrightarrow> err = FromStorage ErrConsumerNotFound \<or> err = FromLog ErrGroupNotFound"

definition getOrCreateGroup ::
  "instant \<Rightarrow> string \<Rightarrow> string \<Rightarrow> string \<Rightarrow> string \<Rightarrow> bool \<Rightarrow> bool \<Rightarrow> ('q, 'g) manager \<Rightarrow>
   (manager_error + consumer_group \<times> bool) \<times> ('q, 'g) manager" where
  "getOrCreateGroup now q g pattern mode autoCommit configureAutoCommit m =
     (case get_group now q g m of
        (Inr grp, m) \<Rightarrow>
          if mode \<noteq> [] \<and> cg_Mode grp = []
          then (let grp = SetAutoCommit now autoCommit (grp\<lparr>cg_Mode := mode\<rparr>)
                in (case on_groups (\<lambda>ops. g_UpdateConsumerGroup ops now grp) m of
                      (Some err, m) \<Rightarrow> (Inl err, m)
                    | (None, m) \<Rightarrow> (Inr (object_of q g m, False), m)))
          else if mode \<noteq> [] \<and> cg_Mode grp \<noteq> mode then (Inl ErrGroupModeMismatch, m)
          else if configureAutoCommit \<and> AutoCommitEnabled grp \<noteq> autoCommit
          then (case on_groups (\<lambda>ops. g_UpdateConsumerGroup ops now (applyAutoCommitLocked now autoCommit grp)) m of
                  (Some err, m) \<Rightarrow> (Inl err, m)
                | (None, m) \<Rightarrow> (Inr (object_of q g m, False), m))
          else (Inr (grp, False), m)
      | (Inl err, m) \<Rightarrow>
          if \<not> is_group_missing err then (Inl (GroupErr err), m)
          else
            (let grp = NewConsumerGroupState now q g pattern;
                 grp = (if mode \<noteq> [] then grp\<lparr>cg_Mode := mode\<rparr> else grp);
                 grp = SetAutoCommit now autoCommit grp
             in (case on_groups (\<lambda>ops. g_CreateConsumerGroup ops now grp) m of
                   (Some err, m) \<Rightarrow>
                     if err = GroupErr (FromStorage ErrConsumerGroupExists)
                     then (case get_group now q g m of
                             (Inl err, m) \<Rightarrow> (Inl (GroupErr err), m)
                           | (Inr grp, m) \<Rightarrow> (Inr (grp, False), m))
                     else (Inl err, m)
                 | (None, m) \<Rightarrow> (Inr (grp, True), m))))"

definition GetOrCreateGroup ::
  "instant \<Rightarrow> string \<Rightarrow> string \<Rightarrow> string \<Rightarrow> string \<Rightarrow> bool \<Rightarrow> ('q, 'g) manager \<Rightarrow>
   (manager_error + consumer_group) \<times> ('q, 'g) manager" where
  "GetOrCreateGroup now q g pattern mode autoCommit m =
     (let (r, m) = getOrCreateGroup now q g pattern mode autoCommit False m in (map_sum id fst r, m))"

definition GetOrCreateConfiguredGroup ::
  "instant \<Rightarrow> string \<Rightarrow> string \<Rightarrow> string \<Rightarrow> string \<Rightarrow> bool \<Rightarrow> bool \<Rightarrow> ('q, 'g) manager \<Rightarrow>
   (manager_error + consumer_group \<times> bool) \<times> ('q, 'g) manager" where
  "GetOrCreateConfiguredGroup = getOrCreateGroup"

definition Manager_RegisterConsumer ::
  "instant \<Rightarrow> string \<Rightarrow> string \<Rightarrow> string \<Rightarrow> string \<Rightarrow> string \<Rightarrow> ('q, 'g) manager \<Rightarrow> manager_error option \<times> ('q, 'g) manager" where
  "Manager_RegisterConsumer now q g consumerID clientID proxyNodeID =
     on_groups (\<lambda>ops. g_RegisterConsumer ops now q g
       \<lparr>ci_ID = consumerID, ci_ClientID = clientID, ci_ProxyNodeID = proxyNodeID, ci_RegisteredAt = now, ci_LastHeartbeat = now\<rparr>)"

definition Manager_UnregisterConsumer ::
  "instant \<Rightarrow> string \<Rightarrow> string \<Rightarrow> string \<Rightarrow> ('q, 'g) manager \<Rightarrow> manager_error option \<times> ('q, 'g) manager" where
  "Manager_UnregisterConsumer now q g consumerID = on_groups (\<lambda>ops. g_UnregisterConsumer ops now q g consumerID)"


section \<open>Poison bookkeeping\<close>

definition poison_of :: "string \<Rightarrow> ('q, 'g) manager \<Rightarrow> (u64, poison_state) gomap" where
  "poison_of key m = (case map_of (m_poison m) key of None \<Rightarrow> [] | Some entries \<Rightarrow> entries)"

definition set_poison :: "string \<Rightarrow> (u64, poison_state) gomap \<Rightarrow> ('q, 'g) manager \<Rightarrow> ('q, 'g) manager" where
  "set_poison key entries m = m\<lparr>m_poison := AList.update key entries (m_poison m)\<rparr>"

definition zero_poison :: poison_state where
  "zero_poison = \<lparr>ps_retryAfter = zero_time, ps_noDestination = False\<rparr>"

definition poison_at :: "string \<Rightarrow> u64 \<Rightarrow> ('q, 'g) manager \<Rightarrow> poison_state" where
  "poison_at key off m = (case map_of (poison_of key m) off of None \<Rightarrow> zero_poison | Some state \<Rightarrow> state)"

definition count_new :: "string \<Rightarrow> u64 \<Rightarrow> ('q, 'g) manager \<Rightarrow> ('q, 'g) manager" where
  "count_new key off m =
     (if map_of (poison_of key m) off = None then m\<lparr>m_poisonTotal := m_poisonTotal m + 1\<rparr> else m)"

definition dlqTransferDue :: "instant \<Rightarrow> string \<Rightarrow> string \<Rightarrow> u64 \<Rightarrow> ('q, 'g) manager \<Rightarrow> bool \<times> ('q, 'g) manager" where
  "dlqTransferDue now q g off m =
     (let key = groupKey q g; m = set_poison key (poison_of key m) m; state = poison_at key off m
      in if map_of (poison_of key m) off \<noteq> None \<and> now < ps_retryAfter state then (False, m)
         else (let m = count_new key off m;
                   state = state\<lparr>ps_retryAfter := now + mc_DLQRetryBackoff (m_config m)\<rparr>
               in (True, set_poison key (AList.update off state (poison_of key m)) m)))"

definition trackPoisonForSweep :: "string \<Rightarrow> string \<Rightarrow> u64 \<Rightarrow> ('q, 'g) manager \<Rightarrow> bool \<times> ('q, 'g) manager" where
  "trackPoisonForSweep q g off m =
     (let key = groupKey q g; m = set_poison key (poison_of key m) m
      in (case map_of (poison_of key m) off of
            Some state \<Rightarrow> (\<not> ps_noDestination state, m)
          | None \<Rightarrow>
              (True, set_poison key (AList.update off zero_poison (poison_of key m))
                       (m\<lparr>m_poisonTotal := m_poisonTotal m + 1\<rparr>))))"

definition scheduleNextPoisonAttempt :: "instant \<Rightarrow> string \<Rightarrow> string \<Rightarrow> u64 \<Rightarrow> ('q, 'g) manager \<Rightarrow> ('q, 'g) manager" where
  "scheduleNextPoisonAttempt now q g off m =
     (let key = groupKey q g
      in (case map_of (m_poison m) key of
            None \<Rightarrow> m
          | Some entries \<Rightarrow>
              (case map_of entries off of
                 None \<Rightarrow> m
               | Some state \<Rightarrow>
                   set_poison key (AList.update off
                     (state\<lparr>ps_retryAfter := now + mc_DLQRetryBackoff (m_config m)\<rparr>) entries) m)))"

definition markPoisonWithoutDestination :: "string \<Rightarrow> string \<Rightarrow> u64 \<Rightarrow> ('q, 'g) manager \<Rightarrow> bool \<times> ('q, 'g) manager" where
  "markPoisonWithoutDestination q g off m =
     (let key = groupKey q g; m = set_poison key (poison_of key m) m; state = poison_at key off m;
          m = count_new key off m
      in if ps_noDestination state then (False, m)
         else (True, set_poison key (AList.update off (state\<lparr>ps_noDestination := True\<rparr>) (poison_of key m))
                       (m\<lparr>m_poisonNoDestination := m_poisonNoDestination m + 1\<rparr>)))"

definition forgetPoisonLocked :: "string \<Rightarrow> string \<Rightarrow> u64 \<Rightarrow> ('q, 'g) manager \<Rightarrow> ('q, 'g) manager" where
  "forgetPoisonLocked q g off m =
     (let key = groupKey q g
      in (case map_of (m_poison m) key of
            None \<Rightarrow> m
          | Some entries \<Rightarrow>
              (case map_of entries off of
                 None \<Rightarrow> m
               | Some state \<Rightarrow>
                   (let entries = AList.delete off entries;
                        m = set_poison key entries (m\<lparr>m_poisonTotal := m_poisonTotal m - 1\<rparr>);
                        m = (if ps_noDestination state then m\<lparr>m_poisonNoDestination := m_poisonNoDestination m - 1\<rparr> else m)
                    in if entries = [] then m\<lparr>m_poison := AList.delete key (m_poison m)\<rparr> else m))))"

definition forgetPoison :: "string \<Rightarrow> string \<Rightarrow> u64 \<Rightarrow> ('q, 'g) manager \<Rightarrow> ('q, 'g) manager" where
  "forgetPoison q g off m = forgetPoisonLocked q g off m"

definition clearDLQRetry :: "string \<Rightarrow> string \<Rightarrow> u64 \<Rightarrow> ('q, 'g) manager \<Rightarrow> ('q, 'g) manager" where
  "clearDLQRetry = forgetPoison"

definition prunePoison :: "string \<Rightarrow> string \<Rightarrow> ('q, 'g) manager \<Rightarrow> ('q, 'g) manager" where
  "prunePoison q g m =
     (let tracked = poison_of (groupKey q g) m
      in if tracked = [] then m
         else (let pending = PendingOffsets (object_of q g m)
               in fold (\<lambda>off m. if off \<in> pending then m else forgetPoisonLocked q g off m) (map fst tracked) m))"

definition reportPoisonWithoutDLQ :: "instant \<Rightarrow> string \<Rightarrow> string \<Rightarrow> u64 \<Rightarrow> ('q, 'g) manager \<Rightarrow> ('q, 'g) manager" where
  "reportPoisonWithoutDLQ now q g off m =
     snd (dlqTransferDue now q g off (snd (markPoisonWithoutDestination q g off m)))"

definition deferPoisonTransfer :: "instant \<Rightarrow> string \<Rightarrow> string \<Rightarrow> u64 \<Rightarrow> ('q, 'g) manager \<Rightarrow> bool \<times> ('q, 'g) manager" where
  "deferPoisonTransfer now q g off m =
     (if mc_OnDLQ (m_config m) = None then (False, reportPoisonWithoutDLQ now q g off m)
      else trackPoisonForSweep q g off m)"

definition dlqUnavailable :: "('q, 'g) manager \<Rightarrow> manager_error \<Rightarrow> bool" where
  "dlqUnavailable m err =
     (if err = ErrDLQHandlerUnavailable then True
      else (case mc_DLQUnavailable (m_config m) of None \<Rightarrow> False | Some f \<Rightarrow> f err))"


section \<open>Reservations\<close>

definition beginTransfer :: "transfer_key \<Rightarrow> ('q, 'g) manager \<Rightarrow> bool \<times> ('q, 'g) manager" where
  "beginTransfer key m =
     (if key \<in> set (m_transfers m) then (False, m) else (True, m\<lparr>m_transfers := key # m_transfers m\<rparr>))"

definition endTransfer :: "transfer_key \<Rightarrow> ('q, 'g) manager \<Rightarrow> ('q, 'g) manager" where
  "endTransfer key m = m\<lparr>m_transfers := removeAll key (m_transfers m)\<rparr>"

definition transferring :: "string \<Rightarrow> string \<Rightarrow> u64 \<Rightarrow> ('q, 'g) manager \<Rightarrow> bool" where
  "transferring q g off m \<longleftrightarrow> (q, g, off) \<in> set (m_transfers m)"


section \<open>Claiming from the cursor\<close>

definition maxCursorScan :: nat where "maxCursorScan = 1024"

definition scanStart :: "string \<Rightarrow> u64 \<Rightarrow> ('q, 'g) manager \<Rightarrow> u64" where
  "scanStart q cursor m =
     (case q_Head (m_queueOps m) q (m_queues m) of
        Inl _ \<Rightarrow> cursor | Inr head \<Rightarrow> if head \<le> cursor then cursor else head)"

definition accepts :: "claim_filter option \<Rightarrow> string \<Rightarrow> envelope \<Rightarrow> bool" where
  "accepts flt q msg =
     (case flt of
        None \<Rightarrow> True
      | Some f \<Rightarrow> Filter_Matches f (ExtractRoutingKey (ev_Topic msg) (queue_prefix @ q)))"

text \<open>What a scan makes of the record at an offset: step past it, give up, or take it.\<close>

datatype verdict = Skip | Fail store_error | Take envelope

definition examine :: "instant \<Rightarrow> string \<Rightarrow> claim_filter option \<Rightarrow> ('q, 'g) manager \<Rightarrow> u64 \<Rightarrow> verdict" where
  "examine now q flt m off =
     (case q_Read (m_queueOps m) q off (m_queues m) of
        Inl err \<Rightarrow> if err = ErrOffsetOutOfRange \<or> err = ErrUndecodableRecord then Skip else Fail err
      | Inr msg \<Rightarrow> if IsExpired now msg then Skip else if accepts flt q msg then Take msg else Skip)"

datatype scan_result = Found u64 envelope | ScanFailed store_error | Exhausted u64

text \<open>The scan loop; the number counts the records it may still examine.\<close>

fun scan :: "(u64 \<Rightarrow> verdict) \<Rightarrow> u64 \<Rightarrow> nat \<Rightarrow> u64 \<Rightarrow> scan_result" where
  "scan look tail 0 cursor = Exhausted cursor"
| "scan look tail (Suc n) cursor =
     (if cursor < tail
      then (case look cursor of
              Skip \<Rightarrow> scan look tail n (cursor + 1)
            | Fail err \<Rightarrow> ScanFailed err
            | Take msg \<Rightarrow> Found cursor msg)
      else Exhausted cursor)"

definition claim_found ::
  "instant \<Rightarrow> string \<Rightarrow> string \<Rightarrow> string \<Rightarrow> u64 \<Rightarrow> envelope \<Rightarrow> ('q, 'g) manager \<Rightarrow>
   (manager_error + envelope) \<times> ('q, 'g) manager" where
  "claim_found now q g consumerID off msg m =
     (case on_groups (\<lambda>ops. g_AddPendingEntry ops now q g
             \<lparr>pe_Offset = off, pe_ConsumerID = consumerID, pe_ClaimedAt = now, pe_DeliveryCount = 1\<rparr>) m of
        (Some err, m) \<Rightarrow> (Inl err, m)
      | (None, m) \<Rightarrow>
          (case on_groups (\<lambda>ops. g_UpdateCursor ops now q g (off + 1)) m of
             (Some err, m) \<Rightarrow> (Inl err, m)
           | (None, m) \<Rightarrow> (Inr msg, m)))"

definition step_past ::
  "instant \<Rightarrow> string \<Rightarrow> string \<Rightarrow> u64 \<Rightarrow> u64 \<Rightarrow> ('q, 'g) manager \<Rightarrow> manager_error option \<times> ('q, 'g) manager" where
  "step_past now q g start cursor m =
     (if cursor > start
      then (case get_group now q g m of
              (Inl err, m) \<Rightarrow> (Some (GroupErr err), m)
            | (Inr fresh, m) \<Rightarrow>
                if cursor > qc_Cursor (CursorView fresh)
                then on_groups (\<lambda>ops. g_UpdateCursor ops now q g cursor) m else (None, m))
      else (None, m))"

definition claimFromCursor ::
  "instant \<Rightarrow> string \<Rightarrow> string \<Rightarrow> string \<Rightarrow> claim_filter option \<Rightarrow> ('q, 'g) manager \<Rightarrow>
   (manager_error + envelope) \<times> ('q, 'g) manager" where
  "claimFromCursor now q g consumerID flt m =
     (if mc_MaxPELSize (m_config m) > 0 \<and> int (PendingCount (object_of q g m)) \<ge> mc_MaxPELSize (m_config m)
      then (Inl ErrPELFull, m)
      else
        (case q_Tail (m_queueOps m) q (m_queues m) of
           Inl err \<Rightarrow> (Inl (QueueErr err), m)
         | Inr tail \<Rightarrow>
             (let start = scanStart q (qc_Cursor (CursorView (object_of q g m))) m
              in (case scan (examine now q flt m) tail maxCursorScan start of
                    ScanFailed err \<Rightarrow> (Inl (QueueErr err), m)
                  | Found off msg \<Rightarrow> claim_found now q g consumerID off msg m
                  | Exhausted cursor \<Rightarrow>
                      (case step_past now q g start cursor m of
                         (Some err, m) \<Rightarrow> (Inl err, m)
                       | (None, m) \<Rightarrow> (Inl (if cursor < tail then ErrScanIncomplete else ErrNoMessages), m))))))"


section \<open>Work stealing\<close>

definition drop_pending :: "instant \<Rightarrow> string \<Rightarrow> string \<Rightarrow> pending_entry \<Rightarrow> ('q, 'g) manager \<Rightarrow> ('q, 'g) manager" where
  "drop_pending now q g entry m =
     snd (on_groups (\<lambda>ops. g_RemovePendingEntry ops now q g (pe_ConsumerID entry) (pe_Offset entry)) m)"

text \<open>One turn of the loop: the result of a successful steal, or nothing and the loop goes on.\<close>

definition steal_entry ::
  "instant \<Rightarrow> string \<Rightarrow> string \<Rightarrow> string \<Rightarrow> claim_filter option \<Rightarrow> string \<Rightarrow> pending_entry \<Rightarrow> ('q, 'g) manager \<Rightarrow>
   envelope option \<times> ('q, 'g) manager" where
  "steal_entry now q g consumerID flt ownerOnly entry m =
     (let off = pe_Offset entry
      in if ownerOnly \<noteq> [] \<and> pe_ConsumerID entry \<noteq> ownerOnly then (None, m)
         else if ownerOnly \<noteq> [] \<and> \<not> pe_ClaimedAt entry < now - mc_VisibilityTimeout (m_config m) then (None, m)
         else if transferring q g off m then (None, m)
         else
           (let (deferred, m) =
                  (if pe_DeliveryCount entry \<ge> mc_MaxDeliveryCount (m_config m)
                   then deferPoisonTransfer now q g off m else (False, m))
            in if deferred then (None, m)
               else (case q_Read (m_queueOps m) q off (m_queues m) of
                       Inl err \<Rightarrow> (None, if err = ErrUndecodableRecord then drop_pending now q g entry m else m)
                     | Inr msg \<Rightarrow>
                         if IsExpired now msg then (None, drop_pending now q g entry m)
                         else if \<not> accepts flt q msg then (None, m)
                         else (case on_groups (\<lambda>ops. g_TransferPendingEntry ops now q g off (pe_ConsumerID entry) consumerID) m of
                                 (Some _, m) \<Rightarrow> (None, m)
                               | (None, m) \<Rightarrow> (Some msg, m)))))"

fun steal_loop ::
  "instant \<Rightarrow> string \<Rightarrow> string \<Rightarrow> string \<Rightarrow> claim_filter option \<Rightarrow> string \<Rightarrow> pending_entry list \<Rightarrow> ('q, 'g) manager \<Rightarrow>
   (manager_error + envelope) \<times> ('q, 'g) manager" where
  "steal_loop now q g consumerID flt ownerOnly [] m = (Inl ErrNoMessages, m)"
| "steal_loop now q g consumerID flt ownerOnly (entry # entries) m =
     (case steal_entry now q g consumerID flt ownerOnly entry m of
        (Some msg, m) \<Rightarrow> (Inr msg, m)
      | (None, m) \<Rightarrow> steal_loop now q g consumerID flt ownerOnly entries m)"

definition stealWorkFrom ::
  "instant \<Rightarrow> string \<Rightarrow> string \<Rightarrow> string \<Rightarrow> claim_filter option \<Rightarrow> string \<Rightarrow> string \<Rightarrow> ('q, 'g) manager \<Rightarrow>
   (manager_error + envelope) \<times> ('q, 'g) manager" where
  "stealWorkFrom now q g consumerID flt excludeConsumer ownerOnly m =
     (let stealable = StealableEntries now (mc_VisibilityTimeout (m_config m)) excludeConsumer (object_of q g m);
          m = prunePoison q g m
      in if stealable = [] then (Inl ErrNoMessages, m)
         else steal_loop now q g consumerID flt ownerOnly stealable m)"

definition stealWork ::
  "instant \<Rightarrow> string \<Rightarrow> string \<Rightarrow> string \<Rightarrow> claim_filter option \<Rightarrow> ('q, 'g) manager \<Rightarrow>
   (manager_error + envelope) \<times> ('q, 'g) manager" where
  "stealWork now q g consumerID flt m = stealWorkFrom now q g consumerID flt consumerID [] m"


section \<open>Claims\<close>

definition Manager_Claim ::
  "instant \<Rightarrow> string \<Rightarrow> string \<Rightarrow> string \<Rightarrow> claim_filter option \<Rightarrow> ('q, 'g) manager \<Rightarrow>
   (manager_error + envelope) \<times> ('q, 'g) manager" where
  "Manager_Claim now q g consumerID flt m =
     (case get_group now q g m of
        (Inl err, m) \<Rightarrow> (Inl (GroupErr err), m)
      | (Inr _, m) \<Rightarrow>
          (case claimFromCursor now q g consumerID flt m of
             (Inr msg, m) \<Rightarrow> (Inr msg, m)
           | (Inl err, m) \<Rightarrow>
               if \<not> is_no_messages err then (Inl err, m) else stealWork now q g consumerID flt m))"

text \<open>A claim repeated until it fails or the given number of messages is there.\<close>

fun claim_many ::
  "(('q, 'g) manager \<Rightarrow> (manager_error + envelope) \<times> ('q, 'g) manager) \<Rightarrow> nat \<Rightarrow> ('q, 'g) manager \<Rightarrow>
   (envelope list \<times> manager_error option) \<times> ('q, 'g) manager" where
  "claim_many claim 0 m = (([], None), m)"
| "claim_many claim (Suc n) m =
     (case claim m of
        (Inl err, m) \<Rightarrow> (([], Some err), m)
      | (Inr msg, m) \<Rightarrow> (let ((msgs, err), m) = claim_many claim n m in ((msg # msgs, err), m)))"

definition batch_limit :: "int \<Rightarrow> ('q, 'g) manager \<Rightarrow> int" where
  "batch_limit limit m = (if limit \<le> 0 then mc_ClaimBatchSize (m_config m) else limit)"

definition Manager_ClaimBatch ::
  "instant \<Rightarrow> string \<Rightarrow> string \<Rightarrow> string \<Rightarrow> claim_filter option \<Rightarrow> int \<Rightarrow> ('q, 'g) manager \<Rightarrow>
   (envelope list \<times> manager_error option) \<times> ('q, 'g) manager" where
  "Manager_ClaimBatch now q g consumerID flt limit m =
     (let limit = nat (batch_limit limit m)
      in (case get_group now q g m of
            (Inl err, m) \<Rightarrow> (([], Some (GroupErr err)), m)
          | (Inr _, m) \<Rightarrow>
              (let ((claimed, err), m) = claim_many (claimFromCursor now q g consumerID flt) limit m
               in (case err of
                     Some e \<Rightarrow>
                       if \<not> is_no_messages e \<and> e \<noteq> ErrPELFull then ((claimed, err), m)
                       else
                         (let noMessages = (if e = ErrScanIncomplete then ErrScanIncomplete else ErrNoMessages);
                              ((stolen, err), m) =
                                claim_many (stealWork now q g consumerID flt) (limit - length claimed) m;
                              messages = claimed @ stolen
                          in (case err of
                                Some e \<Rightarrow>
                                  if \<not> is_no_messages e then ((messages, err), m)
                                  else if messages = [] then (([], Some noMessages), m) else ((messages, None), m)
                              | None \<Rightarrow> if messages = [] then (([], Some noMessages), m) else ((messages, None), m)))
                   | None \<Rightarrow> if claimed = [] then (([], Some ErrNoMessages), m) else ((claimed, None), m)))))"

definition ClaimManualStream ::
  "instant \<Rightarrow> string \<Rightarrow> string \<Rightarrow> string \<Rightarrow> claim_filter option \<Rightarrow> ('q, 'g) manager \<Rightarrow>
   (manager_error + envelope) \<times> ('q, 'g) manager" where
  "ClaimManualStream now q g consumerID flt m =
     (case get_group now q g m of
        (Inl err, m) \<Rightarrow> (Inl (GroupErr err), m)
      | (Inr grp, m) \<Rightarrow>
          if cg_Mode grp \<noteq> GroupModeStream \<or> AutoCommitEnabled grp then (Inl ErrGroupModeMismatch, m)
          else if PendingCountFor (object_of q g m) consumerID > 0
          then stealWorkFrom now q g consumerID flt [] consumerID m
          else (case stealWork now q g consumerID flt m of
                  (Inr msg, m) \<Rightarrow> (Inr msg, m)
                | (Inl err, m) \<Rightarrow>
                    if \<not> is_no_messages err then (Inl err, m) else claimFromCursor now q g consumerID flt m))"

fun claim_pending ::
  "instant \<Rightarrow> string \<Rightarrow> string \<Rightarrow> string \<Rightarrow> pending_entry list \<Rightarrow> envelope list \<Rightarrow> ('q, 'g) manager \<Rightarrow>
   (manager_error + envelope list) \<times> ('q, 'g) manager" where
  "claim_pending now q g consumerID [] messages m = (Inr messages, m)"
| "claim_pending now q g consumerID (entry # entries) messages m =
     (let remove = on_groups (\<lambda>ops. g_RemovePendingEntry ops now q g (pe_ConsumerID entry) (pe_Offset entry)) m;
          go_on = claim_pending now q g consumerID entries
      in (case q_Read (m_queueOps m) q (pe_Offset entry) (m_queues m) of
            Inl err \<Rightarrow>
              if err = ErrUndecodableRecord
              then (case remove of (Some err, m) \<Rightarrow> (Inl err, m) | (None, m) \<Rightarrow> go_on messages m)
              else (Inl (QueueErr err), m)
          | Inr msg \<Rightarrow>
              if IsExpired now msg
              then (case remove of (Some err, m) \<Rightarrow> (Inl err, m) | (None, m) \<Rightarrow> go_on messages m)
              else (case on_groups (\<lambda>ops. g_TransferPendingEntry ops now q g (pe_Offset entry) (pe_ConsumerID entry) consumerID) m of
                      (Some err, m) \<Rightarrow> (Inl err, m)
                    | (None, m) \<Rightarrow> go_on (messages @ [msg]) m)))"

text \<open>A negative limit would make \<^verbatim>\<open>entries[:limit]\<close> panic; the configured batch size is not negative.\<close>

definition ClaimPendingBatch ::
  "instant \<Rightarrow> string \<Rightarrow> string \<Rightarrow> string \<Rightarrow> duration \<Rightarrow> int \<Rightarrow> ('q, 'g) manager \<Rightarrow>
   (manager_error + envelope list) \<times> ('q, 'g) manager" where
  "ClaimPendingBatch now q g consumerID minIdle limit m =
     (let limit = batch_limit limit m
      in (case get_group now q g m of
            (Inl err, m) \<Rightarrow> (Inl (GroupErr err), m)
          | (Inr grp, m) \<Rightarrow>
              if cg_Mode grp = GroupModeStream then (Inl ErrGroupModeMismatch, m)
              else
                (let entries = sort_key (\<lambda>e. (pe_ClaimedAt e, pe_Offset e))
                                 (StealableEntries now minIdle consumerID (object_of q g m));
                     entries = take (nat limit) entries
                 in (case claim_pending now q g consumerID entries [] m of
                       (Inl err, m) \<Rightarrow> (Inl err, m)
                     | (Inr messages, m) \<Rightarrow>
                         if messages = [] then (Inl ErrNoMessages, m) else (Inr messages, m)))))"


section \<open>Streams\<close>

definition autoCommitDue :: "instant \<Rightarrow> string \<Rightarrow> ('q, 'g) manager \<Rightarrow> bool \<times> ('q, 'g) manager" where
  "autoCommitDue now key m =
     (case map_of (m_lastCommit m) key of
        Some lst \<Rightarrow>
          if now - lst < mc_AutoCommitInterval (m_config m) then (False, m)
          else (True, m\<lparr>m_lastCommit := AList.update key now (m_lastCommit m)\<rparr>)
      | None \<Rightarrow> (True, m\<lparr>m_lastCommit := AList.update key now (m_lastCommit m)\<rparr>))"

definition clearAutoCommit :: "string \<Rightarrow> ('q, 'g) manager \<Rightarrow> ('q, 'g) manager" where
  "clearAutoCommit key m = m\<lparr>m_lastCommit := AList.delete key (m_lastCommit m)\<rparr>"

definition updateStreamCursorLocked ::
  "instant \<Rightarrow> string \<Rightarrow> string \<Rightarrow> u64 \<Rightarrow> ('q, 'g) manager \<Rightarrow> manager_error option \<times> ('q, 'g) manager" where
  "updateStreamCursorLocked now q g newCursor m =
     (if newCursor \<le> qc_Cursor (CursorView (object_of q g m)) then (None, m)
      else (case on_groups (\<lambda>ops. g_UpdateCursor ops now q g newCursor) m of
              (Some err, m) \<Rightarrow> (Some err, m)
            | (None, m) \<Rightarrow>
                if \<not> AutoCommitEnabled (object_of q g m) then (None, m)
                else if mc_AutoCommitInterval (m_config m) \<le> 0
                then on_groups (\<lambda>ops. g_UpdateCommitted ops now q g newCursor) m
                else (let (due, m) = autoCommitDue now (groupKey q g) m
                      in if \<not> due then (None, m)
                         else (case on_groups (\<lambda>ops. g_UpdateCommitted ops now q g newCursor) m of
                                 (Some err, m) \<Rightarrow> (Some err, clearAutoCommit (groupKey q g) m)
                               | (None, m) \<Rightarrow> (None, m)))))"

fun peek_scan ::
  "(u64 \<Rightarrow> verdict) \<Rightarrow> u64 \<Rightarrow> nat \<Rightarrow> nat \<Rightarrow> u64 \<Rightarrow> envelope list \<Rightarrow> store_error + (envelope list \<times> u64)" where
  "peek_scan look tail limit 0 cursor messages = Inr (messages, cursor)"
| "peek_scan look tail limit (Suc n) cursor messages =
     (if cursor < tail \<and> length messages < limit
      then (case look cursor of
              Skip \<Rightarrow> peek_scan look tail limit n (cursor + 1) messages
            | Fail err \<Rightarrow> Inl err
            | Take msg \<Rightarrow> peek_scan look tail limit n (cursor + 1) (messages @ [msg]))
      else Inr (messages, cursor))"

definition peekBatchStreamLocked ::
  "instant \<Rightarrow> string \<Rightarrow> string \<Rightarrow> claim_filter option \<Rightarrow> int \<Rightarrow> ('q, 'g) manager \<Rightarrow>
   (envelope list \<times> u64 \<times> manager_error option) \<times> ('q, 'g) manager" where
  "peekBatchStreamLocked now q g flt limit m =
     (let cursor = qc_Cursor (CursorView (object_of q g m))
      in (case q_Tail (m_queueOps m) q (m_queues m) of
            Inl err \<Rightarrow> (([], cursor, Some (QueueErr err)), m)
          | Inr tail \<Rightarrow>
              (case peek_scan (examine now q flt m) tail (nat limit) maxCursorScan (scanStart q cursor m) [] of
                 Inl err \<Rightarrow> (([], cursor, Some (QueueErr err)), m)
               | Inr (messages, newCursor) \<Rightarrow>
                   if messages = []
                   then (case updateStreamCursorLocked now q g newCursor m of
                           (Some err, m) \<Rightarrow> (([], cursor, Some err), m)
                         | (None, m) \<Rightarrow>
                             (([], newCursor, Some (if newCursor < tail then ErrScanIncomplete else ErrNoMessages)), m))
                   else ((messages, newCursor, None), m))))"

definition ClaimBatchStream ::
  "instant \<Rightarrow> string \<Rightarrow> string \<Rightarrow> string \<Rightarrow> claim_filter option \<Rightarrow> int \<Rightarrow> ('q, 'g) manager \<Rightarrow>
   (manager_error + envelope list) \<times> ('q, 'g) manager" where
  "ClaimBatchStream now q g consumerID flt limit m =
     (let limit = batch_limit limit m
      in (case get_group now q g m of
            (Inl err, m) \<Rightarrow> (Inl (GroupErr err), m)
          | (Inr _, m) \<Rightarrow>
              (case peekBatchStreamLocked now q g flt limit m of
                 ((_, _, Some err), m) \<Rightarrow> (Inl err, m)
               | ((messages, newCursor, None), m) \<Rightarrow>
                   (case updateStreamCursorLocked now q g newCursor m of
                      (Some err, m) \<Rightarrow> (Inl err, m)
                    | (None, m) \<Rightarrow> (Inr messages, m)))))"

definition PeekBatchStream ::
  "instant \<Rightarrow> string \<Rightarrow> string \<Rightarrow> claim_filter option \<Rightarrow> int \<Rightarrow> ('q, 'g) manager \<Rightarrow>
   (envelope list \<times> u64 \<times> manager_error option) \<times> ('q, 'g) manager" where
  "PeekBatchStream now q g flt limit m =
     (let limit = batch_limit limit m
      in (case get_group now q g m of
            (Inl err, m) \<Rightarrow> (([], 0, Some (GroupErr err)), m)
          | (Inr _, m) \<Rightarrow> peekBatchStreamLocked now q g flt limit m))"

definition CommitStreamCursor ::
  "instant \<Rightarrow> string \<Rightarrow> string \<Rightarrow> u64 \<Rightarrow> ('q, 'g) manager \<Rightarrow> manager_error option \<times> ('q, 'g) manager" where
  "CommitStreamCursor now q g cursor m =
     (case get_group now q g m of
        (Inl err, m) \<Rightarrow> (Some (GroupErr err), m)
      | (Inr grp, m) \<Rightarrow>
          if cg_Mode grp \<noteq> GroupModeStream then (Some ErrCommitOffsetOnlyForStreamMode, m)
          else updateStreamCursorLocked now q g cursor m)"


section \<open>Settlement\<close>

definition advanceCommitted ::
  "instant \<Rightarrow> string \<Rightarrow> string \<Rightarrow> consumer_group \<Rightarrow> ('q, 'g) manager \<Rightarrow> manager_error option \<times> ('q, 'g) manager" where
  "advanceCommitted now q g grp m =
     (let cursor = CursorView grp; (minOffset, found) = MinPendingOffset grp;
          committed = (if \<not> found then qc_Cursor cursor
                       else if minOffset > qc_Committed cursor then minOffset else qc_Committed cursor)
      in on_groups (\<lambda>ops. g_UpdateCommitted ops now q g committed) m)"

text \<open>The settlement shared by \<^verbatim>\<open>Ack\<close> and \<^verbatim>\<open>finishTransfer\<close>.\<close>

definition settle ::
  "instant \<Rightarrow> string \<Rightarrow> string \<Rightarrow> string \<Rightarrow> u64 \<Rightarrow> ('q, 'g) manager \<Rightarrow> manager_error option \<times> ('q, 'g) manager" where
  "settle now q g consumerID off m =
     (case on_groups (\<lambda>ops. g_RemovePendingEntry ops now q g consumerID off) m of
        (Some err, m) \<Rightarrow> (Some err, m)
      | (None, m) \<Rightarrow>
          (case get_group now q g m of
             (Inl err, m) \<Rightarrow> (Some (GroupErr err), m)
           | (Inr grp, m) \<Rightarrow> advanceCommitted now q g grp m))"

definition Manager_Ack ::
  "instant \<Rightarrow> string \<Rightarrow> string \<Rightarrow> string \<Rightarrow> u64 \<Rightarrow> ('q, 'g) manager \<Rightarrow> manager_error option \<times> ('q, 'g) manager" where
  "Manager_Ack now q g consumerID off m =
     (if transferring q g off m then (Some ErrTransferInProgress, m) else settle now q g consumerID off m)"

definition NackWithDelay ::
  "instant \<Rightarrow> string \<Rightarrow> string \<Rightarrow> string \<Rightarrow> u64 \<Rightarrow> duration \<Rightarrow> ('q, 'g) manager \<Rightarrow> manager_error option \<times> ('q, 'g) manager" where
  "NackWithDelay now q g consumerID off delay m =
     (case get_group now q g m of
        (Inl err, m) \<Rightarrow> (Some (GroupErr err), m)
      | (Inr grp, m) \<Rightarrow>
          (let ownerID = snd (FindPending grp off)
           in if ownerID = [] then (Some ErrMessageNotPending, m)
              else if ownerID \<noteq> consumerID then (Some ErrNotConsumer, m)
              else if transferring q g off m then (Some ErrTransferInProgress, m)
              else (case g_RequeuePendingEntry (m_groupOps m) of
                      None \<Rightarrow> (Some ErrDelayedNackUnsupported, m)
                    | Some requeue \<Rightarrow>
                        (let attemptedAt = now + delay;
                             attemptedAt = (if delay = 0 then attemptedAt - mc_VisibilityTimeout (m_config m) - second
                                            else attemptedAt)
                         in on_groups (\<lambda>_. requeue now q g consumerID off attemptedAt) m))))"

definition Manager_Nack ::
  "instant \<Rightarrow> string \<Rightarrow> string \<Rightarrow> string \<Rightarrow> u64 \<Rightarrow> ('q, 'g) manager \<Rightarrow> manager_error option \<times> ('q, 'g) manager" where
  "Manager_Nack now q g consumerID off m = NackWithDelay now q g consumerID off 0 m"

definition prepareTransfer ::
  "instant \<Rightarrow> transfer_key \<Rightarrow> string \<Rightarrow> ('q, 'g) manager \<Rightarrow> (manager_error + envelope \<times> int) \<times> ('q, 'g) manager" where
  "prepareTransfer now key consumerID m =
     (case key of (q, g, off) \<Rightarrow>
        (case get_group now q g m of
           (Inl err, m) \<Rightarrow> (Inl (GroupErr err), m)
         | (Inr grp, m) \<Rightarrow>
             (let (entry, ownerID) = FindPending grp off
              in if ownerID = [] then (Inl ErrMessageNotPending, m)
                 else if ownerID \<noteq> consumerID then (Inl ErrNotConsumer, m)
                 else if mc_OnDLQ (m_config m) = None then (Inl ErrDLQHandlerUnavailable, m)
                 else (case beginTransfer key m of
                         (False, m) \<Rightarrow> (Inl ErrTransferInProgress, m)
                       | (True, m) \<Rightarrow>
                           (case q_Read (m_queueOps m) q off (m_queues m) of
                              Inl err \<Rightarrow> (Inl (QueueErr err), endTransfer key m)
                            | Inr msg \<Rightarrow> (Inr (msg, pe_DeliveryCount entry), m))))))"

definition finishTransfer ::
  "instant \<Rightarrow> transfer_key \<Rightarrow> string \<Rightarrow> manager_error option \<Rightarrow> ('q, 'g) manager \<Rightarrow> manager_error option \<times> ('q, 'g) manager" where
  "finishTransfer now key consumerID transferErr m =
     (case key of (q, g, off) \<Rightarrow>
        (let m = endTransfer key m
         in (case transferErr of
               Some err \<Rightarrow> (Some err, m)
             | None \<Rightarrow> settle now q g consumerID off m)))"

definition call_dlq ::
  "string \<Rightarrow> string \<Rightarrow> envelope \<Rightarrow> u64 \<Rightarrow> int \<Rightarrow> string \<Rightarrow> ('q, 'g) manager \<Rightarrow> manager_error option \<times> ('q, 'g) manager" where
  "call_dlq q g msg off deliveryCount reason m =
     (case mc_OnDLQ (m_config m) of
        None \<Rightarrow> (Some ErrDLQHandlerUnavailable, m)
      | Some handler \<Rightarrow>
          (let (err, s) = handler q g msg off deliveryCount reason (m_queues m) in (err, m\<lparr>m_queues := s\<rparr>)))"

definition Manager_Reject ::
  "instant \<Rightarrow> string \<Rightarrow> string \<Rightarrow> string \<Rightarrow> u64 \<Rightarrow> string \<Rightarrow> ('q, 'g) manager \<Rightarrow> manager_error option \<times> ('q, 'g) manager" where
  "Manager_Reject now q g consumerID off reason m =
     (case prepareTransfer now (q, g, off) consumerID m of
        (Inl err, m) \<Rightarrow> (Some err, m)
      | (Inr (msg, deliveryCount), m) \<Rightarrow>
          (let (transferErr, m) = call_dlq q g msg off deliveryCount reason m
           in finishTransfer now (q, g, off) consumerID transferErr m))"


section \<open>The poison sweep\<close>

definition poisonWorkList :: "instant \<Rightarrow> ('q, 'g) manager \<Rightarrow> transfer_key list" where
  "poisonWorkList now m =
     concat (map (\<lambda>(key, entries).
       (case splitGroupKey key of (q, g, ok) \<Rightarrow>
          if \<not> ok then []
          else map (\<lambda>(off, _). (q, g, off)) (filter (\<lambda>(_, state). \<not> now < ps_retryAfter state) entries)))
       (m_poison m))"

definition preparePoisonTransfer ::
  "instant \<Rightarrow> transfer_key \<Rightarrow> ('q, 'g) manager \<Rightarrow> (pending_entry \<times> envelope) option \<times> ('q, 'g) manager" where
  "preparePoisonTransfer now ref m =
     (case ref of (q, g, off) \<Rightarrow>
        (case get_group now q g m of
           (Inl _, m) \<Rightarrow> (None, forgetPoison q g off m)
         | (Inr grp, m) \<Rightarrow>
             (let (entry, owner) = FindPending grp off
              in if owner = [] then (None, forgetPoison q g off m)
                 else (case beginTransfer ref m of
                         (False, m) \<Rightarrow> (None, m)
                       | (True, m) \<Rightarrow>
                           (case q_Read (m_queueOps m) q off (m_queues m) of
                              Inl _ \<Rightarrow> (None, scheduleNextPoisonAttempt now q g off (endTransfer ref m))
                            | Inr msg \<Rightarrow> (Some (entry, msg), m))))))"

definition finishPoisonTransfer ::
  "instant \<Rightarrow> transfer_key \<Rightarrow> pending_entry \<Rightarrow> manager_error option \<Rightarrow> ('q, 'g) manager \<Rightarrow> ('q, 'g) manager" where
  "finishPoisonTransfer now ref entry transferErr m =
     (case ref of (q, g, off) \<Rightarrow>
        (let m = endTransfer ref m
         in (case transferErr of
               Some err \<Rightarrow>
                 if dlqUnavailable m err then reportPoisonWithoutDLQ now q g (pe_Offset entry) m
                 else scheduleNextPoisonAttempt now q g off m
             | None \<Rightarrow>
                 (case on_groups (\<lambda>ops. g_RemovePendingEntry ops now q g (pe_ConsumerID entry) off) m of
                    (Some _, m) \<Rightarrow> scheduleNextPoisonAttempt now q g off m
                  | (None, m) \<Rightarrow> clearDLQRetry q g (pe_Offset entry) m))))"

definition sweep_reason :: string where "sweep_reason = ''max delivery count exceeded''"

definition sweepPoisonEntry :: "instant \<Rightarrow> transfer_key \<Rightarrow> ('q, 'g) manager \<Rightarrow> ('q, 'g) manager" where
  "sweepPoisonEntry now ref m =
     (case preparePoisonTransfer now ref m of
        (None, m) \<Rightarrow> m
      | (Some (entry, msg), m) \<Rightarrow>
          (case ref of (q, g, off) \<Rightarrow>
             (let (err, m) = call_dlq q g msg off (pe_DeliveryCount entry) sweep_reason m
              in finishPoisonTransfer now ref entry err m)))"

text \<open>The workers of one sweep, one after another.\<close>

definition SweepPoison :: "instant \<Rightarrow> ('q, 'g) manager \<Rightarrow> ('q, 'g) manager" where
  "SweepPoison now m =
     (if mc_OnDLQ (m_config m) = None then m else fold (sweepPoisonEntry now) (poisonWorkList now m) m)"


section \<open>Offsets, heartbeats and clean-up\<close>

definition GetPendingCount :: "instant \<Rightarrow> string \<Rightarrow> string \<Rightarrow> ('q, 'g) manager \<Rightarrow> (manager_error + nat) \<times> ('q, 'g) manager" where
  "GetPendingCount now q g m =
     (let (r, m) = get_group now q g m in (map_sum GroupErr PendingCount r, m))"

definition GetLag :: "instant \<Rightarrow> string \<Rightarrow> string \<Rightarrow> ('q, 'g) manager \<Rightarrow> (manager_error + u64) \<times> ('q, 'g) manager" where
  "GetLag now q g m =
     (case get_group now q g m of
        (Inl err, m) \<Rightarrow> (Inl (GroupErr err), m)
      | (Inr grp, m) \<Rightarrow>
          (case q_Tail (m_queueOps m) q (m_queues m) of
             Inl err \<Rightarrow> (Inl (QueueErr err), m)
           | Inr tail \<Rightarrow>
               (let committed = qc_Committed (CursorView grp)
                in (Inr (if tail > committed then tail - committed else 0), m))))"

definition GetCommittedOffset :: "instant \<Rightarrow> string \<Rightarrow> string \<Rightarrow> ('q, 'g) manager \<Rightarrow> (manager_error + u64) \<times> ('q, 'g) manager" where
  "GetCommittedOffset now q g m =
     (let (r, m) = get_group now q g m in (map_sum GroupErr (\<lambda>grp. qc_Committed (CursorView grp)) r, m))"

definition Manager_AdvanceCommitted ::
  "instant \<Rightarrow> string \<Rightarrow> string \<Rightarrow> u64 \<Rightarrow> ('q, 'g) manager \<Rightarrow> manager_error option \<times> ('q, 'g) manager" where
  "Manager_AdvanceCommitted now q g committed m =
     (case get_group now q g m of
        (Inl err, m) \<Rightarrow> (Some (GroupErr err), m)
      | (Inr grp, m) \<Rightarrow>
          (let cursor = CursorView grp
           in if committed > qc_Cursor cursor then (Some ErrInvalidOffset, m)
              else if committed \<le> qc_Committed cursor then (None, m)
              else on_groups (\<lambda>ops. g_UpdateCommitted ops now q g committed) m))"

fun remove_below ::
  "instant \<Rightarrow> string \<Rightarrow> string \<Rightarrow> u64 \<Rightarrow> (string \<times> pending_entry) list \<Rightarrow> ('q, 'g) manager \<Rightarrow>
   manager_error option \<times> ('q, 'g) manager" where
  "remove_below now q g off [] m = (None, m)"
| "remove_below now q g off ((owner, entry) # rest) m =
     (if pe_Offset entry \<ge> off then remove_below now q g off rest m
      else (case on_groups (\<lambda>ops. g_RemovePendingEntry ops now q g owner (pe_Offset entry)) m of
              (Some err, m) \<Rightarrow> (Some err, m)
            | (None, m) \<Rightarrow> remove_below now q g off rest m))"

definition Manager_CommitOffset ::
  "instant \<Rightarrow> string \<Rightarrow> string \<Rightarrow> u64 \<Rightarrow> ('q, 'g) manager \<Rightarrow> manager_error option \<times> ('q, 'g) manager" where
  "Manager_CommitOffset now q g off m =
     (case get_group now q g m of
        (Inl err, m) \<Rightarrow> (Some (GroupErr err), m)
      | (Inr grp, m) \<Rightarrow>
          (let cursor = CursorView grp
           in if cg_Mode grp \<noteq> GroupModeStream then (Some ErrCommitOffsetOnlyForStreamMode, m)
              else if off > qc_Cursor cursor then (Some ErrInvalidOffset, m)
              else if off < qc_Committed cursor then (Some ErrCommitOffsetNotMonotonic, m)
              else
                (case (if AutoCommitEnabled grp then (None, m)
                       else remove_below now q g off
                              (concat (map (\<lambda>(owner, entries). map (Pair owner) entries) (sn_PEL (Group_Snapshot grp)))) m) of
                   (Some err, m) \<Rightarrow> (Some err, m)
                 | (None, m) \<Rightarrow> on_groups (\<lambda>ops. g_UpdateCommitted ops now q g off) m)))"

definition min_committed :: "consumer_group list \<Rightarrow> u64 \<times> bool" where
  "min_committed groups =
     fold (\<lambda>grp (minCommitted, fst_one).
        (let committed = qc_Committed (CursorView grp)
         in if fst_one \<or> committed < minCommitted then (committed, False) else (minCommitted, fst_one)))
       groups (0, True)"

definition GetMinCommittedOffset :: "string \<Rightarrow> ('q, 'g) manager \<Rightarrow> manager_error + u64" where
  "GetMinCommittedOffset q m =
     (case g_ListConsumerGroups (m_groupOps m) q (m_groups m) of
        Inl err \<Rightarrow> Inl (GroupErr err)
      | Inr groups \<Rightarrow>
          if groups = [] then map_sum QueueErr id (q_Tail (m_queueOps m) q (m_queues m))
          else Inr (fst (min_committed groups)))"

definition GetMinCommittedOffsetByMode :: "string \<Rightarrow> string \<Rightarrow> ('q, 'g) manager \<Rightarrow> manager_error + u64" where
  "GetMinCommittedOffsetByMode q mode m =
     (case g_ListConsumerGroups (m_groupOps m) q (m_groups m) of
        Inl err \<Rightarrow> Inl (GroupErr err)
      | Inr groups \<Rightarrow>
          (case min_committed (filter (\<lambda>grp. mode = [] \<or> cg_Mode grp = mode) groups) of
             (_, True) \<Rightarrow> map_sum QueueErr id (q_Tail (m_queueOps m) q (m_queues m))
           | (minCommitted, False) \<Rightarrow> Inr minCommitted))"

definition Manager_UpdateHeartbeat ::
  "instant \<Rightarrow> string \<Rightarrow> string \<Rightarrow> string \<Rightarrow> ('q, 'g) manager \<Rightarrow> manager_error option \<times> ('q, 'g) manager" where
  "Manager_UpdateHeartbeat now q g consumerID m =
     (case get_group now q g m of
        (Inl err, m) \<Rightarrow> (Some (GroupErr err), m)
      | (Inr grp, m) \<Rightarrow>
          (case GetConsumer grp consumerID of
             (_, False) \<Rightarrow> (Some ErrNotConsumer, m)
           | (current, True) \<Rightarrow>
               if mc_HeartbeatRefresh (m_config m) > 0 \<and>
                  now - ci_LastHeartbeat current < mc_HeartbeatRefresh (m_config m) then (None, m)
               else (case TouchConsumer now consumerID now grp of
                       ((_, False), _) \<Rightarrow> (Some ErrNotConsumer, m)
                     | ((c, True), _) \<Rightarrow> on_groups (\<lambda>ops. g_RegisterConsumer ops now q g c) m)))"

definition CleanupStaleConsumers ::
  "instant \<Rightarrow> string \<Rightarrow> string \<Rightarrow> duration \<Rightarrow> ('q, 'g) manager \<Rightarrow> (manager_error + string list) \<times> ('q, 'g) manager" where
  "CleanupStaleConsumers now q g timeout m =
     (case get_group now q g m of
        (Inl err, m) \<Rightarrow> (Inl (GroupErr err), m)
      | (Inr grp, m) \<Rightarrow>
          (let cutoff = now - timeout;
               removed = ForEachConsumer (\<lambda>cid c removed.
                           (True, if ci_LastHeartbeat c < cutoff then removed @ [cid] else removed)) grp [];
               grp = fold (DeleteConsumer now) removed grp
           in if removed = [] then (Inr removed, m)
              else (case on_groups (\<lambda>ops. g_UpdateConsumerGroup ops now grp) m of
                      (Some err, m) \<Rightarrow> (Inl err, m)
                    | (None, m) \<Rightarrow> (Inr removed, m))))"


section \<open>The stores of the broker\<close>

text \<open>The in-memory log as the queue store, and the adapter as the group store.\<close>

definition mem_queue_ops :: "mem_store queue_ops" where
  "mem_queue_ops =
     \<lparr>q_Head = (\<lambda>q s. Head s q), q_Tail = (\<lambda>q s. Tail s q), q_Read = (\<lambda>q off s. Read s q off)\<rparr>"

definition adapter_ops :: "adapter group_ops" where
  "adapter_ops =
     \<lparr>g_CreateConsumerGroup = A_CreateConsumerGroup, g_GetConsumerGroup = A_GetConsumerGroup,
      g_UpdateConsumerGroup = A_UpdateConsumerGroup, g_ListConsumerGroups = (\<lambda>q a. Inr (A_ListConsumerGroups a q)),
      g_AddPendingEntry = A_AddPendingEntry, g_RemovePendingEntry = A_RemovePendingEntry,
      g_TransferPendingEntry = A_TransferPendingEntry, g_UpdateCursor = A_UpdateCursor,
      g_UpdateCommitted = A_UpdateCommitted, g_RegisterConsumer = A_RegisterConsumer,
      g_UnregisterConsumer = A_UnregisterConsumer, g_RequeuePendingEntry = Some A_RequeuePendingEntry,
      g_object = (\<lambda>q g a. case group_at (ad_groups a) q g of Some grp \<Rightarrow> grp | None \<Rightarrow> NewConsumerGroupState 0 q g [])\<rparr>"

end
