(* ===== verification/Claim_Contract.thy ===== *)
theory Claim_Contract
  imports Consumer_Manager
begin

text \<open>
  What the consumer manager relies on in its group store, and what follows for the manager. The contract
  speaks of one queue-mode group at a time through a view of the store: the pending entries by offset, the
  cursor and the committed offset. A call may fail before or after its effect, so a failed call leaves the
  view as it was or as a successful call would. Groups other than the one named are not touched.
\<close>

section \<open>The view of a group\<close>

record gview =
  gv_pel :: "u64 \<rightharpoonup> pending_entry"
  gv_cursor :: u64
  gv_committed :: u64

definition agrees :: "consumer_group \<Rightarrow> gview \<Rightarrow> bool" where
  "agrees grp v \<longleftrightarrow>
     cg_Mode grp \<noteq> GroupModeStream \<and> pel_inv grp \<and>
     (\<forall>off e. gv_pel v off = Some e \<longleftrightarrow> e \<in> pending grp \<and> pe_Offset e = off) \<and>
     qc_Cursor (CursorView grp) = gv_cursor v \<and> qc_Committed (CursorView grp) = gv_committed v"

lemma agrees_dom: "agrees grp v \<Longrightarrow> pe_Offset ` pending grp = dom (gv_pel v)"
  by (force simp: agrees_def)

lemma agrees_finite: "agrees grp v \<Longrightarrow> finite (dom (gv_pel v))"
  by (metis agrees_dom agrees_def finite_imageI finite_pending)

text \<open>The effects of the store operations on a view.\<close>

definition v_add :: "pending_entry \<Rightarrow> gview \<Rightarrow> gview" where
  "v_add e v = v\<lparr>gv_pel := (gv_pel v)(pe_Offset e \<mapsto> e), gv_cursor := max (gv_cursor v) (pe_Offset e + 1)\<rparr>"

definition v_claim :: "string \<Rightarrow> u64 \<Rightarrow> gview \<Rightarrow> gview \<Rightarrow> bool" where
  "v_claim c off v v' \<longleftrightarrow>
     (\<exists>e. pe_Offset e = off \<and> pe_ConsumerID e = c \<and> pe_DeliveryCount e = 1 \<and> v' = v_add e v)"

definition v_remove :: "u64 \<Rightarrow> gview \<Rightarrow> gview" where
  "v_remove off v = v\<lparr>gv_pel := (gv_pel v)(off := None)\<rparr>"

text \<open>
  An entry handed from one consumer to another, which counts as a delivery, and one put back with a new
  time, which does not. Times are kept in milliseconds and the delivery count has sixteen bits.
\<close>

definition in_milli :: "instant \<Rightarrow> instant \<Rightarrow> bool" where
  "in_milli t t' \<longleftrightarrow> t' \<le> t \<and> t < t' + 1000000"

definition v_transfer :: "instant \<Rightarrow> u64 \<Rightarrow> string \<Rightarrow> string \<Rightarrow> gview \<Rightarrow> gview \<Rightarrow> bool" where
  "v_transfer now off src dst v v' \<longleftrightarrow>
     (\<exists>e e'. gv_pel v off = Some e \<and> pe_ConsumerID e = src \<and> pe_Offset e' = off \<and> pe_ConsumerID e' = dst \<and>
             pe_DeliveryCount e' = (pe_DeliveryCount e + 1) mod 65536 \<and> in_milli now (pe_ClaimedAt e') \<and>
             v' = v\<lparr>gv_pel := (gv_pel v)(off \<mapsto> e')\<rparr>)"

definition v_requeue :: "instant \<Rightarrow> u64 \<Rightarrow> gview \<Rightarrow> gview \<Rightarrow> bool" where
  "v_requeue t off v v' \<longleftrightarrow>
     (\<exists>e e'. gv_pel v off = Some e \<and> pe_Offset e' = off \<and> pe_ConsumerID e' = pe_ConsumerID e \<and>
             pe_DeliveryCount e' = pe_DeliveryCount e \<and> in_milli t (pe_ClaimedAt e') \<and>
             v' = v\<lparr>gv_pel := (gv_pel v)(off \<mapsto> e')\<rparr>)"

section \<open>The steps of a group\<close>

text \<open>
  The abstract group. A claim takes an offset at or above the cursor; the entries in \<open>R\<close> may be removed and
  those in \<open>T\<close> handed over or put back; the cursor only rises; the committed offset only rises, and not past
  a pending entry.
\<close>

inductive vstep :: "u64 set \<Rightarrow> u64 set \<Rightarrow> gview \<Rightarrow> gview \<Rightarrow> bool" for R T where
  claim: "gv_cursor v \<le> off \<Longrightarrow> off + 1 \<noteq> 0 \<Longrightarrow> v_claim c off v v' \<Longrightarrow> vstep R T v v'"
| remove: "off \<in> R \<Longrightarrow> vstep R T v (v_remove off v)"
| transfer: "off \<in> T \<Longrightarrow> v_transfer now off src dst v v' \<Longrightarrow> vstep R T v v'"
| requeue: "off \<in> T \<Longrightarrow> v_requeue t off v v' \<Longrightarrow> vstep R T v v'"
| skip: "gv_cursor v \<le> c \<Longrightarrow> vstep R T v (v\<lparr>gv_cursor := c\<rparr>)"
| commit: "gv_committed v \<le> c \<Longrightarrow> c \<le> gv_cursor v \<Longrightarrow> \<forall>off. gv_pel v off \<noteq> None \<longrightarrow> c \<le> off \<Longrightarrow>
    vstep R T v (v\<lparr>gv_committed := c\<rparr>)"

definition safe :: "gview \<Rightarrow> bool" where
  "safe v \<longleftrightarrow>
     gv_committed v \<le> gv_cursor v \<and>
     (\<forall>off. gv_pel v off \<noteq> None \<longrightarrow> gv_committed v \<le> off \<and> off < gv_cursor v) \<and>
     (\<forall>off e. gv_pel v off = Some e \<longrightarrow> pe_Offset e = off)"

lemma vstep_safe: "vstep R T v v' \<Longrightarrow> safe v \<Longrightarrow> safe v'"
proof (induction rule: vstep.induct)
  case (claim v off c v')
  then have lt: "off < off + 1" using succ_lt by blast
  have "x < off + 1" if "x < gv_cursor v" for x
    using that lt claim(1) by (meson order_less_le_trans order_less_trans)
  with claim lt show ?case by (auto simp: safe_def v_claim_def v_add_def less_max_iff_disj split: if_splits)
qed (auto simp: safe_def v_remove_def v_transfer_def v_requeue_def split: if_splits)

lemma vstep_mono: "vstep R T v v' \<Longrightarrow> gv_cursor v \<le> gv_cursor v' \<and> gv_committed v \<le> gv_committed v'"
  by (induction rule: vstep.induct) (auto simp: v_claim_def v_add_def v_remove_def v_transfer_def v_requeue_def)

lemma vstep_keeps:
  "vstep R T v v' \<Longrightarrow> off < gv_cursor v \<Longrightarrow> off \<notin> R \<Longrightarrow> off \<notin> T \<Longrightarrow> gv_pel v' off = gv_pel v off"
  by (induction rule: vstep.induct) (auto simp: v_claim_def v_add_def v_remove_def v_transfer_def v_requeue_def)

lemma vstep_dom:
  "vstep R T v v' \<Longrightarrow> off < gv_cursor v \<Longrightarrow> gv_pel v' off \<noteq> None \<Longrightarrow> gv_pel v off \<noteq> None"
  "vstep R T v v' \<Longrightarrow> off < gv_cursor v \<Longrightarrow> off \<notin> R \<Longrightarrow> gv_pel v off \<noteq> None \<Longrightarrow> gv_pel v' off \<noteq> None"
  by (induction rule: vstep.induct)
     (auto simp: v_claim_def v_add_def v_remove_def v_transfer_def v_requeue_def split: if_splits)

lemma v_claim_cursor:
  assumes "v_claim c off v v'" "gv_cursor v \<le> off" "off + 1 \<noteq> 0"
  shows "gv_cursor v' = off + 1" "v'\<lparr>gv_cursor := off + 1\<rparr> = v'"
  using assms succ_lt[of off] by (auto simp: v_claim_def v_add_def max_def)

lemma vstep_weaken: "vstep R T v v' \<Longrightarrow> R \<subseteq> R' \<Longrightarrow> T \<subseteq> T' \<Longrightarrow> vstep R' T' v v'"
  by (induction rule: vstep.induct) (blast intro: vstep.intros)+

lemma vsteps_weaken: "(vstep R T)\<^sup>*\<^sup>* v v' \<Longrightarrow> R \<subseteq> R' \<Longrightarrow> T \<subseteq> T' \<Longrightarrow> (vstep R' T')\<^sup>*\<^sup>* v v'"
  by (induction rule: rtranclp_induct) (blast intro: rtranclp.rtrancl_into_rtrancl vstep_weaken)+

lemma vsteps_safe: "(vstep R T)\<^sup>*\<^sup>* v v' \<Longrightarrow> safe v \<Longrightarrow> safe v'"
  by (induction rule: rtranclp_induct) (auto dest: vstep_safe)

lemma vsteps_mono: "(vstep R T)\<^sup>*\<^sup>* v v' \<Longrightarrow> gv_cursor v \<le> gv_cursor v' \<and> gv_committed v \<le> gv_committed v'"
  by (induction rule: rtranclp_induct) (auto dest: vstep_mono)

lemma vsteps_keeps:
  assumes "(vstep R T)\<^sup>*\<^sup>* v v'" "off < gv_cursor v" "off \<notin> R"
  shows "off < gv_cursor v' \<and> (off \<notin> T \<longrightarrow> gv_pel v' off = gv_pel v off) \<and> (gv_pel v' off = None \<longleftrightarrow> gv_pel v off = None)"
  using assms(1)
proof (induction rule: rtranclp_induct)
  case (step w w')
  then show ?case
    using assms(3) vstep_mono[of R T w w'] vstep_keeps[of R T w w' off] vstep_dom[of R T w w' off]
    by (metis order_less_le_trans)
qed (simp add: assms)

text \<open>An offset below the cursor that is not pending never becomes pending again.\<close>

lemma vsteps_gone:
  assumes "(vstep R T)\<^sup>*\<^sup>* v v'" "off < gv_cursor v" "gv_pel v off = None"
  shows "off < gv_cursor v' \<and> gv_pel v' off = None"
  using assms(1)
proof (induction rule: rtranclp_induct)
  case (step w w')
  then show ?case
    using vstep_mono[of R T w w'] vstep_dom(1)[of R T w w' off] by (metis order_less_le_trans)
qed (simp add: assms)

text \<open>The groups other than the one a call names.\<close>

definition others ::
  "(string \<Rightarrow> string \<Rightarrow> 'g \<Rightarrow> bool) \<Rightarrow> (string \<Rightarrow> string \<Rightarrow> 'g \<Rightarrow> gview) \<Rightarrow> string \<Rightarrow> string \<Rightarrow> 'g \<Rightarrow> 'g \<Rightarrow> bool" where
  "others ok view q g s s' \<longleftrightarrow>
     (\<forall>q' g'. (q', g') \<noteq> (q, g) \<and> ok q' g' s \<longrightarrow> ok q' g' s' \<and> view q' g' s' = view q' g' s)"

text \<open>
  The contract. What a call does to the group it names is stated for a group in good order; that it leaves
  the other groups alone is stated for every call.
\<close>

locale group_store =
  fixes G :: "'g group_ops"
    and ok :: "string \<Rightarrow> string \<Rightarrow> 'g \<Rightarrow> bool"
    and view :: "string \<Rightarrow> string \<Rightarrow> 'g \<Rightarrow> gview"
  assumes get_law:
    "ok q g s \<Longrightarrow>
     \<exists>grp s'. g_GetConsumerGroup G now q g s = (Inr grp, s') \<and> ok q g s' \<and> view q g s' = view q g s \<and>
       agrees grp (view q g s) \<and> g_object G q g s' = grp \<and> cg_QueueName grp = q \<and> cg_ID grp = g \<and>
       cg_Consumers grp = cg_Consumers (g_object G q g s)"
  and ids_law:
    "ok q' g' s \<Longrightarrow> g_GetConsumerGroup G now q g s = (Inr grp, s') \<Longrightarrow> cg_QueueName grp = q \<and> cg_ID grp = g"
  and add_law:
    "ok q g s \<Longrightarrow> g_AddPendingEntry G now q g e s = (err, s') \<Longrightarrow> pe_DeliveryCount e = 1 \<Longrightarrow>
     pe_Offset e + 1 \<noteq> 0 \<Longrightarrow>
     ok q g s' \<and>
     (err \<noteq> None \<and> view q g s' = view q g s \<or>
      v_claim (pe_ConsumerID e) (pe_Offset e) (view q g s) (view q g s'))"
  and remove_law:
    "ok q g s \<Longrightarrow> g_RemovePendingEntry G now q g c off s = (err, s') \<Longrightarrow>
     ok q g s' \<and>
     (err \<noteq> None \<and> view q g s' = view q g s \<or> view q g s' = v_remove off (view q g s))"
  and transfer_law:
    "ok q g s \<Longrightarrow> g_TransferPendingEntry G now q g off src dst s = (err, s') \<Longrightarrow>
     ok q g s' \<and>
     ((err \<noteq> None \<or> gv_pel (view q g s) off = None) \<and> view q g s' = view q g s \<or> v_transfer now off src dst (view q g s) (view q g s'))"
  and cursor_law:
    "ok q g s \<Longrightarrow> g_UpdateCursor G now q g pos s = (err, s') \<Longrightarrow>
     ok q g s' \<and>
     (err \<noteq> None \<and> view q g s' = view q g s \<or> view q g s' = (view q g s)\<lparr>gv_cursor := pos\<rparr>) \<and>
     (err = None \<longrightarrow> qc_Cursor (CursorView (g_object G q g s')) = pos \<and>
        cg_Consumers (g_object G q g s') = cg_Consumers (g_object G q g s) \<and>
        (agrees (g_object G q g s) (view q g s) \<longrightarrow> agrees (g_object G q g s') (view q g s')))"
  and committed_law:
    "ok q g s \<Longrightarrow> g_UpdateCommitted G now q g pos s = (err, s') \<Longrightarrow>
     ok q g s' \<and>
     (err \<noteq> None \<and> view q g s' = view q g s \<or> view q g s' = (view q g s)\<lparr>gv_committed := pos\<rparr>)"
  and requeue_law:
    "ok q g s \<Longrightarrow> g_RequeuePendingEntry G = Some f \<Longrightarrow> f now q g c off t s = (err, s') \<Longrightarrow>
     ok q g s' \<and>
     ((err \<noteq> None \<or> \<not> agrees (g_object G q g s) (view q g s)) \<and> view q g s' = view q g s \<or>
      v_requeue t off (view q g s) (view q g s'))"
  and member_law:
    "ok q g s \<Longrightarrow> g_RegisterConsumer G now q g info s = (err, s') \<Longrightarrow> ok q g s' \<and> view q g s' = view q g s"
    "ok q g s \<Longrightarrow> g_UnregisterConsumer G now q g c s = (err, s') \<Longrightarrow> ok q g s' \<and> view q g s' = view q g s"
  and update_law:
    "ok (cg_QueueName grp) (cg_ID grp) s \<Longrightarrow> g_UpdateConsumerGroup G now grp s = (err, s') \<Longrightarrow>
     agrees grp (view (cg_QueueName grp) (cg_ID grp) s) \<Longrightarrow>
     ok (cg_QueueName grp) (cg_ID grp) s' \<and> view (cg_QueueName grp) (cg_ID grp) s' = view (cg_QueueName grp) (cg_ID grp) s"
  and frame_law:
    "others ok view q g s (snd (g_GetConsumerGroup G now q g s))"
    "others ok view q g s (snd (g_AddPendingEntry G now q g e s))"
    "others ok view q g s (snd (g_RemovePendingEntry G now q g c off s))"
    "others ok view q g s (snd (g_TransferPendingEntry G now q g off src dst s))"
    "others ok view q g s (snd (g_UpdateCursor G now q g pos s))"
    "others ok view q g s (snd (g_UpdateCommitted G now q g pos s))"
    "others ok view q g s (snd (g_RegisterConsumer G now q g info s))"
    "others ok view q g s (snd (g_UnregisterConsumer G now q g c s))"
    "g_RequeuePendingEntry G = Some f \<Longrightarrow> others ok view q g s (snd (f now q g c off t s))"
    "others ok view (cg_QueueName grp) (cg_ID grp) s (snd (g_UpdateConsumerGroup G now grp s))"
    "others ok view (cg_QueueName grp) (cg_ID grp) s (snd (g_CreateConsumerGroup G now grp s))"


section \<open>Manager calls as steps\<close>

definition good ::
  "(string \<Rightarrow> string \<Rightarrow> 'g \<Rightarrow> bool) \<Rightarrow> (string \<Rightarrow> string \<Rightarrow> 'g \<Rightarrow> gview) \<Rightarrow> string \<Rightarrow> string \<Rightarrow> 'g \<Rightarrow> bool" where
  "good ok view q g s \<longleftrightarrow> ok q g s \<and> safe (view q g s)"

definition mframe :: "('q, 'g) manager \<Rightarrow> ('q, 'g) manager \<Rightarrow> bool" where
  "mframe m m' \<longleftrightarrow>
     m_queueOps m' = m_queueOps m \<and> m_groupOps m' = m_groupOps m \<and> m_config m' = m_config m \<and>
     m_queues m' = m_queues m \<and> m_transfers m' = m_transfers m"

definition quiet :: "('q, 'g) manager \<Rightarrow> ('q, 'g) manager \<Rightarrow> bool" where
  "quiet m m' \<longleftrightarrow> mframe m m' \<and> m_groups m' = m_groups m"

lemma quiet_refl [simp]: "quiet m m" "mframe m m"
  by (simp_all add: quiet_def mframe_def)

lemma quiet_trans: "quiet m m' \<Longrightarrow> quiet m' m'' \<Longrightarrow> quiet m m''"
  by (simp add: quiet_def mframe_def)

lemma poison_quiet:
  "quiet m (set_poison key es m)" "quiet m (count_new key off m)"
  "quiet m (snd (dlqTransferDue now q g off m))" "quiet m (snd (trackPoisonForSweep q g off m))"
  "quiet m (scheduleNextPoisonAttempt now q g off m)" "quiet m (snd (markPoisonWithoutDestination q g off m))"
  "quiet m (forgetPoisonLocked q g off m)"
  by (simp_all add: quiet_def mframe_def set_poison_def count_new_def dlqTransferDue_def trackPoisonForSweep_def
      scheduleNextPoisonAttempt_def markPoisonWithoutDestination_def forgetPoisonLocked_def Let_def split: option.split)

lemma fold_quiet: "(\<And>x m. quiet m (f x m)) \<Longrightarrow> quiet m (fold f xs m)"
  by (induction xs arbitrary: m) (auto intro: quiet_trans)

lemma poison_quiet_more:
  "quiet m (prunePoison q g m)" "quiet m (reportPoisonWithoutDLQ now q g off m)"
  "quiet m (snd (deferPoisonTransfer now q g off m))" "quiet m (forgetPoison q g off m)" "quiet m (clearDLQRetry q g off m)"
proof -
  show "quiet m (prunePoison q g m)"
    by (auto simp: prunePoison_def Let_def poison_quiet intro!: fold_quiet)
  show r: "quiet m (reportPoisonWithoutDLQ now q g off m)"
    unfolding reportPoisonWithoutDLQ_def by (meson poison_quiet(3,6) quiet_trans)
  show "quiet m (snd (deferPoisonTransfer now q g off m))"
    by (simp add: deferPoisonTransfer_def poison_quiet r)
qed (simp_all add: forgetPoison_def clearDLQRetry_def poison_quiet)

end
