(* ===== verification/Adapter_View.thy ===== *)
theory Adapter_View
  imports Claim_Contract
begin

text \<open>
  The view of a queue-mode group in the storage adapter: the consumer state of the log store, with the
  committed offset of the metadata store. Reading a group copies exactly that view into the group object,
  and no call touches a group it does not name.
\<close>

section \<open>Filing entries under their consumer\<close>

lemma map_of_fold_file_under:
  "map_of (fold (file_under key) es m) k =
     (let old = (case map_of m k of None \<Rightarrow> [] | Some xs \<Rightarrow> xs); new = filter (\<lambda>e. key e = k) es
      in if new = [] then map_of m k else Some (old @ new))"
  by (induction es arbitrary: m) (auto simp: file_under_def Let_def split: option.splits)

lemma distinct_fold_file_under:
  "distinct (map fst m) \<Longrightarrow> distinct (map fst (fold (file_under key) es m))"
  by (induction es arbitrary: m) (auto simp: file_under_def)

lemma fold_nested: "fold (\<lambda>i. fold h (xs i)) is m = fold h (concat (map xs is)) m"
  by (induction "is" arbitrary: m) simp_all

lemma GetPendingByShard_all:
  "concat (map (\<lambda>i. GetPendingByShard cs (int i)) [0..<NumShards cs]) = all_entries (cs_pelShards cs)"
proof -
  let ?n = "length (cs_pelShards cs)"
  have "map (\<lambda>i. GetPendingByShard cs (int i)) [0..<?n] = map (\<lambda>sh. map snd (sh_entries sh)) (cs_pelShards cs)"
    by (rule nth_equalityI) (simp_all add: GetPendingByShard_def)
  then show ?thesis by (simp add: NumShards_def all_entries_def)
qed

section \<open>The view\<close>

definition state_of :: "string \<Rightarrow> string \<Rightarrow> adapter \<Rightarrow> consumer_state" where
  "state_of q g a = projr (GetConsumerState (ad_store a) q g)"

definition ids_ok :: "group_files \<Rightarrow> bool" where
  "ids_ok s \<longleftrightarrow> (\<forall>q g grp. group_at s q g = Some grp \<longrightarrow> cg_QueueName grp = q \<and> cg_ID grp = g)"

definition a_ok :: "string \<Rightarrow> string \<Rightarrow> adapter \<Rightarrow> bool" where
  "a_ok q g a \<longleftrightarrow>
     ids_ok (ad_groups a) \<and>
     (\<exists>grp. group_at (ad_groups a) q g = Some grp \<and> cg_Mode grp \<noteq> GroupModeStream) \<and>
     (\<exists>cs. GetConsumerState (ad_store a) q g = Inr cs \<and> cs_wf cs)"

definition a_view :: "string \<Rightarrow> string \<Rightarrow> adapter \<Rightarrow> gview" where
  "a_view q g a =
     \<lparr>gv_pel = (\<lambda>off. map_option pendingEntryToTypes (entry_at (state_of q g a) off)),
      gv_cursor = gs_Cursor (cs_state (state_of q g a)),
      gv_committed = qc_Committed (CursorView (the (group_at (ad_groups a) q g)))\<rparr>"

lemma Group_Get_iff: "Group_Get s q g = Inr grp \<longleftrightarrow> group_at s q g = Some grp"
  by (auto simp: Group_Get_def group_at_def groups_of_def split: option.splits)

lemma Group_Get_cases: "Group_Get s q g = (case group_at s q g of None \<Rightarrow> Inl ErrGroupNotFound | Some grp \<Rightarrow> Inr grp)"
  by (auto simp: Group_Get_def group_at_def groups_of_def split: option.splits)

lemma Save_at:
  "group_at (snd (Save grp s)) q g = (if q = cg_QueueName grp \<and> g = cg_ID grp then Some grp else group_at s q g)"
proof -
  let ?r = "(cg_QueueName grp, cg_ID grp)" and ?s = "set_group (cg_QueueName grp) (cg_ID grp) grp s"
  have "group_at (snd (flush ?r grp x)) = group_at x" for x
    by (auto simp: flush_def writeGroup_def Let_def split: prod.splits option.splits if_splits)
  then show ?thesis by (simp add: Save_def Let_def)
qed

lemma ids_Save: "ids_ok s \<Longrightarrow> ids_ok (snd (Save grp s))"
  by (simp add: ids_ok_def Save_at)

section \<open>The log store\<close>

lemma put_manager_get: "getConsumerManager (put_manager q cm s) q' = (if q' = q then Inr cm else getConsumerManager s q')"
  by (simp add: getConsumerManager_def put_manager_def)

lemma CM_put_get: "CM_Get (CM_put g st cm) g' = (if g' = g then Some st else CM_Get cm g')"
  by (simp add: CM_Get_def CM_put_def)

lemma io_irrelevant [simp]: "getConsumerManager (s\<lparr>lg_io := x\<rparr>) = getConsumerManager s"
  by (simp add: getConsumerManager_def fun_eq_iff)

lemma GetConsumerState_Inr:
  "GetConsumerState s q g = Inr cs \<longleftrightarrow> (\<exists>cm. getConsumerManager s q = Inr cm \<and> CM_Get cm g = Some cs)"
  by (auto simp: GetConsumerState_def split: sum.splits option.splits)

lemma on_created_frame:
  assumes "(q', g') \<noteq> (q, g)"
  shows "GetConsumerState (snd (on_created now q g n f s)) q' g' = GetConsumerState s q' g'"
  using assms
  by (auto simp: on_created_def GetConsumerState_def put_manager_get CM_put_get CM_GetOrCreate_def Let_def
      split: sum.splits option.splits prod.splits if_splits)

lemma on_created_at:
  assumes "GetConsumerState s q g = Inr cs" "on_created now q g n f s = (err, s')"
  shows "err \<noteq> None \<and> GetConsumerState s' q g = Inr cs \<or>
    (\<exists>io e cs'. f io cs = (e, cs') \<and> err = map_option ErrConsumerState e \<and> GetConsumerState s' q g = Inr cs')"
proof -
  obtain cm where cm: "getConsumerManager s q = Inr cm" "CM_Get cm g = Some cs"
    using assms(1) by (auto simp: GetConsumerState_Inr)
  show ?thesis
  proof (cases "cmg_closed cm")
    case True
    then show ?thesis
      using cm assms by (auto simp: on_created_def CM_GetOrCreate_def GetConsumerState_Inr)
  next
    case False
    obtain e cs' where f: "f (script_io (lg_io s)) cs = (e, cs')" by fastforce
    have "err = map_option ErrConsumerState e \<and> GetConsumerState s' q g = Inr cs'"
      using False cm assms(2) f
      by (auto simp: on_created_def CM_GetOrCreate_def CM_Exists_def CM_Get_def GetConsumerState_Inr put_manager_get CM_put_get[unfolded CM_Get_def])
    then show ?thesis using f by blast
  qed
qed

lemma on_existing_frame:
  assumes "(q', g') \<noteq> (q, g)"
  shows "GetConsumerState (snd (on_existing q g f s)) q' g' = GetConsumerState s q' g'"
  using assms
  by (auto simp: on_existing_def GetConsumerState_def put_manager_get CM_put_get Let_def
      split: sum.splits option.splits prod.splits if_splits)

lemma on_existing_at:
  assumes "GetConsumerState s q g = Inr cs" "on_existing q g f s = (err, s')"
  shows "\<exists>io e cs'. f io cs = (e, cs') \<and> err = map_option ErrConsumerState e \<and> GetConsumerState s' q g = Inr cs'"
proof -
  obtain cm where cm: "getConsumerManager s q = Inr cm" "CM_Get cm g = Some cs"
    using assms(1) by (auto simp: GetConsumerState_Inr)
  obtain io script where io: "next_io (lg_io s) = (io, script)" by fastforce
  obtain e cs' where f: "f io cs = (e, cs')" by fastforce
  have "err = map_option ErrConsumerState e \<and> GetConsumerState s' q g = Inr cs'"
    using cm assms(2) io f by (auto simp: on_existing_def GetConsumerState_Inr put_manager_get CM_put_get)
  then show ?thesis using f by blast
qed


section \<open>What a call may touch\<close>

text \<open>Same names and mode; same committed offset as well.\<close>

definition kin :: "consumer_group \<Rightarrow> consumer_group \<Rightarrow> bool" where
  "kin grp grp' \<longleftrightarrow> cg_QueueName grp' = cg_QueueName grp \<and> cg_ID grp' = cg_ID grp \<and> cg_Mode grp' = cg_Mode grp"

definition twin :: "consumer_group \<Rightarrow> consumer_group \<Rightarrow> bool" where
  "twin grp grp' \<longleftrightarrow> kin grp grp' \<and> qc_Committed (CursorView grp') = qc_Committed (CursorView grp)"

lemma twin_kin: "twin grp grp' \<Longrightarrow> kin grp grp'"
  by (simp add: twin_def)

lemma twin_refl [simp]: "twin grp grp" "kin grp grp"
  by (simp_all add: twin_def kin_def)

lemma twin_trans: "twin a b \<Longrightarrow> twin b c \<Longrightarrow> twin a c"
  by (simp add: twin_def kin_def)

lemma group_twins:
  "twin grp (AddPending now c e grp)" "twin grp (snd (RemovePending now c off grp))"
  "twin grp (snd (TransferPending now off src dst grp))" "twin grp (snd (RequeuePending now off c t grp))"
  "twin grp (SetCursorPosition now pos grp)" "twin grp (SetConsumer now c info grp)" "twin grp (DeleteConsumer now c grp)"
  "twin grp (ReplacePEL now pel grp)" "twin grp (touch now grp)" "kin grp (AdvanceCommitted now pos grp)"
  by (simp_all add: twin_def kin_def AddPending_def RemovePending_def TransferPending_def RequeuePending_def
      SetCursorPosition_def SetConsumer_def DeleteConsumer_def ReplacePEL_def AdvanceCommitted_def touch_def set_pel_def
      CursorView_def Let_def split: option.split)

lemma twin_settled: "twin grp (remove_settled now c off grp)"
  by (simp add: remove_settled_def Let_def group_twins)

lemma twin_sync: "twin grp (syncPELFromStore now q g s (syncCursorsFromStore now q g s' grp))"
  by (auto simp: syncPELFromStore_def syncCursorsFromStore_def group_twins split: sum.split
      intro: twin_trans group_twins)

definition touches :: "string \<Rightarrow> string \<Rightarrow> adapter \<Rightarrow> adapter \<Rightarrow> bool" where
  "touches q g a a' \<longleftrightarrow>
     (ids_ok (ad_groups a) \<longrightarrow>
        ids_ok (ad_groups a') \<and>
        (\<forall>q' g'. (q', g') \<noteq> (q, g) \<longrightarrow>
           GetConsumerState (ad_store a') q' g' = GetConsumerState (ad_store a) q' g' \<and>
           group_at (ad_groups a') q' g' = group_at (ad_groups a) q' g'))"

lemma touches_refl [simp]: "touches q g a a"
  by (simp add: touches_def)

lemma touches_trans: "touches q g a a' \<Longrightarrow> touches q g a' a'' \<Longrightarrow> touches q g a a''"
  by (simp add: touches_def)

lemma touches_others: "touches q g a a' \<Longrightarrow> others a_ok a_view q g a a'"
  by (auto simp: touches_def others_def a_ok_def a_view_def state_of_def)

lemma touches_store:
  assumes "\<And>q' g'. (q', g') \<noteq> (q, g) \<Longrightarrow> GetConsumerState s q' g' = GetConsumerState (ad_store a) q' g'"
  shows "touches q g a (a\<lparr>ad_store := s\<rparr>)"
  using assms by (simp add: touches_def)

lemma touches_save:
  assumes "cg_QueueName grp = q" "cg_ID grp = g"
  shows "touches q g a (a\<lparr>ad_groups := snd (Save grp (ad_groups a))\<rparr>)"
  using assms by (auto simp: touches_def ids_Save Save_at)

lemma change_and_save_at:
  assumes "change_and_save q g f a = (err, a')" "ids_ok (ad_groups a)" "\<And>grp. kin grp (f grp)"
  shows "ad_store a' = ad_store a"
    and "group_at (ad_groups a') q g = map_option f (group_at (ad_groups a) q g)"
    and "touches q g a a'"
proof -
  have ids: "cg_QueueName (f grp) = q \<and> cg_ID (f grp) = g" if "group_at (ad_groups a) q g = Some grp" for grp
    using assms(2,3) that by (simp add: ids_ok_def kin_def)
  then show "ad_store a' = ad_store a" "group_at (ad_groups a') q g = map_option f (group_at (ad_groups a) q g)"
    using assms(1) by (auto simp: change_and_save_def Group_Get_cases Save_at split: option.splits prod.splits)
       (metis Save_at snd_conv)+
  show "touches q g a a'"
  proof (cases "group_at (ad_groups a) q g")
    case (Some grp)
    then have "a' = a\<lparr>ad_groups := snd (Save (f grp) (ad_groups a))\<rparr>"
      using assms(1) by (auto simp: change_and_save_def Group_Get_cases split: prod.splits)
    then show ?thesis using ids[OF Some] touches_save by simp
  qed (use assms(1) in \<open>simp add: change_and_save_def Group_Get_cases\<close>)
qed

lemma change_and_save_touches: "(\<And>grp. kin grp (f grp)) \<Longrightarrow> touches q g a (snd (change_and_save q g f a))"
  using change_and_save_at(3)[OF surjective_pairing] by (metis touches_def)


lemma put_object_at:
  assumes "cg_QueueName grp = q" "cg_ID grp = g"
  shows "touches q g a (put_object q g grp a)" "group_at (ad_groups (put_object q g grp a)) q g = Some grp"
    "ad_store (put_object q g grp a) = ad_store a"
  using assms by (auto simp: touches_def put_object_def ids_ok_def)

lemma Get_touches: "touches q g a (snd (A_GetConsumerGroup now q g a))"
proof (cases "ids_ok (ad_groups a) \<and> (\<exists>grp. group_at (ad_groups a) q g = Some grp)")
  case True
  then obtain grp where grp: "group_at (ad_groups a) q g = Some grp" "cg_QueueName grp = q" "cg_ID grp = g"
    by (auto simp: ids_ok_def)
  define grp' where "grp' = syncPELFromStore now q g (ad_store a) (syncCursorsFromStore now q g (ad_store a) grp)"
  have "cg_QueueName grp' = q" "cg_ID grp' = g"
    using twin_sync[of grp now q g "ad_store a" "ad_store a"] grp(2,3) by (simp_all add: grp'_def twin_def kin_def)
  then show ?thesis
    using put_object_at(1)[of grp' q g a] grp(1)
    by (simp add: A_GetConsumerGroup_def Group_Get_cases Let_def grp'_def[symmetric])
next
  case False
  then have "\<not> ids_ok (ad_groups a) \<or> group_at (ad_groups a) q g = None" by auto
  then show ?thesis
    by (elim disjE) (simp add: touches_def, simp add: A_GetConsumerGroup_def Group_Get_cases)
qed

lemma on_group_touches: "(\<And>grp. kin grp (f grp)) \<Longrightarrow> touches q g a (snd (on_group q g f a))"
proof -
  assume k: "\<And>grp. kin grp (f grp)"
  show ?thesis
  proof (cases "ids_ok (ad_groups a) \<and> (\<exists>grp. group_at (ad_groups a) q g = Some grp)")
    case True
    then obtain grp where grp: "group_at (ad_groups a) q g = Some grp" "cg_QueueName (f grp) = q" "cg_ID (f grp) = g"
      using k by (auto simp: ids_ok_def kin_def)
    then show ?thesis
      using touches_save[of "f grp" q g a] by (simp add: on_group_def Group_Get_cases case_prod_beta)
  next
    case False
    then have "\<not> ids_ok (ad_groups a) \<or> group_at (ad_groups a) q g = None" by auto
    then show ?thesis by (elim disjE) (simp add: touches_def, simp add: on_group_def Group_Get_cases)
  qed
qed

lemma created_touches: "on_created now q g n f (ad_store a) = (err, s) \<Longrightarrow> touches q g a (a\<lparr>ad_store := s\<rparr>)"
  by (rule touches_store) (metis on_created_frame snd_conv)

lemma existing_touches: "on_existing q g f (ad_store a) = (err, s) \<Longrightarrow> touches q g a (a\<lparr>ad_store := s\<rparr>)"
  by (rule touches_store) (metis on_existing_frame snd_conv)

lemma Add_touches: "touches q g a (snd (A_AddPendingEntry now q g e a))"
  using created_touches change_and_save_touches[OF twin_kin[OF group_twins(1)]] touches_trans
  by (fastforce simp: A_AddPendingEntry_def LS_AddPending_def LS_Deliver_def split: prod.split option.split)

lemma Remove_touches: "touches q g a (snd (A_RemovePendingEntry now q g c off a))"
  using existing_touches change_and_save_touches[OF twin_kin[OF twin_settled]] touches_trans
  by (fastforce simp: A_RemovePendingEntry_def LS_AckPending_def LS_Ack_def split: prod.split option.split)

lemma Cursor_touches: "touches q g a (snd (A_UpdateCursor now q g pos a))"
  using created_touches change_and_save_touches[OF twin_kin[OF group_twins(5)]] touches_trans
  by (fastforce simp: A_UpdateCursor_def LS_SetCursor_def split: prod.split option.split)

lemma Committed_touches: "touches q g a (snd (A_UpdateCommitted now q g pos a))"
  using change_and_save_touches[OF group_twins(10)] by (simp add: A_UpdateCommitted_def)

lemma Member_touches: "touches q g a (snd (A_RegisterConsumer now q g info a))" "touches q g a (snd (A_UnregisterConsumer now q g c a))"
  using on_group_touches[OF twin_kin[OF group_twins(6)]] on_group_touches[OF twin_kin[OF group_twins(7)]]
  by (simp_all add: A_RegisterConsumer_def A_UnregisterConsumer_def)

lemma Transfer_touches: "touches q g a (snd (A_TransferPendingEntry now q g off src dst a))"
proof -
  obtain r a1 where a: "A_GetConsumerGroup now q g a = (r, a1)" by fastforce
  have t1: "touches q g a a1" using Get_touches[of q g a now] a by simp
  obtain err s where b: "LS_ClaimPending now q g off dst (ad_store a1) = (err, s)" by fastforce
  have t2: "touches q g a (a1\<lparr>ad_store := s\<rparr>)"
    using b existing_touches t1 touches_trans by (fastforce simp: LS_ClaimPending_def LS_Claim_def)
  then show ?thesis
    using a b t1 change_and_save_touches[OF twin_kin[OF group_twins(3)]] touches_trans
    by (fastforce simp: A_TransferPendingEntry_def split: sum.split option.split)
qed

lemma Requeue_touches: "touches q g a (snd (A_RequeuePendingEntry now q g c off t a))"
proof (cases "ids_ok (ad_groups a) \<and> (\<exists>grp. group_at (ad_groups a) q g = Some grp)")
  case True
  then obtain grp where grp: "group_at (ad_groups a) q g = Some grp" "cg_QueueName grp = q" "cg_ID grp = g"
    by (auto simp: ids_ok_def)
  obtain err s where l: "LS_ReleaseAt q g off t (ad_store a) = (err, s)" by fastforce
  have t: "touches q g a (a\<lparr>ad_store := s\<rparr>)" using l existing_touches by (simp add: LS_ReleaseAt_def)
  obtain b grp' where r: "RequeuePending now off c t grp = (b, grp')" by fastforce
  have ids: "cg_QueueName grp' = q" "cg_ID grp' = g"
    using group_twins(4)[of grp now off c t] r grp(2,3) by (simp_all add: twin_def kin_def)
  have "touches q g a (a\<lparr>ad_store := s, ad_groups := snd (Save grp' (ad_groups a))\<rparr>)"
    using touches_trans[OF t touches_save[OF ids, of "a\<lparr>ad_store := s\<rparr>"]] by simp
  then show ?thesis
    using grp(1) l r t
    by (simp add: A_RequeuePendingEntry_def Group_Get_cases Let_def case_prod_beta split: option.split bool.split)
next
  case False
  then have "\<not> ids_ok (ad_groups a) \<or> group_at (ad_groups a) q g = None" by auto
  then show ?thesis by (elim disjE) (simp add: touches_def, simp add: A_RequeuePendingEntry_def Group_Get_cases)
qed

lemma Update_touches: "touches (cg_QueueName grp) (cg_ID grp) a (snd (A_UpdateConsumerGroup now grp a))"
  using touches_save[of "touch now grp" "cg_QueueName grp" "cg_ID grp" a]
  by (simp add: A_UpdateConsumerGroup_def touch_def case_prod_beta)


lemma restore_frame:
  "(q', g') \<noteq> (q, g) \<Longrightarrow>
   GetConsumerState (snd (restore_entries now q g es s)) q' g' = GetConsumerState s q' g'"
proof (induction es arbitrary: s)
  case (Cons e es)
  obtain err s1 where a: "LS_RestorePending now q g (typesToPelEntry e) s = (err, s1)" by fastforce
  have "GetConsumerState s1 q' g' = GetConsumerState s q' g'"
    using on_created_frame[OF Cons.prems] a unfolding LS_RestorePending_def by (metis snd_conv)
  then show ?case using a Cons by (cases err) simp_all
qed simp

lemma create_state_frame:
  "(q', g') \<noteq> (q, g) \<Longrightarrow> GetConsumerState (snd (LS_CreateConsumerGroup now q g s)) q' g' = GetConsumerState s q' g'"
  by (auto simp: LS_CreateConsumerGroup_def GetConsumerState_def put_manager_get CM_put_get CM_GetOrCreate_def Let_def
      split: sum.splits option.splits prod.splits if_splits)

lemma seed_frame:
  assumes "(q', g') \<noteq> (sn_QueueName sn, sn_ID sn)"
  shows "GetConsumerState (snd (seed_store now sn s)) q' g' = GetConsumerState s q' g'"
proof -
  let ?q = "sn_QueueName sn" and ?g = "sn_ID sn"
  obtain e1 s1 where a: "LS_CreateConsumerGroup now ?q ?g s = (e1, s1)" by fastforce
  obtain e2 s2 where b: "restore_entries now ?q ?g (concat (map snd (sn_PEL sn))) s1 = (e2, s2)" by fastforce
  obtain e3 s3 where c: "(if qc_Committed (sn_Cursor sn) > 0
      then LS_RestoreAckFloor now ?q ?g (qc_Committed (sn_Cursor sn)) s2 else (None, s2)) = (e3, s3)" by fastforce
  have "GetConsumerState s1 q' g' = GetConsumerState s q' g'" using create_state_frame[OF assms] a by (metis snd_conv)
  moreover have "GetConsumerState s2 q' g' = GetConsumerState s1 q' g'" using restore_frame[OF assms] b by (metis snd_conv)
  moreover have "GetConsumerState s3 q' g' = GetConsumerState s2 q' g'"
    using c on_created_frame[OF assms] unfolding LS_RestoreAckFloor_def by (metis snd_conv)
  moreover have "GetConsumerState (snd (LS_SetCursor now ?q ?g pos s3)) q' g' = GetConsumerState s3 q' g'" for pos
    using on_created_frame[OF assms] unfolding LS_SetCursor_def by simp
  ultimately show ?thesis
    by (cases e1; cases e2; cases e3) (simp_all add: seed_store_def Let_def a b c)
qed

lemma Create_touches: "touches (cg_QueueName grp) (cg_ID grp) a (snd (A_CreateConsumerGroup now grp a))"
proof -
  let ?q = "cg_QueueName grp" and ?g = "cg_ID grp"
  let ?a = "a\<lparr>ad_groups := snd (Save grp (ad_groups a))\<rparr>"
  have t: "touches ?q ?g a ?a" by (rule touches_save) simp_all
  have ids: "sn_QueueName (Group_Snapshot grp) = ?q" "sn_ID (Group_Snapshot grp) = ?g"
    by (simp_all add: Group_Snapshot_def)
  have "touches ?q ?g x (x\<lparr>ad_store := snd (seed_store now (Group_Snapshot grp) (ad_store x))\<rparr>)" for x
    by (rule touches_store) (rule seed_frame, simp add: ids)
  then have "touches ?q ?g a (snd (seedConsumerState now grp ?a))"
    using t touches_trans by (fastforce simp: seedConsumerState_def case_prod_beta)
  then show ?thesis
    using t by (cases "Save grp (ad_groups a)") (auto simp: A_CreateConsumerGroup_def split: sum.split option.split)
qed



section \<open>Reading a group\<close>

lemma to_pel_types: "pelEntryToTypes (to_pel_entry e) = pendingEntryToTypes e"
  by (simp add: pelEntryToTypes_def to_pel_entry_def pendingEntryToTypes_def)

lemma pending_types [simp]: "pe_Offset (pendingEntryToTypes e) = ce_Offset e" "pe_ConsumerID (pendingEntryToTypes e) = ce_ConsumerID e"
  by (simp_all add: pendingEntryToTypes_def)

lemma pel_of_sync:
  assumes "GetConsumerState s q g = Inr cs"
  shows "pel_of (syncPELFromStore now q g s grp) c =
      map pendingEntryToTypes (filter (\<lambda>e. ce_ConsumerID e = c) (all_entries (cs_pelShards cs)))"
    and "distinct (map fst (cg_PEL (syncPELFromStore now q g s grp)))"
proof -
  let ?all = "map to_pel_entry (all_entries (cs_pelShards cs))"
  have all: "GetAllPending s q g = Inr (fold (file_under pl_ConsumerID) ?all [])"
    using assms by (simp add: GetAllPending_def fold_nested fold_map comp_def GetPendingByShard_all[symmetric])
  have pel: "cg_PEL (syncPELFromStore now q g s grp) =
      map (\<lambda>(c, es). (c, map pelEntryToTypes es)) (fold (file_under pl_ConsumerID) ?all [])"
    by (simp add: syncPELFromStore_def all ReplacePEL_def touch_def)
  show "distinct (map fst (cg_PEL (syncPELFromStore now q g s grp)))"
    using distinct_fold_file_under[of "[]" pl_ConsumerID ?all] by (simp add: pel comp_def case_prod_beta)
  show "pel_of (syncPELFromStore now q g s grp) c =
      map pendingEntryToTypes (filter (\<lambda>e. ce_ConsumerID e = c) (all_entries (cs_pelShards cs)))"
    by (simp add: pel_of_def pel map_of_map_snd map_of_fold_file_under Let_def filter_map comp_def to_pel_types)
       (simp add: to_pel_entry_def filter_empty_conv)
qed

lemma sync_agrees:
  assumes "GetConsumerState s q g = Inr cs" "cs_wf cs" "cg_Mode grp \<noteq> GroupModeStream"
  shows "agrees (syncPELFromStore now q g s (syncCursorsFromStore now q g s grp))
     \<lparr>gv_pel = (\<lambda>off. map_option pendingEntryToTypes (entry_at cs off)), gv_cursor = gs_Cursor (cs_state cs),
      gv_committed = qc_Committed (CursorView grp)\<rparr>"
proof -
  define grp1 where "grp1 = syncCursorsFromStore now q g s grp"
  define grp2 where "grp2 = syncPELFromStore now q g s grp1"
  note pel = pel_of_sync[OF assms(1), of now grp1, folded grp2_def]
  have twin: "twin grp grp2" unfolding grp2_def grp1_def by (rule twin_sync)
  have cur: "GetCursorState s q g = Inr \<lparr>cu_Cursor = gs_Cursor (cs_state cs), cu_Committed = gs_AckFloor (cs_state cs),
      cu_UpdatedAt = gs_UpdatedAt (cs_state cs)\<rparr>"
    using assms(1) by (auto simp: GetConsumerState_Inr GetCursorState_def LS_GetGroupState_def query_def GetGroupState_def)
  have c1: "qc_Cursor (CursorView grp1) = gs_Cursor (cs_state cs)"
    by (simp add: grp1_def syncCursorsFromStore_def cur SetCursorPosition_def CursorView_def)
  have "CursorView grp2 = CursorView grp1"
    by (simp add: grp2_def syncPELFromStore_def ReplacePEL_def touch_def CursorView_def split: sum.split)
  with c1 have c2: "qc_Cursor (CursorView grp2) = gs_Cursor (cs_state cs)" by simp
  have pend: "pending grp2 = pendingEntryToTypes ` ran (entry_at cs)"
    unfolding pending_def pel(1) by (auto simp: set_all_entries[OF assms(2), symmetric])
  have off: "ce_Offset e = off" if "entry_at cs off = Some e" for off e
    using entry_offset[OF assms(2) that] .
  have "inj_on pe_Offset (pending grp2)"
  proof (rule inj_onI)
    fix x y assume "x \<in> pending grp2" "y \<in> pending grp2" "pe_Offset x = pe_Offset y"
    then obtain e e' o1 o2 where e: "x = pendingEntryToTypes e" "entry_at cs o1 = Some e"
        "y = pendingEntryToTypes e'" "entry_at cs o2 = Some e'" "ce_Offset e = ce_Offset e'"
      by (auto simp: pend ran_def)
    with off[OF e(2)] off[OF e(4)] show "x = y" by simp
  qed
  moreover have "distinct (map pe_Offset (pel_of grp2 c))" for c
    using distinct_map_filter[OF offsets_all_entries[OF assms(2)], of "\<lambda>e. ce_ConsumerID e = c"] by (simp add: pel(1) comp_def)
  ultimately have inv: "pel_inv grp2"
    using pel by (auto simp: pel_inv_def)
  have "(map_option pendingEntryToTypes (entry_at cs x) = Some e) = (e \<in> pending grp2 \<and> pe_Offset e = x)" for x e
  proof
    assume "e \<in> pending grp2 \<and> pe_Offset e = x"
    then obtain c where c: "e = pendingEntryToTypes c" "c \<in> ran (entry_at cs)" "pe_Offset e = x" unfolding pend by blast
    from c(2) obtain o1 where o1: "entry_at cs o1 = Some c" unfolding ran_def by blast
    have "o1 = x" using off[OF o1] c(1,3) by simp
    then show "map_option pendingEntryToTypes (entry_at cs x) = Some e" using o1 c(1) by simp
  next
    assume "map_option pendingEntryToTypes (entry_at cs x) = Some e"
    then obtain c where "entry_at cs x = Some c" "e = pendingEntryToTypes c" by auto
    then show "e \<in> pending grp2 \<and> pe_Offset e = x" using off[of x c] by (simp add: pend ranI)
  qed
  then show ?thesis
    using inv c2 twin assms(3) by (simp add: agrees_def twin_def kin_def grp2_def grp1_def)
qed

lemma a_okE:
  assumes "a_ok q g a"
  obtains grp cs where "ids_ok (ad_groups a)" "group_at (ad_groups a) q g = Some grp" "cg_Mode grp \<noteq> GroupModeStream"
    "cg_QueueName grp = q" "cg_ID grp = g" "GetConsumerState (ad_store a) q g = Inr cs" "cs_wf cs"
    "a_view q g a = \<lparr>gv_pel = (\<lambda>off. map_option pendingEntryToTypes (entry_at cs off)),
       gv_cursor = gs_Cursor (cs_state cs), gv_committed = qc_Committed (CursorView grp)\<rparr>"
  using assms that by (auto simp: a_ok_def a_view_def state_of_def ids_ok_def)

lemma Get_law:
  assumes "a_ok q g a"
  shows "\<exists>grp a'. A_GetConsumerGroup now q g a = (Inr grp, a') \<and> a_ok q g a' \<and> a_view q g a' = a_view q g a \<and>
      agrees grp (a_view q g a) \<and> group_at (ad_groups a') q g = Some grp \<and> cg_QueueName grp = q \<and> cg_ID grp = g \<and>
      ad_store a' = ad_store a \<and> map_option cg_Consumers (group_at (ad_groups a) q g) = Some (cg_Consumers grp)"
  using assms
proof (cases rule: a_okE)
  case (1 grp cs)
  define grp' where "grp' = syncPELFromStore now q g (ad_store a) (syncCursorsFromStore now q g (ad_store a) grp)"
  have twin: "twin grp grp'" unfolding grp'_def by (rule twin_sync)
  have ids: "cg_QueueName grp' = q" "cg_ID grp' = g" using twin 1 by (simp_all add: twin_def kin_def)
  note p = put_object_at[OF ids, of a]
  have get: "A_GetConsumerGroup now q g a = (Inr grp', put_object q g grp' a)"
    using 1 by (simp add: A_GetConsumerGroup_def Group_Get_cases Let_def grp'_def)
  have "agrees grp' (a_view q g a)"
    unfolding 1(8) grp'_def by (rule sync_agrees) (use 1 in simp_all)
  moreover have "a_view q g (put_object q g grp' a) = a_view q g a"
    using twin 1 p by (simp add: a_view_def state_of_def twin_def)
  moreover have "a_ok q g (put_object q g grp' a)"
    using twin 1 p by (auto simp: a_ok_def twin_def kin_def touches_def)
  moreover have "cg_Consumers grp' = cg_Consumers grp"
    by (simp add: grp'_def syncPELFromStore_def syncCursorsFromStore_def ReplacePEL_def touch_def SetCursorPosition_def split: sum.split)
  ultimately show ?thesis using get ids p 1(2) by simp
qed



section \<open>The effect of a call on the view\<close>

definition pel_view :: "consumer_state \<Rightarrow> u64 \<rightharpoonup> pending_entry" where
  "pel_view cs off = map_option pendingEntryToTypes (entry_at cs off)"

lemma view_store:
  assumes "a_ok q g a" "GetConsumerState s q g = Inr cs" "cs_wf cs"
  shows "a_ok q g (a\<lparr>ad_store := s\<rparr>)"
    "a_view q g (a\<lparr>ad_store := s\<rparr>) = (a_view q g a)\<lparr>gv_pel := pel_view cs, gv_cursor := gs_Cursor (cs_state cs)\<rparr>"
  using assms by (auto simp: a_ok_def a_view_def state_of_def pel_view_def fun_eq_iff)

lemma view_same:
  assumes "a_ok q g a" "GetConsumerState s q g = GetConsumerState (ad_store a) q g"
  shows "a_ok q g (a\<lparr>ad_store := s\<rparr>)" "a_view q g (a\<lparr>ad_store := s\<rparr>) = a_view q g a"
  using assms by (auto simp: a_ok_def a_view_def state_of_def)

lemma view_change:
  assumes "a_ok q g a" "change_and_save q g f a = (err, a')" "\<And>grp. twin grp (f grp)"
  shows "a_ok q g a'" "a_view q g a' = a_view q g a"
proof -
  have i: "ids_ok (ad_groups a)" using assms(1) by (simp add: a_ok_def)
  have k: "\<And>grp. kin grp (f grp)" using assms(3) by (rule twin_kin)
  note c = change_and_save_at[OF assms(2) i k]
  from assms(1) show "a_ok q g a'" "a_view q g a' = a_view q g a"
  proof (atomize (full), cases rule: a_okE)
    case (1 grp cs)
    then show "a_ok q g a' \<and> a_view q g a' = a_view q g a"
      using c assms(3)[of grp] by (auto simp: a_ok_def a_view_def state_of_def touches_def twin_def kin_def)
  qed
qed

lemma writeOp_view:
  "writeOp io op cs = (e, cs') \<Longrightarrow> pel_view cs' = pel_view cs \<and> cs_state cs' = cs_state cs \<and> cs_wf cs' = cs_wf cs"
  by (auto simp: writeOp_def Let_def pel_view_def fun_eq_iff split: write_outcome.splits if_splits)

lemma in_milli_UnixMilli: "in_milli t (of_UnixMilli (UnixMilli t))"
proof -
  define x where "x = t - unix_epoch"
  have "x div 1000000 * 1000000 + x mod 1000000 = x" by (rule div_mult_mod_eq)
  moreover have "0 \<le> x mod 1000000" "x mod 1000000 < 1000000" by simp_all
  ultimately have "x div 1000000 * 1000000 \<le> x" "x < x div 1000000 * 1000000 + 1000000" by linarith+
  then show ?thesis by (simp add: in_milli_def of_UnixMilli_def UnixMilli_def x_def)
qed

lemma apply_views:
  assumes "cs_wf cs"
  shows "pel_view (applyDeliver off c ts cs) = (pel_view cs)(off \<mapsto> pendingEntryToTypes (new_entry off c ts 1))"
    "gs_Cursor (cs_state (applyDeliver off c ts cs)) = (if off \<ge> gs_Cursor (cs_state cs) then off + 1 else gs_Cursor (cs_state cs))"
    "pel_view (applyAck ts off cs) = (pel_view cs)(off := None)" "gs_Cursor (cs_state (applyAck ts off cs)) = gs_Cursor (cs_state cs)"
    "pel_view (applySetCursor pos ts cs) = pel_view cs" "gs_Cursor (cs_state (applySetCursor pos ts cs)) = pos"
    "pel_view (applyClaim off c ts cs) = (pel_view cs)(off := map_option (pendingEntryToTypes \<circ> claimed c ts) (entry_at cs off))"
    "gs_Cursor (cs_state (applyClaim off c ts cs)) = gs_Cursor (cs_state cs)"
    "pel_view (applyRelease off ts cs) = (pel_view cs)(off := map_option (pendingEntryToTypes \<circ> released ts) (entry_at cs off))"
    "gs_Cursor (cs_state (applyRelease off ts cs)) = gs_Cursor (cs_state cs)"
proof -
  have view: "pel_view x = (\<lambda>off. map_option pendingEntryToTypes (ag_entries (abs_cs x) off))"
    "gs_Cursor (cs_state x) = ag_cursor (abs_cs x)" for x
    by (simp_all add: pel_view_def abs_cs_def fun_eq_iff)
  show "pel_view (applyDeliver off c ts cs) = (pel_view cs)(off \<mapsto> pendingEntryToTypes (new_entry off c ts 1))"
    "gs_Cursor (cs_state (applyDeliver off c ts cs)) = (if off \<ge> gs_Cursor (cs_state cs) then off + 1 else gs_Cursor (cs_state cs))"
    "pel_view (applyAck ts off cs) = (pel_view cs)(off := None)" "gs_Cursor (cs_state (applyAck ts off cs)) = gs_Cursor (cs_state cs)"
    "pel_view (applySetCursor pos ts cs) = pel_view cs" "gs_Cursor (cs_state (applySetCursor pos ts cs)) = pos"
    "pel_view (applyClaim off c ts cs) = (pel_view cs)(off := map_option (pendingEntryToTypes \<circ> claimed c ts) (entry_at cs off))"
    "gs_Cursor (cs_state (applyClaim off c ts cs)) = gs_Cursor (cs_state cs)"
    "pel_view (applyRelease off ts cs) = (pel_view cs)(off := map_option (pendingEntryToTypes \<circ> released ts) (entry_at cs off))"
    "gs_Cursor (cs_state (applyRelease off ts cs)) = gs_Cursor (cs_state cs)"
    unfolding view
    by (simp_all add: applyDeliver_refines[OF assms] applyAck_refines[OF assms] counters_refine[OF assms] applyClaim_refines[OF assms]
        applyRelease_refines[OF assms] abs_ack_def abs_change_def Let_def fun_eq_iff option.map_comp) (simp_all add: abs_cs_def)
qed

end
