(* ===== verification/Claim_Refinement.thy ===== *)
theory Claim_Refinement
  imports Claim_Contract
begin

text \<open>
  Every call of the consumer manager is a sequence of abstract steps on each group in good order, over any
  store that keeps the contract. The two sets of a statement say which entries the call may remove and which
  it may hand over or put back.
\<close>

text \<open>A group in good order stays so and takes steps that the sets of entries allow.\<close>

definition moved ::
  "(string \<Rightarrow> string \<Rightarrow> 'g \<Rightarrow> bool) \<Rightarrow> (string \<Rightarrow> string \<Rightarrow> 'g \<Rightarrow> gview) \<Rightarrow> string \<Rightarrow> string \<Rightarrow>
   transfer_key set \<Rightarrow> transfer_key set \<Rightarrow> ('q, 'g) manager \<Rightarrow> ('q, 'g) manager \<Rightarrow> bool" where
  "moved ok view q g R T m m' \<longleftrightarrow>
     mframe m m' \<and> good ok view q g (m_groups m) \<and> good ok view q g (m_groups m') \<and>
     (vstep {off. (q, g, off) \<in> R} {off. (q, g, off) \<in> T})\<^sup>*\<^sup>* (view q g (m_groups m)) (view q g (m_groups m'))"

lemma moved_refl: "moved ok view q g R T m m \<longleftrightarrow> good ok view q g (m_groups m)"
  by (simp add: moved_def)

lemma moved_trans:
  "moved ok view q g R T m m' \<Longrightarrow> moved ok view q g R T m' m'' \<Longrightarrow> moved ok view q g R T m m''"
  unfolding moved_def mframe_def by (auto intro: rtranclp_trans)

lemma moved_weaken:
  "moved ok view q g R T m m' \<Longrightarrow> R \<subseteq> R' \<Longrightarrow> T \<subseteq> T' \<Longrightarrow> moved ok view q g R' T' m m'"
  unfolding moved_def
  using vsteps_weaken[of "{off. (q, g, off) \<in> R}" "{off. (q, g, off) \<in> T}" _ _
      "{off. (q, g, off) \<in> R'}" "{off. (q, g, off) \<in> T'}"]
  by (simp add: subset_iff)

lemma quiet_moved: "quiet m m' \<Longrightarrow> good ok view q g (m_groups m) \<Longrightarrow> moved ok view q g R T m m'"
  by (simp add: quiet_def moved_def)

lemma moved_frame:
  assumes "moved ok view q g R T m m'"
  shows "m_queueOps m' = m_queueOps m" "m_groupOps m' = m_groupOps m" "m_config m' = m_config m"
    "m_queues m' = m_queues m" "m_transfers m' = m_transfers m" "good ok view q g (m_groups m')"
  using assms by (simp_all add: moved_def mframe_def)

text \<open>The entries whose record cannot be decoded or has expired.\<close>

definition spoiled :: "instant \<Rightarrow> ('q, 'g) manager \<Rightarrow> string \<Rightarrow> u64 \<Rightarrow> bool" where
  "spoiled now m q off \<longleftrightarrow>
     (case q_Read (m_queueOps m) q off (m_queues m) of Inl err \<Rightarrow> err = ErrUndecodableRecord | Inr msg \<Rightarrow> IsExpired now msg)"

definition free_spoiled :: "instant \<Rightarrow> ('q, 'g) manager \<Rightarrow> transfer_key set" where
  "free_spoiled now m = {(q, g, off). spoiled now m q off \<and> (q, g, off) \<notin> set (m_transfers m)}"

definition any_spoiled :: "instant \<Rightarrow> ('q, 'g) manager \<Rightarrow> transfer_key set" where
  "any_spoiled now m = {(q, g, off). spoiled now m q off}"

lemma any_spoiled_frame: "moved ok view q g R T m m' \<Longrightarrow> any_spoiled now m' = any_spoiled now m"
  by (simp add: moved_def mframe_def any_spoiled_def spoiled_def)

lemma free_spoiled_frame: "moved ok view q g R T m m' \<Longrightarrow> free_spoiled now m' = free_spoiled now m"
  by (simp add: moved_def mframe_def free_spoiled_def spoiled_def)

text \<open>The group object shows the cursor of the store, or all of the view.\<close>

definition synced :: "(string \<Rightarrow> string \<Rightarrow> 'g \<Rightarrow> gview) \<Rightarrow> string \<Rightarrow> string \<Rightarrow> ('q, 'g) manager \<Rightarrow> bool" where
  "synced view q g m \<longleftrightarrow> qc_Cursor (CursorView (object_of q g m)) = gv_cursor (view q g (m_groups m))"

definition shown :: "(string \<Rightarrow> string \<Rightarrow> 'g \<Rightarrow> gview) \<Rightarrow> string \<Rightarrow> string \<Rightarrow> ('q, 'g) manager \<Rightarrow> bool" where
  "shown view q g m \<longleftrightarrow> agrees (object_of q g m) (view q g (m_groups m))"

lemma succ_le: "(x::u64) + 1 \<noteq> 0 \<Longrightarrow> x + 1 \<le> y \<Longrightarrow> x \<le> y"
  using succ_lt[of x] by (meson order_less_imp_le order_trans)

lemma scan_found:
  "scan look tail n start = Found off msg \<Longrightarrow> start \<le> off \<and> off < tail \<and> look off = Take msg \<and> (\<forall>o'. start \<le> o' \<and> o' < off \<longrightarrow> look o' = Skip)"
proof (induction look tail n start rule: scan.induct)
  case (2 look tail n cursor)
  show ?case
  proof (cases "look cursor")
    case Skip
    with 2 have c: "cursor < tail" and s: "scan look tail n (cursor + 1) = Found off msg" by (auto split: if_splits)
    have n: "cursor + 1 \<noteq> 0" using c by (rule succ_neq_0)
    have IH: "cursor + 1 \<le> off \<and> off < tail \<and> look off = Take msg \<and>
        (\<forall>o'. cursor + 1 \<le> o' \<and> o' < off \<longrightarrow> look o' = Skip)"
      using 2(1)[OF c Skip s] .
    moreover have "cursor \<le> off" using IH succ_le[OF n] by blast
    moreover have "look o' = Skip" if "cursor \<le> o'" "o' < off" for o'
      using that IH Skip between_succ[OF n, of o'] by (metis order_le_less)
    ultimately show ?thesis by blast
  qed (use 2 in \<open>auto split: if_splits\<close>)
qed simp

lemma scan_exhausted:
  assumes "scan look tail n start = Exhausted c"
  shows "start \<le> c \<and> (\<forall>o'. start \<le> o' \<and> o' < c \<longrightarrow> look o' = Skip) \<and> (c < tail \<longrightarrow> unat c = unat start + n)
    \<and> (start \<le> tail \<longrightarrow> c \<le> tail)"
  using assms
proof (induction look tail n start rule: scan.induct)
  case (2 look tail n cursor)
  show ?case
  proof (cases "cursor < tail \<and> look cursor = Skip")
    case True
    with 2 have c: "cursor < tail" and s: "scan look tail n (cursor + 1) = Exhausted c" by (auto split: if_splits)
    have n: "cursor + 1 \<noteq> 0" using c by (rule succ_neq_0)
    have IH: "cursor + 1 \<le> c \<and> (\<forall>o'. cursor + 1 \<le> o' \<and> o' < c \<longrightarrow> look o' = Skip) \<and>
        (c < tail \<longrightarrow> unat c = unat (cursor + 1) + n) \<and> (cursor + 1 \<le> tail \<longrightarrow> c \<le> tail)"
      using 2(1)[OF c conjunct2[OF True] s] .
    moreover have "cursor \<le> c" using IH succ_le[OF n] by blast
    moreover have "look o' = Skip" if "cursor \<le> o'" "o' < c" for o'
      using that IH True between_succ[OF n, of o'] by (metis order_le_less)
    moreover have "cursor + 1 \<le> tail" using c between_succ[OF n, of tail] by auto
    ultimately show ?thesis by (simp add: unat_succ_nz[OF n])
  qed (use 2 in \<open>auto split: if_splits verdict.splits\<close>)
qed auto

lemma scanStart_ge: "cursor \<le> scanStart q cursor m"
  by (auto simp: scanStart_def split: sum.split)

lemma claimFromCursor_cases:
  assumes "claimFromCursor now q g c flt m = (r, m')"
  obtains (failed) e where "r = Inl e" "m' = m" "\<not> is_no_messages e"
  | (found) tail off msg where "q_Tail (m_queueOps m) q (m_queues m) = Inr tail"
      "scan (examine now q flt m) tail maxCursorScan (scanStart q (qc_Cursor (CursorView (object_of q g m))) m) = Found off msg"
      "claim_found now q g c off msg m = (r, m')"
  | (past) tail cursor err where "q_Tail (m_queueOps m) q (m_queues m) = Inr tail"
      "scan (examine now q flt m) tail maxCursorScan (scanStart q (qc_Cursor (CursorView (object_of q g m))) m) = Exhausted cursor"
      "step_past now q g (scanStart q (qc_Cursor (CursorView (object_of q g m))) m) cursor m = (err, m')"
      "r = Inl (case err of Some e \<Rightarrow> e | None \<Rightarrow> if cursor < tail then ErrScanIncomplete else ErrNoMessages)"
  using assms unfolding claimFromCursor_def Let_def
  by (simp split: if_split_asm sum.split_asm scan_result.split_asm prod.split_asm option.split_asm)
     (metis is_no_messages_def manager_error.distinct manager_error.simps)+

text \<open>The offsets below which everything is done: the lowest pending one, or the cursor.\<close>

definition safe_point :: "gview \<Rightarrow> u64" where
  "safe_point v = (if dom (gv_pel v) = {} then gv_cursor v else Min (dom (gv_pel v)))"

lemma safe_point_bounds:
  assumes "safe v" "finite (dom (gv_pel v))"
  shows "gv_committed v \<le> safe_point v" "safe_point v \<le> gv_cursor v" "\<forall>off. gv_pel v off \<noteq> None \<longrightarrow> safe_point v \<le> off"
proof -
  have "Min (dom (gv_pel v)) \<in> dom (gv_pel v)" if "dom (gv_pel v) \<noteq> {}"
    using assms(2) that by (rule Min_in)
  then show "gv_committed v \<le> safe_point v" "safe_point v \<le> gv_cursor v"
    using assms(1) by (auto simp: safe_point_def safe_def dom_def less_imp_le)
  show "\<forall>off. gv_pel v off \<noteq> None \<longrightarrow> safe_point v \<le> off"
    using assms(2) by (auto simp: safe_point_def intro!: Min_le)
qed

lemma advanceCommitted_at:
  assumes "agrees grp v" "safe v"
  shows "advanceCommitted now q g grp m = on_groups (\<lambda>ops. g_UpdateCommitted ops now q g (safe_point v)) m"
proof -
  have inv: "pel_inv grp" and view: "qc_Cursor (CursorView grp) = gv_cursor v" "qc_Committed (CursorView grp) = gv_committed v"
    using assms(1) by (simp_all add: agrees_def)
  have dom: "pending grp = {} \<longleftrightarrow> dom (gv_pel v) = {}" using agrees_dom[OF assms(1)] by auto
  define low where "low = Min (dom (gv_pel v))"
  have "gv_committed v \<le> low" if "dom (gv_pel v) \<noteq> {}"
    using safe_point_bounds(1)[OF assms(2) agrees_finite[OF assms(1)]] that by (simp add: safe_point_def low_def)
  moreover have "MinPendingOffset grp = (if dom (gv_pel v) = {} then (0, False) else (low, True))"
    using MinPendingOffset_spec[OF inv] dom by (simp add: agrees_dom[OF assms(1)] low_def)
  ultimately show ?thesis
    by (cases "low = gv_committed v") (auto simp: advanceCommitted_def Let_def view safe_point_def low_def[symmetric])
qed

context group_store
begin

text \<open>One call of the store, seen from the group \<open>q\<close>, \<open>g\<close>.\<close>

lemma on_groups_moved:
  assumes "on_groups f m = (err, m')" "m_groupOps m = G" "good ok view q g (m_groups m)"
    and "others ok view q' g' (m_groups m) (snd (f G (m_groups m)))"
    and "q' = q \<Longrightarrow> g' = g \<Longrightarrow>
      ok q g (snd (f G (m_groups m))) \<and>
      (view q g (snd (f G (m_groups m))) = view q g (m_groups m) \<or>
       vstep {off. (q, g, off) \<in> R} {off. (q, g, off) \<in> T} (view q g (m_groups m)) (view q g (snd (f G (m_groups m)))))"
  shows "moved ok view q g R T m m'"
proof -
  let ?s = "snd (f G (m_groups m))"
  have m': "m' = m\<lparr>m_groups := ?s\<rparr>" using assms(1,2) by (auto simp: on_groups_def split: prod.splits)
  have "good ok view q g ?s \<and>
      (vstep {off. (q, g, off) \<in> R} {off. (q, g, off) \<in> T})\<^sup>*\<^sup>* (view q g (m_groups m)) (view q g ?s)"
  proof (cases "(q, g) = (q', g')")
    case True
    with assms(3,5) show ?thesis by (auto simp: good_def dest: vstep_safe)
  next
    case False
    with assms(3,4) have "ok q g ?s \<and> view q g ?s = view q g (m_groups m)" by (simp add: good_def others_def)
    with assms(3) show ?thesis by (simp add: good_def)
  qed
  with assms(3) show ?thesis by (simp add: m' moved_def mframe_def)
qed

lemma get_moved:
  assumes "get_group now q' g' m = (r, m')" "m_groupOps m = G" "good ok view q g (m_groups m)"
  shows "moved ok view q g R T m m'"
    and "q' = q \<Longrightarrow> g' = g \<Longrightarrow>
      \<exists>grp. r = Inr grp \<and> agrees grp (view q g (m_groups m')) \<and> object_of q g m' = grp \<and>
            cg_QueueName grp = q \<and> cg_ID grp = g \<and> view q g (m_groups m') = view q g (m_groups m) \<and> synced view q g m' \<and> shown view q g m' \<and>
            cg_Consumers grp = cg_Consumers (object_of q g m)"
proof -
  let ?s = "snd (g_GetConsumerGroup G now q' g' (m_groups m))"
  have m': "m' = m\<lparr>m_groups := ?s\<rparr>" and r: "r = fst (g_GetConsumerGroup G now q' g' (m_groups m))"
    using assms by (auto simp: get_group_def split: prod.splits)
  have law: "ok q g ?s \<and> view q g ?s = view q g (m_groups m) \<and>
      (\<exists>grp. r = Inr grp \<and> agrees grp (view q g ?s) \<and> g_object G q g ?s = grp \<and> cg_QueueName grp = q \<and> cg_ID grp = g \<and>
        cg_Consumers grp = cg_Consumers (g_object G q g (m_groups m)))"
    if "q' = q" "g' = g"
    using get_law[of q g "m_groups m" now] that assms(3) by (auto simp: r good_def)
  have "ok q g ?s \<and> view q g ?s = view q g (m_groups m)"
  proof (cases "(q, g) = (q', g')")
    case False
    then show ?thesis
      using frame_law(1)[of q' g' "m_groups m" now] assms(3) by (simp add: good_def others_def)
  qed (use law in simp)
  with assms(3) show "moved ok view q g R T m m'" by (simp add: m' moved_def mframe_def good_def)
  show "\<exists>grp. r = Inr grp \<and> agrees grp (view q g (m_groups m')) \<and> object_of q g m' = grp \<and>
      cg_QueueName grp = q \<and> cg_ID grp = g \<and> view q g (m_groups m') = view q g (m_groups m) \<and> synced view q g m' \<and> shown view q g m' \<and>
      cg_Consumers grp = cg_Consumers (object_of q g m)"
    if "q' = q" "g' = g"
    using law[OF that] assms(2) by (auto simp: m' object_of_def synced_def shown_def agrees_def)
qed

lemma remove_moved:
  assumes "on_groups (\<lambda>ops. g_RemovePendingEntry ops now q' g' c off) m = (err, m')" "m_groupOps m = G"
    "good ok view q g (m_groups m)" "(q', g', off) \<in> R"
  shows "moved ok view q g R T m m'"
  using assms(1-3) frame_law(3)
proof (rule on_groups_moved)
  assume "q' = q" "g' = g"
  then show "ok q g (snd (g_RemovePendingEntry G now q' g' c off (m_groups m))) \<and>
      (view q g (snd (g_RemovePendingEntry G now q' g' c off (m_groups m))) = view q g (m_groups m) \<or>
       vstep {off. (q, g, off) \<in> R} {off. (q, g, off) \<in> T} (view q g (m_groups m))
         (view q g (snd (g_RemovePendingEntry G now q' g' c off (m_groups m)))))"
    using remove_law[of q g "m_groups m" now c off] assms(3,4) vstep.remove[of off]
    by (cases "g_RemovePendingEntry G now q' g' c off (m_groups m)") (auto simp: good_def)
qed

lemma transfer_moved:
  assumes "on_groups (\<lambda>ops. g_TransferPendingEntry ops now q' g' off src dst) m = (err, m')" "m_groupOps m = G"
    "good ok view q g (m_groups m)" "(q', g', off) \<in> T"
  shows "moved ok view q g R T m m'"
  using assms(1-3) frame_law(4)
proof (rule on_groups_moved)
  let ?s = "snd (g_TransferPendingEntry G now q' g' off src dst (m_groups m))"
  assume "q' = q" "g' = g"
  then show "ok q g ?s \<and> (view q g ?s = view q g (m_groups m) \<or>
       vstep {off. (q, g, off) \<in> R} {off. (q, g, off) \<in> T} (view q g (m_groups m)) (view q g ?s))"
    using transfer_law[of q g "m_groups m" now off src dst] assms(3,4) vstep.transfer[of off _ now src dst]
    by (cases "g_TransferPendingEntry G now q' g' off src dst (m_groups m)") (auto simp: good_def)
qed


text \<open>A claimed offset is at or above the cursor, and the cursor is set behind it.\<close>

lemma add_moved:
  assumes "on_groups (\<lambda>ops. g_AddPendingEntry ops now q' g' e) m = (err, m')" "m_groupOps m = G"
    "good ok view q g (m_groups m)" "pe_DeliveryCount e = 1"
    "q' = q \<Longrightarrow> g' = g \<Longrightarrow> gv_cursor (view q g (m_groups m)) \<le> pe_Offset e \<and> pe_Offset e + 1 \<noteq> 0"
  shows "moved ok view q g R T m m'"
    and "q' = q \<Longrightarrow> g' = g \<Longrightarrow> err = None \<Longrightarrow>
      v_claim (pe_ConsumerID e) (pe_Offset e) (view q g (m_groups m)) (view q g (m_groups m'))"
proof -
  let ?s = "snd (g_AddPendingEntry G now q' g' e (m_groups m))"
  have law: "ok q g ?s \<and> (err \<noteq> None \<and> view q g ?s = view q g (m_groups m) \<or>
      v_claim (pe_ConsumerID e) (pe_Offset e) (view q g (m_groups m)) (view q g ?s))" if "q' = q" "g' = g"
    using add_law[of q g "m_groups m" now e] that assms
    by (cases "g_AddPendingEntry G now q' g' e (m_groups m)") (auto simp: good_def on_groups_def)
  show "moved ok view q g R T m m'"
    using assms(1-3) frame_law(2)
  proof (rule on_groups_moved)
    assume eq: "q' = q" "g' = g"
    show "ok q g ?s \<and> (view q g ?s = view q g (m_groups m) \<or>
         vstep {off. (q, g, off) \<in> R} {off. (q, g, off) \<in> T} (view q g (m_groups m)) (view q g ?s))"
      using law[OF eq] assms(5)[OF eq] vstep.claim by metis
  qed
  show "v_claim (pe_ConsumerID e) (pe_Offset e) (view q g (m_groups m)) (view q g (m_groups m'))" if "q' = q" "g' = g" "err = None"
    using law[OF that(1,2)] that assms(1,2) by (auto simp: on_groups_def split: prod.splits)
qed

lemma cursor_moved:
  assumes "on_groups (\<lambda>ops. g_UpdateCursor ops now q' g' pos) m = (err, m')" "m_groupOps m = G"
    "good ok view q g (m_groups m)"
    "q' = q \<Longrightarrow> g' = g \<Longrightarrow> gv_cursor (view q g (m_groups m)) \<le> pos"
  shows "moved ok view q g R T m m'"
    and "q' = q \<Longrightarrow> g' = g \<Longrightarrow> err = None \<Longrightarrow>
      synced view q g m' \<and> view q g (m_groups m') = (view q g (m_groups m))\<lparr>gv_cursor := pos\<rparr> \<and>
      (shown view q g m \<longrightarrow> shown view q g m') \<and> cg_Consumers (object_of q g m') = cg_Consumers (object_of q g m)"
proof -
  let ?s = "snd (g_UpdateCursor G now q' g' pos (m_groups m))"
  have law: "ok q g ?s \<and> (err \<noteq> None \<and> view q g ?s = view q g (m_groups m) \<or>
      view q g ?s = (view q g (m_groups m))\<lparr>gv_cursor := pos\<rparr>) \<and>
      (err = None \<longrightarrow> qc_Cursor (CursorView (g_object G q g ?s)) = pos \<and>
        cg_Consumers (g_object G q g ?s) = cg_Consumers (g_object G q g (m_groups m)) \<and>
        (agrees (g_object G q g (m_groups m)) (view q g (m_groups m)) \<longrightarrow> agrees (g_object G q g ?s) (view q g ?s)))"
    if "q' = q" "g' = g"
    using cursor_law[of q g "m_groups m" now pos] that assms(1-3)
    by (cases "g_UpdateCursor G now q' g' pos (m_groups m)") (auto simp: good_def on_groups_def)
  show "moved ok view q g R T m m'"
    using assms(1-3) frame_law(5)
  proof (rule on_groups_moved)
    assume eq: "q' = q" "g' = g"
    show "ok q g ?s \<and> (view q g ?s = view q g (m_groups m) \<or>
         vstep {off. (q, g, off) \<in> R} {off. (q, g, off) \<in> T} (view q g (m_groups m)) (view q g ?s))"
      using law[OF eq] assms(4)[OF eq] vstep.skip by metis
  qed
  show "synced view q g m' \<and> view q g (m_groups m') = (view q g (m_groups m))\<lparr>gv_cursor := pos\<rparr> \<and>
      (shown view q g m \<longrightarrow> shown view q g m') \<and> cg_Consumers (object_of q g m') = cg_Consumers (object_of q g m)"
    if "q' = q" "g' = g" "err = None"
    using law[OF that(1,2)] that assms(1,2)
    by (auto simp: on_groups_def synced_def shown_def object_of_def split: prod.splits)
qed

lemma claim_found_moved:
  assumes "claim_found now q' g' c off msg m = (r, m')" "m_groupOps m = G" "good ok view q g (m_groups m)"
    "q' = q \<Longrightarrow> g' = g \<Longrightarrow> gv_cursor (view q g (m_groups m)) \<le> off \<and> off + 1 \<noteq> 0"
  shows "moved ok view q g R T m m' \<and>
     (q' = q \<longrightarrow> g' = g \<longrightarrow> r = Inr msg' \<longrightarrow>
      synced view q g m' \<and> msg' = msg \<and> v_claim c off (view q g (m_groups m)) (view q g (m_groups m')))"
proof -
  let ?e = "\<lparr>pe_Offset = off, pe_ConsumerID = c, pe_ClaimedAt = now, pe_DeliveryCount = 1\<rparr>"
  obtain err m1 where a: "on_groups (\<lambda>ops. g_AddPendingEntry ops now q' g' ?e) m = (err, m1)" by fastforce
  note A = add_moved[OF a assms(2,3)]
  have m1: "moved ok view q g R T m m1" by (rule A) (use assms(4) in simp_all)
  note f = moved_frame[OF m1]
  show ?thesis
  proof (cases err)
    case None
    obtain err2 m2 where u: "on_groups (\<lambda>ops. g_UpdateCursor ops now q' g' (off + 1)) m1 = (err2, m2)" by fastforce
    have added: "v_claim c off (view q g (m_groups m)) (view q g (m_groups m1))" if "q' = q" "g' = g"
      using A(2) assms(4) that None by auto
    note cur = v_claim_cursor[OF added]
    have le: "gv_cursor (view q g (m_groups m1)) \<le> off + 1" if eq: "q' = q" "g' = g"
      using cur(1)[OF eq] assms(4)[OF eq] by simp
    note U = cursor_moved[OF u _ f(6) le]
    have "m_groupOps m1 = G" using f(2) assms(2) by simp
    then have "moved ok view q g R T m m2" using U(1) m1 moved_trans by blast
    moreover have "m' = m2" "r = (case err2 of None \<Rightarrow> Inr msg | Some e \<Rightarrow> Inl e)"
      using assms(1) a u None by (auto simp: claim_found_def split: option.splits)
    ultimately show ?thesis
      using U(2) added cur(2) assms(2,4) f(2) by (auto split: option.splits)
  qed (use assms(1) a m1 in \<open>auto simp: claim_found_def\<close>)
qed

lemma step_past_moved:
  assumes "step_past now q' g' start cursor m = (err, m')" "m_groupOps m = G" "good ok view q g (m_groups m)"
  shows "moved ok view q g R T m m'"
proof (cases "cursor > start")
  case True
  obtain r m1 where a: "get_group now q' g' m = (r, m1)" by fastforce
  note A = get_moved[OF a assms(2,3)]
  note f = moved_frame[OF A(1)]
  have G: "m_groupOps m1 = G" using f(2) assms(2) by simp
  consider "m' = m1" | grp where "r = Inr grp" "cursor > qc_Cursor (CursorView grp)"
      "on_groups (\<lambda>ops. g_UpdateCursor ops now q' g' cursor) m1 = (err, m')"
    using assms(1) True a by (auto simp: step_past_def split: sum.splits if_splits)
  then show ?thesis
  proof cases
    case (2 grp)
    have "gv_cursor (view q g (m_groups m1)) \<le> cursor" if "q' = q" "g' = g"
      using A(2)[OF that] 2(1,2) by (auto simp: agrees_def)
    then show ?thesis using cursor_moved(1)[OF 2(3) G f(6)] A(1) moved_trans by blast
  qed (simp add: A(1))
qed (use assms in \<open>simp add: step_past_def moved_refl\<close>)


text \<open>A claim from the cursor takes the first record at or behind it that can be taken.\<close>

lemma claimFromCursor_moved:
  assumes "claimFromCursor now q' g' c flt m = (r, m')" "m_groupOps m = G" "good ok view q g (m_groups m)"
    "q' = q \<Longrightarrow> g' = g \<Longrightarrow> synced view q g m"
  shows "moved ok view q g R T m m' \<and>
     (q' = q \<longrightarrow> g' = g \<longrightarrow> r = Inr msg \<longrightarrow>
      synced view q g m' \<and>
      (\<exists>tail off. q_Tail (m_queueOps m) q (m_queues m) = Inr tail \<and>
         scan (examine now q flt m) tail maxCursorScan (scanStart q (gv_cursor (view q g (m_groups m))) m) = Found off msg \<and>
         v_claim c off (view q g (m_groups m)) (view q g (m_groups m'))))"
  using assms(1)
proof (cases rule: claimFromCursor_cases)
  case (found tail off msg')
  define start where "start = scanStart q' (qc_Cursor (CursorView (object_of q' g' m))) m"
  have off: "start \<le> off" "off < tail" using scan_found[OF found(2)] by (simp_all add: start_def)
  have start: "gv_cursor (view q g (m_groups m)) \<le> start" "start = scanStart q (gv_cursor (view q g (m_groups m))) m"
    if "q' = q" "g' = g"
    using assms(4)[OF that] scanStart_ge that by (simp_all add: synced_def start_def)
  have le: "gv_cursor (view q g (m_groups m)) \<le> off \<and> off + 1 \<noteq> 0" if "q' = q" "g' = g"
    using order_trans[OF start(1)[OF that] off(1)] succ_neq_0[OF off(2)] by simp
  show ?thesis
    using claim_found_moved[OF found(3) assms(2,3) le, of R T msg] found(1,2) start(2) unfolding start_def by metis
next
  case (past tail cursor err)
  then show ?thesis using step_past_moved[OF past(3) assms(2,3)] by simp
qed (use assms(3) in \<open>simp add: moved_refl\<close>)

lemma drop_moved:
  assumes "m_groupOps m = G" "good ok view q g (m_groups m)" "(q', g', pe_Offset e) \<in> R"
  shows "moved ok view q g R T m (drop_pending now q' g' e m)"
  unfolding drop_pending_def
  by (rule remove_moved[OF surjective_pairing assms])

lemma steal_entry_moved:
  assumes "steal_entry now q' g' c flt owner e m = (r, m')" "m_groupOps m = G" "good ok view q g (m_groups m)"
  shows "moved ok view q g (free_spoiled now m \<inter> {(q', g', pe_Offset e)}) ({(q', g', pe_Offset e)} - set (m_transfers m)) m m'"
proof -
  let ?off = "pe_Offset e" and ?mv = "moved ok view q g (free_spoiled now m \<inter> {(q', g', pe_Offset e)}) ({(q', g', pe_Offset e)} - set (m_transfers m))"
  obtain deferred m1 where d: "(if pe_DeliveryCount e \<ge> mc_MaxDeliveryCount (m_config m)
      then deferPoisonTransfer now q' g' ?off m else (False, m)) = (deferred, m1)" by fastforce
  have "quiet m m1"
    using d poison_quiet_more(3)[of m now q' g' ?off] by (auto split: if_splits)
  then have m1: "?mv m m1" using assms(3) by (rule quiet_moved)
  note f = moved_frame[OF m1]
  have G: "m_groupOps m1 = G" using f(2) assms(2) by simp
  show ?thesis
  proof (cases "transferring q' g' ?off m")
    case False
    then have T: "(q', g', ?off) \<in> {(q', g', ?off)} - set (m_transfers m)" by (simp add: transferring_def)
    have R: "(q', g', ?off) \<in> free_spoiled now m \<inter> {(q', g', ?off)}" if "spoiled now m q' ?off"
      using T that by (simp add: free_spoiled_def)
    obtain err m2 where t: "on_groups (\<lambda>ops. g_TransferPendingEntry ops now q' g' ?off (pe_ConsumerID e) c) m1 = (err, m2)"
      by fastforce
    have m2: "?mv m m2" using transfer_moved[OF t G f(6) T] m1 moved_trans by blast
    have drop: "?mv m (drop_pending now q' g' e m1)" if "spoiled now m q' ?off"
      using drop_moved[OF G f(6) R[OF that]] m1 moved_trans by blast
    have "m' = m \<or> m' = m1 \<or> m' = m2 \<or> m' = drop_pending now q' g' e m1 \<and> spoiled now m q' ?off"
    proof (cases "q_Read (m_queueOps m) q' ?off (m_queues m)")
      case (Inl e)
      with assms(1) False show ?thesis
        by (simp add: steal_entry_def Let_def spoiled_def d f split: if_split_asm)
    next
      case (Inr msg)
      with assms(1) False show ?thesis
        by (simp add: steal_entry_def Let_def spoiled_def d f t split: if_split_asm option.split_asm)
    qed
    then show ?thesis using m1 m2 drop assms(3) by (auto simp: moved_refl)
  qed (use assms in \<open>auto simp: steal_entry_def Let_def moved_refl split: if_splits\<close>)
qed

lemma steal_loop_moved:
  "steal_loop now q' g' c flt owner entries m = (r, m') \<Longrightarrow> m_groupOps m = G \<Longrightarrow> good ok view q g (m_groups m) \<Longrightarrow>
   moved ok view q g (free_spoiled now m) (- set (m_transfers m)) m m'"
proof (induction entries arbitrary: m)
  case (Cons e entries)
  obtain r1 m1 where s: "steal_entry now q' g' c flt owner e m = (r1, m1)" by fastforce
  have m1: "moved ok view q g (free_spoiled now m) (- set (m_transfers m)) m m1"
    using steal_entry_moved[OF s Cons.prems(2,3)] by (rule moved_weaken) auto
  note f = moved_frame[OF m1]
  have "moved ok view q g (free_spoiled now m) (- set (m_transfers m)) m1 m'" if "r1 = None"
    using Cons.IH[of m1] Cons.prems that s f free_spoiled_frame[OF m1] by simp
  then show ?case using m1 Cons.prems(1) s moved_trans by (cases r1) (auto, blast)
qed (simp add: moved_refl)

lemma stealWorkFrom_moved:
  assumes "stealWorkFrom now q' g' c flt excl owner m = (r, m')" "m_groupOps m = G" "good ok view q g (m_groups m)"
  shows "moved ok view q g (free_spoiled now m) (- set (m_transfers m)) m m'"
proof -
  let ?m = "prunePoison q' g' m"
  have p: "moved ok view q g (free_spoiled now m) (- set (m_transfers m)) m ?m"
    using poison_quiet_more(1) assms(3) by (rule quiet_moved)
  note f = moved_frame[OF p]
  show ?thesis
    using assms(1,2) p f free_spoiled_frame[OF p] steal_loop_moved[of now q' g' c flt owner _ ?m r m' q g]
      moved_trans[OF p]
    by (auto simp: stealWorkFrom_def Let_def split: if_splits)
qed


lemma Claim_moved:
  assumes "Manager_Claim now q' g' c flt m = (r, m')" "m_groupOps m = G" "good ok view q g (m_groups m)"
  shows "moved ok view q g (free_spoiled now m) (- set (m_transfers m)) m m'"
proof -
  let ?mv = "moved ok view q g (free_spoiled now m) (- set (m_transfers m))"
  obtain r1 m1 where a: "get_group now q' g' m = (r1, m1)" by fastforce
  note A = get_moved[OF a assms(2,3)]
  note f1 = moved_frame[OF A(1)]
  obtain r2 m2 where b: "claimFromCursor now q' g' c flt m1 = (r2, m2)" by fastforce
  have "moved ok view q g (free_spoiled now m) (- set (m_transfers m)) m1 m2"
    using claimFromCursor_moved[OF b _ f1(6)] A(2) f1(2) assms(2) by auto
  then have m2: "?mv m m2" using A(1) moved_trans by blast
  note f2 = moved_frame[OF m2]
  obtain r3 m3 where d: "stealWork now q' g' c flt m2 = (r3, m3)" by fastforce
  have "?mv m2 m3"
    using stealWorkFrom_moved[OF d[unfolded stealWork_def] _ f2(6)] f2 assms(2) free_spoiled_frame[OF m2] by simp
  then have m3: "?mv m m3" using m2 moved_trans by blast
  have "m' = m1 \<or> m' = m2 \<or> m' = m3"
    using assms(1) by (auto simp: Manager_Claim_def a b d split: sum.splits if_splits)
  then show ?thesis using A(1) m2 m3 by blast
qed

text \<open>A claim repeated, for any invariant \<open>P\<close> of the manager that a successful claim keeps.\<close>

lemma claim_many_moved:
  assumes "claim_many claim n m = (r, m')" "good ok view q g (m_groups m)" "P m"
    and "\<And>m r m'. claim m = (r, m') \<Longrightarrow> good ok view q g (m_groups m) \<Longrightarrow> P m \<Longrightarrow>
      moved ok view q g R T m m' \<and> ((\<exists>msg. r = Inr msg) \<longrightarrow> P m')"
  shows "moved ok view q g R T m m' \<and> (snd r = None \<longrightarrow> P m')"
  using assms(1-3)
proof (induction n arbitrary: m r m')
  case (Suc n)
  obtain r1 m1 where a: "claim m = (r1, m1)" by fastforce
  note A = assms(4)[OF a Suc.prems(2,3)]
  show ?case
  proof (cases r1)
    case (Inr msg)
    obtain r2 m2 where b: "claim_many claim n m1 = (r2, m2)" by fastforce
    have "moved ok view q g R T m1 m2 \<and> (snd r2 = None \<longrightarrow> P m2)"
      by (rule Suc.IH[OF b]) (use A Inr in \<open>auto simp: moved_def\<close>)
    then show ?thesis using A Suc.prems(1) a b Inr moved_trans by (auto split: prod.splits)
  qed (use A Suc.prems(1) a in auto)
qed (simp add: moved_refl)

lemma steal_many_moved:
  assumes "claim_many (stealWork now q' g' c flt) n m = (r, m')" "m_groupOps m = G" "good ok view q g (m_groups m)"
  shows "moved ok view q g (free_spoiled now m) (- set (m_transfers m)) m m'"
proof -
  let ?R = "free_spoiled now m" and ?T = "- set (m_transfers m)"
  let ?mv = "moved ok view q g ?R ?T"
  have "?mv m m' \<and> (snd r = None \<longrightarrow> m_groupOps m' = G \<and> free_spoiled now m' = ?R \<and> - set (m_transfers m') = ?T)"
  proof (rule claim_many_moved[OF assms(1,3)])
    fix x r x' assume x: "stealWork now q' g' c flt x = (r, x')" "good ok view q g (m_groups x)"
      and P: "m_groupOps x = G \<and> free_spoiled now x = ?R \<and> - set (m_transfers x) = ?T"
    have "?mv x x'" using stealWorkFrom_moved[OF x(1)[unfolded stealWork_def] _ x(2)] P by simp
    then show "?mv x x' \<and> ((\<exists>msg. r = Inr msg) \<longrightarrow> m_groupOps x' = G \<and> free_spoiled now x' = ?R \<and> - set (m_transfers x') = ?T)"
      using moved_frame[of ok view q g ?R ?T x x'] free_spoiled_frame[of ok view q g ?R ?T x x' now] P by simp
  qed (use assms(2) in simp)
  then show ?thesis by blast
qed

lemma ClaimBatch_moved:
  assumes "Manager_ClaimBatch now q' g' c flt limit m = (r, m')" "m_groupOps m = G" "good ok view q g (m_groups m)"
  shows "moved ok view q g (free_spoiled now m) (- set (m_transfers m)) m m'"
proof -
  let ?R = "free_spoiled now m" and ?T = "- set (m_transfers m)"
  let ?mv = "moved ok view q g ?R ?T" and ?n = "nat (batch_limit limit m)"
  obtain r1 m1 where a: "get_group now q' g' m = (r1, m1)" by fastforce
  note A = get_moved[OF a assms(2,3)]
  note f1 = moved_frame[OF A(1)]
  obtain claimed err2 m2 where b: "claim_many (claimFromCursor now q' g' c flt) ?n m1 = ((claimed, err2), m2)"
    by (metis surjective_pairing)
  have "?mv m1 m2 \<and> (snd (claimed, err2) = None \<longrightarrow> m_groupOps m2 = G \<and> (q' = q \<longrightarrow> g' = g \<longrightarrow> synced view q g m2))"
  proof (rule claim_many_moved[OF b f1(6)])
    fix x r x' assume "claimFromCursor now q' g' c flt x = (r, x')" "good ok view q g (m_groups x)"
      "m_groupOps x = G \<and> (q' = q \<longrightarrow> g' = g \<longrightarrow> synced view q g x)"
    then show "?mv x x' \<and> ((\<exists>msg. r = Inr msg) \<longrightarrow> m_groupOps x' = G \<and> (q' = q \<longrightarrow> g' = g \<longrightarrow> synced view q g x'))"
      using claimFromCursor_moved[of now q' g' c flt x r x' q g ?R ?T] moved_frame(2) by fastforce
  qed (use A(2) f1(2) assms(2) in simp)
  then have m2: "?mv m m2" using A(1) moved_trans by blast
  note f2 = moved_frame[OF m2]
  obtain stolen err3 m3 where d: "claim_many (stealWork now q' g' c flt) (?n - length claimed) m2 = ((stolen, err3), m3)"
    by (metis surjective_pairing)
  have "?mv m2 m3" using steal_many_moved[OF d _ f2(6)] f2(2,5) assms(2) free_spoiled_frame[OF m2] by simp
  then have m3: "?mv m m3" using m2 moved_trans by blast
  have "m' = m1 \<or> m' = m2 \<or> m' = m3"
    using assms(1)
    by (simp add: Manager_ClaimBatch_def Let_def a b d split: sum.split_asm option.split_asm if_split_asm)
  then show ?thesis using A(1) m2 m3 by blast
qed

lemma ClaimManualStream_moved:
  assumes "ClaimManualStream now q' g' c flt m = (r, m')" "m_groupOps m = G" "good ok view q g (m_groups m)"
  shows "moved ok view q g (free_spoiled now m) (- set (m_transfers m)) m m'"
proof -
  let ?R = "free_spoiled now m" and ?T = "- set (m_transfers m)"
  let ?mv = "moved ok view q g ?R ?T"
  obtain r1 m1 where a: "get_group now q' g' m = (r1, m1)" by fastforce
  note A = get_moved[OF a assms(2,3)]
  have m1: "?mv m m1" by (rule A)
  note f1 = moved_frame[OF m1]
  have steal: "?mv m x'" if "stealWorkFrom now q' g' c flt excl owner m1 = (x, x')" for excl owner x x'
    using stealWorkFrom_moved[OF that _ f1(6)] f1 assms(2) free_spoiled_frame[OF m1] m1 moved_trans by fastforce
  obtain r2 m2 where b: "stealWork now q' g' c flt m1 = (r2, m2)" by fastforce
  have m2: "?mv m m2" using steal b by (simp add: stealWork_def)
  note f2 = moved_frame[OF m2]
  obtain r3 m3 where d: "claimFromCursor now q' g' c flt m2 = (r3, m3)" by fastforce
  have stream: "\<not> (q' = q \<and> g' = g)" if "r1 = Inr grp" "cg_Mode grp = GroupModeStream" for grp
    using A(2) that by (auto simp: agrees_def)
  have m3: "?mv m m3" if "\<not> (q' = q \<and> g' = g)"
    using claimFromCursor_moved[OF d _ f2(6)] f2(2) assms(2) that m2 moved_trans by blast
  have "m' = m1 \<or> m' = m2 \<or> (\<exists>x. stealWorkFrom now q' g' c flt [] c m1 = (x, m')) \<or>
      m' = m3 \<and> (\<exists>grp. r1 = Inr grp \<and> cg_Mode grp = GroupModeStream)"
    using assms(1) by (auto simp: ClaimManualStream_def a b d split: sum.splits if_splits)
  then show ?thesis using m1 m2 m3 steal stream by blast
qed

end

end
