(* ===== verification/Settle_Refinement.thy ===== *)
theory Settle_Refinement
  imports Claim_Refinement
begin

text \<open>
  The remaining calls of the consumer manager as abstract steps: claims of idle entries, settlement, the two
  halves of a dead-letter transfer, membership and offsets.
\<close>

context group_store
begin

section \<open>Claims of idle entries\<close>

lemma claim_pending_moved:
  "claim_pending now q' g' c entries msgs m = (r, m') \<Longrightarrow> m_groupOps m = G \<Longrightarrow> good ok view q g (m_groups m) \<Longrightarrow>
   moved ok view q g (any_spoiled now m) UNIV m m'"
proof (induction entries arbitrary: msgs m)
  case (Cons e entries)
  let ?mv = "moved ok view q g (any_spoiled now m) UNIV" and ?off = "pe_Offset e"
  obtain err1 m1 where a: "on_groups (\<lambda>ops. g_RemovePendingEntry ops now q' g' (pe_ConsumerID e) ?off) m = (err1, m1)"
    by fastforce
  obtain err2 m2 where b: "on_groups (\<lambda>ops. g_TransferPendingEntry ops now q' g' ?off (pe_ConsumerID e) c) m = (err2, m2)"
    by fastforce
  have m1: "?mv m m1" if "spoiled now m q' ?off"
    using remove_moved[OF a Cons.prems(2,3), of "any_spoiled now m"] that by (simp add: any_spoiled_def)
  have m2: "?mv m m2" using transfer_moved[OF b Cons.prems(2,3)] by simp
  have go: "?mv m m'" if "claim_pending now q' g' c entries ms x = (r, m')" "?mv m x" for ms x
    using Cons.IH[OF that(1)] moved_frame[OF that(2)] any_spoiled_frame[OF that(2)] Cons.prems(2) that(2) moved_trans
    by metis
  consider "m' = m" | "m' = m1 \<or> (\<exists>ms. claim_pending now q' g' c entries ms m1 = (r, m'))" "spoiled now m q' ?off"
    | "m' = m2 \<or> (\<exists>ms. claim_pending now q' g' c entries ms m2 = (r, m'))"
    using Cons.prems(1) a b
    by (cases "q_Read (m_queueOps m) q' ?off (m_queues m)")
       (auto simp: Let_def spoiled_def split: if_splits option.splits)
  then show ?case using m1 m2 go Cons.prems(3) by cases (auto simp: moved_refl)
qed (simp add: moved_refl)

lemma ClaimPendingBatch_moved:
  assumes "ClaimPendingBatch now q' g' c minIdle limit m = (r, m')" "m_groupOps m = G" "good ok view q g (m_groups m)"
  shows "moved ok view q g (any_spoiled now m) UNIV m m'"
proof -
  let ?mv = "moved ok view q g (any_spoiled now m) UNIV"
  obtain r1 m1 where a: "get_group now q' g' m = (r1, m1)" by fastforce
  have m1: "?mv m m1" by (rule get_moved(1)[OF a assms(2,3)])
  note f1 = moved_frame[OF m1]
  have go: "?mv m x'" if "claim_pending now q' g' c es ms m1 = (x, x')" for es ms x x'
    using claim_pending_moved[OF that _ f1(6)] f1(2) assms(2) any_spoiled_frame[OF m1] m1 moved_trans by metis
  have "m' = m1 \<or> (\<exists>es ms x. claim_pending now q' g' c es ms m1 = (x, m'))"
    using assms(1)
    by (simp add: ClaimPendingBatch_def Let_def a split: sum.split_asm if_split_asm prod.split_asm) blast+
  then show ?thesis using m1 go by blast
qed


section \<open>Settlement\<close>

lemma committed_moved:
  assumes "on_groups (\<lambda>ops. g_UpdateCommitted ops now q' g' pos) m = (err, m')" "m_groupOps m = G"
    "good ok view q g (m_groups m)"
    "q' = q \<Longrightarrow> g' = g \<Longrightarrow> pos = safe_point (view q g (m_groups m)) \<and> finite (dom (gv_pel (view q g (m_groups m))))"
  shows "moved ok view q g R T m m'"
    and "q' = q \<Longrightarrow> g' = g \<Longrightarrow> err = None \<Longrightarrow>
      view q g (m_groups m') = (view q g (m_groups m))\<lparr>gv_committed := pos\<rparr>"
proof -
  let ?s = "snd (g_UpdateCommitted G now q' g' pos (m_groups m))"
  have law: "ok q g ?s \<and> (err \<noteq> None \<and> view q g ?s = view q g (m_groups m) \<or>
      view q g ?s = (view q g (m_groups m))\<lparr>gv_committed := pos\<rparr>)" if "q' = q" "g' = g"
    using committed_law[of q g "m_groups m" now pos] that assms(1-3)
    by (cases "g_UpdateCommitted G now q' g' pos (m_groups m)") (auto simp: good_def on_groups_def)
  show "moved ok view q g R T m m'"
    using assms(1-3) frame_law(6)
  proof (rule on_groups_moved)
    assume eq: "q' = q" "g' = g"
    have "safe (view q g (m_groups m))" using assms(3) by (simp add: good_def)
    note b = safe_point_bounds[OF this conjunct2[OF assms(4)[OF eq]]]
    show "ok q g ?s \<and> (view q g ?s = view q g (m_groups m) \<or>
         vstep {off. (q, g, off) \<in> R} {off. (q, g, off) \<in> T} (view q g (m_groups m)) (view q g ?s))"
      using law[OF eq] assms(4)[OF eq] vstep.commit[OF b] by metis
  qed
  show "view q g (m_groups m') = (view q g (m_groups m))\<lparr>gv_committed := pos\<rparr>"
    if "q' = q" "g' = g" "err = None"
    using law[OF that(1,2)] that assms(1,2) by (auto simp: on_groups_def split: prod.splits)
qed

lemma settle_moved:
  assumes "settle now q' g' c off m = (err, m')" "m_groupOps m = G" "good ok view q g (m_groups m)" "(q', g', off) \<in> R"
  shows "moved ok view q g R T m m' \<and>
    (q' = q \<longrightarrow> g' = g \<longrightarrow> err = None \<longrightarrow>
     view q g (m_groups m') = (let v = v_remove off (view q g (m_groups m)) in v\<lparr>gv_committed := safe_point v\<rparr>))"
proof -
  obtain err1 m1 where a: "on_groups (\<lambda>ops. g_RemovePendingEntry ops now q' g' c off) m = (err1, m1)" by fastforce
  have m1: "moved ok view q g R T m m1" by (rule remove_moved[OF a assms(2-4)])
  note f1 = moved_frame[OF m1]
  have G1: "m_groupOps m1 = G" using f1(2) assms(2) by simp
  have removed: "view q g (m_groups m1) = v_remove off (view q g (m_groups m))" if "q' = q" "g' = g" "err1 = None"
    using remove_law[of q g "m_groups m" now c off] a assms(2,3) that by (auto simp: on_groups_def good_def split: prod.splits)
  obtain r2 m2 where b: "get_group now q' g' m1 = (r2, m2)" by fastforce
  note B = get_moved[OF b G1 f1(6)]
  have m2: "moved ok view q g R T m m2" using m1 B(1) moved_trans by blast
  note f2 = moved_frame[OF m2]
  have G2: "m_groupOps m2 = G" using f2(2) assms(2) by simp
  show ?thesis
  proof (cases "err1 = None \<and> (\<exists>grp. r2 = Inr grp)")
    case True
    then obtain grp where grp: "r2 = Inr grp" by blast
    obtain err3 m3 where d: "advanceCommitted now q' g' grp m2 = (err3, m3)" by fastforce
    obtain pos where pos: "on_groups (\<lambda>ops. g_UpdateCommitted ops now q' g' pos) m2 = (err3, m3)"
      "q' = q \<longrightarrow> g' = g \<longrightarrow> pos = safe_point (view q g (m_groups m2)) \<and> finite (dom (gv_pel (view q g (m_groups m2))))"
    proof (cases "q' = q \<and> g' = g")
      case True
      then have ag: "agrees grp (view q g (m_groups m2))" using B(2) grp by auto
      have "safe (view q g (m_groups m2))" using f2(6) by (simp add: good_def)
      from advanceCommitted_at[OF ag this, of now q' g' m2] that d agrees_finite[OF ag] show thesis by metis
    qed (use d that in \<open>auto simp: advanceCommitted_def Let_def split: prod.splits\<close>)
    have "moved ok view q g R T m2 m3" using committed_moved(1)[OF pos(1) G2 f2(6)] pos(2) by blast
    moreover have "view q g (m_groups m3) = (view q g (m_groups m2))\<lparr>gv_committed := pos\<rparr>"
      if "q' = q" "g' = g" "err3 = None"
      using committed_moved(2)[OF pos(1) G2 f2(6)] pos(2) that by blast
    moreover have "(err, m') = (err3, m3)"
      using assms(1) a b d grp True by (auto simp: settle_def)
    ultimately show ?thesis using m2 removed B(2) pos(2) True moved_trans by (auto simp: Let_def)
  next
    case False
    then have "(err, m') = (err1, m1) \<and> err1 \<noteq> None \<or> m' = m2 \<and> err \<noteq> None"
      using assms(1) a b by (auto simp: settle_def split: option.splits sum.splits)
    then show ?thesis using m1 m2 by auto
  qed
qed

lemma Ack_moved:
  assumes "Manager_Ack now q' g' c off m = (err, m')" "m_groupOps m = G" "good ok view q g (m_groups m)"
  shows "moved ok view q g ({(q', g', off)} - set (m_transfers m)) {} m m'"
proof (cases "transferring q' g' off m")
  case False
  then have "settle now q' g' c off m = (err, m')" "(q', g', off) \<in> {(q', g', off)} - set (m_transfers m)"
    using assms(1) by (simp_all add: Manager_Ack_def transferring_def)
  then show ?thesis using settle_moved assms(2,3) by blast
qed (use assms in \<open>auto simp: Manager_Ack_def moved_refl\<close>)

lemma Nack_moved:
  assumes "NackWithDelay now q' g' c off delay m = (err, m')" "m_groupOps m = G" "good ok view q g (m_groups m)"
  shows "moved ok view q g {} ({(q', g', off)} - set (m_transfers m)) m m'"
proof -
  let ?T = "{(q', g', off)} - set (m_transfers m)"
  obtain r1 m1 where a: "get_group now q' g' m = (r1, m1)" by fastforce
  have m1: "moved ok view q g {} ?T m m1" by (rule get_moved(1)[OF a assms(2,3)])
  note f1 = moved_frame[OF m1]
  have G1: "m_groupOps m1 = G" using f1(2) assms(2) by simp
  consider "m' = m1" | f t where "g_RequeuePendingEntry G = Some f" "\<not> transferring q' g' off m1"
      "on_groups (\<lambda>_. f now q' g' c off t) m1 = (err, m')"
    using assms(1) G1 by (auto simp: NackWithDelay_def Let_def a split: sum.splits if_splits option.splits)
  then show ?thesis
  proof cases
    case (2 f t)
    have T: "(q', g', off) \<in> ?T" using 2(2) f1(5) by (simp add: transferring_def)
    have "moved ok view q g {} ?T m1 m'"
      using 2(3) G1 f1(6) frame_law(9)[OF 2(1)]
    proof (rule on_groups_moved)
      let ?s = "snd (f now q' g' c off t (m_groups m1))"
      assume "q' = q" "g' = g"
      then show "ok q g ?s \<and> (view q g ?s = view q g (m_groups m1) \<or>
          vstep {off. (q, g, off) \<in> {}} {o'. (q, g, o') \<in> ?T} (view q g (m_groups m1)) (view q g ?s))"
        using requeue_law[OF _ 2(1), of q g "m_groups m1" now c off t] f1(6) T vstep.requeue[of off _ t]
        by (cases "f now q' g' c off t (m_groups m1)") (auto simp: good_def)
    qed
    then show ?thesis using m1 moved_trans by blast
  qed (simp add: m1)
qed



section \<open>Dead-letter transfers\<close>

text \<open>The first half keeps the entry reserved when it succeeds and leaves no trace when it fails.\<close>

lemma FindPending_owner:
  assumes "agrees grp v" "FindPending grp off = (e, owner)" "owner \<noteq> []"
  shows "gv_pel v off = Some e" "pe_ConsumerID e = owner"
proof -
  have inv: "pel_inv grp" using assms(1) by (simp add: agrees_def)
  have "off \<in> pe_Offset ` pending grp" using FindPending_spec(2)[OF inv, of off] assms(2,3) by auto
  then obtain e' where e': "e' \<in> pending grp" "pe_Offset e' = off" by blast
  then have "e = e'" "owner = pe_ConsumerID e'" using FindPending_spec(1)[OF inv e'(1)] assms(2) by auto
  then show "gv_pel v off = Some e" "pe_ConsumerID e = owner" using e' assms(1) by (auto simp: agrees_def)
qed

lemma prepareTransfer_moved:
  assumes "prepareTransfer now (q', g', off) c m = (r, m')" "m_groupOps m = G" "good ok view q g (m_groups m)"
  shows "moved ok view q g R T m (m'\<lparr>m_transfers := m_transfers m\<rparr>) \<and>
    (case r of
       Inl err \<Rightarrow> m_transfers m' = m_transfers m
     | Inr (msg, n) \<Rightarrow>
         m_transfers m' = (q', g', off) # m_transfers m \<and> (q', g', off) \<notin> set (m_transfers m) \<and>
         q_Read (m_queueOps m) q' off (m_queues m) = Inr msg \<and>
         (q' = q \<longrightarrow> g' = g \<longrightarrow>
          (\<exists>e. gv_pel (view q g (m_groups m')) off = Some e \<and> pe_ConsumerID e = c \<and> pe_DeliveryCount e = n)))"
proof -
  let ?key = "(q', g', off)"
  obtain r1 m1 where a: "get_group now q' g' m = (r1, m1)" by fastforce
  note A = get_moved[OF a assms(2,3)]
  have m1: "moved ok view q g R T m m1" by (rule A)
  note f = moved_frame[OF m1]
  have same: "m1\<lparr>m_transfers := m_transfers m\<rparr> = m1" using f(5) by simp
  show ?thesis
  proof (cases "m_transfers m' = m_transfers m \<and> m' = m1 \<and> (\<exists>err. r = Inl err)")
    case False
    obtain grp e owner where grp: "r1 = Inr grp" "FindPending grp off = (e, owner)" "owner = c" "c \<noteq> []"
      using assms(1) a f(5) False
      by (cases r1; cases "FindPending (projr r1) off")
         (auto simp: prepareTransfer_def split: if_splits prod.splits)
    note h = assms(1) a grp False f
    have free: "?key \<notin> set (m_transfers m)"
      using h by (auto simp: prepareTransfer_def beginTransfer_def split: if_splits)
    show ?thesis
    proof (cases "q_Read (m_queueOps m) q' off (m_queues m)")
      case (Inl err)
      with h free show ?thesis
        by (auto simp: prepareTransfer_def beginTransfer_def endTransfer_def same m1 removeAll_id split: if_splits)
    next
      case (Inr msg)
      have ent: "gv_pel (view q g (m_groups m1)) off = Some e \<and> pe_ConsumerID e = c" if "q' = q" "g' = g"
        using A(2)[OF that] FindPending_owner[of grp _ off e owner] grp by auto
      from h free Inr have "r = Inr (msg, pe_DeliveryCount e)" "m' = m1\<lparr>m_transfers := ?key # m_transfers m\<rparr>"
        by (auto simp: prepareTransfer_def beginTransfer_def split: if_splits)
      then show ?thesis using free Inr ent m1 same by auto
    qed
  qed (use m1 same in auto)
qed

lemma finishTransfer_moved:
  assumes "finishTransfer now (q', g', off) c terr m = (err, m')" "m_groupOps m = G" "good ok view q g (m_groups m)"
  shows "moved ok view q g (if terr = None then {(q', g', off)} else {}) {} (endTransfer (q', g', off) m) m'"
proof -
  let ?m = "endTransfer (q', g', off) m"
  have e: "m_groupOps ?m = G" "good ok view q g (m_groups ?m)" using assms(2,3) by (simp_all add: endTransfer_def)
  show ?thesis
  proof (cases terr)
    case None
    then show ?thesis using settle_moved[OF _ e] assms(1) by (simp add: finishTransfer_def)
  qed (use assms(1) e in \<open>auto simp: finishTransfer_def moved_refl\<close>)
qed

lemma preparePoison_moved:
  assumes "preparePoisonTransfer now (q', g', off) m = (r, m')" "m_groupOps m = G" "good ok view q g (m_groups m)"
  shows "moved ok view q g R T m (m'\<lparr>m_transfers := m_transfers m\<rparr>) \<and>
    (case r of
       None \<Rightarrow> m_transfers m' = m_transfers m
     | Some (e, msg) \<Rightarrow>
         m_transfers m' = (q', g', off) # m_transfers m \<and> (q', g', off) \<notin> set (m_transfers m) \<and>
         q_Read (m_queueOps m) q' off (m_queues m) = Inr msg \<and>
         (q' = q \<longrightarrow> g' = g \<longrightarrow> gv_pel (view q g (m_groups m')) off = Some e))"
proof -
  let ?key = "(q', g', off)"
  obtain r1 m1 where a: "get_group now q' g' m = (r1, m1)" by fastforce
  note A = get_moved[OF a assms(2,3)]
  have m1: "moved ok view q g R T m m1" by (rule A)
  note f = moved_frame[OF m1]
  have quiet: "moved ok view q g R T m (x\<lparr>m_transfers := m_transfers m\<rparr>) \<and> m_transfers x = m_transfers m"
    if "quiet m1 x" for x
  proof -
    have t: "m_transfers x = m_transfers m" using that f(5) by (simp add: quiet_def mframe_def)
    then have "x\<lparr>m_transfers := m_transfers m\<rparr> = x" by simp
    then show ?thesis using t m1 quiet_moved[OF that f(6)] moved_trans by metis
  qed
  show ?thesis
  proof (cases "r = None \<and> quiet m1 m'")
    case False
    obtain grp e owner where grp: "r1 = Inr grp" "FindPending grp off = (e, owner)" "owner \<noteq> []"
      using assms(1) a False
      by (cases r1; cases "FindPending (projr r1) off")
         (auto simp: preparePoisonTransfer_def poison_quiet_more split: if_splits)
    have free: "?key \<notin> set (m_transfers m)"
      using assms(1) a grp False f by (auto simp: preparePoisonTransfer_def beginTransfer_def split: if_splits)
    show ?thesis
    proof (cases "q_Read (m_queueOps m) q' off (m_queues m)")
      case (Inl err)
      have same: "m1\<lparr>m_transfers := m_transfers m\<rparr> = m1" using f(5) by simp
      have "m' = scheduleNextPoisonAttempt now q' g' off m1" "r = None"
        using assms(1) a grp free f Inl
        by (auto simp: preparePoisonTransfer_def beginTransfer_def endTransfer_def same)
      with False show ?thesis using poison_quiet(5)[of m1 now q' g' off] by simp
    next
      case (Inr msg)
      have ent: "gv_pel (view q g (m_groups m1)) off = Some e" if "q' = q" "g' = g"
        using A(2)[OF that] FindPending_owner(1)[of grp _ off e owner] grp by auto
      from assms(1) a grp free f Inr have "r = Some (e, msg)" "m' = m1\<lparr>m_transfers := ?key # m_transfers m\<rparr>"
        by (auto simp: preparePoisonTransfer_def beginTransfer_def)
      then show ?thesis using free Inr ent quiet[of m1] by auto
    qed
  qed (use quiet in auto)
qed

lemma finishPoison_moved:
  assumes "m_groupOps m = G" "good ok view q g (m_groups m)"
  shows "moved ok view q g (if terr = None then {(q', g', off)} else {}) {} (endTransfer (q', g', off) m)
           (finishPoisonTransfer now (q', g', off) e terr m)"
proof -
  let ?m = "endTransfer (q', g', off) m" and ?R = "if terr = None then {(q', g', off)} else {}"
  have G: "m_groupOps ?m = G" "good ok view q g (m_groups ?m)" using assms by (simp_all add: endTransfer_def)
  show ?thesis
  proof (cases terr)
    case None
    obtain err m1 where a: "on_groups (\<lambda>ops. g_RemovePendingEntry ops now q' g' (pe_ConsumerID e) off) ?m = (err, m1)"
      by fastforce
    have m1: "moved ok view q g ?R {} ?m m1" using remove_moved[OF a G] None by simp
    have "quiet m1 (finishPoisonTransfer now (q', g', off) e terr m)"
      using a None by (auto simp: finishPoisonTransfer_def poison_quiet poison_quiet_more split: option.split)
    then show ?thesis using quiet_moved moved_frame(6)[OF m1] m1 moved_trans by blast
  next
    case (Some err)
    then have "quiet ?m (finishPoisonTransfer now (q', g', off) e terr m)"
      by (simp add: finishPoisonTransfer_def Let_def poison_quiet poison_quiet_more)
    then show ?thesis using G(2) by (rule quiet_moved)
  qed
qed



section \<open>Membership and offsets\<close>

lemma agrees_same:
  assumes "agrees grp v" "cg_PEL grp' = cg_PEL grp" "cg_Cursor grp' = cg_Cursor grp" "cg_Mode grp' \<noteq> GroupModeStream"
  shows "agrees grp' v"
proof -
  have "pel_of grp' = pel_of grp" using assms(2) by (simp add: pel_of_def fun_eq_iff)
  then have "pel_inv grp' = pel_inv grp" "pending grp' = pending grp" "CursorView grp' = CursorView grp"
    using assms(2,3) by (simp_all add: pel_inv_def pending_def CursorView_def)
  then show ?thesis using assms(1,4) by (simp add: agrees_def)
qed

lemma member_moved:
  assumes "on_groups (\<lambda>ops. g_RegisterConsumer ops now q' g' info) m = (err, m') \<or>
           on_groups (\<lambda>ops. g_UnregisterConsumer ops now q' g' c) m = (err, m')"
    and "m_groupOps m = G" "good ok view q g (m_groups m)"
  shows "moved ok view q g R T m m'"
proof -
  have ok: "ok q g (m_groups m)" using assms(3) by (simp add: good_def)
  have "moved ok view q g R T m m'" if "on_groups (\<lambda>ops. g_RegisterConsumer ops now q' g' info) m = (err, m')"
    using that assms(2,3) frame_law(7)
    by (rule on_groups_moved) (use member_law(1)[OF ok, of now info] in \<open>metis surjective_pairing\<close>)
  moreover have "moved ok view q g R T m m'" if "on_groups (\<lambda>ops. g_UnregisterConsumer ops now q' g' c) m = (err, m')"
    using that assms(2,3) frame_law(8)
    by (rule on_groups_moved) (use member_law(2)[OF ok, of now c] in \<open>metis surjective_pairing\<close>)
  ultimately show ?thesis using assms(1) by blast
qed

lemma update_moved:
  assumes "on_groups (\<lambda>ops. g_UpdateConsumerGroup ops now grp) m = (err, m')" "m_groupOps m = G"
    "good ok view q g (m_groups m)"
    "cg_QueueName grp = q \<Longrightarrow> cg_ID grp = g \<Longrightarrow> agrees grp (view q g (m_groups m))"
  shows "moved ok view q g R T m m'"
  using assms(1-3) frame_law(10)
proof (rule on_groups_moved)
  let ?s = "snd (g_UpdateConsumerGroup G now grp (m_groups m))"
  assume eq: "cg_QueueName grp = q" "cg_ID grp = g"
  show "ok q g ?s \<and> (view q g ?s = view q g (m_groups m) \<or>
      vstep {off. (q, g, off) \<in> R} {off. (q, g, off) \<in> T} (view q g (m_groups m)) (view q g ?s))"
    using update_law[of grp "m_groups m" now] assms(3) assms(4)[OF eq] eq
    by (cases "g_UpdateConsumerGroup G now grp (m_groups m)") (auto simp: good_def)
qed

lemma create_moved:
  assumes "on_groups (\<lambda>ops. g_CreateConsumerGroup ops now grp) m = (err, m')" "m_groupOps m = G"
    "good ok view q g (m_groups m)" "(cg_QueueName grp, cg_ID grp) \<noteq> (q, g)"
  shows "moved ok view q g R T m m'"
  using assms(1-3) frame_law(11) by (rule on_groups_moved) (use assms(4) in auto)

lemma get_ids:
  assumes "get_group now q' g' m = (Inr grp, m')" "m_groupOps m = G" "good ok view q g (m_groups m)"
  shows "cg_QueueName grp = q'" "cg_ID grp = g'"
  using assms ids_law[of q g "m_groups m" now q' g' grp] by (auto simp: get_group_def good_def split: prod.splits)

lemma getOrCreateGroup_moved:
  assumes "getOrCreateGroup now q' g' pattern mode auto conf m = (r, m')" "m_groupOps m = G"
    "good ok view q g (m_groups m)" "mode \<noteq> GroupModeStream"
  shows "moved ok view q g R T m m'"
proof -
  let ?mv = "moved ok view q g R T"
  obtain r1 m1 where a: "get_group now q' g' m = (r1, m1)" by fastforce
  note A = get_moved[OF a assms(2,3)]
  have m1: "?mv m m1" by (rule A)
  note f1 = moved_frame[OF m1]
  have G1: "m_groupOps m1 = G" using f1(2) assms(2) by simp
  show ?thesis
  proof (cases r1)
    case (Inr grp)
    note ids = get_ids[OF a[unfolded Inr] assms(2,3)]
    have upd: "?mv m x'" if "on_groups (\<lambda>ops. g_UpdateConsumerGroup ops now grp') m1 = (x, x')"
      "cg_QueueName grp' = cg_QueueName grp" "cg_ID grp' = cg_ID grp"
      "agrees grp (view q g (m_groups m1)) \<Longrightarrow> agrees grp' (view q g (m_groups m1))" for grp' x x'
    proof -
      have "?mv m1 x'" by (rule update_moved[OF that(1) G1 f1(6)]) (use A(2) ids that Inr in auto)
      then show ?thesis using m1 moved_trans by blast
    qed
    let ?set = "SetAutoCommit now auto (grp\<lparr>cg_Mode := mode\<rparr>)" and ?auto = "applyAutoCommitLocked now auto grp"
    have set: "agrees grp v \<Longrightarrow> agrees ?set v" for v
      by (rule agrees_same) (use assms(4) in \<open>simp_all add: SetAutoCommit_def\<close>)
    have auto: "agrees grp v \<Longrightarrow> agrees ?auto v" for v
      by (rule agrees_same) (simp_all add: SetAutoCommit_def applyAutoCommitLocked_def agrees_def)
    have ids': "cg_QueueName ?auto = cg_QueueName grp" "cg_ID ?auto = cg_ID grp"
      by (simp_all add: applyAutoCommitLocked_def Let_def SetAutoCommit_def SetCommitted_def ClearPending_def touch_def)
    have "m' = m1 \<or> (\<exists>x. on_groups (\<lambda>ops. g_UpdateConsumerGroup ops now ?set) m1 = (x, m')) \<or>
        (\<exists>x. on_groups (\<lambda>ops. g_UpdateConsumerGroup ops now ?auto) m1 = (x, m'))"
      using assms(1) a Inr
      by (simp add: getOrCreateGroup_def Let_def split: if_split_asm option.split_asm prod.split_asm)
    then show ?thesis using m1 upd[of ?set] upd[of ?auto] set auto ids' by (auto simp: SetAutoCommit_def)
  next
    case (Inl err)
    have ne: "(q', g') \<noteq> (q, g)" using A(2) Inl by auto
    define grp where "grp = SetAutoCommit now auto (if mode \<noteq> [] then (NewConsumerGroupState now q' g' pattern)\<lparr>cg_Mode := mode\<rparr>
        else NewConsumerGroupState now q' g' pattern)"
    have ids: "cg_QueueName grp = q'" "cg_ID grp = g'"
      by (simp_all add: grp_def SetAutoCommit_def NewConsumerGroupState_def)
    obtain err2 m2 where b: "on_groups (\<lambda>ops. g_CreateConsumerGroup ops now grp) m1 = (err2, m2)" by fastforce
    have m2: "?mv m m2" using create_moved[OF b G1 f1(6)] ne ids m1 moved_trans by blast
    note f2 = moved_frame[OF m2]
    obtain r3 m3 where d: "get_group now q' g' m2 = (r3, m3)" by fastforce
    have m3: "?mv m m3" using get_moved(1)[OF d _ f2(6)] f2(2) assms(2) m2 moved_trans by metis
    have "m' = m1 \<or> m' = m2 \<or> m' = m3"
      using assms(1) a Inl b d unfolding getOrCreateGroup_def grp_def[symmetric] Let_def
      by (auto simp: Let_def split: if_splits option.splits sum.splits)
    then show ?thesis using m1 m2 m3 by blast
  qed
qed

lemma UpdateHeartbeat_moved:
  assumes "Manager_UpdateHeartbeat now q' g' c m = (r, m')" "m_groupOps m = G" "good ok view q g (m_groups m)"
  shows "moved ok view q g R T m m'"
proof -
  obtain r1 m1 where a: "get_group now q' g' m = (r1, m1)" by fastforce
  have m1: "moved ok view q g R T m m1" by (rule get_moved(1)[OF a assms(2,3)])
  note f1 = moved_frame[OF m1]
  have G1: "m_groupOps m1 = G" using f1(2) assms(2) by simp
  have "m' = m1 \<or> (\<exists>info. on_groups (\<lambda>ops. g_RegisterConsumer ops now q' g' info) m1 = (r, m'))"
    using assms(1) a by (auto simp: Manager_UpdateHeartbeat_def split: sum.splits prod.splits bool.splits if_splits)
  then show ?thesis using m1 member_moved[OF _ G1 f1(6)] moved_trans by blast
qed

lemma CleanupStaleConsumers_moved:
  assumes "CleanupStaleConsumers now q' g' timeout m = (r, m')" "m_groupOps m = G" "good ok view q g (m_groups m)"
  shows "moved ok view q g R T m m'"
proof -
  obtain r1 m1 where a: "get_group now q' g' m = (r1, m1)" by fastforce
  note A = get_moved[OF a assms(2,3)]
  have m1: "moved ok view q g R T m m1" by (rule A)
  note f1 = moved_frame[OF m1]
  have G1: "m_groupOps m1 = G" using f1(2) assms(2) by simp
  have keep: "cg_PEL (fold (DeleteConsumer now) cs grp) = cg_PEL grp \<and> cg_Cursor (fold (DeleteConsumer now) cs grp) = cg_Cursor grp \<and>
      cg_Mode (fold (DeleteConsumer now) cs grp) = cg_Mode grp \<and> cg_QueueName (fold (DeleteConsumer now) cs grp) = cg_QueueName grp \<and>
      cg_ID (fold (DeleteConsumer now) cs grp) = cg_ID grp" for cs grp
    by (induction cs arbitrary: grp) (simp_all add: DeleteConsumer_def touch_def)
  consider "m' = m1" | cs grp x where "r1 = Inr grp"
      "on_groups (\<lambda>ops. g_UpdateConsumerGroup ops now (fold (DeleteConsumer now) cs grp)) m1 = (x, m')"
    using assms(1) a
    by (simp add: CleanupStaleConsumers_def Let_def split: sum.split_asm prod.split_asm if_split_asm option.split_asm)
  then show ?thesis
  proof cases
    case (2 cs grp x)
    have "moved ok view q g R T m1 m'"
    proof (rule update_moved[OF 2(2) G1 f1(6)])
      assume eq: "cg_QueueName (fold (DeleteConsumer now) cs grp) = q" "cg_ID (fold (DeleteConsumer now) cs grp) = g"
      have "q' = q" "g' = g" using eq keep get_ids[OF a[unfolded 2(1)] assms(2,3)] by metis+
      from A(2)[OF this] 2(1) have "agrees grp (view q g (m_groups m1))" by auto
      then show "agrees (fold (DeleteConsumer now) cs grp) (view q g (m_groups m1))"
        using agrees_same[of grp] keep agrees_def by metis
    qed
    then show ?thesis using m1 moved_trans by blast
  qed (simp add: m1)
qed

end

end
