(* ===== verification/Claim_Results.thy ===== *)
theory Claim_Results
  imports Settle_Refinement
begin

text \<open>
  What the results of the consumer manager mean: a claimed message is the first that can be taken behind the
  cursor, or one that its consumer has left; an acknowledged one is gone and the committed offset follows.
\<close>

lemma distinct_stealable:
  assumes "pel_inv grp"
  shows "distinct (map pe_Offset (StealableEntries now vis excl grp))"
proof -
  define h where "h = (\<lambda>(c, es :: pending_entry list). (c, if c = excl then [] else
      filter (\<lambda>e. map_of (cg_Consumers grp) c = None \<or> pe_ClaimedAt e < now - vis) es))"
  have eq: "StealableEntries now vis excl grp = concat (map snd (map h (cg_PEL grp)))"
    by (auto simp: StealableEntries_def h_def Let_def intro!: arg_cong[of _ _ concat] filter_cong)
  have pel: "distinct (map fst (cg_PEL grp))" "\<And>c es. (c, es) \<in> set (cg_PEL grp) \<Longrightarrow> pel_of grp c = es"
    using assms by (auto simp: pel_inv_def pel_of_def)
  have "distinct (StealableEntries now vis excl grp)"
    unfolding eq
  proof (rule distinct_concat_pel)
    show "distinct (map fst (map h (cg_PEL grp)))" using pel(1) by (simp add: h_def comp_def case_prod_beta)
    show "distinct (map pe_Offset es)" if mem: "(c, es) \<in> set (map h (cg_PEL grp))" for c es
    proof -
      obtain b where b: "(c, b) \<in> set (cg_PEL grp)" "(c, es) = h (c, b)" using mem by (auto simp: h_def)
      have "distinct (map pe_Offset b)" using pel(2)[OF b(1)] assms by (auto simp: pel_inv_def)
      then show ?thesis using b(2) by (simp add: h_def distinct_map_filter)
    qed
    show "pe_ConsumerID e = c" if "(c, es) \<in> set (map h (cg_PEL grp))" "e \<in> set es" for c es e
      using that pel(2) pel_inv_owner[OF assms] by (auto simp: h_def split: if_splits)
  qed
  moreover have "inj_on pe_Offset (set (StealableEntries now vis excl grp))"
    using assms by (auto simp: set_StealableEntries[OF assms] pel_inv_def intro: inj_on_subset)
  ultimately show ?thesis by (simp add: distinct_map)
qed

lemma safe_below: "safe v \<Longrightarrow> gv_pel v off = Some e \<Longrightarrow> off < gv_cursor v"
  unfolding safe_def by blast

text \<open>A message that may be handed to a consumer with the filter \<open>flt\<close>.\<close>

definition deliverable :: "instant \<Rightarrow> string \<Rightarrow> claim_filter option \<Rightarrow> ('q, 'g) manager \<Rightarrow> u64 \<Rightarrow> envelope \<Rightarrow> bool" where
  "deliverable now q flt m off msg \<longleftrightarrow>
     q_Read (m_queueOps m) q off (m_queues m) = Inr msg \<and> \<not> IsExpired now msg \<and> accepts flt q msg"

lemma deliverable_frame: "mframe m m' \<Longrightarrow> deliverable now q flt m' = deliverable now q flt m"
  by (simp add: deliverable_def mframe_def fun_eq_iff)

lemma examine_take: "examine now q flt m off = Take msg \<longleftrightarrow> deliverable now q flt m off msg"
  by (auto simp: examine_def deliverable_def split: sum.splits if_splits)

text \<open>An entry handed over: it was pending, not reserved, and now belongs to \<open>c\<close>.\<close>

definition stolen :: "instant \<Rightarrow> string \<Rightarrow> pending_entry \<Rightarrow> gview \<Rightarrow> gview \<Rightarrow> bool" where
  "stolen now c e v v' \<longleftrightarrow>
     gv_pel v (pe_Offset e) = Some e \<and>
     (\<exists>e'. gv_pel v' (pe_Offset e) = Some e' \<and> pe_ConsumerID e' = c \<and>
           pe_DeliveryCount e' = (pe_DeliveryCount e + 1) mod 65536)"

lemma FindPending_view:
  assumes "agrees grp v" "gv_pel v off = Some e"
  shows "FindPending grp off = (e, pe_ConsumerID e)"
  using assms FindPending_spec(1)[of grp e] by (auto simp: agrees_def)

lemma claim_many_empty:
  assumes "claim_many f n m = (([], Some e), m')"
  shows "f m = (Inl e, m')"
  using assms by (cases n) (auto split: prod.splits sum.splits)

context group_store
begin

lemma steal_entry_result:
  assumes "steal_entry now q g c flt owner e m = (Some msg, m')" "m_groupOps m = G" "good ok view q g (m_groups m)"
    and "gv_pel (view q g (m_groups m)) (pe_Offset e) = Some e"
  shows "deliverable now q flt m (pe_Offset e) msg \<and> \<not> transferring q g (pe_Offset e) m \<and>
    stolen now c e (view q g (m_groups m)) (view q g (m_groups m'))"
proof -
  let ?off = "pe_Offset e"
  obtain deferred m1 where d: "(if pe_DeliveryCount e \<ge> mc_MaxDeliveryCount (m_config m)
      then deferPoisonTransfer now q g ?off m else (False, m)) = (deferred, m1)" by fastforce
  have q: "quiet m m1" using d poison_quiet_more(3)[of m now q g ?off] by (auto split: if_splits)
  then have f: "m_queueOps m1 = m_queueOps m" "m_queues m1 = m_queues m" "m_groupOps m1 = G" "m_groups m1 = m_groups m"
    using assms(2) by (simp_all add: quiet_def mframe_def)
  have tr: "\<not> transferring q g ?off m" using assms(1) by (auto simp: steal_entry_def Let_def split: if_splits)
  obtain msg0 where r: "q_Read (m_queueOps m) q ?off (m_queues m) = Inr msg0"
    using assms(1) tr
    by (cases "q_Read (m_queueOps m) q ?off (m_queues m)") (auto simp: steal_entry_def Let_def d f split: if_splits)
  from assms(1) tr have ok: "\<not> IsExpired now msg0" "accepts flt q msg0" "msg = msg0"
    and t: "on_groups (\<lambda>ops. g_TransferPendingEntry ops now q g ?off (pe_ConsumerID e) c) m1 = (None, m')"
    by (auto simp: steal_entry_def Let_def d f r split: if_splits option.splits prod.splits)
  obtain err s where s: "g_TransferPendingEntry G now q g ?off (pe_ConsumerID e) c (m_groups m) = (err, s)" by fastforce
  have "err = None" "m_groups m' = s" using t s f by (auto simp: on_groups_def)
  then have "v_transfer now ?off (pe_ConsumerID e) c (view q g (m_groups m)) (view q g (m_groups m'))"
    using transfer_law[OF _ s] assms(3,4) by (auto simp: good_def)
  then have "stolen now c e (view q g (m_groups m)) (view q g (m_groups m'))"
    using assms(4) by (auto simp: v_transfer_def stolen_def)
  then show ?thesis using tr r ok by (simp add: deliverable_def)
qed

lemma steal_loop_result:
  assumes "steal_loop now q g c flt owner entries m = (Inr msg, m')" "m_groupOps m = G" "good ok view q g (m_groups m)"
    and "\<forall>e \<in> set entries. gv_pel (view q g (m_groups m)) (pe_Offset e) = Some e" "distinct (map pe_Offset entries)"
  shows "\<exists>e \<in> set entries. deliverable now q flt m (pe_Offset e) msg \<and> \<not> transferring q g (pe_Offset e) m \<and>
    stolen now c e (view q g (m_groups m)) (view q g (m_groups m'))"
  using assms
proof (induction entries arbitrary: m)
  case (Cons e es)
  obtain r1 m1 where s: "steal_entry now q g c flt owner e m = (r1, m1)" by fastforce
  note mv = steal_entry_moved[OF s Cons.prems(2,3)]
  note f = moved_frame[OF mv]
  show ?case
  proof (cases r1)
    case None
    have keep: "gv_pel (view q g (m_groups m1)) (pe_Offset x) = Some x" if "x \<in> set es" for x
    proof -
      have "pe_Offset e \<notin> pe_Offset ` set es" using Cons.prems(5) by simp
      then have "pe_Offset x \<noteq> pe_Offset e" using that by (metis imageI)
      moreover have x: "gv_pel (view q g (m_groups m)) (pe_Offset x) = Some x"
        using that by (intro Cons.prems(4)[rule_format]) simp
      moreover have "pe_Offset x < gv_cursor (view q g (m_groups m))" 
        using safe_below[OF _ x] Cons.prems(3) by (simp add: good_def)
      moreover have "(vstep {off. (q, g, off) \<in> free_spoiled now m \<inter> {(q, g, pe_Offset e)}}
          {off. (q, g, off) \<in> {(q, g, pe_Offset e)} - set (m_transfers m)})\<^sup>*\<^sup>* (view q g (m_groups m)) (view q g (m_groups m1))"
        using mv by (simp add: moved_def)
      ultimately show ?thesis using vsteps_keeps[where off = "pe_Offset x"] by simp
    qed
    obtain x where x: "x \<in> set es" "deliverable now q flt m1 (pe_Offset x) msg" "\<not> transferring q g (pe_Offset x) m1"
        "stolen now c x (view q g (m_groups m1)) (view q g (m_groups m'))"
    proof -
      have "steal_loop now q g c flt owner es m1 = (Inr msg, m')" using Cons.prems(1) s None by simp
      moreover have "m_groupOps m1 = G" "distinct (map pe_Offset es)" using f(2) Cons.prems(2,5) by simp_all
      ultimately show thesis using that Cons.IH[of m1] f(6) keep by blast
    qed
    have "stolen now c x (view q g (m_groups m)) (view q g (m_groups m'))"
      using x(4) Cons.prems(4)[rule_format, of x] x(1) by (simp add: stolen_def)
    moreover have "mframe m m1" using mv by (simp add: moved_def)
    ultimately have "deliverable now q flt m (pe_Offset x) msg \<and> \<not> transferring q g (pe_Offset x) m \<and>
        stolen now c x (view q g (m_groups m)) (view q g (m_groups m'))"
      using x(2,3) f(5) deliverable_frame[of m m1] by (simp add: transferring_def)
    then show ?thesis using x(1) by (meson list.set_intros(2))
  next
    case (Some msg1)
    then have "steal_entry now q g c flt owner e m = (Some msg, m')" using s Cons.prems(1) by simp
    from steal_entry_result[OF this Cons.prems(2,3)] Cons.prems(4)[rule_format, of e] show ?thesis by (meson list.set_intros(1))
  qed
qed simp

lemma stealWork_result:
  assumes "stealWork now q g c flt m = (Inr msg, m')" "m_groupOps m = G" "good ok view q g (m_groups m)" "shown view q g m"
  shows "\<exists>e. deliverable now q flt m (pe_Offset e) msg \<and> \<not> transferring q g (pe_Offset e) m \<and> pe_ConsumerID e \<noteq> c \<and>
    (map_of (cg_Consumers (object_of q g m)) (pe_ConsumerID e) = None \<or>
     pe_ClaimedAt e < now - mc_VisibilityTimeout (m_config m)) \<and>
    stolen now c e (view q g (m_groups m)) (view q g (m_groups m'))"
proof -
  let ?es = "StealableEntries now (mc_VisibilityTimeout (m_config m)) c (object_of q g m)" and ?m = "prunePoison q g m"
  have inv: "pel_inv (object_of q g m)" and v: "agrees (object_of q g m) (view q g (m_groups m))"
    using assms(4) by (simp_all add: shown_def agrees_def)
  have qu: "quiet m ?m" by (rule poison_quiet_more)
  then have f: "m_groups ?m = m_groups m" "m_groupOps ?m = G" "m_transfers ?m = m_transfers m" "mframe m ?m"
    using assms(2) by (simp_all add: quiet_def mframe_def)
  have "steal_loop now q g c flt [] ?es ?m = (Inr msg, m')"
    using assms(1) by (auto simp: stealWork_def stealWorkFrom_def Let_def split: if_splits)
  from steal_loop_result[OF this f(2)] obtain e where e: "e \<in> set ?es" "deliverable now q flt ?m (pe_Offset e) msg"
      "\<not> transferring q g (pe_Offset e) ?m" "stolen now c e (view q g (m_groups m)) (view q g (m_groups m'))"
    using assms(3) f distinct_stealable[OF inv] v by (auto simp: set_StealableEntries[OF inv] agrees_def)
  then show ?thesis
    using f deliverable_frame[OF f(4)] by (auto simp: set_StealableEntries[OF inv] transferring_def)
qed

text \<open>A claim that finds nothing leaves the pending entries and the members as they are.\<close>

lemma step_past_result:
  assumes "step_past now q g start cursor m = (None, m')" "m_groupOps m = G" "good ok view q g (m_groups m)" "shown view q g m"
  shows "shown view q g m' \<and> gv_pel (view q g (m_groups m')) = gv_pel (view q g (m_groups m)) \<and>
    cg_Consumers (object_of q g m') = cg_Consumers (object_of q g m) \<and>
    (start < cursor \<longrightarrow> cursor \<le> gv_cursor (view q g (m_groups m')))"
proof (cases "start < cursor")
  case True
  obtain r m1 where a: "get_group now q g m = (r, m1)" by fastforce
  note A = get_moved[OF a assms(2,3)]
  note f = moved_frame[OF A(1)]
  from A(2)[OF refl refl] obtain grp where grp: "r = Inr grp" "object_of q g m1 = grp" "agrees grp (view q g (m_groups m1))"
      "view q g (m_groups m1) = view q g (m_groups m)" "shown view q g m1" "cg_Consumers grp = cg_Consumers (object_of q g m)"
    by blast
  show ?thesis
  proof (cases "cursor > qc_Cursor (CursorView grp)")
    case c: True
    then have u: "on_groups (\<lambda>ops. g_UpdateCursor ops now q g cursor) m1 = (None, m')"
      using assms(1) True a grp by (simp add: step_past_def)
    have "gv_cursor (view q g (m_groups m1)) \<le> cursor" using c grp(3) by (simp add: agrees_def)
    then show ?thesis
      using cursor_moved(2)[OF u _ f(6)] f(2) assms(2) grp by auto
  next
    case False
    then have "m' = m1" using assms(1) True a grp by (simp add: step_past_def)
    then show ?thesis using grp False by (auto simp: agrees_def)
  qed
qed (use assms in \<open>simp add: step_past_def\<close>)

lemma claimFromCursor_none:
  assumes "claimFromCursor now q g c flt m = (Inl e, m')" "is_no_messages e" "m_groupOps m = G" "good ok view q g (m_groups m)"
    and "shown view q g m"
  shows "shown view q g m' \<and> gv_pel (view q g (m_groups m')) = gv_pel (view q g (m_groups m)) \<and>
    cg_Consumers (object_of q g m') = cg_Consumers (object_of q g m)"
  using assms(1)
proof (cases rule: claimFromCursor_cases)
  case (failed e')
  then show ?thesis using assms(2) by simp
next
  case (found tail off msg)
  then have "\<exists>x. e = GroupErr x"
    by (auto simp: claim_found_def on_groups_def split: option.splits prod.splits)
  then show ?thesis using assms(2) by (auto simp: is_no_messages_def)
next
  case (past tail cursor err)
  have "err = None"
  proof (rule ccontr)
    assume "err \<noteq> None"
    then have "\<exists>x. err = Some (GroupErr x)"
      using past(3) by (auto simp: step_past_def on_groups_def split: if_splits sum.splits prod.splits)
    then show False using past(4) assms(2) by (auto simp: is_no_messages_def)
  qed
  then show ?thesis using step_past_result[OF _ assms(3,4,5)] past(3) by blast
qed

lemma Claim_result:
  assumes "Manager_Claim now q g c flt m = (Inr msg, m')" "m_groupOps m = G" "good ok view q g (m_groups m)"
  shows "(\<exists>off. gv_cursor (view q g (m_groups m)) \<le> off \<and> deliverable now q flt m off msg \<and>
             v_claim c off (view q g (m_groups m)) (view q g (m_groups m')) \<and>
             (\<forall>o'. scanStart q (gv_cursor (view q g (m_groups m))) m \<le> o' \<and> o' < off \<longrightarrow> examine now q flt m o' = Skip)) \<or>
         (\<exists>e. deliverable now q flt m (pe_Offset e) msg \<and> \<not> transferring q g (pe_Offset e) m \<and> pe_ConsumerID e \<noteq> c \<and>
             (map_of (cg_Consumers (object_of q g m)) (pe_ConsumerID e) = None \<or>
              pe_ClaimedAt e < now - mc_VisibilityTimeout (m_config m)) \<and>
             stolen now c e (view q g (m_groups m)) (view q g (m_groups m')))"
proof -
  obtain r1 m1 where a: "get_group now q g m = (r1, m1)" by fastforce
  note A = get_moved[OF a assms(2,3)]
  have fr: "mframe m m1" using A(1) by (simp add: moved_def)
  note f1 = moved_frame[OF A(1)]
  have G1: "m_groupOps m1 = G" using f1(2) assms(2) by simp
  from A(2)[OF refl refl] obtain grp where grp: "r1 = Inr grp" "view q g (m_groups m1) = view q g (m_groups m)"
      "synced view q g m1" "shown view q g m1" "cg_Consumers (object_of q g m1) = cg_Consumers (object_of q g m)"
    by metis
  obtain r2 m2 where b: "claimFromCursor now q g c flt m1 = (r2, m2)" by fastforce
  note B = claimFromCursor_moved[OF b G1 f1(6) grp(3)]
  have same: "examine now q flt m1 = examine now q flt m" "scanStart q x m1 = scanStart q x m"
    "deliverable now q flt m1 = deliverable now q flt m" for x
    using fr by (simp_all add: mframe_def examine_def scanStart_def deliverable_def fun_eq_iff)
  show ?thesis
  proof (cases r2)
    case (Inr x)
    then have x: "x = msg" "m2 = m'" using assms(1) a b grp(1) by (simp_all add: Manager_Claim_def)
    from B[where msg = x and R = "{}" and T = "{}"] Inr obtain tail off where s: "scan (examine now q flt m) tail maxCursorScan
          (scanStart q (gv_cursor (view q g (m_groups m))) m) = Found off msg"
        "v_claim c off (view q g (m_groups m)) (view q g (m_groups m'))"
      using x grp(2) same by auto
    note sf = scan_found[OF s(1)]
    have "gv_cursor (view q g (m_groups m)) \<le> off" using sf scanStart_ge order_trans by blast
    then show ?thesis using sf s(2) by (auto simp: examine_take)
  next
    case (Inl e)
    then have e: "is_no_messages e" and st: "stealWork now q g c flt m2 = (Inr msg, m')"
      using assms(1) a b grp(1) by (auto simp: Manager_Claim_def split: if_splits)
    note n = claimFromCursor_none[OF b[unfolded Inl] e G1 f1(6) grp(4)]
    have mv: "moved ok view q g {} {} m1 m2" using B by blast
    note f2 = moved_frame[OF mv]
    have fr2: "mframe m1 m2" using mv by (simp add: moved_def)
    from stealWork_result[OF st _ f2(6)] n f2(2) G1 obtain x where
      x: "deliverable now q flt m2 (pe_Offset x) msg" "\<not> transferring q g (pe_Offset x) m2" "pe_ConsumerID x \<noteq> c"
         "map_of (cg_Consumers (object_of q g m2)) (pe_ConsumerID x) = None \<or> pe_ClaimedAt x < now - mc_VisibilityTimeout (m_config m2)"
         "stolen now c x (view q g (m_groups m2)) (view q g (m_groups m'))" by auto
    have "deliverable now q flt m (pe_Offset x) msg" using x(1) deliverable_frame[OF fr2] same(3) by simp
    moreover have "\<not> transferring q g (pe_Offset x) m" using x(2) f2(5) f1(5) by (simp add: transferring_def)
    moreover have "stolen now c x (view q g (m_groups m)) (view q g (m_groups m'))"
      using x(5) n grp(2) by (simp add: stolen_def)
    ultimately show ?thesis using x(3,4) n grp(5) f2(3) f1(3) by auto
  qed
qed

text \<open>A batch whose scan stopped short has moved the cursor on by the whole budget.\<close>

lemma claimFromCursor_incomplete:
  assumes "claimFromCursor now q g c flt m = (Inl ErrScanIncomplete, m')" "m_groupOps m = G" "good ok view q g (m_groups m)"
    and "shown view q g m"
  shows "\<exists>tail. q_Tail (m_queueOps m) q (m_queues m) = Inr tail \<and>
    unat (gv_cursor (view q g (m_groups m))) + maxCursorScan < unat tail \<and>
    unat (gv_cursor (view q g (m_groups m))) + maxCursorScan \<le> unat (gv_cursor (view q g (m_groups m')))"
  using assms(1)
proof (cases rule: claimFromCursor_cases)
  case (past tail cursor err)
  let ?c = "gv_cursor (view q g (m_groups m))"
  define start where "start = scanStart q ?c m"
  have "qc_Cursor (CursorView (object_of q g m)) = ?c" using assms(4) by (simp add: shown_def agrees_def)
  note past = past[unfolded this, folded start_def]
  have "err = None"
  proof (rule ccontr)
    assume "err \<noteq> None"
    then have "\<exists>x. err = Some (GroupErr x)"
      using past(3) by (auto simp: step_past_def on_groups_def split: if_splits sum.splits prod.splits)
    then show False using past(4) by auto
  qed
  then have lt: "cursor < tail" using past(4) by (auto split: if_splits)
  with scan_exhausted[OF past(2)] have at: "unat cursor = unat start + maxCursorScan" by blast
  moreover have "start < cursor" using at by (simp add: word_less_nat_alt maxCursorScan_def)
  then have "cursor \<le> gv_cursor (view q g (m_groups m'))"
    using step_past_result[OF past(3)[unfolded \<open>err = None\<close>] assms(2,3,4)] by blast
  moreover have "unat ?c \<le> unat start" using scanStart_ge[of ?c q m] by (simp add: start_def word_le_nat_alt)
  ultimately show ?thesis using past(1) lt by (auto simp: word_le_nat_alt word_less_nat_alt)
next
  case (found tail off msg)
  then show ?thesis by (auto simp: claim_found_def on_groups_def split: option.splits prod.splits)
qed (simp add: is_no_messages_def)

lemma ClaimBatch_incomplete:
  assumes "Manager_ClaimBatch now q g c flt limit m = (([], Some ErrScanIncomplete), m')" "m_groupOps m = G"
    and "good ok view q g (m_groups m)"
  shows "\<exists>tail. q_Tail (m_queueOps m) q (m_queues m) = Inr tail \<and>
    unat (gv_cursor (view q g (m_groups m))) + maxCursorScan < unat tail \<and>
    unat (gv_cursor (view q g (m_groups m))) + maxCursorScan \<le> unat (gv_cursor (view q g (m_groups m')))"
proof -
  obtain r1 m1 where a: "get_group now q g m = (r1, m1)" by fastforce
  note A = get_moved[OF a assms(2,3)]
  note f1 = moved_frame[OF A(1)]
  have G1: "m_groupOps m1 = G" using f1(2) assms(2) by simp
  from A(2)[OF refl refl] obtain grp where grp: "r1 = Inr grp" "view q g (m_groups m1) = view q g (m_groups m)" "shown view q g m1"
    by blast
  obtain claimed err2 m2 where b: "claim_many (claimFromCursor now q g c flt) (nat (batch_limit limit m)) m1 = ((claimed, err2), m2)"
    by (metis surj_pair)
  obtain took err3 m3 where d: "claim_many (stealWork now q g c flt) (nat (batch_limit limit m) - length claimed) m2 = ((took, err3), m3)"
    by (metis surj_pair)
  have res: "claimed = [] \<and> err2 = Some ErrScanIncomplete \<and> m' = m3 \<or> claimed = [] \<and> err2 = Some ErrScanIncomplete \<and> m' = m2"
    using assms(1) by (auto simp: Manager_ClaimBatch_def Let_def a b d grp(1) is_no_messages_def split: option.splits if_splits)
  then have "claimFromCursor now q g c flt m1 = (Inl ErrScanIncomplete, m2)" using claim_many_empty[of _ _ m1] b by auto
  note C = this
  have "moved ok view q g {} {} m1 m2" using claimFromCursor_moved[OF C G1 f1(6)] grp(3) by (auto simp: shown_def synced_def agrees_def)
  note f2 = moved_frame[OF this]
  have "moved ok view q g (free_spoiled now m2) (- set (m_transfers m2)) m2 m3"
    using steal_many_moved[OF d _ f2(6)] f2(2) G1 by simp
  then have "gv_cursor (view q g (m_groups m2)) \<le> gv_cursor (view q g (m_groups m3))"
    using vsteps_mono by (auto simp: moved_def)
  then have "unat (gv_cursor (view q g (m_groups m2))) \<le> unat (gv_cursor (view q g (m_groups m')))"
    using res by (auto simp: word_le_nat_alt)
  then show ?thesis using claimFromCursor_incomplete[OF C G1 f1(6) grp(3)] grp(2) f1(1,4) by force
qed

text \<open>A message given back keeps its owner and its delivery count; the time of its last attempt is set.\<close>

lemma Nack_result:
  assumes "NackWithDelay now q g c off delay m = (None, m')" "m_groupOps m = G" "good ok view q g (m_groups m)"
  shows "\<not> transferring q g off m \<and> (\<exists>e. gv_pel (view q g (m_groups m)) off = Some e \<and> pe_ConsumerID e = c) \<and>
    v_requeue (if delay = 0 then now - mc_VisibilityTimeout (m_config m) - second else now + delay) off
      (view q g (m_groups m)) (view q g (m_groups m'))"
proof -
  obtain r1 m1 where a: "get_group now q g m = (r1, m1)" by fastforce
  note A = get_moved[OF a assms(2,3)]
  note f1 = moved_frame[OF A(1)]
  from A(2)[OF refl refl] obtain grp where grp: "r1 = Inr grp" "view q g (m_groups m1) = view q g (m_groups m)"
      "agrees grp (view q g (m_groups m1))" "object_of q g m1 = grp"
    by blast
  obtain e owner where fp: "FindPending grp off = (e, owner)" by fastforce
  let ?t = "if delay = 0 then now - mc_VisibilityTimeout (m_config m) - second else now + delay"
  have ow: "owner \<noteq> []" "owner = c" "\<not> transferring q g off m1"
    using assms(1) by (simp_all add: NackWithDelay_def a grp(1) Let_def fp split: if_split_asm)
  have t: "(if delay = 0 then now + delay - mc_VisibilityTimeout (m_config m1) - second else now + delay) = ?t"
    using f1(3) by simp
  obtain f where f: "g_RequeuePendingEntry G = Some f" "on_groups (\<lambda>_. f now q g c off ?t) m1 = (None, m')"
    using assms(1) ow f1(2) assms(2)
    by (auto simp: NackWithDelay_def a grp(1) Let_def fp t split: option.split_asm)
  have ag: "agrees (g_object G q g (m_groups m1)) (view q g (m_groups m1))"
    using grp(3,4) f1(2) assms(2) by (simp add: object_of_def)
  obtain s' where s': "f now q g c off ?t (m_groups m1) = (None, s')" "m_groups m' = s'"
    using f(2) by (auto simp: on_groups_def split: prod.splits)
  have "v_requeue ?t off (view q g (m_groups m1)) (view q g s')"
    using requeue_law[OF _ f(1) s'(1)] f1(6) ag by (auto simp: good_def)
  then show ?thesis
    using ow f1(5) FindPending_owner[OF grp(3) fp] grp(2) s'(2) by (auto simp: transferring_def)
qed

lemma Ack_result:
  assumes "Manager_Ack now q g c off m = (None, m')" "m_groupOps m = G" "good ok view q g (m_groups m)"
  shows "\<not> transferring q g off m \<and>
    view q g (m_groups m') = (let v = v_remove off (view q g (m_groups m)) in v\<lparr>gv_committed := safe_point v\<rparr>)"
  using assms settle_moved[of now q g c off m None m' q g UNIV] by (auto simp: Manager_Ack_def split: if_splits)

text \<open>A dead-letter transfer of a readable, unreserved entry starts.\<close>

lemma prepare_progress:
  assumes "m_groupOps m = G" "good ok view q g (m_groups m)" "gv_pel (view q g (m_groups m)) off = Some e"
    and "pe_ConsumerID e \<noteq> []" "mc_OnDLQ (m_config m) \<noteq> None" "\<not> transferring q g off m"
    and "q_Read (m_queueOps m) q off (m_queues m) = Inr msg"
  shows "\<exists>m'. prepareTransfer now (q, g, off) (pe_ConsumerID e) m = (Inr (msg, pe_DeliveryCount e), m')"
proof -
  obtain r1 m1 where a: "get_group now q g m = (r1, m1)" by fastforce
  note A = get_moved[OF a assms(1,2)]
  note f1 = moved_frame[OF A(1)]
  from A(2)[OF refl refl] obtain grp where grp: "r1 = Inr grp" "agrees grp (view q g (m_groups m1))"
      "view q g (m_groups m1) = view q g (m_groups m)"
    by blast
  have fp: "FindPending grp off = (e, pe_ConsumerID e)" using FindPending_view[OF grp(2)] grp(3) assms(3) by simp
  show ?thesis
    using assms(4-7) f1 fp a grp(1) by (auto simp: prepareTransfer_def beginTransfer_def transferring_def)
qed

end

end
