(* ===== verification/Adapter_Props.thy ===== *)
theory Adapter_Props
  imports Adapter_View Claim_Results
begin

text \<open>
  The storage adapter keeps the contract of the consumer manager, call by call.
\<close>

lemma view_parts:
  assumes "a_ok q g a" "GetConsumerState (ad_store a) q g = Inr cs"
  shows "gv_pel (a_view q g a) = pel_view cs" "gv_cursor (a_view q g a) = gs_Cursor (cs_state cs)" "cs_wf cs"
  using assms by (auto simp: a_view_def a_ok_def state_of_def pel_view_def fun_eq_iff)

text \<open>A call on the log store whose operation is applied in memory and then written.\<close>

lemma created_view:
  assumes "a_ok q g a" "GetConsumerState (ad_store a) q g = Inr cs"
    and "on_created now q g n (\<lambda>io x. writeOp (io 0) op (f x)) (ad_store a) = (err, s)" "cs_wf (f cs)"
  shows "a_ok q g (a\<lparr>ad_store := s\<rparr>)"
    and "err \<noteq> None \<and> a_view q g (a\<lparr>ad_store := s\<rparr>) = a_view q g a \<or>
      a_view q g (a\<lparr>ad_store := s\<rparr>) = (a_view q g a)\<lparr>gv_pel := pel_view (f cs), gv_cursor := gs_Cursor (cs_state (f cs))\<rparr>"
proof -
  from on_created_at[OF assms(2,3)]
  have "a_ok q g (a\<lparr>ad_store := s\<rparr>) \<and> (err \<noteq> None \<and> a_view q g (a\<lparr>ad_store := s\<rparr>) = a_view q g a \<or>
      a_view q g (a\<lparr>ad_store := s\<rparr>) = (a_view q g a)\<lparr>gv_pel := pel_view (f cs), gv_cursor := gs_Cursor (cs_state (f cs))\<rparr>)"
  proof (elim disjE exE conjE)
    assume "err \<noteq> None" "GetConsumerState s q g = Inr cs"
    then show ?thesis using view_same[OF assms(1)] assms(2) by simp
  next
    fix io e cs' assume "writeOp (io 0) op (f cs) = (e, cs')" "GetConsumerState s q g = Inr cs'"
    then show ?thesis using view_store[OF assms(1), of s cs'] writeOp_view[of "io 0" op "f cs" e cs'] assms(4) by simp
  qed
  then show "a_ok q g (a\<lparr>ad_store := s\<rparr>)"
    and "err \<noteq> None \<and> a_view q g (a\<lparr>ad_store := s\<rparr>) = a_view q g a \<or>
      a_view q g (a\<lparr>ad_store := s\<rparr>) = (a_view q g a)\<lparr>gv_pel := pel_view (f cs), gv_cursor := gs_Cursor (cs_state (f cs))\<rparr>"
    by blast+
qed

lemma existing_view:
  assumes "a_ok q g a" "GetConsumerState (ad_store a) q g = Inr cs"
    and "on_existing q g (\<lambda>io x. writeOp io op (f x)) (ad_store a) = (err, s)" "cs_wf (f cs)"
  shows "a_ok q g (a\<lparr>ad_store := s\<rparr>)"
    and "a_view q g (a\<lparr>ad_store := s\<rparr>) = (a_view q g a)\<lparr>gv_pel := pel_view (f cs), gv_cursor := gs_Cursor (cs_state (f cs))\<rparr>"
proof -
  from on_existing_at[OF assms(2,3)] obtain io e cs' where
    "writeOp io op (f cs) = (e, cs')" "GetConsumerState s q g = Inr cs'" by blast
  then show "a_ok q g (a\<lparr>ad_store := s\<rparr>)"
    "a_view q g (a\<lparr>ad_store := s\<rparr>) = (a_view q g a)\<lparr>gv_pel := pel_view (f cs), gv_cursor := gs_Cursor (cs_state (f cs))\<rparr>"
    using view_store[OF assms(1), of s cs'] writeOp_view[of io op "f cs" e cs'] assms(4) by simp_all
qed

lemma max_succ: "off + 1 \<noteq> 0 \<Longrightarrow> max (c::u64) (off + 1) = (if c \<le> off then off + 1 else c)"
  using succ_lt[of off] between_succ[of off c] by (cases "off < c") (auto simp: max_def not_less)

lemma Add_law:
  assumes "a_ok q g a" "A_AddPendingEntry now q g e a = (err, a')" "pe_Offset e + 1 \<noteq> 0"
  shows "a_ok q g a' \<and> (err \<noteq> None \<and> a_view q g a' = a_view q g a \<or>
      v_claim (pe_ConsumerID e) (pe_Offset e) (a_view q g a) (a_view q g a'))"
proof -
  obtain cs where cs: "GetConsumerState (ad_store a) q g = Inr cs" "cs_wf cs" using assms(1) by (auto elim: a_okE)
  note v = view_parts[OF assms(1) cs(1)]
  let ?ts = "UnixMilli now" and ?c = "pe_ConsumerID e" and ?off = "pe_Offset e"
  define e' where "e' = pendingEntryToTypes (new_entry ?off ?c ?ts 1)"
  obtain err1 s where l: "LS_AddPending now q g (typesToPelEntry e) (ad_store a) = (err1, s)" by fastforce
  then have l': "on_created now q g 1 (\<lambda>io x. writeOp (io 0) ((plain_op OpDeliver ?off ?ts)\<lparr>op_ConsumerID := ?c\<rparr>)
      (applyDeliver ?off ?c ?ts x)) (ad_store a) = (err1, s)"
    by (simp add: LS_AddPending_def LS_Deliver_def CS_Deliver_def[abs_def] typesToPelEntry_def Let_def)
  note c = created_view[OF assms(1) cs(1) l' applyDeliver_refines(2)[OF cs(2)]]
  have "v_claim ?c ?off (a_view q g a) ((a_view q g a)\<lparr>gv_pel := pel_view (applyDeliver ?off ?c ?ts cs),
      gv_cursor := gs_Cursor (cs_state (applyDeliver ?off ?c ?ts cs))\<rparr>)"
    unfolding v_claim_def v_add_def
    by (rule exI[of _ e'])
       (simp add: apply_views[OF cs(2)] v max_succ[OF assms(3)] e'_def new_entry_def pendingEntryToTypes_def)
  then have s: "a_ok q g (a\<lparr>ad_store := s\<rparr>)" "err1 \<noteq> None \<and> a_view q g (a\<lparr>ad_store := s\<rparr>) = a_view q g a \<or>
      v_claim ?c ?off (a_view q g a) (a_view q g (a\<lparr>ad_store := s\<rparr>))"
    using c by auto
  show ?thesis
  proof (cases err1)
    case None
    then have "change_and_save q g (AddPending now ?c e) (a\<lparr>ad_store := s\<rparr>) = (err, a')"
      using assms(2) l by (simp add: A_AddPendingEntry_def)
    from view_change[OF s(1) this group_twins(1)] s(2) None show ?thesis by simp
  next
    case (Some x)
    then have "err \<noteq> None" "a' = a\<lparr>ad_store := s\<rparr>" using assms(2) l by (auto simp: A_AddPendingEntry_def)
    then show ?thesis using s by auto
  qed
qed

lemma Remove_law:
  assumes "a_ok q g a" "A_RemovePendingEntry now q g c off a = (err, a')"
  shows "a_ok q g a' \<and> (err \<noteq> None \<and> a_view q g a' = a_view q g a \<or> a_view q g a' = v_remove off (a_view q g a))"
proof -
  obtain cs where cs: "GetConsumerState (ad_store a) q g = Inr cs" "cs_wf cs" using assms(1) by (auto elim: a_okE)
  note v = view_parts[OF assms(1) cs(1)]
  obtain err1 s where l: "LS_AckPending now q g off (ad_store a) = (err1, s)" by fastforce
  then have "on_existing q g (\<lambda>io x. writeOp io (plain_op OpAck off (UnixMilli now)) (applyAck (UnixMilli now) off x)) (ad_store a) = (err1, s)"
    by (simp add: LS_AckPending_def LS_Ack_def CS_Ack_def[abs_def])
  note e = existing_view[OF assms(1) cs(1) this applyAck_refines(2)[OF cs(2)]]
  have s: "a_view q g (a\<lparr>ad_store := s\<rparr>) = v_remove off (a_view q g a)"
    unfolding e(2) by (simp add: apply_views[OF cs(2)] v_remove_def v)
  show ?thesis
  proof (cases err1)
    case None
    then have "change_and_save q g (remove_settled now c off) (a\<lparr>ad_store := s\<rparr>) = (err, a')"
      using assms(2) l by (simp add: A_RemovePendingEntry_def)
    from view_change[OF e(1) this twin_settled] s show ?thesis by simp
  qed (use assms(2) l e(1) s in \<open>auto simp: A_RemovePendingEntry_def\<close>)
qed

lemma agrees_cursor: "agrees grp v \<Longrightarrow> agrees (SetCursorPosition now pos grp) (v\<lparr>gv_cursor := pos\<rparr>)"
proof -
  have "pel_of (SetCursorPosition now pos grp) = pel_of grp" by (simp add: SetCursorPosition_def pel_of_def fun_eq_iff)
  then have "pending (SetCursorPosition now pos grp) = pending grp" "pel_inv (SetCursorPosition now pos grp) = pel_inv grp"
    by (simp_all add: pending_def pel_inv_def SetCursorPosition_def)
  then show "agrees grp v \<Longrightarrow> agrees (SetCursorPosition now pos grp) (v\<lparr>gv_cursor := pos\<rparr>)"
    by (simp add: agrees_def SetCursorPosition_def CursorView_def)
qed

lemma Cursor_law:
  assumes "a_ok q g a" "A_UpdateCursor now q g pos a = (err, a')"
  shows "a_ok q g a' \<and>
    (err \<noteq> None \<and> a_view q g a' = a_view q g a \<or> a_view q g a' = (a_view q g a)\<lparr>gv_cursor := pos\<rparr>) \<and>
    (err = None \<longrightarrow> (\<exists>grp. group_at (ad_groups a) q g = Some grp \<and>
       group_at (ad_groups a') q g = Some (SetCursorPosition now pos grp)))"
proof -
  obtain cs where cs: "GetConsumerState (ad_store a) q g = Inr cs" "cs_wf cs" using assms(1) by (auto elim: a_okE)
  note v = view_parts[OF assms(1) cs(1)]
  obtain err1 s where l: "LS_SetCursor now q g pos (ad_store a) = (err1, s)" by fastforce
  then have l': "on_created now q g 1 (\<lambda>io x. writeOp (io 0) (plain_op OpSetCursor pos (UnixMilli now))
      (applySetCursor pos (UnixMilli now) x)) (ad_store a) = (err1, s)"
    by (simp add: LS_SetCursor_def CS_SetCursor_def[abs_def] Let_def)
  note c = created_view[OF assms(1) cs(1) l' counters_refine(5)[OF cs(2)]]
  have "(a_view q g a)\<lparr>gv_pel := pel_view (applySetCursor pos (UnixMilli now) cs),
      gv_cursor := gs_Cursor (cs_state (applySetCursor pos (UnixMilli now) cs))\<rparr> = (a_view q g a)\<lparr>gv_cursor := pos\<rparr>"
    by (simp add: apply_views[OF cs(2)] v(1,2)[symmetric])
  then have s: "a_ok q g (a\<lparr>ad_store := s\<rparr>)" "err1 \<noteq> None \<and> a_view q g (a\<lparr>ad_store := s\<rparr>) = a_view q g a \<or>
      a_view q g (a\<lparr>ad_store := s\<rparr>) = (a_view q g a)\<lparr>gv_cursor := pos\<rparr>"
    using c by auto
  show ?thesis
  proof (cases err1)
    case None
    then have ch: "change_and_save q g (SetCursorPosition now pos) (a\<lparr>ad_store := s\<rparr>) = (err, a')"
      using assms(2) l by (simp add: A_UpdateCursor_def)
    have "ids_ok (ad_groups (a\<lparr>ad_store := s\<rparr>))" using s(1) by (simp add: a_ok_def)
    note at = change_and_save_at(2)[OF ch this twin_kin[OF group_twins(5)]]
    obtain grp where "group_at (ad_groups a) q g = Some grp" using assms(1) by (auto simp: a_ok_def)
    then have "\<exists>grp. group_at (ad_groups a) q g = Some grp \<and> group_at (ad_groups a') q g = Some (SetCursorPosition now pos grp)"
      using at by simp
    with view_change[OF s(1) ch group_twins(5)] s(2) None show ?thesis by simp
  next
    case (Some x)
    then have "err \<noteq> None" "a' = a\<lparr>ad_store := s\<rparr>" using assms(2) l by (auto simp: A_UpdateCursor_def)
    then show ?thesis using s by auto
  qed
qed


lemma Committed_law:
  assumes "a_ok q g a" "A_UpdateCommitted now q g pos a = (err, a')"
  shows "a_ok q g a' \<and> a_view q g a' = (a_view q g a)\<lparr>gv_committed := pos\<rparr>"
proof -
  have ch: "change_and_save q g (AdvanceCommitted now pos) a = (err, a')" using assms(2) by (simp add: A_UpdateCommitted_def)
  from assms(1) show ?thesis
  proof (cases rule: a_okE)
    case (1 grp cs)
    note c = change_and_save_at[OF ch 1(1) group_twins(10)]
    have "qc_Committed (CursorView (AdvanceCommitted now pos grp)) = pos"
      by (simp add: AdvanceCommitted_def Let_def CursorView_def)
    then show ?thesis
      using 1 c group_twins(10)[of grp now pos] by (auto simp: a_ok_def a_view_def state_of_def touches_def kin_def)
  qed
qed

lemma uint_Suc16: "uint (x + 1 :: u16) = (uint x + 1) mod 65536"
  by (simp add: uint_word_ariths)

lemma Transfer_law:
  assumes "a_ok q g a" "A_TransferPendingEntry now q g off src dst a = (err, a')"
  shows "a_ok q g a' \<and> ((err \<noteq> None \<or> gv_pel (a_view q g a) off = None) \<and> a_view q g a' = a_view q g a \<or>
      v_transfer now off src dst (a_view q g a) (a_view q g a'))"
proof -
  from Get_law[OF assms(1), of now] obtain grp a1 where get: "A_GetConsumerGroup now q g a = (Inr grp, a1)" "a_ok q g a1"
      "a_view q g a1 = a_view q g a" "agrees grp (a_view q g a)" by blast
  show ?thesis
  proof (cases "snd (FindPending grp off) = src")
    case True
    obtain cs where cs: "GetConsumerState (ad_store a1) q g = Inr cs" "cs_wf cs" using get(2) by (auto elim: a_okE)
    note v = view_parts[OF get(2) cs(1), unfolded get(3)]
    let ?ts = "UnixMilli now"
    obtain err1 s where l: "LS_ClaimPending now q g off dst (ad_store a1) = (err1, s)" by fastforce
    then have "on_existing q g (\<lambda>io x. writeOp io ((plain_op OpClaim off ?ts)\<lparr>op_ConsumerID := dst\<rparr>) (applyClaim off dst ?ts x)) (ad_store a1) = (err1, s)"
      by (simp add: LS_ClaimPending_def LS_Claim_def CS_Claim_def[abs_def] Let_def)
    note e = existing_view[OF get(2) cs(1) this applyClaim_refines(2)[OF cs(2)], unfolded get(3)]
    have view: "a_view q g (a1\<lparr>ad_store := s\<rparr>) =
        (a_view q g a)\<lparr>gv_pel := (gv_pel (a_view q g a))(off := map_option (pendingEntryToTypes \<circ> claimed dst ?ts) (entry_at cs off))\<rparr>"
      unfolding e(2) by (simp add: apply_views[OF cs(2)] v)
    have s: "gv_pel (a_view q g a) off = None \<and> a_view q g (a1\<lparr>ad_store := s\<rparr>) = a_view q g a \<or> v_transfer now off src dst (a_view q g a) (a_view q g (a1\<lparr>ad_store := s\<rparr>))"
    proof (cases "entry_at cs off")
      case None
      then have none: "gv_pel (a_view q g a) off = None" by (simp add: v pel_view_def)
      then have "(gv_pel (a_view q g a))(off := None) = gv_pel (a_view q g a)" by (rule fun_upd_idem)
      then show ?thesis by (simp add: view None none)
    next
      case (Some c)
      let ?e = "pendingEntryToTypes c"
      have p: "gv_pel (a_view q g a) off = Some ?e" using Some by (simp add: v pel_view_def)
      then have "?e \<in> pending grp" "pe_Offset ?e = off" "pel_inv grp" using get(4) by (auto simp: agrees_def)
      then have "pe_ConsumerID ?e = src" using FindPending_spec(1)[of grp ?e] True by simp
      moreover have "pe_DeliveryCount (pendingEntryToTypes (claimed dst ?ts c)) = (pe_DeliveryCount ?e + 1) mod 65536"
        by (simp add: pendingEntryToTypes_def claimed_def uint_Suc16)
      moreover have "in_milli now (pe_ClaimedAt (pendingEntryToTypes (claimed dst ?ts c)))"
        by (simp add: pendingEntryToTypes_def claimed_def in_milli_UnixMilli)
      ultimately have "v_transfer now off src dst (a_view q g a) (a_view q g (a1\<lparr>ad_store := s\<rparr>))"
        unfolding v_transfer_def using p \<open>pe_Offset ?e = off\<close>
        by (intro exI[of _ ?e] exI[of _ "pendingEntryToTypes (claimed dst ?ts c)"]) (simp add: view Some claimed_def)
      then show ?thesis by blast
    qed
    show ?thesis
    proof (cases err1)
      case None
      then have "change_and_save q g (\<lambda>grp. snd (TransferPending now off src dst grp)) (a1\<lparr>ad_store := s\<rparr>) = (err, a')"
        using assms(2) l get(1) True by (simp add: A_TransferPendingEntry_def)
      from view_change[OF e(1) this group_twins(3)] s show ?thesis by auto
    qed (use assms(2) l get(1) True e(1) s in \<open>auto simp: A_TransferPendingEntry_def\<close>)
  qed (use assms(2) get in \<open>auto simp: A_TransferPendingEntry_def\<close>)
qed


lemma Requeue_law:
  assumes "a_ok q g a" "A_RequeuePendingEntry now q g c off t a = (err, a')"
    and "group_at (ad_groups a) q g = Some grp"
  shows "a_ok q g a' \<and> ((err \<noteq> None \<or> \<not> agrees grp (a_view q g a)) \<and> a_view q g a' = a_view q g a \<or>
      v_requeue t off (a_view q g a) (a_view q g a'))"
proof -
  obtain cs where cs: "GetConsumerState (ad_store a) q g = Inr cs" "cs_wf cs" using assms(1) by (auto elim: a_okE)
  note v = view_parts[OF assms(1) cs(1)]
  let ?ts = "UnixMilli t"
  obtain err1 s where l: "LS_ReleaseAt q g off t (ad_store a) = (err1, s)" by fastforce
  then have "on_existing q g (\<lambda>io x. writeOp io (plain_op OpRelease off ?ts) (applyRelease off ?ts x)) (ad_store a) = (err1, s)"
    by (simp add: LS_ReleaseAt_def CS_ReleaseAt_def[abs_def] Let_def)
  note e = existing_view[OF assms(1) cs(1) this applyRelease_refines(2)[OF cs(2)]]
  have view: "a_view q g (a\<lparr>ad_store := s\<rparr>) =
      (a_view q g a)\<lparr>gv_pel := (gv_pel (a_view q g a))(off := map_option (pendingEntryToTypes \<circ> released ?ts) (entry_at cs off))\<rparr>"
    unfolding e(2) by (simp add: apply_views[OF cs(2)] v)
  have s: "\<not> agrees grp (a_view q g a) \<and> a_view q g (a\<lparr>ad_store := s\<rparr>) = a_view q g a \<or>
      v_requeue t off (a_view q g a) (a_view q g (a\<lparr>ad_store := s\<rparr>))" if "snd (FindPending grp off) \<noteq> []"
  proof (cases "entry_at cs off")
    case None
    then have none: "gv_pel (a_view q g a) off = None" by (simp add: v pel_view_def)
    have "\<not> agrees grp (a_view q g a)"
    proof
      assume ag: "agrees grp (a_view q g a)"
      then have "off \<notin> pe_Offset ` pending grp" using agrees_dom[OF ag] none by auto
      then show False using FindPending_spec(2) ag that by (auto simp: agrees_def)
    qed
    moreover have "(gv_pel (a_view q g a))(off := None) = gv_pel (a_view q g a)" using none by (rule fun_upd_idem)
    ultimately show ?thesis by (simp add: view None)
  next
    case (Some c)
    have "ce_Offset c = off" using entry_offset[OF cs(2) Some] .
    then have "v_requeue t off (a_view q g a) (a_view q g (a\<lparr>ad_store := s\<rparr>))"
      unfolding v_requeue_def using Some
      by (intro exI[of _ "pendingEntryToTypes c"] exI[of _ "pendingEntryToTypes (released ?ts c)"])
         (simp add: view v pel_view_def pendingEntryToTypes_def released_def in_milli_UnixMilli)
    then show ?thesis by blast
  qed
  obtain b grp' where r: "RequeuePending now off c t grp = (b, grp')" by fastforce
  have twin: "twin grp grp'" using group_twins(4)[of grp now off c t] r by simp
  have ids: "cg_QueueName grp = q" "cg_ID grp = g" using assms(1,3) by (auto simp: a_ok_def ids_ok_def)
  define a2 where "a2 = a\<lparr>ad_store := s, ad_groups := snd (Save grp' (ad_groups a))\<rparr>"
  have "a_ok q g a2 \<and> a_view q g a2 = a_view q g (a\<lparr>ad_store := s\<rparr>)"
    using e(1) twin ids assms(3)
    by (auto simp: a2_def a_ok_def a_view_def state_of_def Save_at ids_Save twin_def kin_def)
  moreover have "(err \<noteq> None \<and> a' = a) \<or> snd (FindPending grp off) \<noteq> [] \<and> (err \<noteq> None \<and> a' = a\<lparr>ad_store := s\<rparr> \<or> a' = a2)"
    using assms(2,3) l r
    by (auto simp: A_RequeuePendingEntry_def Group_Get_cases Let_def a2_def case_prod_beta split: if_splits option.splits bool.splits)
  ultimately show ?thesis using assms(1) e(1) s by auto
qed

lemma Member_law:
  assumes "a_ok q g a" "on_group q g f a = (err, a')" "\<And>grp. twin grp (f grp)"
  shows "a_ok q g a' \<and> a_view q g a' = a_view q g a"
  using assms(1)
proof (cases rule: a_okE)
  case (1 grp cs)
  have "a' = a\<lparr>ad_groups := snd (Save (f grp) (ad_groups a))\<rparr>"
    using assms(2) 1(2) by (auto simp: on_group_def Group_Get_cases split: prod.splits)
  then show ?thesis
    using 1 assms(3)[of grp] by (auto simp: a_ok_def a_view_def state_of_def Save_at ids_Save twin_def kin_def)
qed

lemma Update_law:
  assumes "a_ok (cg_QueueName grp) (cg_ID grp) a" "A_UpdateConsumerGroup now grp a = (err, a')"
    and "agrees grp (a_view (cg_QueueName grp) (cg_ID grp) a)"
  shows "a_ok (cg_QueueName grp) (cg_ID grp) a' \<and>
    a_view (cg_QueueName grp) (cg_ID grp) a' = a_view (cg_QueueName grp) (cg_ID grp) a"
  using assms(1)
proof (cases rule: a_okE)
  case (1 old cs)
  have "a' = a\<lparr>ad_groups := snd (Save (touch now grp) (ad_groups a))\<rparr>"
    using assms(2) by (auto simp: A_UpdateConsumerGroup_def split: prod.splits)
  then show ?thesis
    using 1 assms(3) by (auto simp: a_ok_def a_view_def state_of_def Save_at ids_Save touch_def agrees_def CursorView_def)
qed

lemma Get_ids:
  assumes "ids_ok (ad_groups a)" "A_GetConsumerGroup now q g a = (Inr grp, a')"
  shows "cg_QueueName grp = q \<and> cg_ID grp = g"
proof -
  obtain grp0 where g0: "group_at (ad_groups a) q g = Some grp0"
    using assms(2) by (auto simp: A_GetConsumerGroup_def Group_Get_cases split: option.splits)
  then have "cg_QueueName grp0 = q" "cg_ID grp0 = g" using assms(1) by (auto simp: ids_ok_def)
  moreover have "twin grp0 grp"
    using assms(2) g0 twin_sync by (auto simp: A_GetConsumerGroup_def Group_Get_cases Let_def split: if_splits)
  ultimately show ?thesis by (simp add: twin_def kin_def)
qed

interpretation ad: group_store adapter_ops a_ok a_view
proof (unfold_locales, goal_cases)
  case (1 q g s now)
  then show ?case using Get_law[OF 1, of now] by (fastforce simp: adapter_ops_def)
next
  case (2 q' g' s now q g grp s')
  then show ?case using Get_ids[of s now q g grp s'] by (simp add: adapter_ops_def a_ok_def)
next
  case 3 then show ?case using Add_law by (simp add: adapter_ops_def)
next
  case 4 then show ?case using Remove_law by (simp add: adapter_ops_def)
next
  case 5 then show ?case using Transfer_law by (simp add: adapter_ops_def)
next
  case (6 q g s now pos err s')
  then have law: "A_UpdateCursor now q g pos s = (err, s')" by (simp add: adapter_ops_def)
  show ?case
    using Cursor_law[OF 6(1) law] agrees_cursor[of _ "a_view q g s" now pos]
    by (auto simp: adapter_ops_def SetCursorPosition_def CursorView_def)
next
  case 7 then show ?case using Committed_law by (simp add: adapter_ops_def)
next
  case (8 q g s f now c off t err s')
  obtain grp where "group_at (ad_groups s) q g = Some grp" using 8(1) by (auto simp: a_ok_def)
  with 8 show ?case using Requeue_law[of q g s now c off t err s' grp] by (simp add: adapter_ops_def)
next
  case (9 q g s now info err s')
  then have "on_group q g (SetConsumer now (ci_ID info) info) s = (err, s')" by (simp add: adapter_ops_def A_RegisterConsumer_def)
  from Member_law[OF 9(1) this group_twins(6)] show ?case .
next
  case (10 q g s now c err s')
  then have "on_group q g (DeleteConsumer now c) s = (err, s')" by (simp add: adapter_ops_def A_UnregisterConsumer_def)
  from Member_law[OF 10(1) this group_twins(7)] show ?case .
next
  case (11 grp s now err s')
  from 11(2) have "A_UpdateConsumerGroup now grp s = (err, s')" by (simp add: adapter_ops_def)
  from Update_law[OF 11(1) this 11(3)] show ?case .
qed (auto simp: adapter_ops_def intro!: touches_others Get_touches Add_touches Remove_touches Transfer_touches Cursor_touches
    Committed_touches Member_touches Requeue_touches Update_touches Create_touches)

end
