(* ===== verification/Manager_System.thy ===== *)
theory Manager_System
  imports Adapter_Props
begin

text \<open>
  The consumer manager as a system of interleaved calls. Every call that holds the lock of a group from start
  to end is one step; a dead-letter transfer is two, with other calls and the write to the destination in
  between, and is kept in the list of running jobs meanwhile. Producers, truncation and the destination
  writes change the queues at any time.
\<close>

section \<open>Steps\<close>

datatype job =
  Rejecting transfer_key string int
| Sweeping transfer_key pending_entry

fun job_key :: "job \<Rightarrow> transfer_key" where
  "job_key (Rejecting key _ _) = key"
| "job_key (Sweeping key _) = key"

text \<open>The entry a job was started for.\<close>

fun job_entry :: "job \<Rightarrow> pending_entry option \<Rightarrow> bool" where
  "job_entry (Rejecting _ c n) entry \<longleftrightarrow> (\<exists>e. entry = Some e \<and> pe_ConsumerID e = c \<and> pe_DeliveryCount e = n)"
| "job_entry (Sweeping _ e) entry \<longleftrightarrow> entry = Some e"

text \<open>\<open>idle\<close> says whether claims of idle entries, which do not look at the reservations, take part.\<close>

inductive sys_step :: "bool \<Rightarrow> ('q, 'g) manager \<times> job list \<Rightarrow> ('q, 'g) manager \<times> job list \<Rightarrow> bool" for idle where
  claim: "Manager_Claim now q g c flt m = (r, m') \<Longrightarrow> sys_step idle (m, js) (m', js)"
| claim_batch: "Manager_ClaimBatch now q g c flt limit m = (rb, m') \<Longrightarrow> sys_step idle (m, js) (m', js)"
| claim_stream: "ClaimManualStream now q g c flt m = (r, m') \<Longrightarrow> sys_step idle (m, js) (m', js)"
| claim_idle: "idle \<Longrightarrow> ClaimPendingBatch now q g c minIdle limit m = (ri, m') \<Longrightarrow> sys_step idle (m, js) (m', js)"
| ack: "Manager_Ack now q g c off m = (err, m') \<Longrightarrow> sys_step idle (m, js) (m', js)"
| nack: "NackWithDelay now q g c off delay m = (err, m') \<Longrightarrow> sys_step idle (m, js) (m', js)"
| join: "Manager_RegisterConsumer now q g c client proxy m = (err, m') \<Longrightarrow> sys_step idle (m, js) (m', js)"
| leave: "Manager_UnregisterConsumer now q g c m = (err, m') \<Longrightarrow> sys_step idle (m, js) (m', js)"
| open_group: "getOrCreateGroup now q g pattern mode auto conf m = (rg, m') \<Longrightarrow> mode \<noteq> GroupModeStream \<Longrightarrow>
    sys_step idle (m, js) (m', js)"
| heartbeat: "Manager_UpdateHeartbeat now q g c m = (err, m') \<Longrightarrow> sys_step idle (m, js) (m', js)"
| cleanup: "CleanupStaleConsumers now q g timeout m = (rc, m') \<Longrightarrow> sys_step idle (m, js) (m', js)"
| look_up: "get_group now q g m = (rl, m') \<Longrightarrow> sys_step idle (m, js) (m', js)"
| queues: "sys_step idle (m, js) (m\<lparr>m_queues := qs\<rparr>, js)"
| reject_fails: "prepareTransfer now key c m = (Inl e, m') \<Longrightarrow> sys_step idle (m, js) (m', js)"
| reject_starts: "prepareTransfer now key c m = (Inr (msg, n), m') \<Longrightarrow> sys_step idle (m, js) (m', Rejecting key c n # js)"
| reject_ends: "Rejecting key c n \<in> set js \<Longrightarrow> finishTransfer now key c terr m = (err, m') \<Longrightarrow>
    sys_step idle (m, js) (m', remove1 (Rejecting key c n) js)"
| sweep_skips: "preparePoisonTransfer now key m = (None, m') \<Longrightarrow> sys_step idle (m, js) (m', js)"
| sweep_starts: "preparePoisonTransfer now key m = (Some (e, msg), m') \<Longrightarrow> sys_step idle (m, js) (m', Sweeping key e # js)"
| sweep_ends: "Sweeping key e \<in> set js \<Longrightarrow>
    sys_step idle (m, js) (finishPoisonTransfer now key e terr m, remove1 (Sweeping key e) js)"

inductive_cases sys_stepE: "sys_step idle (m, js) (m', js')"

text \<open>\<^verbatim>\<open>Reject\<close> and one entry of \<^verbatim>\<open>SweepPoison\<close> are runs of these steps.\<close>

lemma call_dlq_queues:
  assumes "call_dlq q g msg off n reason m = (terr, m')"
  shows "\<exists>qs. m' = m\<lparr>m_queues := qs\<rparr>"
proof (cases "mc_OnDLQ (m_config m)")
  case None
  then have "m' = m\<lparr>m_queues := m_queues m\<rparr>" using assms by (simp add: call_dlq_def)
  then show ?thesis by blast
qed (use assms in \<open>auto simp: call_dlq_def split: prod.splits\<close>)

lemma Reject_run:
  assumes "Manager_Reject now q g c off reason m = (err, m')"
  shows "(sys_step idle)\<^sup>*\<^sup>* (m, js) (m', js)"
proof (cases "prepareTransfer now (q, g, off) c m")
  case (Pair r m1)
  show ?thesis
  proof (cases r)
    case (Inl e)
    then have "m' = m1" using assms Pair by (simp add: Manager_Reject_def)
    then show ?thesis using reject_fails[of now "(q, g, off)" c m e m1 idle js] Pair Inl by (simp add: r_into_rtranclp)
  next
    case (Inr p)
    obtain msg n where p: "p = (msg, n)" by fastforce
    obtain terr m2 where d: "call_dlq q g msg off n reason m1 = (terr, m2)" by fastforce
    obtain qs where m2: "m2 = m1\<lparr>m_queues := qs\<rparr>"
      using call_dlq_queues[OF d] by blast
    let ?j = "Rejecting (q, g, off) c n"
    have f: "finishTransfer now (q, g, off) c terr m2 = (err, m')"
      using assms Pair Inr p d by (simp add: Manager_Reject_def)
    have "sys_step idle (m, js) (m1, ?j # js)" using reject_starts Pair Inr p by blast
    moreover have "sys_step idle (m1, ?j # js) (m2, ?j # js)" unfolding m2 by (rule queues)
    moreover have "sys_step idle (m2, ?j # js) (m', js)" using reject_ends[OF _ f, of n "?j # js"] by simp
    ultimately show ?thesis by (meson r_into_rtranclp rtranclp_trans)
  qed
qed

lemma sweepPoisonEntry_run: "(sys_step idle)\<^sup>*\<^sup>* (m, js) (sweepPoisonEntry now key m, js)"
proof (cases "preparePoisonTransfer now key m")
  case (Pair r m1)
  show ?thesis
  proof (cases r)
    case None
    then show ?thesis using sweep_skips[of now key m m1 idle js] Pair by (simp add: sweepPoisonEntry_def r_into_rtranclp)
  next
    case (Some p)
    obtain e msg where p: "p = (e, msg)" by fastforce
    obtain q g off where key: "key = (q, g, off)" by (cases key)
    obtain terr m2 where d: "call_dlq q g msg off (pe_DeliveryCount e) sweep_reason m1 = (terr, m2)" by fastforce
    obtain qs where m2: "m2 = m1\<lparr>m_queues := qs\<rparr>"
      using call_dlq_queues[OF d] by blast
    let ?j = "Sweeping key e"
    have "sys_step idle (m, js) (m1, ?j # js)" using sweep_starts Pair Some p by blast
    moreover have "sys_step idle (m1, ?j # js) (m2, ?j # js)" unfolding m2 by (rule queues)
    moreover have "sys_step idle (m2, ?j # js) (sweepPoisonEntry now key m, js)"
      using sweep_ends[of key e "?j # js" idle m2 now terr] Pair Some p key d by (simp add: sweepPoisonEntry_def)
    ultimately show ?thesis by (meson r_into_rtranclp rtranclp_trans)
  qed
qed

lemma SweepPoison_run: "(sys_step idle)\<^sup>*\<^sup>* (m, js) (SweepPoison now m, js)"
proof -
  have "(sys_step idle)\<^sup>*\<^sup>* (m, js) (fold (sweepPoisonEntry now) keys m, js)" for keys
    by (induction keys arbitrary: m) (auto intro: rtranclp_trans sweepPoisonEntry_run)
  then show ?thesis by (simp add: SweepPoison_def)
qed


section \<open>Every step is allowed\<close>

text \<open>The jobs and the reservations are the same, and no entry has two jobs.\<close>

definition jobs_ok :: "('q, 'g) manager \<Rightarrow> job list \<Rightarrow> bool" where
  "jobs_ok m js \<longleftrightarrow> distinct (map job_key js) \<and> set (m_transfers m) = job_key ` set js"

text \<open>
  What a step does to a group in good order: abstract steps that leave the entries of the jobs running before
  and after the step alone, unless claims of idle entries take part. A job that starts has found its entry.
\<close>

definition stepped ::
  "(string \<Rightarrow> string \<Rightarrow> 'g \<Rightarrow> bool) \<Rightarrow> (string \<Rightarrow> string \<Rightarrow> 'g \<Rightarrow> gview) \<Rightarrow> string \<Rightarrow> string \<Rightarrow> bool \<Rightarrow>
   ('q, 'g) manager \<times> job list \<Rightarrow> ('q, 'g) manager \<times> job list \<Rightarrow> bool" where
  "stepped ok view q g idle = (\<lambda>(m, js) (m', js').
     m_groupOps m' = m_groupOps m \<and> good ok view q g (m_groups m') \<and> jobs_ok m' js' \<and>
     (\<exists>R T. (vstep {off. (q, g, off) \<in> R} {off. (q, g, off) \<in> T})\<^sup>*\<^sup>* (view q g (m_groups m)) (view q g (m_groups m')) \<and>
            (\<not> idle \<longrightarrow> (R \<union> T) \<inter> job_key ` (set js \<inter> set js') = {})) \<and>
     (\<forall>j \<in> set js' - set js. \<forall>off. job_key j = (q, g, off) \<longrightarrow> job_entry j (gv_pel (view q g (m_groups m')) off)))"

lemma moved_stepped:
  assumes "moved ok view q g R T m m'" "jobs_ok m js" "\<not> idle \<Longrightarrow> (R \<union> T) \<inter> set (m_transfers m) = {}"
  shows "stepped ok view q g idle (m, js) (m', js)"
proof -
  have "(R \<union> T) \<inter> job_key ` (set js \<inter> set js) = {}" if "\<not> idle" using assms(2,3) that by (simp add: jobs_ok_def)
  then show ?thesis using assms(1,2) by (auto simp: stepped_def moved_def mframe_def jobs_ok_def)
qed

text \<open>The first half of a transfer, as the two preparations describe it.\<close>

lemma prepared_stepped:
  assumes "moved ok view q g {} {} m (m'\<lparr>m_transfers := m_transfers m\<rparr>)" "jobs_ok m js"
    and "m_transfers m' = m_transfers m \<and> js' = js \<or>
      m_transfers m' = job_key j # m_transfers m \<and> job_key j \<notin> set (m_transfers m) \<and> js' = j # js \<and>
      (\<forall>off. job_key j = (q, g, off) \<longrightarrow> job_entry j (gv_pel (view q g (m_groups m')) off))"
  shows "stepped ok view q g idle (m, js) (m', js')"
proof -
  have "jobs_ok m' js'" using assms(2,3) by (auto simp: jobs_ok_def)
  moreover have "(vstep {off. (q, g, off) \<in> {}} {off. (q, g, off) \<in> {}})\<^sup>*\<^sup>* (view q g (m_groups m)) (view q g (m_groups m'))"
    "m_groupOps m' = m_groupOps m" "good ok view q g (m_groups m')"
    using assms(1) by (simp_all add: moved_def mframe_def)
  moreover have "\<forall>j' \<in> set js' - set js. \<forall>off. job_key j' = (q, g, off) \<longrightarrow> job_entry j' (gv_pel (view q g (m_groups m')) off)"
    using assms(3) by auto
  ultimately show ?thesis unfolding stepped_def by (blast intro: exI[of _ "{}"])
qed

text \<open>The second half.\<close>

lemma finished_stepped:
  assumes "moved ok view q g (if terr = None then {job_key j} else {}) {} (endTransfer (job_key j) m) m'"
    and "jobs_ok m js" "j \<in> set js"
  shows "stepped ok view q g idle (m, js) (m', remove1 j js)"
proof -
  have d: "distinct js" "distinct (map job_key js)" using assms(2) by (auto simp: jobs_ok_def distinct_map)
  have js: "set (remove1 j js) = set js - {j}" using d(1) by simp
  have key: "job_key ` (set js - {j}) = job_key ` set js - {job_key j}"
    using d(2) assms(3) by (auto simp: distinct_map inj_on_def)
  have "set (m_transfers m') = job_key ` set js - {job_key j}"
    using assms(1,2) by (simp add: moved_def mframe_def endTransfer_def jobs_ok_def)
  moreover have "distinct (map job_key (remove1 j js))"
    using d by (metis distinct_map distinct_remove1 inj_on_subset set_remove1_subset)
  ultimately have "jobs_ok m' (remove1 j js)" by (simp add: jobs_ok_def js key)
  moreover have "job_key j \<notin> job_key ` (set js \<inter> set (remove1 j js))" unfolding js using key by blast
  then have "\<not> idle \<longrightarrow> ((if terr = None then {job_key j} else {}) \<union> {}) \<inter> job_key ` (set js \<inter> set (remove1 j js)) = {}"
    by auto
  moreover have "m_groupOps m' = m_groupOps m" "good ok view q g (m_groups m')"
    "(vstep {off. (q, g, off) \<in> (if terr = None then {job_key j} else {})} {off. (q, g, off) \<in> {}})\<^sup>*\<^sup>*
       (view q g (m_groups m)) (view q g (m_groups m'))"
    using assms(1) by (simp_all add: moved_def mframe_def endTransfer_def)
  moreover have "set (remove1 j js) - set js = {}" by (simp add: js)
  ultimately show ?thesis unfolding stepped_def by blast
qed

text \<open>The jobs on a group still have the entries they were started for.\<close>

definition entries_held ::
  "(string \<Rightarrow> string \<Rightarrow> 'g \<Rightarrow> gview) \<Rightarrow> string \<Rightarrow> string \<Rightarrow> job list \<Rightarrow> ('q, 'g) manager \<Rightarrow> bool" where
  "entries_held view q g js m \<longleftrightarrow>
     (\<forall>j \<in> set js. \<forall>off. job_key j = (q, g, off) \<longrightarrow> job_entry j (gv_pel (view q g (m_groups m)) off))"

lemma job_entry_pending: "job_entry j x \<Longrightarrow> x \<noteq> None"
  by (cases j) auto

context group_store
begin

lemma step_stepped:
  assumes "sys_step idle (m, js) (m', js')" "m_groupOps m = G" "good ok view q g (m_groups m)" "jobs_ok m js"
  shows "stepped ok view q g idle (m, js) (m', js')"
proof -
  note mv = moved_stepped[OF _ assms(4)]
  have free: "(free_spoiled now m \<union> - set (m_transfers m)) \<inter> set (m_transfers m) = {}" for now
    by (auto simp: free_spoiled_def)
  from assms(1) show ?thesis
  proof (elim sys_stepE, goal_cases)
    case (1 now q' g' c flt r)
    show ?thesis unfolding 1(1) by (rule mv[OF Claim_moved[OF 1(2) assms(2,3)]]) (rule free)
  next
    case (2 now q' g' c flt limit rb)
    show ?thesis unfolding 2(1) by (rule mv[OF ClaimBatch_moved[OF 2(2) assms(2,3)]]) (rule free)
  next
    case (3 now q' g' c flt r)
    show ?thesis unfolding 3(1) by (rule mv[OF ClaimManualStream_moved[OF 3(2) assms(2,3)]]) (rule free)
  next
    case (4 now q' g' c minIdle limit ri)
    show ?thesis unfolding 4(1)
      by (rule mv[OF ClaimPendingBatch_moved[OF 4(3) assms(2,3)]]) (use 4(2) in simp)
  next
    case (5 now q' g' c off err)
    show ?thesis unfolding 5(1) by (rule mv[OF Ack_moved[OF 5(2) assms(2,3)]]) auto
  next
    case (6 now q' g' c off delay err)
    show ?thesis unfolding 6(1) by (rule mv[OF Nack_moved[OF 6(2) assms(2,3)]]) auto
  next
    case (7 now q' g' c client proxy err)
    show ?thesis unfolding 7(1)
      by (rule mv[OF member_moved[OF disjI1 assms(2,3), OF 7(2)[unfolded Manager_RegisterConsumer_def], where R = "{}" and T = "{}"]]) simp
  next
    case (8 now q' g' c err)
    show ?thesis unfolding 8(1)
      by (rule mv[OF member_moved[OF disjI2 assms(2,3), OF 8(2)[unfolded Manager_UnregisterConsumer_def], where R = "{}" and T = "{}"]]) simp
  next
    case (9 now q' g' pattern mode auto conf rg)
    show ?thesis unfolding 9(1)
      by (rule mv[OF getOrCreateGroup_moved[OF 9(2) assms(2,3) 9(3), where R = "{}" and T = "{}"]]) simp
  next
    case (10 now q' g' c err)
    show ?thesis unfolding 10(1)
      by (rule mv[OF UpdateHeartbeat_moved[OF 10(2) assms(2,3), where R = "{}" and T = "{}"]]) simp
  next
    case (11 now q' g' timeout rc)
    show ?thesis unfolding 11(1)
      by (rule mv[OF CleanupStaleConsumers_moved[OF 11(2) assms(2,3), where R = "{}" and T = "{}"]]) simp
  next
    case (12 now q' g' rl)
    show ?thesis unfolding 12(1) by (rule mv[OF get_moved(1)[OF 12(2) assms(2,3), where R = "{}" and T = "{}"]]) simp
  next
    case (13 qs)
    then show ?thesis using assms by (auto simp: stepped_def jobs_ok_def intro!: exI[of _ "{}"])
  next
    case (14 now key c e)
    obtain q' g' off where key: "key = (q', g', off)" by (cases key)
    show ?thesis
      by (rule prepared_stepped[OF _ assms(4)])
         (use prepareTransfer_moved[OF 14(2)[unfolded key] assms(2,3), where R = "{}" and T = "{}"] 14(1) in auto)
  next
    case (15 now key c msg n)
    obtain q' g' off where key: "key = (q', g', off)" by (cases key)
    show ?thesis
      by (rule prepared_stepped[OF _ assms(4), where j = "Rejecting key c n"])
         (use prepareTransfer_moved[OF 15(2)[unfolded key] assms(2,3), where R = "{}" and T = "{}"] 15(1) key in auto)
  next
    case (16 key c n now terr err)
    obtain q' g' off where key: "key = (q', g', off)" by (cases key)
    show ?thesis unfolding 16(1)
      by (rule finished_stepped[OF _ assms(4) 16(2), where terr = terr])
         (use finishTransfer_moved[OF 16(3)[unfolded key] assms(2,3)] key in \<open>auto split: if_splits\<close>)
  next
    case (17 now key)
    obtain q' g' off where key: "key = (q', g', off)" by (cases key)
    show ?thesis
      by (rule prepared_stepped[OF _ assms(4)])
         (use preparePoison_moved[OF 17(2)[unfolded key] assms(2,3), where R = "{}" and T = "{}"] 17(1) in auto)
  next
    case (18 now key e msg)
    obtain q' g' off where key: "key = (q', g', off)" by (cases key)
    show ?thesis
      by (rule prepared_stepped[OF _ assms(4), where j = "Sweeping key e"])
         (use preparePoison_moved[OF 18(2)[unfolded key] assms(2,3), where R = "{}" and T = "{}"] 18(1) key in auto)
  next
    case (19 key e now terr)
    obtain q' g' off where key: "key = (q', g', off)" by (cases key)
    show ?thesis unfolding 19(2,3)
      by (rule finished_stepped[OF _ assms(4) 19(1), where terr = terr])
         (use finishPoison_moved[OF assms(2,3), of terr q' g' off now e] key in \<open>auto split: if_splits\<close>)
  qed
qed

lemma stepped_held:
  assumes "stepped ok view q g idle (m, js) (m', js')" "good ok view q g (m_groups m)" "\<not> idle" "entries_held view q g js m"
  shows "entries_held view q g js' m'"
  unfolding entries_held_def
proof (intro ballI allI impI)
  fix j off assume j: "j \<in> set js'" "job_key j = (q, g, off)"
  let ?v = "view q g (m_groups m)" and ?v' = "view q g (m_groups m')"
  show "job_entry j (gv_pel ?v' off)"
  proof (cases "j \<in> set js")
    case True
    obtain R T where st: "(vstep {off. (q, g, off) \<in> R} {off. (q, g, off) \<in> T})\<^sup>*\<^sup>* ?v ?v'"
      and "(R \<union> T) \<inter> job_key ` (set js \<inter> set js') = {}"
      using assms(1,3) by (auto simp: stepped_def)
    moreover have "job_key j \<in> job_key ` (set js \<inter> set js')" using True j(1) by blast
    ultimately have "off \<notin> {off. (q, g, off) \<in> R}" "off \<notin> {off. (q, g, off) \<in> T}" using j(2) by auto
    moreover have held: "job_entry j (gv_pel ?v off)" using assms(4) True j(2) by (simp add: entries_held_def)
    moreover have "off < gv_cursor ?v"
      using job_entry_pending[OF held] assms(2) by (simp add: good_def safe_def)
    ultimately show ?thesis using vsteps_keeps[OF st] by simp
  qed (use assms(1) j in \<open>auto simp: stepped_def\<close>)
qed

lemma run_stepped:
  assumes "(sys_step idle)\<^sup>*\<^sup>* (m, js) (m', js')" "m_groupOps m = G" "good ok view q g (m_groups m)" "jobs_ok m js"
    and "\<not> idle \<Longrightarrow> entries_held view q g js m"
  shows "good ok view q g (m_groups m')" "jobs_ok m' js'"
    and "(vstep UNIV UNIV)\<^sup>*\<^sup>* (view q g (m_groups m)) (view q g (m_groups m'))"
    and "\<not> idle \<Longrightarrow> entries_held view q g js' m'"
proof -
  have "m_groupOps m' = G \<and> good ok view q g (m_groups m') \<and> jobs_ok m' js' \<and>
      (vstep UNIV UNIV)\<^sup>*\<^sup>* (view q g (m_groups m)) (view q g (m_groups m')) \<and> (\<not> idle \<longrightarrow> entries_held view q g js' m')"
    using assms(1)
  proof (induction "(m', js')" arbitrary: m' js' rule: rtranclp_induct)
    case (step y)
    obtain m1 js1 where y: "y = (m1, js1)" by fastforce
    from step(3)[OF y] have IH: "m_groupOps m1 = G" "good ok view q g (m_groups m1)" "jobs_ok m1 js1"
      "(vstep UNIV UNIV)\<^sup>*\<^sup>* (view q g (m_groups m)) (view q g (m_groups m1))" "\<not> idle \<longrightarrow> entries_held view q g js1 m1"
      by simp_all
    note st = step_stepped[OF step(2)[unfolded y] IH(1,2,3)]
    from st obtain R T where "(vstep {off. (q, g, off) \<in> R} {off. (q, g, off) \<in> T})\<^sup>*\<^sup>*
        (view q g (m_groups m1)) (view q g (m_groups m'))"
      by (auto simp: stepped_def)
    then have "(vstep UNIV UNIV)\<^sup>*\<^sup>* (view q g (m_groups m1)) (view q g (m_groups m'))"
      by (rule vsteps_weaken) simp_all
    then show ?case
      using IH st stepped_held[OF st IH(2)] by (auto simp: stepped_def)
  qed (use assms(2-5) in simp)
  then show "good ok view q g (m_groups m')" "jobs_ok m' js'"
    "(vstep UNIV UNIV)\<^sup>*\<^sup>* (view q g (m_groups m)) (view q g (m_groups m'))" "\<not> idle \<Longrightarrow> entries_held view q g js' m'"
    by blast+
qed

text \<open>What takes an entry out of the pending list.\<close>

lemma moved_removed:
  assumes "moved ok view q g R T m m'" "good ok view q g (m_groups m)" "gv_pel (view q g (m_groups m)) off \<noteq> None"
    and "gv_pel (view q g (m_groups m')) off = None"
  shows "(q, g, off) \<in> R"
proof (rule ccontr)
  assume R: "(q, g, off) \<notin> R"
  have st: "(vstep {off. (q, g, off) \<in> R} {off. (q, g, off) \<in> T})\<^sup>*\<^sup>* (view q g (m_groups m)) (view q g (m_groups m'))"
    using assms(1) by (simp add: moved_def)
  have "off < gv_cursor (view q g (m_groups m))" using assms(2,3) by (simp add: good_def safe_def)
  from vsteps_keeps[OF st this] R assms(3,4) show False by simp
qed

lemma step_removes:
  assumes "sys_step idle (m, js) (m', js')" "m_groupOps m = G" "good ok view q g (m_groups m)"
    and "gv_pel (view q g (m_groups m)) off \<noteq> None" "gv_pel (view q g (m_groups m')) off = None"
  shows "(\<exists>now c err. \<not> transferring q g off m \<and> Manager_Ack now q g c off m = (err, m')) \<or>
    (\<exists>now c n err. Rejecting (q, g, off) c n \<in> set js \<and> finishTransfer now (q, g, off) c None m = (err, m')) \<or>
    (\<exists>now e. Sweeping (q, g, off) e \<in> set js \<and> m' = finishPoisonTransfer now (q, g, off) e None m) \<or>
    (\<exists>now. spoiled now m q off)"
proof -
  note rm = moved_removed[OF _ assms(3-5)]
  note none = rm[where R = "{}" and T = "{}"]
  have kept: "\<not> moved ok view q g {} {} m (m'\<lparr>m_transfers := m_transfers m\<rparr>)"
    using moved_removed[of q g "{}" "{}" m "m'\<lparr>m_transfers := m_transfers m\<rparr>" off] assms(3-5) by auto
  from assms(1) show ?thesis
  proof (elim sys_stepE, goal_cases)
    case 1 then show ?thesis using rm[OF Claim_moved[OF 1(2) assms(2,3)]] by (auto simp: free_spoiled_def)
  next
    case 2 then show ?thesis using rm[OF ClaimBatch_moved[OF 2(2) assms(2,3)]] by (auto simp: free_spoiled_def)
  next
    case 3 then show ?thesis using rm[OF ClaimManualStream_moved[OF 3(2) assms(2,3)]] by (auto simp: free_spoiled_def)
  next
    case 4 then show ?thesis using rm[OF ClaimPendingBatch_moved[OF 4(3) assms(2,3)]] by (auto simp: any_spoiled_def)
  next
    case 5 then show ?thesis using rm[OF Ack_moved[OF 5(2) assms(2,3)]] by (auto simp: transferring_def)
  next
    case 6 then show ?thesis using rm[OF Nack_moved[OF 6(2) assms(2,3)]] by auto
  next
    case 7 then show ?thesis
      using none[OF member_moved[OF disjI1 assms(2,3), OF 7(2)[unfolded Manager_RegisterConsumer_def]]] by auto
  next
    case 8 then show ?thesis
      using none[OF member_moved[OF disjI2 assms(2,3), OF 8(2)[unfolded Manager_UnregisterConsumer_def]]] by auto
  next
    case 9 then show ?thesis using none[OF getOrCreateGroup_moved[OF 9(2) assms(2,3) 9(3)]] by auto
  next
    case 10 then show ?thesis using none[OF UpdateHeartbeat_moved[OF 10(2) assms(2,3)]] by auto
  next
    case 11 then show ?thesis using none[OF CleanupStaleConsumers_moved[OF 11(2) assms(2,3)]] by auto
  next
    case 12 then show ?thesis using none[OF get_moved(1)[OF 12(2) assms(2,3)]] by auto
  next
    case (13 qs) then show ?thesis using assms(4,5) by auto
  next
    case (14 now key c e)
    obtain q' g' o' where key: "key = (q', g', o')" by (cases key)
    show ?thesis using prepareTransfer_moved[OF 14(2)[unfolded key] assms(2,3), where R = "{}" and T = "{}"] kept by blast
  next
    case (15 now key c msg n)
    obtain q' g' o' where key: "key = (q', g', o')" by (cases key)
    show ?thesis using prepareTransfer_moved[OF 15(2)[unfolded key] assms(2,3), where R = "{}" and T = "{}"] kept by blast
  next
    case (16 key c n now terr err)
    obtain q' g' o' where key: "key = (q', g', o')" by (cases key)
    have "(q, g, off) \<in> (if terr = None then {(q', g', o')} else {})"
      using moved_removed[OF finishTransfer_moved[OF 16(3)[unfolded key] assms(2,3)]] assms(3-5)
      by (auto simp: endTransfer_def)
    then have "terr = None" "key = (q, g, off)" using key by (auto split: if_splits)
    then show ?thesis using 16(2,3) by blast
  next
    case (17 now key)
    obtain q' g' o' where key: "key = (q', g', o')" by (cases key)
    show ?thesis using preparePoison_moved[OF 17(2)[unfolded key] assms(2,3), where R = "{}" and T = "{}"] kept by blast
  next
    case (18 now key e msg)
    obtain q' g' o' where key: "key = (q', g', o')" by (cases key)
    show ?thesis using preparePoison_moved[OF 18(2)[unfolded key] assms(2,3), where R = "{}" and T = "{}"] kept by blast
  next
    case (19 key e now terr)
    obtain q' g' o' where key: "key = (q', g', o')" by (cases key)
    have "(q, g, off) \<in> (if terr = None then {(q', g', o')} else {})"
      using moved_removed[OF finishPoison_moved[OF assms(2,3), of terr q' g' o' now e]] assms(3-5) 19 key
      by (auto simp: endTransfer_def)
    then have "terr = None" "key = (q, g, off)" using key by (auto split: if_splits)
    then show ?thesis using 19 by blast
  qed
qed

end

end
