(* ===== verification/Adapter_Calm.thy ===== *)
theory Adapter_Calm
  imports Adapter_Props
begin

text \<open>
  Progress: with a disk that takes every write, the calls on a group in good order do not fail. A claim then
  returns the first message it may take and an acknowledgement settles.
\<close>

section \<open>The stores\<close>

definition store_calm :: "string \<Rightarrow> string \<Rightarrow> log_groups \<Rightarrow> bool" where
  "store_calm q g s \<longleftrightarrow>
     lg_io s = [] \<and> (\<exists>cm. getConsumerManager s q = Inr cm \<and> \<not> cmg_closed cm \<and> CM_Get cm g \<noteq> None)"

definition files_calm :: "group_files \<Rightarrow> bool" where
  "files_calm s \<longleftrightarrow> plain_dir (gf_dir s) \<and> gf_io s = []"

definition calm :: "string \<Rightarrow> string \<Rightarrow> adapter \<Rightarrow> bool" where
  "calm q g a \<longleftrightarrow> store_calm q g (ad_store a) \<and> files_calm (ad_groups a)"

lemma Save_calm:
  assumes "files_calm s"
  shows "fst (Save grp s) = None \<and> files_calm (snd (Save grp s))"
  using assms
  by (simp add: files_calm_def Save_def flush_def writeGroup_def contained_def Let_def set_group_def
      groupPath_below[of "s\<lparr>gf_groups := gs, gf_dirty := ds\<rparr>" for gs ds, simplified])

lemma on_created_calm:
  assumes "store_calm q g s" "\<And>cs. fst (f (\<lambda>_. WriteOk) cs) = None"
  shows "fst (on_created now q g n f s) = None \<and> store_calm q g (snd (on_created now q g n f s))"
proof -
  obtain cm cs where cm: "getConsumerManager s q = Inr cm" "\<not> cmg_closed cm" "CM_Get cm g = Some cs" "lg_io s = []"
    using assms(1) by (auto simp: store_calm_def)
  have io: "script_io [] = (\<lambda>_. WriteOk)" by (simp add: script_io_def fun_eq_iff)
  show ?thesis
    using cm assms(2)[of cs]
    by (auto simp: on_created_def CM_Exists_def CM_GetOrCreate_def CM_Get_def io store_calm_def put_manager_get
        CM_put_get[unfolded CM_Get_def] case_prod_beta Let_def)
       (simp_all add: CM_put_def put_manager_def)
qed

lemma on_existing_calm:
  assumes "store_calm q g s" "\<And>cs. fst (f WriteOk cs) = None"
  shows "fst (on_existing q g f s) = None \<and> store_calm q g (snd (on_existing q g f s))"
proof -
  obtain cm cs where cm: "getConsumerManager s q = Inr cm" "\<not> cmg_closed cm" "CM_Get cm g = Some cs" "lg_io s = []"
    using assms(1) by (auto simp: store_calm_def)
  show ?thesis
    using cm assms(2)[of cs]
    by (auto simp: on_existing_def CM_Get_def store_calm_def put_manager_get
        CM_put_get[unfolded CM_Get_def] case_prod_beta Let_def)
       (simp_all add: CM_put_def put_manager_def)
qed

lemma change_calm:
  assumes "calm q g a"
  shows "fst (change_and_save q' g' f a) = None \<and> calm q g (snd (change_and_save q' g' f a))"
  using assms Save_calm[of "ad_groups a"]
  by (auto simp: change_and_save_def calm_def case_prod_beta Let_def split: sum.splits)

lemma Get_calm:
  assumes "calm q g a"
  shows "calm q g (snd (A_GetConsumerGroup now q' g' a))"
  using assms
  by (auto simp: A_GetConsumerGroup_def calm_def files_calm_def put_object_def set_group_def Let_def split: sum.splits)

lemma Add_calm:
  assumes "calm q g a"
  shows "fst (A_AddPendingEntry now q g e a) = None \<and> calm q g (snd (A_AddPendingEntry now q g e a))"
proof -
  have "fst (LS_AddPending now q g (typesToPelEntry e) (ad_store a)) = None \<and>
      store_calm q g (snd (LS_AddPending now q g (typesToPelEntry e) (ad_store a)))"
    unfolding LS_AddPending_def LS_Deliver_def
    by (rule on_created_calm) (use assms in \<open>simp_all add: calm_def CS_Deliver_def writeOp_ok Let_def\<close>)
  then show ?thesis
    using assms by (auto simp: A_AddPendingEntry_def split: prod.split option.split intro!: change_calm)
       (auto simp: calm_def)
qed

lemma Cursor_calm:
  assumes "calm q g a"
  shows "fst (A_UpdateCursor now q g pos a) = None \<and> calm q g (snd (A_UpdateCursor now q g pos a))"
proof -
  have "fst (LS_SetCursor now q g pos (ad_store a)) = None \<and> store_calm q g (snd (LS_SetCursor now q g pos (ad_store a)))"
    unfolding LS_SetCursor_def
    by (rule on_created_calm) (use assms in \<open>simp_all add: calm_def CS_SetCursor_def writeOp_ok Let_def\<close>)
  then show ?thesis
    using assms by (auto simp: A_UpdateCursor_def split: prod.split option.split intro!: change_calm)
       (auto simp: calm_def)
qed

lemma Remove_calm:
  assumes "calm q g a"
  shows "fst (A_RemovePendingEntry now q g c off a) = None \<and> calm q g (snd (A_RemovePendingEntry now q g c off a))"
proof -
  have "fst (LS_AckPending now q g off (ad_store a)) = None \<and> store_calm q g (snd (LS_AckPending now q g off (ad_store a)))"
    unfolding LS_AckPending_def LS_Ack_def
    by (rule on_existing_calm) (use assms in \<open>simp_all add: calm_def CS_Ack_def writeOp_ok\<close>)
  then show ?thesis
    using assms by (auto simp: A_RemovePendingEntry_def split: prod.split option.split intro!: change_calm)
       (auto simp: calm_def)
qed

lemma Committed_calm:
  "calm q g a \<Longrightarrow> fst (A_UpdateCommitted now q g pos a) = None \<and> calm q g (snd (A_UpdateCommitted now q g pos a))"
  unfolding A_UpdateCommitted_def by (rule change_calm)


section \<open>The manager\<close>

lemma scan_finds:
  "start \<le> off \<Longrightarrow> off < tail \<Longrightarrow> unat off < unat start + n \<Longrightarrow> look off = Take msg \<Longrightarrow>
   (\<And>o'. start \<le> o' \<Longrightarrow> o' < off \<Longrightarrow> look o' = Skip) \<Longrightarrow> scan look tail n start = Found off msg"
proof (induction n arbitrary: start)
  case 0
  then show ?case by (simp add: word_le_nat_alt)
next
  case (Suc n)
  have lt: "start < tail" using Suc.prems(1,2) by (rule order_le_less_trans)
  show ?case
  proof (cases "start = off")
    case False
    then have less: "start < off" using Suc.prems(1) by simp
    have nz: "start + 1 \<noteq> 0" using less by (rule succ_neq_0)
    have "scan look tail n (start + 1) = Found off msg"
    proof (rule Suc.IH[OF _ Suc.prems(2) _ Suc.prems(4)])
      show "start + 1 \<le> off" using less between_succ[OF nz, of off] by auto
      show "unat off < unat (start + 1) + n" using Suc.prems(3) by (simp add: unat_succ_nz[OF nz])
      show "look o' = Skip" if "start + 1 \<le> o'" "o' < off" for o'
        using that Suc.prems(5) succ_le[OF nz] by blast
    qed
    then show ?thesis using lt less Suc.prems(5)[of start] by simp
  qed (use lt Suc.prems(4) in simp)
qed

text \<open>The calls of the adapter as the manager makes them.\<close>

lemma on_groups_calm:
  assumes "fst (f (m_groupOps m) (m_groups m)) = None \<and> calm q g (snd (f (m_groupOps m) (m_groups m)))"
  shows "\<exists>m'. on_groups f m = (None, m') \<and> calm q g (m_groups m') \<and> mframe m m'"
  using assms by (auto simp: on_groups_def mframe_def split: prod.splits)

lemma get_group_calm:
  assumes "m_groupOps m = adapter_ops" "calm q g (m_groups m)" "get_group now q g m = (r, m')"
  shows "calm q g (m_groups m')"
  using assms Get_calm[of q g "m_groups m" now q g] by (auto simp: get_group_def adapter_ops_def split: prod.splits)

lemma claim_found_calm:
  assumes "m_groupOps m = adapter_ops" "calm q g (m_groups m)"
  shows "\<exists>m'. claim_found now q g c off msg m = (Inr msg, m') \<and> calm q g (m_groups m')"
proof -
  let ?e = "\<lparr>pe_Offset = off, pe_ConsumerID = c, pe_ClaimedAt = now, pe_DeliveryCount = 1\<rparr>"
  obtain m1 where 1: "on_groups (\<lambda>ops. g_AddPendingEntry ops now q g ?e) m = (None, m1)" "calm q g (m_groups m1)" "mframe m m1"
    using on_groups_calm[of "\<lambda>ops. g_AddPendingEntry ops now q g ?e" m q g] Add_calm[OF assms(2), of now ?e] assms(1)
    by (auto simp: adapter_ops_def)
  have "m_groupOps m1 = adapter_ops" using 1(3) assms(1) by (simp add: mframe_def)
  then obtain m2 where "on_groups (\<lambda>ops. g_UpdateCursor ops now q g (off + 1)) m1 = (None, m2)" "calm q g (m_groups m2)"
    using on_groups_calm[of "\<lambda>ops. g_UpdateCursor ops now q g (off + 1)" m1 q g] Cursor_calm[OF 1(2), of now "off + 1"]
    by (auto simp: adapter_ops_def)
  then show ?thesis using 1(1) by (simp add: claim_found_def)
qed

lemma Claim_progress:
  assumes "m_groupOps m = adapter_ops" "good a_ok a_view q g (m_groups m)" "calm q g (m_groups m)"
    and "0 < mc_MaxPELSize (m_config m) \<Longrightarrow>
      int (card (dom (gv_pel (a_view q g (m_groups m))))) < mc_MaxPELSize (m_config m)"
    and "q_Tail (m_queueOps m) q (m_queues m) = Inr tail" "start = scanStart q (gv_cursor (a_view q g (m_groups m))) m"
    and "start \<le> off" "off < tail" "unat off < unat start + maxCursorScan" "deliverable now q flt m off msg"
    and "\<And>o'. start \<le> o' \<Longrightarrow> o' < off \<Longrightarrow> examine now q flt m o' = Skip"
  shows "\<exists>m'. Manager_Claim now q g c flt m = (Inr msg, m') \<and> calm q g (m_groups m') \<and>
    v_claim c off (a_view q g (m_groups m)) (a_view q g (m_groups m'))"
proof -
  obtain r1 m1 where a: "get_group now q g m = (r1, m1)" by fastforce
  note A = ad.get_moved[OF a assms(1,2)]
  note f1 = moved_frame[OF A(1)]
  have G1: "m_groupOps m1 = adapter_ops" using f1(2) assms(1) by simp
  from A(2)[OF refl refl] obtain grp where grp: "r1 = Inr grp" "a_view q g (m_groups m1) = a_view q g (m_groups m)"
      "agrees grp (a_view q g (m_groups m1))" "object_of q g m1 = grp" "synced a_view q g m1"
    by blast
  have "PendingCount grp = card (pe_Offset ` pending grp)"
    using grp(3) by (auto simp: agrees_def PendingCount_card pel_inv_def card_image)
  then have pel: "PendingCount grp = card (dom (gv_pel (a_view q g (m_groups m))))"
    using agrees_dom[OF grp(3)] grp(2) by simp
  have look: "examine now q flt m1 = examine now q flt m" "scanStart q x m1 = scanStart q x m" for x
    using f1 by (simp_all add: examine_def scanStart_def fun_eq_iff)
  have "scan (examine now q flt m) tail maxCursorScan start = Found off msg"
    by (rule scan_finds[OF assms(7-9) _ assms(11)]) (simp_all add: examine_take assms(10))
  moreover have "qc_Cursor (CursorView grp) = gv_cursor (a_view q g (m_groups m))" using grp(2,3) by (simp add: agrees_def)
  moreover obtain m2 where m2: "claim_found now q g c off msg m1 = (Inr msg, m2)" "calm q g (m_groups m2)"
    using claim_found_calm[OF G1 get_group_calm[OF assms(1,3) a]] by blast
  ultimately have b: "claimFromCursor now q g c flt m1 = (Inr msg, m2)"
    using f1 assms(4,5,6) pel grp(4) look by (auto simp: claimFromCursor_def Let_def)
  have "\<exists>tail' off'. q_Tail (m_queueOps m1) q (m_queues m1) = Inr tail' \<and>
      scan (examine now q flt m1) tail' maxCursorScan (scanStart q (gv_cursor (a_view q g (m_groups m1))) m1) = Found off' msg \<and>
      v_claim c off' (a_view q g (m_groups m1)) (a_view q g (m_groups m2))"
    using ad.claimFromCursor_moved[OF b G1 f1(6), where R = "{}" and T = "{}" and msg = msg] grp(5) by blast
  then have "v_claim c off (a_view q g (m_groups m)) (a_view q g (m_groups m2))"
    using \<open>scan _ _ _ _ = _\<close> f1 assms(5,6) grp(2) look by auto
  then show ?thesis using a b grp(1) m2(2) by (auto simp: Manager_Claim_def)
qed

lemma Ack_progress:
  assumes "m_groupOps m = adapter_ops" "good a_ok a_view q g (m_groups m)" "calm q g (m_groups m)" "\<not> transferring q g off m"
  shows "\<exists>m'. Manager_Ack now q g c off m = (None, m') \<and> calm q g (m_groups m')"
proof -
  obtain m1 where 1: "on_groups (\<lambda>ops. g_RemovePendingEntry ops now q g c off) m = (None, m1)" "calm q g (m_groups m1)" "mframe m m1"
    using on_groups_calm[of "\<lambda>ops. g_RemovePendingEntry ops now q g c off" m q g] Remove_calm[OF assms(3), of now c off] assms(1)
    by (auto simp: adapter_ops_def)
  have G1: "m_groupOps m1 = adapter_ops" using 1(3) assms(1) by (simp add: mframe_def)
  have "moved a_ok a_view q g UNIV {} m m1" by (rule ad.remove_moved[OF 1(1) assms(1,2)]) simp
  note f1 = moved_frame[OF this]
  obtain r2 m2 where b: "get_group now q g m1 = (r2, m2)" by fastforce
  note B = ad.get_moved[OF b G1 f1(6)]
  from B(2)[OF refl refl] obtain grp where grp: "r2 = Inr grp" by blast
  have G2: "m_groupOps m2 = adapter_ops" using moved_frame(2)[OF B(1)] G1 by simp
  obtain pos where pos: "advanceCommitted now q g grp m2 = on_groups (\<lambda>ops. g_UpdateCommitted ops now q g pos) m2"
    by (cases "MinPendingOffset grp") (auto simp: advanceCommitted_def Let_def)
  have "\<exists>m'. on_groups (\<lambda>ops. g_UpdateCommitted ops now q g pos) m2 = (None, m') \<and> calm q g (m_groups m') \<and> mframe m2 m'"
    by (rule on_groups_calm) (use Committed_calm[OF get_group_calm[OF G1 1(2) b], of now pos] G2 in \<open>simp add: adapter_ops_def\<close>)
  then show ?thesis using 1(1) b grp pos assms(4) by (auto simp: Manager_Ack_def settle_def)
qed

lemma Requeue_calm:
  assumes "calm q g a" "group_at (ad_groups a) q g = Some grp" "FindPending grp off = (e, c)" "c \<noteq> []" "pel_inv grp"
  shows "fst (A_RequeuePendingEntry now q g c off t a) = None \<and> calm q g (snd (A_RequeuePendingEntry now q g c off t a))"
proof -
  have ls: "fst (LS_ReleaseAt q g off t (ad_store a)) = None \<and> store_calm q g (snd (LS_ReleaseAt q g off t (ad_store a)))"
    unfolding LS_ReleaseAt_def
    by (rule on_existing_calm) (use assms(1) in \<open>simp_all add: calm_def CS_ReleaseAt_def writeOp_ok Let_def\<close>)
  obtain x grp' where rq: "RequeuePending now off c t grp = (x, grp')" by fastforce
  have "off \<in> pe_Offset ` pending grp" using FindPending_spec(2)[OF assms(5), of off] assms(3,4) by auto
  then obtain e' where e': "e' \<in> pending grp" "pe_Offset e' = off" by blast
  then have "pe_ConsumerID e' = c" using FindPending_spec(1)[OF assms(5) e'(1)] assms(3) by simp
  then have "x" using RequeuePending_spec(2)[OF assms(5) rq] e' by (auto simp: holds_def)
  then show ?thesis
    using ls rq assms(1-4) Save_calm[of "ad_groups a" grp']
    by (auto simp: A_RequeuePendingEntry_def Group_Get_cases calm_def Let_def split: prod.splits option.splits)
qed

lemma Nack_progress:
  assumes "m_groupOps m = adapter_ops" "good a_ok a_view q g (m_groups m)" "calm q g (m_groups m)" "\<not> transferring q g off m"
    and "gv_pel (a_view q g (m_groups m)) off = Some e" "pe_ConsumerID e \<noteq> []"
  shows "\<exists>m'. NackWithDelay now q g (pe_ConsumerID e) off delay m = (None, m') \<and> calm q g (m_groups m')"
proof -
  obtain r1 m1 where a: "get_group now q g m = (r1, m1)" by fastforce
  note A = ad.get_moved[OF a assms(1,2)]
  note f1 = moved_frame[OF A(1)]
  from A(2)[OF refl refl] obtain grp where grp: "r1 = Inr grp" "agrees grp (a_view q g (m_groups m1))"
      "a_view q g (m_groups m1) = a_view q g (m_groups m)" "object_of q g m1 = grp"
    by blast
  have fp: "FindPending grp off = (e, pe_ConsumerID e)" using FindPending_view[OF grp(2)] grp(3) assms(5) by simp
  have G1: "m_groupOps m1 = adapter_ops" using f1(2) assms(1) by simp
  have "\<exists>x. group_at (ad_groups (m_groups m1)) q g = Some x" using f1(6) by (auto simp: good_def a_ok_def)
  then have at: "group_at (ad_groups (m_groups m1)) q g = Some grp"
    using grp(4) G1 by (auto simp: object_of_def adapter_ops_def)
  have rq: "\<exists>m'. on_groups (\<lambda>_. A_RequeuePendingEntry now q g (pe_ConsumerID e) off t) m1 = (None, m') \<and>
      calm q g (m_groups m') \<and> mframe m1 m'" for t
    by (rule on_groups_calm)
       (use Requeue_calm[OF get_group_calm[OF assms(1,3) a] at fp assms(6)] grp(2) in \<open>simp add: agrees_def\<close>)
  show ?thesis
    using rq assms(4,6) f1(5) a grp(1) fp G1
    by (simp add: NackWithDelay_def transferring_def adapter_ops_def Let_def) metis
qed


section \<open>A new group\<close>

text \<open>A group created for a name the log store does not know starts empty and in good order.\<close>

definition unknown_group :: "string \<Rightarrow> string \<Rightarrow> log_groups \<Rightarrow> bool" where
  "unknown_group q g s \<longleftrightarrow>
     (\<exists>cm. getConsumerManager s q = Inr cm \<and> CM_Get cm g = None \<and> map_of (cmg_dirs cm) g = None \<and>
           0 < NumPELShards (cmg_config cm) \<and> NumPELShards (cmg_config cm) < 2 ^ 64)"

lemma create_state:
  assumes "unknown_group q g s" "LS_CreateConsumerGroup now q g s = (None, s')"
  shows "\<exists>cs. GetConsumerState s' q g = Inr cs \<and> cs_wf cs \<and> entry_at cs = Map.empty \<and> gs_Cursor (cs_state cs) = 0"
    and "lg_io s = [] \<Longrightarrow> store_calm q g s'"
proof -
  obtain cm where cm: "getConsumerManager s q = Inr cm" "CM_Get cm g = None" "map_of (cmg_dirs cm) g = None"
      "0 < NumPELShards (cmg_config cm)" "NumPELShards (cmg_config cm) < 2 ^ 64"
    using assms(1) by (auto simp: unknown_group_def)
  obtain io script where io: "next_io (lg_io s) = (io, script)" by fastforce
  obtain cs where open_cm: "\<not> cmg_closed cm" and cs: "open_state now io g cm = Inr cs"
    and s': "s' = put_manager q (CM_put g cs cm) (s\<lparr>lg_io := script\<rparr>)"
    using assms(2) cm(1,2) io
    by (auto simp: LS_CreateConsumerGroup_def CM_Exists_def CM_Get_def CM_GetOrCreate_def Let_def
        split: if_splits sum.splits)
  have "NewConsumerState now None g (cmg_config cm) empty_disk = Inr cs"
    using cs cm(3) by (auto simp: open_state_def NewConsumerState_def Let_def map_sum_def split: if_splits sum.splits)
  from durable_create[OF cm(4,5) this]
  have "cs_wf cs" "abs_cs cs = \<lparr>ag_entries = Map.empty, ag_floor = 0, ag_cursor = 0, ag_delivered = 0\<rparr>"
    by (simp_all add: durable_def)
  moreover have get: "getConsumerManager s' q = Inr (CM_put g cs cm)" "CM_Get (CM_put g cs cm) g = Some cs"
    by (simp_all add: s' put_manager_get CM_put_get)
  ultimately show "\<exists>cs. GetConsumerState s' q g = Inr cs \<and> cs_wf cs \<and> entry_at cs = Map.empty \<and> gs_Cursor (cs_state cs) = 0"
    by (auto simp: GetConsumerState_Inr abs_cs_def intro!: exI[of _ cs])
  show "store_calm q g s'" if "lg_io s = []"
    using that get io open_cm by (auto simp: store_calm_def) (simp_all add: s' put_manager_def CM_put_def)
qed

lemma Create_law:
  assumes "A_CreateConsumerGroup now grp a = (None, a')" "q = cg_QueueName grp" "g = cg_ID grp" "cg_Mode grp \<noteq> GroupModeStream"
    and "cg_PEL grp = []" "CursorView grp = zero_cursor" "ids_ok (ad_groups a)" "unknown_group q g (ad_store a)"
  shows "a_ok q g a' \<and> a_view q g a' = \<lparr>gv_pel = Map.empty, gv_cursor = 0, gv_committed = 0\<rparr> \<and>
    (lg_io (ad_store a) = [] \<longrightarrow> files_calm (ad_groups a) \<longrightarrow> calm q g a')"
proof -
  obtain err files where f: "Save grp (ad_groups a) = (err, files)" by fastforce
  obtain s where s: "LS_CreateConsumerGroup now q g (ad_store a) = (None, s)" "a' = a\<lparr>ad_groups := files, ad_store := s\<rparr>"
    using assms(1-6) f
    by (auto simp: A_CreateConsumerGroup_def seedConsumerState_def seed_store_def Group_Snapshot_def zero_cursor_def Let_def
        split: sum.splits option.splits prod.splits)
  have files: "files = snd (Save grp (ad_groups a))" using f by simp
  note C = create_state[OF assms(8) s(1)]
  obtain cs where cs: "GetConsumerState s q g = Inr cs" "cs_wf cs" "entry_at cs = Map.empty" "gs_Cursor (cs_state cs) = 0"
    using C(1) by blast
  have at: "group_at files q g = Some grp" by (simp add: files Save_at assms(2,3))
  have "a_ok q g a'"
    using at cs(1,2) assms(4) ids_Save[OF assms(7), of grp] by (simp add: a_ok_def s(2) files)
  moreover have "a_view q g a' = \<lparr>gv_pel = Map.empty, gv_cursor = 0, gv_committed = 0\<rparr>"
    using at cs assms(6) by (simp add: a_view_def state_of_def s(2) zero_cursor_def fun_eq_iff)
  moreover have "calm q g a'" if "lg_io (ad_store a) = []" "files_calm (ad_groups a)"
    using C(2)[OF that(1)] Save_calm[OF that(2), of grp] by (simp add: calm_def s(2) files)
  ultimately show ?thesis by blast
qed

lemma created_group:
  assumes "getOrCreateGroup now q g pattern mode auto conf m = (Inr (grp, True), m')" "m_groupOps m = adapter_ops"
    and "ids_ok (ad_groups (m_groups m))" "mode \<noteq> GroupModeStream" "unknown_group q g (ad_store (m_groups m))"
  shows "good a_ok a_view q g (m_groups m')"
    and "a_view q g (m_groups m') = \<lparr>gv_pel = Map.empty, gv_cursor = 0, gv_committed = 0\<rparr>"
    and "lg_io (ad_store (m_groups m)) = [] \<Longrightarrow> files_calm (ad_groups (m_groups m)) \<Longrightarrow> calm q g (m_groups m')"
    and "mframe m m'"
proof -
  let ?grp = "SetAutoCommit now auto (if mode \<noteq> [] then (NewConsumerGroupState now q g pattern)\<lparr>cg_Mode := mode\<rparr>
      else NewConsumerGroupState now q g pattern)"
  have grp: "cg_QueueName ?grp = q" "cg_ID ?grp = g" "cg_Mode ?grp \<noteq> GroupModeStream" "CursorView ?grp = zero_cursor" "cg_PEL ?grp = []"
    using assms(4) by (auto simp: SetAutoCommit_def NewConsumerGroupState_def GroupModeQueue_def GroupModeStream_def CursorView_def)
  obtain r1 m1 where a: "get_group now q g m = (r1, m1)" by fastforce
  have 1: "\<exists>err. r1 = Inl err \<and> on_groups (\<lambda>ops. g_CreateConsumerGroup ops now ?grp) m1 = (None, m')"
    using assms(1) a
    by (auto simp: getOrCreateGroup_def Let_def split: sum.splits option.splits prod.splits if_splits)
  then have m1: "m1 = m"
    using a assms(2) by (auto simp: get_group_def adapter_ops_def A_GetConsumerGroup_def Let_def split: sum.splits if_splits prod.splits)
  have c: "A_CreateConsumerGroup now ?grp (m_groups m) = (None, m_groups m')" and "mframe m m'"
    using 1 assms(2) by (auto simp: m1 on_groups_def adapter_ops_def mframe_def split: prod.splits)
  then show "mframe m m'" by blast
  note law = Create_law[OF c grp(1)[symmetric] grp(2)[symmetric] grp(3,5,4) assms(3,5)]
  then show "a_view q g (m_groups m') = \<lparr>gv_pel = Map.empty, gv_cursor = 0, gv_committed = 0\<rparr>"
    "lg_io (ad_store (m_groups m)) = [] \<Longrightarrow> files_calm (ad_groups (m_groups m)) \<Longrightarrow> calm q g (m_groups m')"
    by simp_all
  show "good a_ok a_view q g (m_groups m')" using law by (simp add: good_def safe_def)
qed

lemma create_progress:
  assumes "m_groupOps m = adapter_ops" "a = m_groups m" "group_at (ad_groups a) q g = None" "files_calm (ad_groups a)"
    and "lg_io (ad_store a) = []" "getConsumerManager (ad_store a) q = Inr cm" "\<not> cmg_closed cm"
    and "CM_Get cm g = None" "mode \<noteq> GroupModeStream"
  shows "\<exists>grp m'. getOrCreateGroup now q g pattern mode auto conf m = (Inr (grp, True), m')"
proof -
  let ?grp = "SetAutoCommit now auto (if mode \<noteq> [] then (NewConsumerGroupState now q g pattern)\<lparr>cg_Mode := mode\<rparr>
      else NewConsumerGroupState now q g pattern)"
  have grp: "cg_QueueName ?grp = q" "cg_ID ?grp = g" "cg_Mode ?grp \<noteq> GroupModeStream" "CursorView ?grp = zero_cursor" "cg_PEL ?grp = []"
    using assms(9) by (auto simp: SetAutoCommit_def NewConsumerGroupState_def GroupModeQueue_def GroupModeStream_def CursorView_def)
  have none: "Group_Get (ad_groups a) q g = Inl ErrGroupNotFound" using assms(3) by (simp add: Group_Get_cases)
  obtain files where f: "Save ?grp (ad_groups a) = (None, files)"
    using Save_calm[OF assms(4), of ?grp] by (cases "Save ?grp (ad_groups a)") auto
  obtain cs where "open_state now WriteOk g cm = Inr cs"
    by (auto simp: open_state_def NewConsumerState_def Let_def)
  then obtain s where s: "LS_CreateConsumerGroup now q g (ad_store a) = (None, s)"
    using assms(5-8) by (auto simp: LS_CreateConsumerGroup_def CM_Exists_def CM_Get_def CM_GetOrCreate_def Let_def)
  have "\<exists>a'. A_CreateConsumerGroup now ?grp a = (None, a')"
    using none f s grp unfolding A_CreateConsumerGroup_def
    by (simp add: seedConsumerState_def seed_store_def Group_Snapshot_def zero_cursor_def Let_def)
  then obtain a' where "A_CreateConsumerGroup now ?grp a = (None, a')" by blast
  moreover have "get_group now q g m = (Inl (FromLog ErrGroupNotFound), m)"
    using assms(1,2) none by (simp add: get_group_def adapter_ops_def A_GetConsumerGroup_def)
  ultimately show ?thesis
    using assms(1,2) by (auto simp: getOrCreateGroup_def is_group_missing_def on_groups_def adapter_ops_def Let_def)
qed

text \<open>
  Deleting a group leaves its state in the log store, so a group created again under the same name takes up
  the pending entries and the cursor of the deleted one.
\<close>

lemma recreated_group_resumes:
  assumes "A_DeleteConsumerGroup q g a = (None, a1)" "A_CreateConsumerGroup now grp a1 = (None, a2)"
    and "q = cg_QueueName grp" "g = cg_ID grp" "cg_Mode grp \<noteq> GroupModeStream" "cg_PEL grp = []" "CursorView grp = zero_cursor"
    and "GetConsumerState (ad_store a) q g = Inr cs"
  shows "gv_pel (a_view q g a2) = gv_pel (a_view q g a) \<and> gv_cursor (a_view q g a2) = gv_cursor (a_view q g a)"
proof -
  have a1: "ad_store a1 = ad_store a" using assms(1) by (auto simp: A_DeleteConsumerGroup_def split: prod.splits)
  obtain s where s: "LS_CreateConsumerGroup now q g (ad_store a1) = (None, s)" "ad_store a2 = s"
    using assms(2-7)
    by (auto simp: A_CreateConsumerGroup_def seedConsumerState_def seed_store_def Group_Snapshot_def zero_cursor_def Let_def
        split: sum.splits option.splits prod.splits)
  obtain cm where cm: "getConsumerManager (ad_store a) q = Inr cm" "CM_Get cm g = Some cs"
    using assms(8) by (auto simp: GetConsumerState_Inr)
  have "GetConsumerState s q g = Inr cs"
    using s(1) cm
    by (auto simp: a1 LS_CreateConsumerGroup_def CM_GetOrCreate_def CM_Get_def CM_Exists_def GetConsumerState_Inr put_manager_get
        split: if_splits)
  then have "state_of q g a2 = state_of q g a" using assms(8) s(2) by (simp add: state_of_def)
  then show ?thesis by (simp add: a_view_def)
qed

end
