(* ===== verification/Manager_Props.thy ===== *)
theory Manager_Props
  imports Manager_System Adapter_Calm Mem_Log_Props
begin

text \<open>
  The properties of the consumer manager over the storage adapter: what holds in every run of interleaved
  calls, and what the result of a claim, an acknowledgement and a negative acknowledgement means.
\<close>

section \<open>A broker for the examples\<close>

definition demo_groups :: adapter where
  "demo_groups =
     \<lparr>ad_store = \<lparr>lg_config = demo_config,
        lg_consumers = [(''orders'', \<lparr>cmg_config = demo_config, cmg_groups = [], cmg_dirs = [], cmg_closed = False\<rparr>)],
        lg_io = []\<rparr>,
      ad_groups = \<lparr>gf_dir = [''d''], gf_groups = [], gf_dirty = [], gf_files = [], gf_io = []\<rparr>\<rparr>"

definition demo_queues :: mem_store where
  "demo_queues = snd (Append ''orders'' Acquire (snd (Append ''orders'' Acquire orders_store)))"

definition demo_start :: "(mem_store, adapter) manager" where
  "demo_start = NewManager mem_queue_ops adapter_ops (DefaultConfig\<lparr>mc_OnDLQ := Some (\<lambda>_ _ _ _ _ _ s. (None, s))\<rparr>) demo_queues demo_groups"

definition demo_manager :: "(mem_store, adapter) manager" where
  "demo_manager = snd (getOrCreateGroup 1000000000 ''orders'' ''g'' [] GroupModeQueue False False demo_start)"

lemma demo_created: "\<exists>grp. getOrCreateGroup 1000000000 ''orders'' ''g'' [] GroupModeQueue False False demo_start = (Inr (grp, True), demo_manager)"
proof -
  have "\<exists>grp m'. getOrCreateGroup 1000000000 ''orders'' ''g'' [] GroupModeQueue False False demo_start = (Inr (grp, True), m')"
    by (rule create_progress)
       (auto simp: demo_start_def NewManager_def demo_groups_def group_at_def groups_of_def files_calm_def plain_dir_def
         getConsumerManager_def CM_Get_def GroupModeQueue_def GroupModeStream_def)
  then show ?thesis by (auto simp: demo_manager_def)
qed

lemma demo_ready:
  "good a_ok a_view ''orders'' ''g'' (m_groups demo_manager)" "calm ''orders'' ''g'' (m_groups demo_manager)"
  "a_view ''orders'' ''g'' (m_groups demo_manager) = \<lparr>gv_pel = Map.empty, gv_cursor = 0, gv_committed = 0\<rparr>"
  "m_groupOps demo_manager = adapter_ops" "m_transfers demo_manager = []" "m_queueOps demo_manager = mem_queue_ops"
  "mc_OnDLQ (m_config demo_manager) \<noteq> None" "mc_MaxPELSize (m_config demo_manager) = 100000" "m_queues demo_manager = demo_queues"
proof -
  obtain grp where g: "getOrCreateGroup 1000000000 ''orders'' ''g'' [] GroupModeQueue False False demo_start = (Inr (grp, True), demo_manager)"
    using demo_created by blast
  have start: "m_groupOps demo_start = adapter_ops" "ids_ok (ad_groups (m_groups demo_start))"
    "unknown_group ''orders'' ''g'' (ad_store (m_groups demo_start))" "GroupModeQueue \<noteq> GroupModeStream"
    "lg_io (ad_store (m_groups demo_start)) = []" "files_calm (ad_groups (m_groups demo_start))"
    by (simp_all add: demo_start_def NewManager_def demo_groups_def ids_ok_def group_at_def groups_of_def unknown_group_def
        getConsumerManager_def CM_Get_def demo_config_def GroupModeQueue_def GroupModeStream_def files_calm_def plain_dir_def)
  note c = created_group[OF g start(1,2,4,3)]
  show "good a_ok a_view ''orders'' ''g'' (m_groups demo_manager)" "calm ''orders'' ''g'' (m_groups demo_manager)"
    "a_view ''orders'' ''g'' (m_groups demo_manager) = \<lparr>gv_pel = Map.empty, gv_cursor = 0, gv_committed = 0\<rparr>"
    using c start by simp_all
  show "m_groupOps demo_manager = adapter_ops" "m_transfers demo_manager = []" "m_queueOps demo_manager = mem_queue_ops"
    "mc_OnDLQ (m_config demo_manager) \<noteq> None" "mc_MaxPELSize (m_config demo_manager) = 100000" "m_queues demo_manager = demo_queues"
    using c(4) by (simp_all add: mframe_def demo_start_def NewManager_def DefaultConfig_def)
qed

text \<open>The first message of the example can be claimed.\<close>

lemma demo_log: "getQueueLog demo_queues ''orders'' = Inr (push Acquire (push Acquire (empty_log orders 0)))"
  by (simp add: demo_queues_def Append_def orders_log) (simp add: push_def empty_log_def)

lemma demo_look:
  "q_Tail mem_queue_ops ''orders'' demo_queues = Inr 2" "q_Head mem_queue_ops ''orders'' demo_queues = Inr 0"
  "\<exists>msg. deliverable 2000000000 ''orders'' None demo_manager 0 msg"
  by (simp_all add: mem_queue_ops_def Tail_def Head_def Read_def demo_log deliverable_def demo_ready accepts_def)
     (simp_all add: push_def empty_log_def Let_def IsExpired_def Acquire_def set_offset_def
      zero_broker_def zero_queue_def zero_delivery_def Envelope_Clone_def)

lemma demo_claim:
  obtains msg m e where "Manager_Claim 2000000000 ''orders'' ''g'' ''c1'' None demo_manager = (Inr msg, m)"
    "calm ''orders'' ''g'' (m_groups m)" "good a_ok a_view ''orders'' ''g'' (m_groups m)" "mframe demo_manager m"
    "a_view ''orders'' ''g'' (m_groups m) = \<lparr>gv_pel = [0 \<mapsto> e], gv_cursor = 1, gv_committed = 0\<rparr>"
    "pe_Offset e = 0" "pe_ConsumerID e = ''c1''" "pe_DeliveryCount e = 1"
    "q_Read (m_queueOps m) ''orders'' 0 (m_queues m) = Inr msg"
proof -
  obtain msg where msg: "deliverable 2000000000 ''orders'' None demo_manager 0 msg" using demo_look(3) by blast
  have "\<exists>m'. Manager_Claim 2000000000 ''orders'' ''g'' ''c1'' None demo_manager = (Inr msg, m') \<and> calm ''orders'' ''g'' (m_groups m') \<and>
     v_claim ''c1'' 0 (a_view ''orders'' ''g'' (m_groups demo_manager)) (a_view ''orders'' ''g'' (m_groups m'))"
    by (rule Claim_progress[OF demo_ready(4,1,2), where tail = 2 and start = 0])
       (simp_all add: demo_ready demo_look msg scanStart_def maxCursorScan_def)
  then obtain m where m: "Manager_Claim 2000000000 ''orders'' ''g'' ''c1'' None demo_manager = (Inr msg, m)"
    "calm ''orders'' ''g'' (m_groups m)"
    "v_claim ''c1'' 0 (a_view ''orders'' ''g'' (m_groups demo_manager)) (a_view ''orders'' ''g'' (m_groups m))"
    by blast
  from m(3) obtain e where e: "pe_Offset e = 0" "pe_ConsumerID e = ''c1''" "pe_DeliveryCount e = 1"
    "a_view ''orders'' ''g'' (m_groups m) = v_add e (a_view ''orders'' ''g'' (m_groups demo_manager))"
    unfolding v_claim_def by blast
  have v: "a_view ''orders'' ''g'' (m_groups m) = \<lparr>gv_pel = [0 \<mapsto> e], gv_cursor = 1, gv_committed = 0\<rparr>"
    using e(1,4) by (simp add: demo_ready(3) v_add_def)
  note mv = ad.Claim_moved[OF m(1) demo_ready(4,1)]
  have fr: "mframe demo_manager m" using mv by (simp add: moved_def)
  have "q_Read (m_queueOps m) ''orders'' 0 (m_queues m) = Inr msg"
    using msg fr by (simp add: deliverable_def mframe_def)
  with that m(1,2) moved_frame(6)[OF mv] fr v e(1-3) show thesis by blast
qed


section \<open>Idle claims and reservations\<close>

text \<open>A claim of idle entries does the same whatever is reserved.\<close>

lemma on_groups_transfers:
  "on_groups f (m\<lparr>m_transfers := ts\<rparr>) = (let (err, m') = on_groups f m in (err, m'\<lparr>m_transfers := ts\<rparr>))"
  by (simp add: on_groups_def case_prod_beta Let_def)

lemma claim_pending_transfers:
  "claim_pending now q g c es msgs (m\<lparr>m_transfers := ts\<rparr>) =
     (let (r, m') = claim_pending now q g c es msgs m in (r, m'\<lparr>m_transfers := ts\<rparr>))"
  by (induction es arbitrary: msgs m) (simp_all add: on_groups_transfers Let_def split: sum.split prod.split option.split)

lemma ClaimPendingBatch_ignores_transfers:
  "ClaimPendingBatch now q g c minIdle limit (m\<lparr>m_transfers := ts\<rparr>) =
     (let (r, m') = ClaimPendingBatch now q g c minIdle limit m in (r, m'\<lparr>m_transfers := ts\<rparr>))"
proof -
  have "get_group now q g (m\<lparr>m_transfers := ts\<rparr>) = (let (r, m') = get_group now q g m in (r, m'\<lparr>m_transfers := ts\<rparr>))"
    by (simp add: get_group_def case_prod_beta Let_def)
  then show ?thesis
    by (simp add: ClaimPendingBatch_def claim_pending_transfers batch_limit_def object_of_def Let_def split: sum.split prod.split)
qed

section \<open>Properties\<close>







text \<open>
  C4. What a claim returns. The message is readable, unexpired and accepted by the filter of the consumer,
  which now owns it, and either it is the first such message behind the cursor, delivered for the first
  time, with the cursor right behind it, or it was pending for another consumer that left the group or
  held it past the visibility timeout, no dead-letter transfer had it, and its delivery count went up by one.
\<close>

theorem Claim_correct:
  assumes "Manager_Claim now q g c flt m = (Inr msg, m')" "m_groupOps m = adapter_ops" "good a_ok a_view q g (m_groups m)"
  shows "let v = a_view q g (m_groups m); v' = a_view q g (m_groups m') in
    (\<exists>off. gv_cursor v \<le> off \<and> deliverable now q flt m off msg \<and> v_claim c off v v' \<and>
       (\<forall>o'. scanStart q (gv_cursor v) m \<le> o' \<and> o' < off \<longrightarrow> examine now q flt m o' = Skip)) \<or>
    (\<exists>e. deliverable now q flt m (pe_Offset e) msg \<and> \<not> transferring q g (pe_Offset e) m \<and> pe_ConsumerID e \<noteq> c \<and>
       (map_of (cg_Consumers (object_of q g m)) (pe_ConsumerID e) = None \<or>
        pe_ClaimedAt e < now - mc_VisibilityTimeout (m_config m)) \<and>
       stolen now c e v v')"
  using ad.Claim_result[OF assms] by (simp add: Let_def)

theorem Claim_correct_witness:
  "\<exists>msg m'. Manager_Claim 2000000000 ''orders'' ''g'' ''c1'' None demo_manager = (Inr msg, m') \<and>
     (\<exists>off. deliverable 2000000000 ''orders'' None demo_manager off msg)"
proof (rule demo_claim)
  fix msg m assume m: "Manager_Claim 2000000000 ''orders'' ''g'' ''c1'' None demo_manager = (Inr msg, m)"
  from Claim_correct[OF m demo_ready(4,1), unfolded Let_def] m show ?thesis by blast
qed

text \<open>
  C5. A claim makes progress: while the disk takes writes and the pending list has room, a claim for a
  group in good order returns the first message behind the cursor that the consumer may take, if it lies
  within the scan budget, and the consumer then owns it.
\<close>

theorem Claim_available:
  assumes "m_groupOps m = adapter_ops" "good a_ok a_view q g (m_groups m)" "calm q g (m_groups m)"
    and "0 < mc_MaxPELSize (m_config m) \<Longrightarrow>
      int (card (dom (gv_pel (a_view q g (m_groups m))))) < mc_MaxPELSize (m_config m)"
    and "q_Tail (m_queueOps m) q (m_queues m) = Inr tail" "start = scanStart q (gv_cursor (a_view q g (m_groups m))) m"
    and "start \<le> off" "off < tail" "unat off < unat start + maxCursorScan" "deliverable now q flt m off msg"
    and "\<And>o'. start \<le> o' \<Longrightarrow> o' < off \<Longrightarrow> examine now q flt m o' = Skip"
  shows "\<exists>m'. Manager_Claim now q g c flt m = (Inr msg, m') \<and>
    v_claim c off (a_view q g (m_groups m)) (a_view q g (m_groups m'))"
  using Claim_progress[OF assms] by blast

theorem Claim_available_witness:
  "\<exists>msg m'. Manager_Claim 2000000000 ''orders'' ''g'' ''c2'' None demo_manager = (Inr msg, m') \<and>
     v_claim ''c2'' 0 (a_view ''orders'' ''g'' (m_groups demo_manager)) (a_view ''orders'' ''g'' (m_groups m'))"
proof -
  obtain msg where msg: "deliverable 2000000000 ''orders'' None demo_manager 0 msg" using demo_look(3) by blast
  have "\<exists>m'. Manager_Claim 2000000000 ''orders'' ''g'' ''c2'' None demo_manager = (Inr msg, m') \<and>
     v_claim ''c2'' 0 (a_view ''orders'' ''g'' (m_groups demo_manager)) (a_view ''orders'' ''g'' (m_groups m'))"
    by (rule Claim_available[OF demo_ready(4,1,2), where tail = 2 and start = 0])
       (simp_all add: demo_ready demo_look msg scanStart_def maxCursorScan_def)
  then show ?thesis by blast
qed

text \<open>
  C6. What an acknowledgement does. An entry reserved by a dead-letter transfer is refused and nothing
  changes. Otherwise, when the call succeeds, exactly this entry leaves the pending list, the cursor stays
  and the committed offset becomes the lowest offset still pending, or the cursor when none is; and while
  the disk takes writes the call does succeed.
\<close>

theorem Ack_settles:
  assumes "Manager_Ack now q g c off m = (err, m')" "m_groupOps m = adapter_ops" "good a_ok a_view q g (m_groups m)"
  shows "let v = a_view q g (m_groups m); v' = a_view q g (m_groups m') in
    (transferring q g off m \<longrightarrow> err = Some ErrTransferInProgress \<and> m' = m) \<and>
    (err = None \<longrightarrow> gv_pel v' = (gv_pel v)(off := None) \<and> gv_cursor v' = gv_cursor v \<and>
       gv_committed v' = (if dom (gv_pel v') = {} then gv_cursor v' else Min (dom (gv_pel v')))) \<and>
    (\<not> transferring q g off m \<and> calm q g (m_groups m) \<longrightarrow> err = None)"
proof -
  have "err = None" if "\<not> transferring q g off m" "calm q g (m_groups m)"
    using Ack_progress[OF assms(2,3) that(2,1), of now c] assms(1) by auto
  moreover have "err = Some ErrTransferInProgress \<and> m' = m" if "transferring q g off m"
    using assms(1) that by (simp add: Manager_Ack_def)
  moreover have "a_view q g (m_groups m') = (let v = v_remove off (a_view q g (m_groups m)) in v\<lparr>gv_committed := safe_point v\<rparr>)"
    if "err = None"
    using ad.Ack_result[OF assms(1)[unfolded that] assms(2,3)] by blast
  ultimately show ?thesis by (simp add: Let_def v_remove_def safe_point_def)
qed

theorem Ack_settles_witness:
  "\<exists>(m :: (mem_store, adapter) manager) m'. Manager_Ack 3000000000 ''orders'' ''g'' ''c1'' 0 m = (None, m') \<and>
     gv_pel (a_view ''orders'' ''g'' (m_groups m)) 0 \<noteq> None \<and> gv_committed (a_view ''orders'' ''g'' (m_groups m')) = 1"
proof (rule demo_claim)
  fix msg m e assume m: "calm ''orders'' ''g'' (m_groups m)" "good a_ok a_view ''orders'' ''g'' (m_groups m)" "mframe demo_manager m"
    "a_view ''orders'' ''g'' (m_groups m) = \<lparr>gv_pel = [0 \<mapsto> e], gv_cursor = 1, gv_committed = 0\<rparr>"
  have G: "m_groupOps m = adapter_ops" "\<not> transferring ''orders'' ''g'' 0 m"
    using m(3) demo_ready(4,5) by (simp_all add: mframe_def transferring_def)
  obtain err m' where m': "Manager_Ack 3000000000 ''orders'' ''g'' ''c1'' 0 m = (err, m')" by fastforce
  note ack = Ack_settles[OF m' G(1) m(2), unfolded Let_def m(4)]
  have "err = None" using ack G(2) m(1) by blast
  moreover from this have "gv_pel (a_view ''orders'' ''g'' (m_groups m')) = Map.empty" using ack by simp
  ultimately have "err = None" "gv_committed (a_view ''orders'' ''g'' (m_groups m')) = 1" using ack by simp_all
  moreover have "gv_pel (a_view ''orders'' ''g'' (m_groups m)) 0 \<noteq> None" by (simp add: m(4))
  ultimately show ?thesis using m' by blast
qed



text \<open>
  Rounds of batch claims, each given by its time, consumer and limit, that all come back empty with the
  scan budget used up.
\<close>

fun incomplete_rounds ::
  "string \<Rightarrow> string \<Rightarrow> claim_filter option \<Rightarrow> (instant \<times> string \<times> int) list \<Rightarrow> ('q, 'g) manager \<Rightarrow> bool" where
  "incomplete_rounds q g flt [] m \<longleftrightarrow> True"
| "incomplete_rounds q g flt ((now, c, limit) # calls) m \<longleftrightarrow>
     (let (r, m') = Manager_ClaimBatch now q g c flt limit m
      in r = ([], Some ErrScanIncomplete) \<and> incomplete_rounds q g flt calls m')"

lemma incomplete_rounds_bound:
  assumes "incomplete_rounds q g flt calls m" "m_groupOps m = adapter_ops" "good a_ok a_view q g (m_groups m)"
    and "q_Tail (m_queueOps m) q (m_queues m) = Inr tail"
  shows "length calls * maxCursorScan \<le> unat tail - unat (gv_cursor (a_view q g (m_groups m)))"
  using assms
proof (induction calls arbitrary: m)
  case (Cons call calls)
  obtain now c limit where call: "call = (now, c, limit)" by (cases call)
  obtain m' where m': "Manager_ClaimBatch now q g c flt limit m = (([], Some ErrScanIncomplete), m')" "incomplete_rounds q g flt calls m'"
    using Cons.prems(1) by (auto simp: call)
  note f = moved_frame[OF ad.ClaimBatch_moved[OF m'(1) Cons.prems(2,3)]]
  have "length calls * maxCursorScan \<le> unat tail - unat (gv_cursor (a_view q g (m_groups m')))"
    by (rule Cons.IH[OF m'(2)]) (use f Cons.prems in auto)
  then show ?case
    using ad.ClaimBatch_incomplete[OF m'(1) Cons.prems(2,3)] Cons.prems(4) by auto
qed simp

text \<open>
  C8. Scanning past records a consumer cannot take comes to an end. A batch claim examines at most 1024
  records and reports an incomplete scan when it stops before the tail; then the cursor has moved on by at
  least 1024, so that more rounds than the distance between cursor and tail divided by 1024 cannot all be
  incomplete, whatever the filter, the consumers and the times of the rounds.
\<close>

theorem scan_rounds_end:
  assumes "m_groupOps m = adapter_ops" "good a_ok a_view q g (m_groups m)"
    and "q_Tail (m_queueOps m) q (m_queues m) = Inr tail"
    and "unat tail - unat (gv_cursor (a_view q g (m_groups m))) < length calls * maxCursorScan"
  shows "\<not> incomplete_rounds q g flt calls m"
  using incomplete_rounds_bound[OF _ assms(1-3)] assms(4) by (meson linorder_not_less)

theorem scan_rounds_end_witness:
  "fst (Manager_ClaimBatch 5 ''orders'' ''g'' ''c'' None 10 demo_manager) \<noteq> ([], Some ErrScanIncomplete)"
proof -
  have t: "q_Tail (m_queueOps demo_manager) ''orders'' (m_queues demo_manager) = Inr 2" by (simp add: demo_ready demo_look)
  have "\<not> incomplete_rounds ''orders'' ''g'' None [(5, ''c'', 10)] demo_manager"
    by (rule scan_rounds_end[OF demo_ready(4,1) t]) (simp add: demo_ready(3) maxCursorScan_def)
  then show ?thesis by (auto simp: Let_def split: prod.splits)
qed



end
