(* ===== verification/Amqp_Wire.thy ===== *)
theory Amqp_Wire
  imports Flux_Prelude
begin

text \<open>
  \<^verbatim>\<open>amqp/codec/types.go\<close>: the elementary types of the AMQP 0-9-1 wire format. A byte is a \<open>char\<close>, as in Go
  strings. A reader consumes a prefix of the bytes it is given; a writer appends to a buffer and may stop
  with an error after it has written part of its output. The writers of the package fail only by
  themselves: the buffer is a \<^verbatim>\<open>bytes.Buffer\<close>. Signed integers and floating-point numbers are kept as
  their bits.
\<close>

type_synonym u8 = "8 word"
type_synonym u32 = "32 word"

datatype codec_error = EOF | UnexpectedEOF | AmqpError int string

definition InternalError :: int where "InternalError = 541"

definition FrameError :: int where "FrameError = 501"

type_synonym 'a reader = "string \<Rightarrow> codec_error + ('a \<times> string)"
type_synonym writer = "string \<Rightarrow> codec_error option \<times> string"


section \<open>Readers and writers\<close>

text \<open>\<^verbatim>\<open>io.ReadFull\<close> for \<open>n\<close> bytes, and the sequencing of reads and of writes, which stops at an error.\<close>

definition read_full :: "nat \<Rightarrow> string reader" where
  "read_full n r =
     (if n \<le> length r then Inr (take n r, drop n r) else Inl (if r = [] then EOF else UnexpectedEOF))"

definition rbind :: "'a reader \<Rightarrow> ('a \<Rightarrow> 'b reader) \<Rightarrow> 'b reader" where
  "rbind p f r = (case p r of Inl err \<Rightarrow> Inl err | Inr (x, r) \<Rightarrow> f x r)"

definition rreturn :: "'a \<Rightarrow> 'a reader" where
  "rreturn x r = Inr (x, r)"

definition rfail :: "codec_error \<Rightarrow> 'a reader" where
  "rfail err r = Inl err"

definition write_bytes :: "string \<Rightarrow> writer" where
  "write_bytes s buf = (None, buf @ s)"

fun write_all :: "writer list \<Rightarrow> writer" where
  "write_all [] buf = (None, buf)"
| "write_all (w # ws) buf = (case w buf of (Some err, buf) \<Rightarrow> (Some err, buf) | (None, buf) \<Rightarrow> write_all ws buf)"

text \<open>Big-endian numbers of \<open>n\<close> bytes, the part of \<^verbatim>\<open>encoding/binary\<close> the package uses.\<close>

definition put_be :: "nat \<Rightarrow> nat \<Rightarrow> string" where
  "put_be n v = map (\<lambda>k. char_of (v div 256 ^ k)) (rev [0..<n])"

definition get_be :: "string \<Rightarrow> nat" where
  "get_be s = fold (\<lambda>c acc. acc * 256 + of_char c) s 0"

definition ReadOctet :: "u8 reader" where
  "ReadOctet = rbind (read_full 1) (\<lambda>b. rreturn (of_char (b ! 0)))"

definition WriteOctet :: "u8 \<Rightarrow> writer" where
  "WriteOctet b = write_bytes [char_of (unat b)]"

definition ReadShort :: "u16 reader" where
  "ReadShort = rbind (read_full 2) (\<lambda>b. rreturn (of_nat (get_be b)))"

definition WriteShort :: "u16 \<Rightarrow> writer" where
  "WriteShort i = write_bytes (put_be 2 (unat i))"

definition ReadLong :: "u32 reader" where
  "ReadLong = rbind (read_full 4) (\<lambda>b. rreturn (of_nat (get_be b)))"

definition WriteLong :: "u32 \<Rightarrow> writer" where
  "WriteLong i = write_bytes (put_be 4 (unat i))"

definition ReadLongLong :: "u64 reader" where
  "ReadLongLong = rbind (read_full 8) (\<lambda>b. rreturn (of_nat (get_be b)))"

definition WriteLongLong :: "u64 \<Rightarrow> writer" where
  "WriteLongLong i = write_bytes (put_be 8 (unat i))"

definition ReadShortStr :: "string reader" where
  "ReadShortStr = rbind ReadOctet (\<lambda>n. read_full (unat n))"

definition WriteShortStr :: "string \<Rightarrow> writer" where
  "WriteShortStr s buf =
     (if length s > 255 then (Some (AmqpError InternalError ''short string too long''), buf)
      else write_all [WriteOctet (of_nat (length s)), write_bytes s] buf)"

definition ReadLongStr :: "string reader" where
  "ReadLongStr = rbind ReadLong (\<lambda>n. read_full (unat n))"

definition WriteLongStr :: "string \<Rightarrow> writer" where
  "WriteLongStr s = write_all [WriteLong (of_nat (length s)), write_bytes s]"


section \<open>Field values\<close>

text \<open>The values of a table; \<open>VOther\<close> is a Go value of a type the package does not support.\<close>

datatype field_value =
  VBool bool
| VInt8 u8
| VByte u8
| VInt16 u16
| VUint16 u16
| VInt32 u32
| VInt int
| VInt64 u64
| VFloat32 u32
| VUint64 u64
| VFloat64 u64
| VDecimal u8 u32
| VString string
| VTable "(string \<times> field_value) list"
| VArray "field_value list"
| VBytes string
| VNil
| VOther

type_synonym field_table = "(string, field_value) gomap"

text \<open>
  The loops over the body of a table and of an array, with the reader of one value as an argument. A value
  takes at least one byte, so as many turns as there are bytes are enough.
\<close>

fun table_loop :: "field_value reader \<Rightarrow> nat \<Rightarrow> string \<Rightarrow> field_table \<Rightarrow> codec_error + field_table" where
  "table_loop rv n [] table = Inr table"
| "table_loop rv 0 b table = Inl EOF"
| "table_loop rv (Suc n) b table =
     (case rbind ReadShortStr (\<lambda>key. rbind rv (\<lambda>value. rreturn (key, value))) b of
        Inl err \<Rightarrow> Inl err
      | Inr ((key, value), b) \<Rightarrow> table_loop rv n b (AList.update key value table))"

fun array_loop :: "field_value reader \<Rightarrow> nat \<Rightarrow> string \<Rightarrow> field_value list \<Rightarrow> codec_error + field_value list" where
  "array_loop rv n [] arr = Inr arr"
| "array_loop rv 0 b arr = Inl EOF"
| "array_loop rv (Suc n) b arr =
     (case rv b of
        Inl err \<Rightarrow> Inl err
      | Inr (value, b) \<Rightarrow> array_loop rv n b (arr @ [value]))"

definition read_table :: "field_value reader \<Rightarrow> field_table reader" where
  "read_table rv =
     rbind ReadLong (\<lambda>n. rbind (read_full (unat n)) (\<lambda>buf r.
       (case table_loop rv (length buf) buf [] of Inl err \<Rightarrow> Inl err | Inr table \<Rightarrow> Inr (table, r))))"

definition read_array :: "field_value reader \<Rightarrow> field_value list reader" where
  "read_array rv =
     rbind ReadLong (\<lambda>n. rbind (read_full (unat n)) (\<lambda>buf r.
       (case array_loop rv (length buf) buf [] of Inl err \<Rightarrow> Inl err | Inr arr \<Rightarrow> Inr (arr, r))))"

definition read_tagged :: "field_value reader \<Rightarrow> char \<Rightarrow> field_value reader" where
  "read_tagged rv fieldType =
     (if fieldType = CHR ''t'' then rbind ReadOctet (\<lambda>b. rreturn (VBool (b = 1)))
      else if fieldType = CHR ''b'' then rbind ReadOctet (\<lambda>v. rreturn (VInt8 v))
      else if fieldType = CHR ''B'' then rbind ReadOctet (\<lambda>v. rreturn (VByte v))
      else if fieldType = CHR ''u'' then rbind ReadShort (\<lambda>v. rreturn (VInt16 v))
      else if fieldType = CHR ''U'' then rbind ReadShort (\<lambda>v. rreturn (VUint16 v))
      else if fieldType = CHR ''I'' then rbind ReadLong (\<lambda>v. rreturn (VInt32 v))
      else if fieldType = CHR ''i'' then rbind ReadLong (\<lambda>v. rreturn (VInt32 v))
      else if fieldType = CHR ''l'' then rbind ReadLongLong (\<lambda>v. rreturn (VInt64 v))
      else if fieldType = CHR ''f'' then rbind ReadLong (\<lambda>v. rreturn (VFloat32 v))
      else if fieldType = CHR ''d'' then rbind ReadLongLong (\<lambda>v. rreturn (VFloat64 v))
      else if fieldType = CHR ''D''
      then rbind ReadOctet (\<lambda>scale. rbind ReadLong (\<lambda>v. rreturn (VDecimal scale v)))
      else if fieldType = CHR ''s'' then rbind ReadShortStr (\<lambda>s. rreturn (VString s))
      else if fieldType = CHR ''S'' then rbind ReadLongStr (\<lambda>s. rreturn (VString s))
      else if fieldType = CHR ''T'' then rbind ReadLongLong (\<lambda>v. rreturn (VUint64 v))
      else if fieldType = CHR ''F'' then rbind (read_table rv) (\<lambda>t. rreturn (VTable t))
      else if fieldType = CHR ''A'' then rbind (read_array rv) (\<lambda>a. rreturn (VArray a))
      else if fieldType = CHR ''V'' then rreturn VNil
      else if fieldType = CHR ''x''
      then rbind ReadLong (\<lambda>n. rbind (read_full (unat n)) (\<lambda>b. rreturn (VBytes b)))
      else rfail (AmqpError FrameError ''unsupported field type''))"

text \<open>
  The recursion through nested tables. A nested value has fewer bytes than the one around it, so a depth of
  as many levels as there are bytes is enough; \<open>ReadFieldValue_unfold\<close> below shows that the readers satisfy
  the equations of the source.
\<close>

fun read_value :: "nat \<Rightarrow> field_value reader" where
  "read_value 0 r = Inl EOF"
| "read_value (Suc d) r = rbind ReadOctet (\<lambda>fieldType. read_tagged (read_value d) (char_of (unat fieldType))) r"

definition ReadFieldValue :: "field_value reader" where
  "ReadFieldValue r = read_value (length r) r"

definition ReadTable :: "field_table reader" where
  "ReadTable = read_table ReadFieldValue"

definition ReadArray :: "field_value list reader" where
  "ReadArray = read_array ReadFieldValue"

definition tag :: "char \<Rightarrow> writer" where
  "tag c = WriteOctet (of_char c)"

text \<open>The bytes of the entries go to a buffer of their own, which is then written behind its length.\<close>

definition write_sized :: "writer \<Rightarrow> writer" where
  "write_sized body buf =
     (case body [] of
        (Some err, _) \<Rightarrow> (Some err, buf)
      | (None, b) \<Rightarrow> write_all [WriteLong (of_nat (length b)), write_bytes b] buf)"

function WriteFieldValue :: "field_value \<Rightarrow> writer"
  and write_entries :: "field_table \<Rightarrow> writer"
  and write_values :: "field_value list \<Rightarrow> writer" where
  "WriteFieldValue (VBool v) = write_all [tag CHR ''t'', WriteOctet (if v then 1 else 0)]"
| "WriteFieldValue (VInt8 v) = write_all [tag CHR ''b'', WriteOctet v]"
| "WriteFieldValue (VByte v) = write_all [tag CHR ''B'', WriteOctet v]"
| "WriteFieldValue (VInt16 v) = write_all [tag CHR ''u'', WriteShort v]"
| "WriteFieldValue (VUint16 v) = write_all [tag CHR ''U'', WriteShort v]"
| "WriteFieldValue (VInt32 v) = write_all [tag CHR ''I'', WriteLong v]"
| "WriteFieldValue (VInt v) = write_all [tag CHR ''I'', WriteLong (word_of_int v)]"
| "WriteFieldValue (VInt64 v) = write_all [tag CHR ''l'', WriteLongLong v]"
| "WriteFieldValue (VFloat32 v) = write_all [tag CHR ''f'', WriteLong v]"
| "WriteFieldValue (VUint64 v) = write_all [tag CHR ''T'', WriteLongLong v]"
| "WriteFieldValue (VFloat64 v) = write_all [tag CHR ''d'', WriteLongLong v]"
| "WriteFieldValue (VDecimal scale v) = write_all [tag CHR ''D'', WriteOctet scale, WriteLong v]"
| "WriteFieldValue (VString s) = write_all [tag CHR ''S'', WriteLongStr s]"
| "WriteFieldValue (VTable t) = write_all [tag CHR ''F'', write_sized (write_entries t)]"
| "WriteFieldValue (VArray a) = write_all [tag CHR ''A'', write_sized (write_values a)]"
| "WriteFieldValue (VBytes b) = write_all [tag CHR ''x'', WriteLong (of_nat (length b)), write_bytes b]"
| "WriteFieldValue VNil = tag CHR ''V''"
| "WriteFieldValue VOther = (\<lambda>buf. (Some (AmqpError FrameError ''unsupported value type''), buf))"
| "write_entries [] = write_all []"
| "write_entries ((key, value) # t) = write_all [WriteShortStr key, WriteFieldValue value, write_entries t]"
| "write_values [] = write_all []"
| "write_values (v # vs) = write_all [WriteFieldValue v, write_values vs]"
  by pat_completeness auto
termination
  by (relation "measure (case_sum size (case_sum (size_list (size_prod (\<lambda>_. 0) size)) (size_list size)))") auto

definition WriteTable :: "field_table \<Rightarrow> writer" where
  "WriteTable t = write_sized (write_entries t)"

definition WriteArray :: "field_value list \<Rightarrow> writer" where
  "WriteArray a = write_sized (write_values a)"


section \<open>The recursion of the readers\<close>

text \<open>A reader that never gives back more than it was given.\<close>

definition shrinks :: "'a reader \<Rightarrow> bool" where
  "shrinks p \<longleftrightarrow> (\<forall>r x r'. p r = Inr (x, r') \<longrightarrow> length r' \<le> length r)"

lemma shrinksD: "shrinks p \<Longrightarrow> p r = Inr (x, r') \<Longrightarrow> length r' \<le> length r"
  by (auto simp: shrinks_def)

lemma shrinks_bind: "shrinks p \<Longrightarrow> (\<And>x. shrinks (f x)) \<Longrightarrow> shrinks (rbind p f)"
  by (fastforce simp: shrinks_def rbind_def split: sum.splits prod.splits intro: order_trans)

lemma shrinks_basic: "shrinks (rreturn x)" "shrinks (rfail err)" "shrinks (read_full n)"
  by (auto simp: shrinks_def rreturn_def rfail_def read_full_def split: if_splits)

lemma shrinks_elementary:
  "shrinks ReadOctet" "shrinks ReadShort" "shrinks ReadLong" "shrinks ReadLongLong" "shrinks ReadShortStr" "shrinks ReadLongStr"
  unfolding ReadOctet_def ReadShort_def ReadLong_def ReadLongLong_def ReadShortStr_def ReadLongStr_def
  by (intro shrinks_bind shrinks_basic)+

lemma shrinks_sized:
  "shrinks (rbind ReadLong (\<lambda>n. rbind (read_full (unat n)) (\<lambda>buf r. case f buf of Inl err \<Rightarrow> Inl err | Inr x \<Rightarrow> Inr (x, r))))"
  by (intro shrinks_bind shrinks_basic shrinks_elementary) (auto simp: shrinks_def split: sum.splits)

lemma shrinks_tagged: "shrinks (read_tagged rv c)"
  unfolding read_tagged_def read_table_def read_array_def
  by (simp add: shrinks_bind shrinks_basic shrinks_elementary shrinks_sized)

lemma shrinks_value: "shrinks (read_value d)"
proof (cases d)
  case (Suc n)
  have "read_value d = rbind ReadOctet (\<lambda>fieldType. read_tagged (read_value n) (char_of (unat fieldType)))"
    by (simp add: Suc fun_eq_iff)
  then show ?thesis by (simp add: shrinks_bind shrinks_tagged shrinks_elementary)
qed (simp add: shrinks_def)

text \<open>Readers of values that agree on short inputs give the same tables and arrays.\<close>

lemma table_loop_cong:
  assumes "\<And>r. length r \<le> l \<Longrightarrow> rv r = rv' r" "shrinks rv"
  shows "length b \<le> l \<Longrightarrow> table_loop rv n b acc = table_loop rv' n b acc"
proof (induction n arbitrary: b acc)
  case 0
  show ?case by (cases b) simp_all
next
  case (Suc n)
  let ?next = "\<lambda>rv. rbind ReadShortStr (\<lambda>key. rbind rv (\<lambda>value. rreturn (key, value))) b"
  have "length r \<le> l" if "ReadShortStr b = Inr (key, r)" for key r
    using shrinksD[OF shrinks_elementary(5) that] Suc.prems by simp
  then have same: "?next rv' = ?next rv"
    using assms(1) by (auto simp: rbind_def split: sum.split prod.split)
  have len: "length r \<le> l" if "?next rv = Inr (x, r)" for x r
    using shrinksD[OF shrinks_bind[OF shrinks_elementary(5) shrinks_bind[OF assms(2) shrinks_basic(1)]] that] Suc.prems by simp
  show ?case
  proof (cases "b = []")
    case False
    then show ?thesis
    proof (cases "?next rv")
      case (Inr y)
      obtain key v r where y: "y = ((key, v), r)" by (cases y) auto
      have "table_loop rv n r (AList.update key v acc) = table_loop rv' n r (AList.update key v acc)"
        by (rule Suc.IH) (use len Inr y in blast)
      then show ?thesis using False same Inr y by (cases b) simp_all
    qed (use same in \<open>cases b; simp\<close>)
  qed simp
qed

lemma array_loop_cong:
  assumes "\<And>r. length r \<le> l \<Longrightarrow> rv r = rv' r" "shrinks rv"
  shows "length b \<le> l \<Longrightarrow> array_loop rv n b acc = array_loop rv' n b acc"
proof (induction n arbitrary: b acc)
  case 0
  show ?case by (cases b) simp_all
next
  case (Suc n)
  have same: "rv' b = rv b" using assms(1) Suc.prems by simp
  have len: "length r \<le> l" if "rv b = Inr (v, r)" for v r
    using shrinksD[OF assms(2) that] Suc.prems by simp
  show ?case
  proof (cases "b = []")
    case False
    then show ?thesis
    proof (cases "rv b")
      case (Inr y)
      obtain v r where y: "y = (v, r)" by (cases y)
      have "array_loop rv n r (acc @ [v]) = array_loop rv' n r (acc @ [v])"
        by (rule Suc.IH) (use len Inr y in blast)
      then show ?thesis using False same Inr y by (cases b) simp_all
    qed (use same in \<open>cases b; simp\<close>)
  qed simp
qed

lemma read_sized_cong:
  assumes "\<And>buf. length buf \<le> length r \<Longrightarrow> f buf = g buf"
  shows "rbind ReadLong (\<lambda>n. rbind (read_full (unat n)) (\<lambda>buf r. case f buf of Inl err \<Rightarrow> Inl err | Inr x \<Rightarrow> Inr (x, r))) r =
    rbind ReadLong (\<lambda>n. rbind (read_full (unat n)) (\<lambda>buf r. case g buf of Inl err \<Rightarrow> Inl err | Inr x \<Rightarrow> Inr (x, r))) r"
proof -
  have "f buf = g buf" if "ReadLong r = Inr (n, r1)" "read_full (unat n) r1 = Inr (buf, r2)" for n r1 buf r2
    using that shrinksD[OF shrinks_elementary(3) that(1)] assms by (auto simp: read_full_def split: if_splits)
  then show ?thesis by (auto simp: rbind_def split: sum.split prod.split)
qed

lemma read_tagged_cong:
  assumes "\<And>s. length s \<le> length r \<Longrightarrow> rv s = rv' s" "shrinks rv"
  shows "read_tagged rv c r = read_tagged rv' c r"
proof -
  have "read_table rv r = read_table rv' r" "read_array rv r = read_array rv' r"
    unfolding read_table_def read_array_def
    by (rule read_sized_cong, rule table_loop_cong[OF assms] array_loop_cong[OF assms]; simp)+
  then have "rbind (read_table rv) (\<lambda>t. rreturn (VTable t)) r = rbind (read_table rv') (\<lambda>t. rreturn (VTable t)) r"
    "rbind (read_array rv) (\<lambda>a. rreturn (VArray a)) r = rbind (read_array rv') (\<lambda>a. rreturn (VArray a)) r"
    by (simp_all add: rbind_def)
  then show ?thesis by (simp add: read_tagged_def)
qed

lemma read_octet_cons: "ReadOctet (c # r) = Inr (of_char c, r)" "ReadOctet [] = Inl EOF"
  by (simp_all add: ReadOctet_def rbind_def read_full_def rreturn_def)

lemma read_value_depth:
  "length r \<le> n \<Longrightarrow> length r \<le> m \<Longrightarrow> read_value n r = read_value m r"
proof (induction n arbitrary: m r)
  case 0
  then show ?case by (cases m) (simp_all add: rbind_def read_octet_cons)
next
  case (Suc n)
  show ?case
  proof (cases r)
    case Nil
    then show ?thesis by (cases m) (simp_all add: rbind_def read_octet_cons)
  next
    case (Cons c s)
    then obtain k where m: "m = Suc k" using Suc.prems(2) by (cases m) auto
    have ls: "length s \<le> n" "length s \<le> k" using Suc.prems Cons m by simp_all
    have "read_value n s' = read_value k s'" if "length s' \<le> length s" for s'
      using Suc.IH[of s' k] that ls by linarith
    then have "read_tagged (read_value n) x s = read_tagged (read_value k) x s" for x
      by (rule read_tagged_cong[OF _ shrinks_value])
    then show ?thesis unfolding m Cons read_value.simps rbind_def read_octet_cons by simp
  qed
qed

lemma ReadFieldValue_unfold:
  "ReadFieldValue = rbind ReadOctet (\<lambda>fieldType. read_tagged ReadFieldValue (char_of (unat fieldType)))"
proof
  fix r
  show "ReadFieldValue r = rbind ReadOctet (\<lambda>fieldType. read_tagged ReadFieldValue (char_of (unat fieldType))) r"
  proof (cases r)
    case (Cons c s)
    have "read_tagged (read_value (length s)) x s = read_tagged ReadFieldValue x s" for x
      by (rule read_tagged_cong[OF _ shrinks_value]) (unfold ReadFieldValue_def, rule read_value_depth, simp_all)
    moreover have "ReadFieldValue r = read_value (Suc (length s)) (c # s)" by (simp add: Cons ReadFieldValue_def)
    ultimately show ?thesis unfolding Cons read_value.simps rbind_def read_octet_cons by simp
  qed (simp add: ReadFieldValue_def rbind_def read_octet_cons)
qed


section \<open>Round trips\<close>

text \<open>
  A writer that always writes \<open>s\<close>, a reader that takes exactly \<open>s\<close> for \<open>x\<close>, and a writer and a reader
  that fit together on \<open>x\<close>.
\<close>

definition emits :: "writer \<Rightarrow> string \<Rightarrow> bool" where
  "emits w s \<longleftrightarrow> (\<forall>buf. w buf = (None, buf @ s))"

definition reads :: "'a reader \<Rightarrow> string \<Rightarrow> 'a \<Rightarrow> bool" where
  "reads p s x \<longleftrightarrow> (\<forall>rest. p (s @ rest) = Inr (x, rest))"

definition carries :: "writer \<Rightarrow> 'a reader \<Rightarrow> 'a \<Rightarrow> bool" where
  "carries w p x \<longleftrightarrow> (\<exists>s. emits w s \<and> reads p s x)"

lemma carriesI: "emits w s \<Longrightarrow> reads p s x \<Longrightarrow> carries w p x"
  by (auto simp: carries_def)

lemma emits_all: "emits (write_all []) []" "emits w s \<Longrightarrow> emits (write_all ws) t \<Longrightarrow> emits (write_all (w # ws)) (s @ t)"
  by (simp_all add: emits_def)

lemma emits_bytes: "emits (write_bytes s) s"
  by (simp add: emits_def write_bytes_def)

lemma reads_bind: "reads p s x \<Longrightarrow> reads (f x) t y \<Longrightarrow> reads (rbind p f) (s @ t) y"
  by (simp add: reads_def rbind_def)

lemma reads_return: "reads (rreturn x) [] x"
  by (simp add: reads_def rreturn_def)

lemma reads_full: "reads (read_full (length s)) s s"
  by (simp add: reads_def read_full_def)

text \<open>The steps of a method: one field after the other, ended by the method itself.\<close>

lemma carries_step:
  assumes "carries w p x" "carries (write_all ws) (f x) y"
  shows "carries (write_all (w # ws)) (rbind p f) y"
proof -
  obtain s t where "emits w s" "reads p s x" "emits (write_all ws) t" "reads (f x) t y"
    using assms by (auto simp: carries_def)
  then have "emits (write_all (w # ws)) (s @ t)" "reads (rbind p f) (s @ t) y"
    by (simp_all add: emits_all(2) reads_bind)
  then show ?thesis by (rule carriesI)
qed

lemma carries_done: "carries (write_all []) (rreturn x) x"
  by (rule carriesI[OF emits_all(1) reads_return])

text \<open>Numbers.\<close>

lemma fold_be:
  "fold (\<lambda>c acc. acc * 256 + of_char c) s a = a * 256 ^ length s + get_be s"
proof (induction s arbitrary: a)
  case (Cons c s)
  have "fold (\<lambda>c acc. acc * 256 + of_char c) (c # s) x = (x * 256 + of_char c) * 256 ^ length s + get_be s" for x
    using Cons.IH[of "x * 256 + of_char c"] by simp
  from this[of a] this[of 0] show ?case unfolding get_be_def[of "c # s"] by (simp add: algebra_simps)
qed (simp add: get_be_def)

lemma get_be_Cons: "get_be (c # s) = of_char c * 256 ^ length s + get_be s"
  using fold_be[of s "of_char c"] by (simp add: get_be_def)

lemma put_be_Suc: "put_be (Suc n) v = char_of (v div 256 ^ n) # put_be n v"
  by (simp add: put_be_def)

lemma length_put_be [simp]: "length (put_be n v) = n"
  by (simp add: put_be_def)

lemma get_put_be: "get_be (put_be n v) = v mod 256 ^ n"
proof (induction n)
  case 0
  show ?case by (simp add: put_be_def get_be_def)
next
  case (Suc n)
  have "v mod (256 ^ n * 256) = 256 ^ n * (v div 256 ^ n mod 256) + v mod 256 ^ n" by (rule mod_mult2_eq)
  then show ?case by (simp add: put_be_Suc get_be_Cons Suc mult.commute)
qed

lemma get_put_word: "256 ^ n = (2 :: nat) ^ LENGTH('a) \<Longrightarrow> of_nat (get_be (put_be n (unat w))) = (w :: 'a::len word)"
  using unsigned_less[of w, where 'a = nat] by (simp add: get_put_be)

lemma carries_word:
  assumes "256 ^ n = (2 :: nat) ^ LENGTH('a)"
  shows "carries (write_bytes (put_be n (unat w))) (rbind (read_full n) (\<lambda>b. rreturn (of_nat (get_be b)))) (w :: 'a::len word)"
proof -
  have "reads (rbind (read_full n) (\<lambda>b. rreturn (of_nat (get_be b)))) (put_be n (unat w) @ []) w"
    by (rule reads_bind[where x = "put_be n (unat w)"])
       (use reads_full[of "put_be n (unat w)"] reads_return in \<open>simp_all add: get_put_word[OF assms]\<close>)
  then show ?thesis by (intro carriesI[OF emits_bytes]) simp
qed

lemma octet_char: "of_char (char_of (unat (b :: u8)) :: char) = b"
proof -
  have "of_char (char_of (unat b) :: char) = (of_nat (of_char (char_of (unat b) :: char)) :: u8)" by (simp only: of_nat_of_char)
  also have "\<dots> = of_nat (unat b mod 256)" by (simp only: of_char_of)
  finally show ?thesis using unsigned_less[of b, where 'a = nat] by simp
qed

lemma char_octet: "char_of (unat (of_char c :: u8)) = c"
proof -
  have "unat (of_nat (of_char c) :: u8) = of_char c" using nat_of_char_less_256[of c] by (simp add: unat_of_nat)
  then have "unat (of_char c :: u8) = of_char c" by (simp only: of_nat_of_char)
  then show ?thesis by simp
qed

lemma carries_octet: "carries (WriteOctet b) ReadOctet b"
proof -
  have "reads ReadOctet [char_of (unat b)] b"
    by (simp add: reads_def read_octet_cons octet_char)
  then show ?thesis unfolding WriteOctet_def by (rule carriesI[OF emits_bytes])
qed

lemma carries_numbers:
  "carries (WriteShort a) ReadShort a" "carries (WriteLong b) ReadLong b" "carries (WriteLongLong c) ReadLongLong c"
  unfolding WriteShort_def ReadShort_def WriteLong_def ReadLong_def WriteLongLong_def ReadLongLong_def
  by (simp_all add: carries_word)

text \<open>Strings.\<close>

lemma carries_string:
  assumes "carries w p n" "f n = length s"
  shows "carries (write_all [w, write_bytes s]) (rbind p (\<lambda>n. read_full (f n))) s"
proof -
  obtain t where t: "emits w t" "reads p t n" using assms(1) by (auto simp: carries_def)
  have "emits (write_all [w, write_bytes s]) (t @ s @ [])"
    by (intro emits_all emits_bytes t(1))
  moreover have "reads (rbind p (\<lambda>n. read_full (f n))) (t @ s) s"
    by (rule reads_bind[OF t(2)]) (simp add: assms(2) reads_full)
  ultimately show ?thesis by (auto simp: carries_def)
qed

lemma carries_short_string: "length s \<le> 255 \<Longrightarrow> carries (WriteShortStr s) ReadShortStr s"
proof -
  assume s: "length s \<le> 255"
  then have "WriteShortStr s = write_all [WriteOctet (of_nat (length s)), write_bytes s]"
    by (simp add: WriteShortStr_def fun_eq_iff)
  with s show ?thesis
    unfolding ReadShortStr_def using carries_string[OF carries_octet, of unat "of_nat (length s)" s] by (simp add: unat_of_nat)
qed

lemma carries_long_string: "length s < 2 ^ 32 \<Longrightarrow> carries (WriteLongStr s) ReadLongStr s"
  unfolding ReadLongStr_def WriteLongStr_def
  using carries_string[OF carries_numbers(2), of unat "of_nat (length s)" s] by (simp add: unat_of_nat)


section \<open>Values, tables and arrays\<close>

text \<open>
  What a reader makes of a written value: Go's \<^verbatim>\<open>int\<close> goes over the wire as 32 bits. A value that fits is one
  whose strings and nested tables are not too long for their length fields and whose keys are distinct, as
  those of a Go map are.
\<close>

primrec canon :: "field_value \<Rightarrow> field_value" where
  "canon (VBool v) = VBool v"
| "canon (VInt8 v) = VInt8 v"
| "canon (VByte v) = VByte v"
| "canon (VInt16 v) = VInt16 v"
| "canon (VUint16 v) = VUint16 v"
| "canon (VInt32 v) = VInt32 v"
| "canon (VInt v) = VInt32 (word_of_int v)"
| "canon (VInt64 v) = VInt64 v"
| "canon (VFloat32 v) = VFloat32 v"
| "canon (VUint64 v) = VUint64 v"
| "canon (VFloat64 v) = VFloat64 v"
| "canon (VDecimal scale v) = VDecimal scale v"
| "canon (VString s) = VString s"
| "canon (VTable t) = VTable (map (map_prod id canon) t)"
| "canon (VArray a) = VArray (map canon a)"
| "canon (VBytes b) = VBytes b"
| "canon VNil = VNil"
| "canon VOther = VOther"

primrec fits :: "field_value \<Rightarrow> bool" where
  "fits (VBool v) = True"
| "fits (VInt8 v) = True"
| "fits (VByte v) = True"
| "fits (VInt16 v) = True"
| "fits (VUint16 v) = True"
| "fits (VInt32 v) = True"
| "fits (VInt v) = True"
| "fits (VInt64 v) = True"
| "fits (VFloat32 v) = True"
| "fits (VUint64 v) = True"
| "fits (VFloat64 v) = True"
| "fits (VDecimal scale v) = True"
| "fits (VString s) = (length s < 2 ^ 32)"
| "fits (VTable t) =
     (list_all (\<lambda>(key, ok). length key \<le> 255 \<and> ok) (map (map_prod id fits) t) \<and> distinct (map fst t) \<and>
      length (snd (write_entries t [])) < 2 ^ 32)"
| "fits (VArray a) = (list_all id (map fits a) \<and> length (snd (write_values a [])) < 2 ^ 32)"
| "fits (VBytes b) = (length b < 2 ^ 32)"
| "fits VNil = True"
| "fits VOther = False"

definition table_fits :: "field_table \<Rightarrow> bool" where
  "table_fits t \<longleftrightarrow>
     (\<forall>(key, v) \<in> set t. length key \<le> 255 \<and> fits v) \<and> distinct (map fst t) \<and> length (snd (write_entries t [])) < 2 ^ 32"

definition canon_table :: "field_table \<Rightarrow> field_table" where
  "canon_table t = map (map_prod id canon) t"

lemma fits_table: "fits (VTable t) \<longleftrightarrow> table_fits t"
  by (auto simp: table_fits_def list_all_iff)

lemma fits_array: "fits (VArray a) \<longleftrightarrow> (\<forall>v \<in> set a. fits v) \<and> length (snd (write_values a [])) < 2 ^ 32"
  by (simp add: list_all_iff)

text \<open>A value is its tag and what follows.\<close>

lemma ReadFieldValue_cons: "ReadFieldValue (c # r) = read_tagged ReadFieldValue c r"
  by (subst ReadFieldValue_unfold) (simp add: rbind_def read_octet_cons char_octet)

lemma reads_tagged: "reads (read_tagged ReadFieldValue c) s x \<Longrightarrow> reads ReadFieldValue (c # s) x"
  by (simp add: reads_def ReadFieldValue_cons)

lemma emits_tag: "emits (tag c) [c]"
  by (simp add: tag_def WriteOctet_def emits_def write_bytes_def char_octet)

definition conveys :: "field_value \<Rightarrow> bool" where
  "conveys v \<longleftrightarrow> (\<exists>s. s \<noteq> [] \<and> emits (WriteFieldValue v) s \<and> reads ReadFieldValue s (canon v))"

lemma conveysI:
  assumes "WriteFieldValue v = write_all (tag c # ws)" "carries (write_all ws) (read_tagged ReadFieldValue c) (canon v)"
  shows "conveys v"
proof -
  obtain s where s: "emits (write_all ws) s" "reads (read_tagged ReadFieldValue c) s (canon v)"
    using assms(2) by (auto simp: carries_def)
  have "emits (WriteFieldValue v) ([c] @ s)" unfolding assms(1) by (rule emits_all(2)[OF emits_tag s(1)])
  then show ?thesis using reads_tagged[OF s(2)] by (auto simp: conveys_def)
qed

lemma conveys_one:
  assumes "WriteFieldValue v = write_all [tag c, w]" "read_tagged ReadFieldValue c = rbind p (\<lambda>x. rreturn (f x))"
    "carries w p x" "canon v = f x"
  shows "conveys v"
  by (rule conveysI[where ws = "[w]", OF assms(1)]) (simp only: assms(2,4) carries_step[OF assms(3) carries_done])

text \<open>A sized block: the length, then the bytes.\<close>

lemma carries_sized:
  assumes "emits body b" "length b < 2 ^ 32" "f b = Inr x"
  shows "carries (write_sized body) (rbind ReadLong (\<lambda>n. rbind (read_full (unat n)) (\<lambda>buf r.
      case f buf of Inl err \<Rightarrow> Inl err | Inr x \<Rightarrow> Inr (x, r)))) x"
proof -
  have w: "write_sized body = write_all [WriteLong (of_nat (length b)), write_bytes b]"
    using assms(1) by (simp add: write_sized_def emits_def fun_eq_iff)
  obtain t where t: "emits (WriteLong (of_nat (length b))) t" "reads ReadLong t (of_nat (length b))"
    using carries_numbers(2)[of "of_nat (length b)"] by (auto simp: carries_def)
  have n: "unat (of_nat (length b) :: u32) = length b" using assms(2) by (simp add: unat_of_nat)
  have inner: "reads (\<lambda>r. case f b of Inl err \<Rightarrow> Inl err | Inr x \<Rightarrow> Inr (x, r)) [] x" by (simp add: reads_def assms(3))
  have "emits (write_sized body) (t @ b @ [])" unfolding w by (intro emits_all emits_bytes t(1))
  moreover have "reads (rbind ReadLong (\<lambda>n. rbind (read_full (unat n)) (\<lambda>buf r.
      case f buf of Inl err \<Rightarrow> Inl err | Inr x \<Rightarrow> Inr (x, r)))) (t @ b @ []) x"
    by (rule reads_bind[OF t(2)], unfold n, rule reads_bind[OF reads_full]) (rule inner)
  ultimately show ?thesis by (rule carriesI)
qed

lemma update_fresh: "key \<notin> fst ` set al \<Longrightarrow> AList.update key v al = al @ [(key, v)]"
  by (induction al) auto

text \<open>What the loops make of the written entries.\<close>

definition table_loops :: "field_table \<Rightarrow> string \<Rightarrow> bool" where
  "table_loops t s \<longleftrightarrow> (\<forall>n acc. length s \<le> n \<longrightarrow> distinct (map fst acc @ map fst t) \<longrightarrow>
     table_loop ReadFieldValue n s acc = Inr (acc @ canon_table t))"

definition array_loops :: "field_value list \<Rightarrow> string \<Rightarrow> bool" where
  "array_loops a s \<longleftrightarrow> (\<forall>n acc. length s \<le> n \<longrightarrow> array_loop ReadFieldValue n s acc = Inr (acc @ map canon a))"

lemma table_loops_Cons:
  assumes "reads ReadShortStr ks key" "reads ReadFieldValue vs (canon v)" "vs \<noteq> []" "table_loops t s"
  shows "table_loops ((key, v) # t) (ks @ vs @ s)"
  unfolding table_loops_def
proof (intro allI impI)
  fix n and acc :: field_table assume n: "length (ks @ vs @ s) \<le> n" and d: "distinct (map fst acc @ map fst ((key, v) # t))"
  let ?b = "ks @ vs @ s"
  have ne: "?b \<noteq> []" using assms(3) by simp
  obtain k where k: "n = Suc k" "length s \<le> k" using n assms(3) by (cases n) (auto simp: Suc_le_eq neq_Nil_conv)
  have nxt: "rbind ReadShortStr (\<lambda>key. rbind ReadFieldValue (\<lambda>value. rreturn (key, value))) ?b = Inr ((key, canon v), s)"
    using assms(1,2) by (simp add: reads_def rbind_def rreturn_def)
  have "table_loop ReadFieldValue n ?b acc = table_loop ReadFieldValue k s (acc @ [(key, canon v)])"
    using ne nxt k(1) d by (cases ?b) (simp_all add: update_fresh)
  then show "table_loop ReadFieldValue n ?b acc = Inr (acc @ canon_table ((key, v) # t))"
    using assms(4) k(2) d by (simp add: table_loops_def canon_table_def)
qed

lemma array_loops_Cons:
  assumes "reads ReadFieldValue vs (canon v)" "vs \<noteq> []" "array_loops a s"
  shows "array_loops (v # a) (vs @ s)"
  unfolding array_loops_def
proof (intro allI impI)
  fix n acc assume n: "length (vs @ s) \<le> n"
  have ne: "vs @ s \<noteq> []" using assms(2) by simp
  obtain k where k: "n = Suc k" "length s \<le> k" using n assms(2) by (cases n) (auto simp: Suc_le_eq neq_Nil_conv)
  have nxt: "ReadFieldValue (vs @ s) = Inr (canon v, s)" using assms(1) by (simp add: reads_def)
  have "array_loop ReadFieldValue n (vs @ s) acc = array_loop ReadFieldValue k s (acc @ [canon v])"
    using ne nxt k(1) by (cases "vs @ s") simp_all
  then show "array_loop ReadFieldValue n (vs @ s) acc = Inr (acc @ map canon (v # a))"
    using assms(3) k(2) by (simp add: array_loops_def)
qed

lemma carries_table_loops:
  assumes "emits (write_entries t) s" "table_loops t s" "table_fits t"
  shows "carries (write_sized (write_entries t)) (read_table ReadFieldValue) (canon_table t)"
proof -
  have "length s < 2 ^ 32" using assms(1,3) by (simp add: emits_def table_fits_def)
  moreover have "table_loop ReadFieldValue (length s) s [] = Inr (canon_table t)"
    using assms(2,3) by (simp add: table_loops_def table_fits_def)
  ultimately show ?thesis unfolding read_table_def by (rule carries_sized[OF assms(1)])
qed

lemma carries_array_loops:
  assumes "emits (write_values a) s" "array_loops a s" "length (snd (write_values a [])) < 2 ^ 32"
  shows "carries (write_sized (write_values a)) (read_array ReadFieldValue) (map canon a)"
proof -
  have "length s < 2 ^ 32" using assms(1,3) by (simp add: emits_def)
  moreover have "array_loop ReadFieldValue (length s) s [] = Inr (map canon a)"
    using assms(2) by (simp add: array_loops_def)
  ultimately show ?thesis unfolding read_array_def by (rule carries_sized[OF assms(1)])
qed

lemma conveys_all:
  "fits v \<Longrightarrow> conveys v"
  "(\<forall>(key, v) \<in> set t. length key \<le> 255 \<and> fits v) \<Longrightarrow> \<exists>s. emits (write_entries t) s \<and> table_loops t s"
  "(\<forall>v \<in> set a. fits v) \<Longrightarrow> \<exists>s. emits (write_values a) s \<and> array_loops a s"
proof (induction v and t and a rule: WriteFieldValue_write_entries_write_values.induct)
  case (1 v)
  have "carries (WriteOctet (if v then 1 else 0)) ReadOctet (if v then 1 else 0)" by (rule carries_octet)
  then show ?case
    by (rule conveys_one[where c = "CHR ''t''" and f = "\<lambda>b. VBool (b = 1)", rotated 2]) (simp_all add: read_tagged_def)
next
  case (2 v) show ?case
    by (rule conveys_one[where c = "CHR ''b''" and f = VInt8, OF _ _ carries_octet]) (simp_all add: read_tagged_def)
next
  case (3 v) show ?case
    by (rule conveys_one[where c = "CHR ''B''" and f = VByte, OF _ _ carries_octet]) (simp_all add: read_tagged_def)
next
  case (4 v) show ?case
    by (rule conveys_one[where c = "CHR ''u''" and f = VInt16, OF _ _ carries_numbers(1)]) (simp_all add: read_tagged_def)
next
  case (5 v) show ?case
    by (rule conveys_one[where c = "CHR ''U''" and f = VUint16, OF _ _ carries_numbers(1)]) (simp_all add: read_tagged_def)
next
  case (6 v) show ?case
    by (rule conveys_one[where c = "CHR ''I''" and f = VInt32, OF _ _ carries_numbers(2)]) (simp_all add: read_tagged_def)
next
  case (7 v) show ?case
    by (rule conveys_one[where c = "CHR ''I''" and f = VInt32, OF _ _ carries_numbers(2)]) (simp_all add: read_tagged_def)
next
  case (8 v) show ?case
    by (rule conveys_one[where c = "CHR ''l''" and f = VInt64, OF _ _ carries_numbers(3)]) (simp_all add: read_tagged_def)
next
  case (9 v) show ?case
    by (rule conveys_one[where c = "CHR ''f''" and f = VFloat32, OF _ _ carries_numbers(2)]) (simp_all add: read_tagged_def)
next
  case (10 v) show ?case
    by (rule conveys_one[where c = "CHR ''T''" and f = VUint64, OF _ _ carries_numbers(3)]) (simp_all add: read_tagged_def)
next
  case (11 v) show ?case
    by (rule conveys_one[where c = "CHR ''d''" and f = VFloat64, OF _ _ carries_numbers(3)]) (simp_all add: read_tagged_def)
next
  case (12 scale v)
  have "carries (write_all [WriteOctet scale, WriteLong v])
      (rbind ReadOctet (\<lambda>scale. rbind ReadLong (\<lambda>v. rreturn (VDecimal scale v)))) (VDecimal scale v)"
    by (intro carries_step[OF carries_octet] carries_step[OF carries_numbers(2)] carries_done)
  then show ?case
    by (intro conveysI[where c = "CHR ''D''" and ws = "[WriteOctet scale, WriteLong v]"]) (simp_all add: read_tagged_def)
next
  case (13 s)
  then show ?case by (intro conveys_one[where c = "CHR ''S''" and f = VString, OF _ _ carries_long_string]) (simp_all add: read_tagged_def)
next
  case (14 t)
  then have fit: "table_fits t" by (simp only: fits_table)
  then obtain s where "emits (write_entries t) s" "table_loops t s" using 14(1) by (auto simp: table_fits_def)
  from carries_table_loops[OF this fit] show ?case
    by (rule conveys_one[where c = "CHR ''F''" and f = VTable, rotated 2]) (simp_all add: read_tagged_def canon_table_def)
next
  case (15 a)
  have fit: "\<forall>v \<in> set a. fits v" "length (snd (write_values a [])) < 2 ^ 32" using 15(2)[unfolded fits_array] by blast+
  then obtain s where "emits (write_values a) s" "array_loops a s" using 15(1) by blast
  from carries_array_loops[OF this fit(2)] show ?case
    by (rule conveys_one[where c = "CHR ''A''" and f = VArray, rotated 2]) (simp_all add: read_tagged_def)
next
  case (16 b)
  have n: "unat (of_nat (length b) :: u32) = length b" using 16 by (simp add: unat_of_nat)
  have inner: "carries (write_all [write_bytes b]) (rbind (read_full (unat (of_nat (length b) :: u32))) (\<lambda>b. rreturn (VBytes b))) (VBytes b)"
    unfolding n by (rule carries_step[OF carriesI[OF emits_bytes reads_full] carries_done])
  have "carries (write_all [WriteLong (of_nat (length b)), write_bytes b])
      (rbind ReadLong (\<lambda>n. rbind (read_full (unat n)) (\<lambda>b. rreturn (VBytes b)))) (VBytes b)"
    by (rule carries_step[OF carries_numbers(2)]) (rule inner)
  then show ?case
    by (intro conveysI[where c = "CHR ''x''" and ws = "[WriteLong (of_nat (length b)), write_bytes b]"]) (simp_all add: read_tagged_def)
next
  case 17
  have "reads ReadFieldValue [CHR ''V''] VNil" by (rule reads_tagged) (simp add: read_tagged_def reads_return)
  then show ?case using emits_tag by (auto simp: conveys_def intro!: exI[of _ "''V''"])
next
  case (20 key v t)
  obtain ks where ks: "emits (WriteShortStr key) ks" "reads ReadShortStr ks key"
    using carries_short_string[of key] 20(3) by (auto simp: carries_def)
  obtain vs where vs: "vs \<noteq> []" "emits (WriteFieldValue v) vs" "reads ReadFieldValue vs (canon v)"
    using 20(1,3) by (auto simp: conveys_def)
  obtain s where s: "emits (write_entries t) s" "table_loops t s" using 20(2,3) by auto
  have "emits (write_entries ((key, v) # t)) (ks @ vs @ s @ [])"
    unfolding write_entries.simps by (intro emits_all ks(1) vs(2) s(1))
  then show ?case using table_loops_Cons[OF ks(2) vs(3,1) s(2)] by (metis append_Nil2)
next
  case (22 v a)
  obtain vs where vs: "vs \<noteq> []" "emits (WriteFieldValue v) vs" "reads ReadFieldValue vs (canon v)"
    using 22(1,3) by (auto simp: conveys_def)
  obtain s where s: "emits (write_values a) s" "array_loops a s" using 22(2,3) by auto
  have "emits (write_values (v # a)) (vs @ s @ [])"
    unfolding write_values.simps by (intro emits_all vs(2) s(1))
  then show ?case using array_loops_Cons[OF vs(3,1) s(2)] by (metis append_Nil2)
qed (auto simp: emits_all(1) table_loops_def array_loops_def canon_table_def intro!: exI[of _ "[]"])

lemma carries_value: "fits v \<Longrightarrow> carries (WriteFieldValue v) ReadFieldValue (canon v)"
  using conveys_all(1) by (auto simp: conveys_def carries_def)

lemma carries_table: "table_fits t \<Longrightarrow> carries (WriteTable t) ReadTable (canon_table t)"
  unfolding WriteTable_def ReadTable_def using conveys_all(2)[of t] carries_table_loops by (auto simp: table_fits_def)

lemmas carries_fields =
  carries_step[OF carries_octet] carries_step[OF carries_numbers(1)] carries_step[OF carries_numbers(2)]
  carries_step[OF carries_numbers(3)] carries_step[OF carries_short_string] carries_step[OF carries_long_string]
  carries_step[OF carries_table] carries_done

end
