(* ===== verification/Amqp_Methods.thy ===== *)
theory Amqp_Methods
  imports Amqp_Wire
begin

text \<open>
  \<^verbatim>\<open>amqp/codec/methods.go\<close> and the dispatch of \<^verbatim>\<open>amqp/codec/frame.go\<close>: the 60 methods of the AMQP 0-9-1
  classes with their \<^verbatim>\<open>Read\<close> and \<^verbatim>\<open>Write\<close>. A class is a datatype whose constructors are the Go structs, with the
  fields in the order of the struct. \<^verbatim>\<open>Write\<close> sends the reserved and deprecated fields as zero or as the empty
  string; \<^verbatim>\<open>Read\<close> does not read the two identifiers, which the dispatch has consumed.
\<close>

unbundle bit_operations_syntax

named_theorems amqp_ids \<open>the identifiers of the classes and of their methods\<close>

definition bit_if :: "bool \<Rightarrow> u8 \<Rightarrow> u8" where
  "bit_if b m = (if b then m else 0)"

definition has_bit :: "u8 \<Rightarrow> u8 \<Rightarrow> bool" where
  "has_bit bits m \<longleftrightarrow> bits AND m \<noteq> 0"

section \<open>Class Connection\<close>

definition ClassConnection :: u16 where [amqp_ids]: "ClassConnection = 10"

definition MethodConnectionStart :: u16 where [amqp_ids]: "MethodConnectionStart = 10"

definition MethodConnectionStartOk :: u16 where [amqp_ids]: "MethodConnectionStartOk = 11"

definition MethodConnectionSecure :: u16 where [amqp_ids]: "MethodConnectionSecure = 20"

definition MethodConnectionSecureOk :: u16 where [amqp_ids]: "MethodConnectionSecureOk = 21"

definition MethodConnectionTune :: u16 where [amqp_ids]: "MethodConnectionTune = 30"

definition MethodConnectionTuneOk :: u16 where [amqp_ids]: "MethodConnectionTuneOk = 31"

definition MethodConnectionOpen :: u16 where [amqp_ids]: "MethodConnectionOpen = 40"

definition MethodConnectionOpenOk :: u16 where [amqp_ids]: "MethodConnectionOpenOk = 41"

definition MethodConnectionClose :: u16 where [amqp_ids]: "MethodConnectionClose = 50"

definition MethodConnectionCloseOk :: u16 where [amqp_ids]: "MethodConnectionCloseOk = 51"

datatype connection_method =
  ConnectionStart u8 u8 field_table string string
| ConnectionStartOk field_table string string string
| ConnectionSecure string
| ConnectionSecureOk string
| ConnectionTune u16 u32 u16
| ConnectionTuneOk u16 u32 u16
| ConnectionOpen string string bool
| ConnectionOpenOk string
| ConnectionClose u16 string u16 u16
| ConnectionCloseOk

definition ConnectionStart_Read :: "connection_method reader" where
  "ConnectionStart_Read =
     rbind ReadOctet (\<lambda>versionMajor. rbind ReadOctet (\<lambda>versionMinor.
     rbind ReadTable (\<lambda>serverProperties. rbind ReadLongStr (\<lambda>mechanisms.
     rbind ReadLongStr (\<lambda>locales.
     rreturn (ConnectionStart versionMajor versionMinor serverProperties mechanisms locales))))))"

definition ConnectionStart_Write :: "u8 \<Rightarrow> u8 \<Rightarrow> field_table \<Rightarrow> string \<Rightarrow> string \<Rightarrow> writer" where
  "ConnectionStart_Write versionMajor versionMinor serverProperties mechanisms locales =
     write_all [WriteShort ClassConnection, WriteShort MethodConnectionStart, WriteOctet versionMajor,
       WriteOctet versionMinor, WriteTable serverProperties, WriteLongStr mechanisms, WriteLongStr locales]"

definition ConnectionStartOk_Read :: "connection_method reader" where
  "ConnectionStartOk_Read =
     rbind ReadTable (\<lambda>clientProperties. rbind ReadShortStr (\<lambda>mechanism.
     rbind ReadLongStr (\<lambda>response. rbind ReadShortStr (\<lambda>locale.
     rreturn (ConnectionStartOk clientProperties mechanism response locale)))))"

definition ConnectionStartOk_Write :: "field_table \<Rightarrow> string \<Rightarrow> string \<Rightarrow> string \<Rightarrow> writer" where
  "ConnectionStartOk_Write clientProperties mechanism response locale =
     write_all [WriteShort ClassConnection, WriteShort MethodConnectionStartOk, WriteTable clientProperties,
       WriteShortStr mechanism, WriteLongStr response, WriteShortStr locale]"

definition ConnectionSecure_Read :: "connection_method reader" where
  "ConnectionSecure_Read =
     rbind ReadLongStr (\<lambda>challenge. rreturn (ConnectionSecure challenge))"

definition ConnectionSecure_Write :: "string \<Rightarrow> writer" where
  "ConnectionSecure_Write challenge =
     write_all [WriteShort ClassConnection, WriteShort MethodConnectionSecure, WriteLongStr challenge]"

definition ConnectionSecureOk_Read :: "connection_method reader" where
  "ConnectionSecureOk_Read =
     rbind ReadLongStr (\<lambda>response. rreturn (ConnectionSecureOk response))"

definition ConnectionSecureOk_Write :: "string \<Rightarrow> writer" where
  "ConnectionSecureOk_Write response =
     write_all [WriteShort ClassConnection, WriteShort MethodConnectionSecureOk, WriteLongStr response]"

definition ConnectionTune_Read :: "connection_method reader" where
  "ConnectionTune_Read =
     rbind ReadShort (\<lambda>channelMax. rbind ReadLong (\<lambda>frameMax.
     rbind ReadShort (\<lambda>heartbeat. rreturn (ConnectionTune channelMax frameMax heartbeat))))"

definition ConnectionTune_Write :: "u16 \<Rightarrow> u32 \<Rightarrow> u16 \<Rightarrow> writer" where
  "ConnectionTune_Write channelMax frameMax heartbeat =
     write_all [WriteShort ClassConnection, WriteShort MethodConnectionTune, WriteShort channelMax, WriteLong frameMax,
       WriteShort heartbeat]"

definition ConnectionTuneOk_Read :: "connection_method reader" where
  "ConnectionTuneOk_Read =
     rbind ReadShort (\<lambda>channelMax. rbind ReadLong (\<lambda>frameMax.
     rbind ReadShort (\<lambda>heartbeat. rreturn (ConnectionTuneOk channelMax frameMax heartbeat))))"

definition ConnectionTuneOk_Write :: "u16 \<Rightarrow> u32 \<Rightarrow> u16 \<Rightarrow> writer" where
  "ConnectionTuneOk_Write channelMax frameMax heartbeat =
     write_all [WriteShort ClassConnection, WriteShort MethodConnectionTuneOk, WriteShort channelMax,
       WriteLong frameMax, WriteShort heartbeat]"

definition ConnectionOpen_Read :: "connection_method reader" where
  "ConnectionOpen_Read =
     rbind ReadShortStr (\<lambda>virtualHost. rbind ReadShortStr (\<lambda>capabilities.
     rbind ReadOctet (\<lambda>bits. rreturn (ConnectionOpen virtualHost capabilities (has_bit bits 1)))))"

definition ConnectionOpen_Write :: "string \<Rightarrow> string \<Rightarrow> bool \<Rightarrow> writer" where
  "ConnectionOpen_Write virtualHost capabilities insist =
     write_all [WriteShort ClassConnection, WriteShort MethodConnectionOpen, WriteShortStr virtualHost,
       WriteShortStr [], WriteOctet (bit_if insist 1)]"

definition ConnectionOpenOk_Read :: "connection_method reader" where
  "ConnectionOpenOk_Read =
     rbind ReadShortStr (\<lambda>knownHosts. rreturn (ConnectionOpenOk knownHosts))"

definition ConnectionOpenOk_Write :: "string \<Rightarrow> writer" where
  "ConnectionOpenOk_Write knownHosts =
     write_all [WriteShort ClassConnection, WriteShort MethodConnectionOpenOk, WriteShortStr []]"

definition ConnectionClose_Read :: "connection_method reader" where
  "ConnectionClose_Read =
     rbind ReadShort (\<lambda>replyCode. rbind ReadShortStr (\<lambda>replyText.
     rbind ReadShort (\<lambda>classID. rbind ReadShort (\<lambda>methodID.
     rreturn (ConnectionClose replyCode replyText classID methodID)))))"

definition ConnectionClose_Write :: "u16 \<Rightarrow> string \<Rightarrow> u16 \<Rightarrow> u16 \<Rightarrow> writer" where
  "ConnectionClose_Write replyCode replyText classID methodID =
     write_all [WriteShort ClassConnection, WriteShort MethodConnectionClose, WriteShort replyCode,
       WriteShortStr replyText, WriteShort classID, WriteShort methodID]"

definition ConnectionCloseOk_Read :: "connection_method reader" where
  "ConnectionCloseOk_Read =
     rreturn ConnectionCloseOk"

definition ConnectionCloseOk_Write :: "writer" where
  "ConnectionCloseOk_Write =
     write_all [WriteShort ClassConnection, WriteShort MethodConnectionCloseOk]"

definition decode_connection :: "u16 \<Rightarrow> connection_method reader" where
  "decode_connection methodID =
     (if methodID = MethodConnectionStart then ConnectionStart_Read
      else if methodID = MethodConnectionStartOk then ConnectionStartOk_Read
      else if methodID = MethodConnectionSecure then ConnectionSecure_Read
      else if methodID = MethodConnectionSecureOk then ConnectionSecureOk_Read
      else if methodID = MethodConnectionTune then ConnectionTune_Read
      else if methodID = MethodConnectionTuneOk then ConnectionTuneOk_Read
      else if methodID = MethodConnectionOpen then ConnectionOpen_Read
      else if methodID = MethodConnectionOpenOk then ConnectionOpenOk_Read
      else if methodID = MethodConnectionClose then ConnectionClose_Read
      else if methodID = MethodConnectionCloseOk then ConnectionCloseOk_Read
      else rfail (AmqpError FrameError ''unknown method ID for Connection class''))"

fun connection_Write :: "connection_method \<Rightarrow> writer" where
  "connection_Write (ConnectionStart versionMajor versionMinor serverProperties mechanisms locales) =
     ConnectionStart_Write versionMajor versionMinor serverProperties mechanisms locales"
| "connection_Write (ConnectionStartOk clientProperties mechanism response locale) =
     ConnectionStartOk_Write clientProperties mechanism response locale"
| "connection_Write (ConnectionSecure challenge) = ConnectionSecure_Write challenge"
| "connection_Write (ConnectionSecureOk response) = ConnectionSecureOk_Write response"
| "connection_Write (ConnectionTune channelMax frameMax heartbeat) =
     ConnectionTune_Write channelMax frameMax heartbeat"
| "connection_Write (ConnectionTuneOk channelMax frameMax heartbeat) =
     ConnectionTuneOk_Write channelMax frameMax heartbeat"
| "connection_Write (ConnectionOpen virtualHost capabilities insist) =
     ConnectionOpen_Write virtualHost capabilities insist"
| "connection_Write (ConnectionOpenOk knownHosts) = ConnectionOpenOk_Write knownHosts"
| "connection_Write (ConnectionClose replyCode replyText classID methodID) =
     ConnectionClose_Write replyCode replyText classID methodID"
| "connection_Write ConnectionCloseOk = ConnectionCloseOk_Write"


section \<open>Class Channel\<close>

definition ClassChannel :: u16 where [amqp_ids]: "ClassChannel = 20"

definition MethodChannelOpen :: u16 where [amqp_ids]: "MethodChannelOpen = 10"

definition MethodChannelOpenOk :: u16 where [amqp_ids]: "MethodChannelOpenOk = 11"

definition MethodChannelFlow :: u16 where [amqp_ids]: "MethodChannelFlow = 20"

definition MethodChannelFlowOk :: u16 where [amqp_ids]: "MethodChannelFlowOk = 21"

definition MethodChannelClose :: u16 where [amqp_ids]: "MethodChannelClose = 40"

definition MethodChannelCloseOk :: u16 where [amqp_ids]: "MethodChannelCloseOk = 41"

datatype channel_method =
  ChannelOpen string
| ChannelOpenOk string
| ChannelFlow bool
| ChannelFlowOk bool
| ChannelClose u16 string u16 u16
| ChannelCloseOk

definition ChannelOpen_Read :: "channel_method reader" where
  "ChannelOpen_Read =
     rbind ReadShortStr (\<lambda>reserved1. rreturn (ChannelOpen reserved1))"

definition ChannelOpen_Write :: "string \<Rightarrow> writer" where
  "ChannelOpen_Write reserved1 =
     write_all [WriteShort ClassChannel, WriteShort MethodChannelOpen, WriteShortStr []]"

definition ChannelOpenOk_Read :: "channel_method reader" where
  "ChannelOpenOk_Read =
     rbind ReadLongStr (\<lambda>reserved1. rreturn (ChannelOpenOk reserved1))"

definition ChannelOpenOk_Write :: "string \<Rightarrow> writer" where
  "ChannelOpenOk_Write reserved1 =
     write_all [WriteShort ClassChannel, WriteShort MethodChannelOpenOk, WriteLongStr []]"

definition ChannelFlow_Read :: "channel_method reader" where
  "ChannelFlow_Read =
     rbind ReadOctet (\<lambda>bits. rreturn (ChannelFlow (has_bit bits 1)))"

definition ChannelFlow_Write :: "bool \<Rightarrow> writer" where
  "ChannelFlow_Write active =
     write_all [WriteShort ClassChannel, WriteShort MethodChannelFlow, WriteOctet (bit_if active 1)]"

definition ChannelFlowOk_Read :: "channel_method reader" where
  "ChannelFlowOk_Read =
     rbind ReadOctet (\<lambda>bits. rreturn (ChannelFlowOk (has_bit bits 1)))"

definition ChannelFlowOk_Write :: "bool \<Rightarrow> writer" where
  "ChannelFlowOk_Write active =
     write_all [WriteShort ClassChannel, WriteShort MethodChannelFlowOk, WriteOctet (bit_if active 1)]"

definition ChannelClose_Read :: "channel_method reader" where
  "ChannelClose_Read =
     rbind ReadShort (\<lambda>replyCode. rbind ReadShortStr (\<lambda>replyText.
     rbind ReadShort (\<lambda>classID. rbind ReadShort (\<lambda>methodID.
     rreturn (ChannelClose replyCode replyText classID methodID)))))"

definition ChannelClose_Write :: "u16 \<Rightarrow> string \<Rightarrow> u16 \<Rightarrow> u16 \<Rightarrow> writer" where
  "ChannelClose_Write replyCode replyText classID methodID =
     write_all [WriteShort ClassChannel, WriteShort MethodChannelClose, WriteShort replyCode, WriteShortStr replyText,
       WriteShort classID, WriteShort methodID]"

definition ChannelCloseOk_Read :: "channel_method reader" where
  "ChannelCloseOk_Read =
     rreturn ChannelCloseOk"

definition ChannelCloseOk_Write :: "writer" where
  "ChannelCloseOk_Write =
     write_all [WriteShort ClassChannel, WriteShort MethodChannelCloseOk]"

definition decode_channel :: "u16 \<Rightarrow> channel_method reader" where
  "decode_channel methodID =
     (if methodID = MethodChannelOpen then ChannelOpen_Read
      else if methodID = MethodChannelOpenOk then ChannelOpenOk_Read
      else if methodID = MethodChannelFlow then ChannelFlow_Read
      else if methodID = MethodChannelFlowOk then ChannelFlowOk_Read
      else if methodID = MethodChannelClose then ChannelClose_Read
      else if methodID = MethodChannelCloseOk then ChannelCloseOk_Read
      else rfail (AmqpError FrameError ''unknown method ID for Channel class''))"

fun channel_Write :: "channel_method \<Rightarrow> writer" where
  "channel_Write (ChannelOpen reserved1) = ChannelOpen_Write reserved1"
| "channel_Write (ChannelOpenOk reserved1) = ChannelOpenOk_Write reserved1"
| "channel_Write (ChannelFlow active) = ChannelFlow_Write active"
| "channel_Write (ChannelFlowOk active) = ChannelFlowOk_Write active"
| "channel_Write (ChannelClose replyCode replyText classID methodID) =
     ChannelClose_Write replyCode replyText classID methodID"
| "channel_Write ChannelCloseOk = ChannelCloseOk_Write"


section \<open>Class Exchange\<close>

definition ClassExchange :: u16 where [amqp_ids]: "ClassExchange = 40"

definition MethodExchangeDeclare :: u16 where [amqp_ids]: "MethodExchangeDeclare = 10"

definition MethodExchangeDeclareOk :: u16 where [amqp_ids]: "MethodExchangeDeclareOk = 11"

definition MethodExchangeDelete :: u16 where [amqp_ids]: "MethodExchangeDelete = 20"

definition MethodExchangeDeleteOk :: u16 where [amqp_ids]: "MethodExchangeDeleteOk = 21"

definition MethodExchangeBind :: u16 where [amqp_ids]: "MethodExchangeBind = 30"

definition MethodExchangeBindOk :: u16 where [amqp_ids]: "MethodExchangeBindOk = 31"

definition MethodExchangeUnbind :: u16 where [amqp_ids]: "MethodExchangeUnbind = 40"

definition MethodExchangeUnbindOk :: u16 where [amqp_ids]: "MethodExchangeUnbindOk = 51"

datatype exchange_method =
  ExchangeDeclare u16 string string bool bool bool bool bool field_table
| ExchangeDeclareOk
| ExchangeDelete u16 string bool bool
| ExchangeDeleteOk
| ExchangeBind u16 string string string bool field_table
| ExchangeBindOk
| ExchangeUnbind u16 string string string bool field_table
| ExchangeUnbindOk

definition ExchangeDeclare_Read :: "exchange_method reader" where
  "ExchangeDeclare_Read =
     rbind ReadShort (\<lambda>reserved1. rbind ReadShortStr (\<lambda>exchange.
     rbind ReadShortStr (\<lambda>type. rbind ReadOctet (\<lambda>bits. rbind ReadTable (\<lambda>arguments.
     rreturn (ExchangeDeclare reserved1 exchange type (has_bit bits 1) (has_bit bits 2) (has_bit bits 4) (has_bit bits 8) (has_bit bits 16) arguments))))))"

definition ExchangeDeclare_Write :: "u16 \<Rightarrow> string \<Rightarrow> string \<Rightarrow> bool \<Rightarrow> bool \<Rightarrow> bool \<Rightarrow> bool \<Rightarrow> bool \<Rightarrow> field_table \<Rightarrow> writer" where
  "ExchangeDeclare_Write reserved1 exchange type passive durable autoDelete internal noWait arguments =
     write_all [WriteShort ClassExchange, WriteShort MethodExchangeDeclare, WriteShort 0, WriteShortStr exchange,
       WriteShortStr type,
       WriteOctet (bit_if passive 1 OR bit_if durable 2 OR bit_if autoDelete 4 OR bit_if internal 8 OR bit_if noWait 16),
       WriteTable arguments]"

definition ExchangeDeclareOk_Read :: "exchange_method reader" where
  "ExchangeDeclareOk_Read =
     rreturn ExchangeDeclareOk"

definition ExchangeDeclareOk_Write :: "writer" where
  "ExchangeDeclareOk_Write =
     write_all [WriteShort ClassExchange, WriteShort MethodExchangeDeclareOk]"

definition ExchangeDelete_Read :: "exchange_method reader" where
  "ExchangeDelete_Read =
     rbind ReadShort (\<lambda>reserved1. rbind ReadShortStr (\<lambda>exchange. rbind ReadOctet (\<lambda>bits.
     rreturn (ExchangeDelete reserved1 exchange (has_bit bits 1) (has_bit bits 2)))))"

definition ExchangeDelete_Write :: "u16 \<Rightarrow> string \<Rightarrow> bool \<Rightarrow> bool \<Rightarrow> writer" where
  "ExchangeDelete_Write reserved1 exchange ifUnused noWait =
     write_all [WriteShort ClassExchange, WriteShort MethodExchangeDelete, WriteShort 0, WriteShortStr exchange,
       WriteOctet (bit_if ifUnused 1 OR bit_if noWait 2)]"

definition ExchangeDeleteOk_Read :: "exchange_method reader" where
  "ExchangeDeleteOk_Read =
     rreturn ExchangeDeleteOk"

definition ExchangeDeleteOk_Write :: "writer" where
  "ExchangeDeleteOk_Write =
     write_all [WriteShort ClassExchange, WriteShort MethodExchangeDeleteOk]"

definition ExchangeBind_Read :: "exchange_method reader" where
  "ExchangeBind_Read =
     rbind ReadShort (\<lambda>reserved1. rbind ReadShortStr (\<lambda>destination.
     rbind ReadShortStr (\<lambda>source. rbind ReadShortStr (\<lambda>routingKey.
     rbind ReadOctet (\<lambda>bits. rbind ReadTable (\<lambda>arguments.
     rreturn (ExchangeBind reserved1 destination source routingKey (has_bit bits 1) arguments)))))))"

definition ExchangeBind_Write :: "u16 \<Rightarrow> string \<Rightarrow> string \<Rightarrow> string \<Rightarrow> bool \<Rightarrow> field_table \<Rightarrow> writer" where
  "ExchangeBind_Write reserved1 destination source routingKey noWait arguments =
     write_all [WriteShort ClassExchange, WriteShort MethodExchangeBind, WriteShort 0, WriteShortStr destination,
       WriteShortStr source, WriteShortStr routingKey, WriteOctet (bit_if noWait 1), WriteTable arguments]"

definition ExchangeBindOk_Read :: "exchange_method reader" where
  "ExchangeBindOk_Read =
     rreturn ExchangeBindOk"

definition ExchangeBindOk_Write :: "writer" where
  "ExchangeBindOk_Write =
     write_all [WriteShort ClassExchange, WriteShort MethodExchangeBindOk]"

definition ExchangeUnbind_Read :: "exchange_method reader" where
  "ExchangeUnbind_Read =
     rbind ReadShort (\<lambda>reserved1. rbind ReadShortStr (\<lambda>destination.
     rbind ReadShortStr (\<lambda>source. rbind ReadShortStr (\<lambda>routingKey.
     rbind ReadOctet (\<lambda>bits. rbind ReadTable (\<lambda>arguments.
     rreturn (ExchangeUnbind reserved1 destination source routingKey (has_bit bits 1) arguments)))))))"

definition ExchangeUnbind_Write :: "u16 \<Rightarrow> string \<Rightarrow> string \<Rightarrow> string \<Rightarrow> bool \<Rightarrow> field_table \<Rightarrow> writer" where
  "ExchangeUnbind_Write reserved1 destination source routingKey noWait arguments =
     write_all [WriteShort ClassExchange, WriteShort MethodExchangeUnbind, WriteShort 0, WriteShortStr destination,
       WriteShortStr source, WriteShortStr routingKey, WriteOctet (bit_if noWait 1), WriteTable arguments]"

definition ExchangeUnbindOk_Read :: "exchange_method reader" where
  "ExchangeUnbindOk_Read =
     rreturn ExchangeUnbindOk"

definition ExchangeUnbindOk_Write :: "writer" where
  "ExchangeUnbindOk_Write =
     write_all [WriteShort ClassExchange, WriteShort MethodExchangeUnbindOk]"

definition decode_exchange :: "u16 \<Rightarrow> exchange_method reader" where
  "decode_exchange methodID =
     (if methodID = MethodExchangeDeclare then ExchangeDeclare_Read
      else if methodID = MethodExchangeDeclareOk then ExchangeDeclareOk_Read
      else if methodID = MethodExchangeDelete then ExchangeDelete_Read
      else if methodID = MethodExchangeDeleteOk then ExchangeDeleteOk_Read
      else if methodID = MethodExchangeBind then ExchangeBind_Read
      else if methodID = MethodExchangeBindOk then ExchangeBindOk_Read
      else if methodID = MethodExchangeUnbind then ExchangeUnbind_Read
      else if methodID = MethodExchangeUnbindOk then ExchangeUnbindOk_Read
      else rfail (AmqpError FrameError ''unknown method ID for Exchange class''))"

fun exchange_Write :: "exchange_method \<Rightarrow> writer" where
  "exchange_Write (ExchangeDeclare reserved1 exchange type passive durable autoDelete internal noWait arguments) =
     ExchangeDeclare_Write reserved1 exchange type passive durable autoDelete internal noWait arguments"
| "exchange_Write ExchangeDeclareOk = ExchangeDeclareOk_Write"
| "exchange_Write (ExchangeDelete reserved1 exchange ifUnused noWait) =
     ExchangeDelete_Write reserved1 exchange ifUnused noWait"
| "exchange_Write ExchangeDeleteOk = ExchangeDeleteOk_Write"
| "exchange_Write (ExchangeBind reserved1 destination source routingKey noWait arguments) =
     ExchangeBind_Write reserved1 destination source routingKey noWait arguments"
| "exchange_Write ExchangeBindOk = ExchangeBindOk_Write"
| "exchange_Write (ExchangeUnbind reserved1 destination source routingKey noWait arguments) =
     ExchangeUnbind_Write reserved1 destination source routingKey noWait arguments"
| "exchange_Write ExchangeUnbindOk = ExchangeUnbindOk_Write"


section \<open>Class Queue\<close>

definition ClassQueue :: u16 where [amqp_ids]: "ClassQueue = 50"

definition MethodQueueDeclare :: u16 where [amqp_ids]: "MethodQueueDeclare = 10"

definition MethodQueueDeclareOk :: u16 where [amqp_ids]: "MethodQueueDeclareOk = 11"

definition MethodQueueBind :: u16 where [amqp_ids]: "MethodQueueBind = 20"

definition MethodQueueBindOk :: u16 where [amqp_ids]: "MethodQueueBindOk = 21"

definition MethodQueuePurge :: u16 where [amqp_ids]: "MethodQueuePurge = 30"

definition MethodQueuePurgeOk :: u16 where [amqp_ids]: "MethodQueuePurgeOk = 31"

definition MethodQueueDelete :: u16 where [amqp_ids]: "MethodQueueDelete = 40"

definition MethodQueueDeleteOk :: u16 where [amqp_ids]: "MethodQueueDeleteOk = 41"

definition MethodQueueUnbind :: u16 where [amqp_ids]: "MethodQueueUnbind = 50"

definition MethodQueueUnbindOk :: u16 where [amqp_ids]: "MethodQueueUnbindOk = 51"

datatype queue_method =
  QueueDeclare u16 string bool bool bool bool bool field_table
| QueueDeclareOk string u32 u32
| QueueBind u16 string string string bool field_table
| QueueBindOk
| QueuePurge u16 string bool
| QueuePurgeOk u32
| QueueDelete u16 string bool bool bool
| QueueDeleteOk u32
| QueueUnbind u16 string string string field_table
| QueueUnbindOk

definition QueueDeclare_Read :: "queue_method reader" where
  "QueueDeclare_Read =
     rbind ReadShort (\<lambda>reserved1. rbind ReadShortStr (\<lambda>queue. rbind ReadOctet (\<lambda>bits.
     rbind ReadTable (\<lambda>arguments.
     rreturn (QueueDeclare reserved1 queue (has_bit bits 1) (has_bit bits 2) (has_bit bits 4) (has_bit bits 8) (has_bit bits 16) arguments)))))"

definition QueueDeclare_Write :: "u16 \<Rightarrow> string \<Rightarrow> bool \<Rightarrow> bool \<Rightarrow> bool \<Rightarrow> bool \<Rightarrow> bool \<Rightarrow> field_table \<Rightarrow> writer" where
  "QueueDeclare_Write reserved1 queue passive durable exclusive autoDelete noWait arguments =
     write_all [WriteShort ClassQueue, WriteShort MethodQueueDeclare, WriteShort 0, WriteShortStr queue,
       WriteOctet (bit_if passive 1 OR bit_if durable 2 OR bit_if exclusive 4 OR bit_if autoDelete 8 OR bit_if noWait 16),
       WriteTable arguments]"

definition QueueDeclareOk_Read :: "queue_method reader" where
  "QueueDeclareOk_Read =
     rbind ReadShortStr (\<lambda>queue. rbind ReadLong (\<lambda>messageCount.
     rbind ReadLong (\<lambda>consumerCount. rreturn (QueueDeclareOk queue messageCount consumerCount))))"

definition QueueDeclareOk_Write :: "string \<Rightarrow> u32 \<Rightarrow> u32 \<Rightarrow> writer" where
  "QueueDeclareOk_Write queue messageCount consumerCount =
     write_all [WriteShort ClassQueue, WriteShort MethodQueueDeclareOk, WriteShortStr queue, WriteLong messageCount,
       WriteLong consumerCount]"

definition QueueBind_Read :: "queue_method reader" where
  "QueueBind_Read =
     rbind ReadShort (\<lambda>reserved1. rbind ReadShortStr (\<lambda>queue.
     rbind ReadShortStr (\<lambda>exchange. rbind ReadShortStr (\<lambda>routingKey.
     rbind ReadOctet (\<lambda>bits. rbind ReadTable (\<lambda>arguments.
     rreturn (QueueBind reserved1 queue exchange routingKey (has_bit bits 1) arguments)))))))"

definition QueueBind_Write :: "u16 \<Rightarrow> string \<Rightarrow> string \<Rightarrow> string \<Rightarrow> bool \<Rightarrow> field_table \<Rightarrow> writer" where
  "QueueBind_Write reserved1 queue exchange routingKey noWait arguments =
     write_all [WriteShort ClassQueue, WriteShort MethodQueueBind, WriteShort 0, WriteShortStr queue,
       WriteShortStr exchange, WriteShortStr routingKey, WriteOctet (bit_if noWait 1), WriteTable arguments]"

definition QueueBindOk_Read :: "queue_method reader" where
  "QueueBindOk_Read =
     rreturn QueueBindOk"

definition QueueBindOk_Write :: "writer" where
  "QueueBindOk_Write =
     write_all [WriteShort ClassQueue, WriteShort MethodQueueBindOk]"

definition QueuePurge_Read :: "queue_method reader" where
  "QueuePurge_Read =
     rbind ReadShort (\<lambda>reserved1. rbind ReadShortStr (\<lambda>queue. rbind ReadOctet (\<lambda>bits.
     rreturn (QueuePurge reserved1 queue (has_bit bits 1)))))"

definition QueuePurge_Write :: "u16 \<Rightarrow> string \<Rightarrow> bool \<Rightarrow> writer" where
  "QueuePurge_Write reserved1 queue noWait =
     write_all [WriteShort ClassQueue, WriteShort MethodQueuePurge, WriteShort 0, WriteShortStr queue,
       WriteOctet (bit_if noWait 1)]"

definition QueuePurgeOk_Read :: "queue_method reader" where
  "QueuePurgeOk_Read =
     rbind ReadLong (\<lambda>messageCount. rreturn (QueuePurgeOk messageCount))"

definition QueuePurgeOk_Write :: "u32 \<Rightarrow> writer" where
  "QueuePurgeOk_Write messageCount =
     write_all [WriteShort ClassQueue, WriteShort MethodQueuePurgeOk, WriteLong messageCount]"

definition QueueDelete_Read :: "queue_method reader" where
  "QueueDelete_Read =
     rbind ReadShort (\<lambda>reserved1. rbind ReadShortStr (\<lambda>queue. rbind ReadOctet (\<lambda>bits.
     rreturn (QueueDelete reserved1 queue (has_bit bits 1) (has_bit bits 2) (has_bit bits 4)))))"

definition QueueDelete_Write :: "u16 \<Rightarrow> string \<Rightarrow> bool \<Rightarrow> bool \<Rightarrow> bool \<Rightarrow> writer" where
  "QueueDelete_Write reserved1 queue ifUnused ifEmpty noWait =
     write_all [WriteShort ClassQueue, WriteShort MethodQueueDelete, WriteShort 0, WriteShortStr queue,
       WriteOctet (bit_if ifUnused 1 OR bit_if ifEmpty 2 OR bit_if noWait 4)]"

definition QueueDeleteOk_Read :: "queue_method reader" where
  "QueueDeleteOk_Read =
     rbind ReadLong (\<lambda>messageCount. rreturn (QueueDeleteOk messageCount))"

definition QueueDeleteOk_Write :: "u32 \<Rightarrow> writer" where
  "QueueDeleteOk_Write messageCount =
     write_all [WriteShort ClassQueue, WriteShort MethodQueueDeleteOk, WriteLong messageCount]"

definition QueueUnbind_Read :: "queue_method reader" where
  "QueueUnbind_Read =
     rbind ReadShort (\<lambda>reserved1. rbind ReadShortStr (\<lambda>queue.
     rbind ReadShortStr (\<lambda>exchange. rbind ReadShortStr (\<lambda>routingKey.
     rbind ReadTable (\<lambda>arguments.
     rreturn (QueueUnbind reserved1 queue exchange routingKey arguments))))))"

definition QueueUnbind_Write :: "u16 \<Rightarrow> string \<Rightarrow> string \<Rightarrow> string \<Rightarrow> field_table \<Rightarrow> writer" where
  "QueueUnbind_Write reserved1 queue exchange routingKey arguments =
     write_all [WriteShort ClassQueue, WriteShort MethodQueueUnbind, WriteShort 0, WriteShortStr queue,
       WriteShortStr exchange, WriteShortStr routingKey, WriteTable arguments]"

definition QueueUnbindOk_Read :: "queue_method reader" where
  "QueueUnbindOk_Read =
     rreturn QueueUnbindOk"

definition QueueUnbindOk_Write :: "writer" where
  "QueueUnbindOk_Write =
     write_all [WriteShort ClassQueue, WriteShort MethodQueueUnbindOk]"

definition decode_queue :: "u16 \<Rightarrow> queue_method reader" where
  "decode_queue methodID =
     (if methodID = MethodQueueDeclare then QueueDeclare_Read
      else if methodID = MethodQueueDeclareOk then QueueDeclareOk_Read
      else if methodID = MethodQueueBind then QueueBind_Read
      else if methodID = MethodQueueBindOk then QueueBindOk_Read
      else if methodID = MethodQueuePurge then QueuePurge_Read
      else if methodID = MethodQueuePurgeOk then QueuePurgeOk_Read
      else if methodID = MethodQueueDelete then QueueDelete_Read
      else if methodID = MethodQueueDeleteOk then QueueDeleteOk_Read
      else if methodID = MethodQueueUnbind then QueueUnbind_Read
      else if methodID = MethodQueueUnbindOk then QueueUnbindOk_Read
      else rfail (AmqpError FrameError ''unknown method ID for Queue class''))"

fun queue_Write :: "queue_method \<Rightarrow> writer" where
  "queue_Write (QueueDeclare reserved1 queue passive durable exclusive autoDelete noWait arguments) =
     QueueDeclare_Write reserved1 queue passive durable exclusive autoDelete noWait arguments"
| "queue_Write (QueueDeclareOk queue messageCount consumerCount) =
     QueueDeclareOk_Write queue messageCount consumerCount"
| "queue_Write (QueueBind reserved1 queue exchange routingKey noWait arguments) =
     QueueBind_Write reserved1 queue exchange routingKey noWait arguments"
| "queue_Write QueueBindOk = QueueBindOk_Write"
| "queue_Write (QueuePurge reserved1 queue noWait) = QueuePurge_Write reserved1 queue noWait"
| "queue_Write (QueuePurgeOk messageCount) = QueuePurgeOk_Write messageCount"
| "queue_Write (QueueDelete reserved1 queue ifUnused ifEmpty noWait) =
     QueueDelete_Write reserved1 queue ifUnused ifEmpty noWait"
| "queue_Write (QueueDeleteOk messageCount) = QueueDeleteOk_Write messageCount"
| "queue_Write (QueueUnbind reserved1 queue exchange routingKey arguments) =
     QueueUnbind_Write reserved1 queue exchange routingKey arguments"
| "queue_Write QueueUnbindOk = QueueUnbindOk_Write"


section \<open>Class Basic\<close>

definition ClassBasic :: u16 where [amqp_ids]: "ClassBasic = 60"

definition MethodBasicQos :: u16 where [amqp_ids]: "MethodBasicQos = 10"

definition MethodBasicQosOk :: u16 where [amqp_ids]: "MethodBasicQosOk = 11"

definition MethodBasicConsume :: u16 where [amqp_ids]: "MethodBasicConsume = 20"

definition MethodBasicConsumeOk :: u16 where [amqp_ids]: "MethodBasicConsumeOk = 21"

definition MethodBasicCancel :: u16 where [amqp_ids]: "MethodBasicCancel = 30"

definition MethodBasicCancelOk :: u16 where [amqp_ids]: "MethodBasicCancelOk = 31"

definition MethodBasicPublish :: u16 where [amqp_ids]: "MethodBasicPublish = 40"

definition MethodBasicReturn :: u16 where [amqp_ids]: "MethodBasicReturn = 50"

definition MethodBasicDeliver :: u16 where [amqp_ids]: "MethodBasicDeliver = 60"

definition MethodBasicGet :: u16 where [amqp_ids]: "MethodBasicGet = 70"

definition MethodBasicGetOk :: u16 where [amqp_ids]: "MethodBasicGetOk = 71"

definition MethodBasicGetEmpty :: u16 where [amqp_ids]: "MethodBasicGetEmpty = 72"

definition MethodBasicAck :: u16 where [amqp_ids]: "MethodBasicAck = 80"

definition MethodBasicReject :: u16 where [amqp_ids]: "MethodBasicReject = 90"

definition MethodBasicRecoverAsync :: u16 where [amqp_ids]: "MethodBasicRecoverAsync = 100"

definition MethodBasicRecover :: u16 where [amqp_ids]: "MethodBasicRecover = 110"

definition MethodBasicRecoverOk :: u16 where [amqp_ids]: "MethodBasicRecoverOk = 111"

definition MethodBasicNack :: u16 where [amqp_ids]: "MethodBasicNack = 120"

datatype basic_method =
  BasicQos u32 u16 bool
| BasicQosOk
| BasicConsume u16 string string bool bool bool bool field_table
| BasicConsumeOk string
| BasicCancel string bool
| BasicCancelOk string
| BasicPublish u16 string string bool bool
| BasicReturn u16 string string string
| BasicDeliver string u64 bool string string
| BasicGet u16 string bool
| BasicGetOk u64 bool string string u32
| BasicGetEmpty string
| BasicAck u64 bool
| BasicReject u64 bool
| BasicRecoverAsync bool
| BasicRecover bool
| BasicRecoverOk
| BasicNack u64 bool bool

definition BasicQos_Read :: "basic_method reader" where
  "BasicQos_Read =
     rbind ReadLong (\<lambda>prefetchSize. rbind ReadShort (\<lambda>prefetchCount.
     rbind ReadOctet (\<lambda>bits. rreturn (BasicQos prefetchSize prefetchCount (has_bit bits 1)))))"

definition BasicQos_Write :: "u32 \<Rightarrow> u16 \<Rightarrow> bool \<Rightarrow> writer" where
  "BasicQos_Write prefetchSize prefetchCount global =
     write_all [WriteShort ClassBasic, WriteShort MethodBasicQos, WriteLong prefetchSize, WriteShort prefetchCount,
       WriteOctet (bit_if global 1)]"

definition BasicQosOk_Read :: "basic_method reader" where
  "BasicQosOk_Read =
     rreturn BasicQosOk"

definition BasicQosOk_Write :: "writer" where
  "BasicQosOk_Write =
     write_all [WriteShort ClassBasic, WriteShort MethodBasicQosOk]"

definition BasicConsume_Read :: "basic_method reader" where
  "BasicConsume_Read =
     rbind ReadShort (\<lambda>reserved1. rbind ReadShortStr (\<lambda>queue.
     rbind ReadShortStr (\<lambda>consumerTag. rbind ReadOctet (\<lambda>bits.
     rbind ReadTable (\<lambda>arguments.
     rreturn (BasicConsume reserved1 queue consumerTag (has_bit bits 1) (has_bit bits 2) (has_bit bits 4) (has_bit bits 8) arguments))))))"

definition BasicConsume_Write :: "u16 \<Rightarrow> string \<Rightarrow> string \<Rightarrow> bool \<Rightarrow> bool \<Rightarrow> bool \<Rightarrow> bool \<Rightarrow> field_table \<Rightarrow> writer" where
  "BasicConsume_Write reserved1 queue consumerTag noLocal noAck exclusive noWait arguments =
     write_all [WriteShort ClassBasic, WriteShort MethodBasicConsume, WriteShort 0, WriteShortStr queue,
       WriteShortStr consumerTag,
       WriteOctet (bit_if noLocal 1 OR bit_if noAck 2 OR bit_if exclusive 4 OR bit_if noWait 8),
       WriteTable arguments]"

definition BasicConsumeOk_Read :: "basic_method reader" where
  "BasicConsumeOk_Read =
     rbind ReadShortStr (\<lambda>consumerTag. rreturn (BasicConsumeOk consumerTag))"

definition BasicConsumeOk_Write :: "string \<Rightarrow> writer" where
  "BasicConsumeOk_Write consumerTag =
     write_all [WriteShort ClassBasic, WriteShort MethodBasicConsumeOk, WriteShortStr consumerTag]"

definition BasicCancel_Read :: "basic_method reader" where
  "BasicCancel_Read =
     rbind ReadShortStr (\<lambda>consumerTag. rbind ReadOctet (\<lambda>bits.
     rreturn (BasicCancel consumerTag (has_bit bits 1))))"

definition BasicCancel_Write :: "string \<Rightarrow> bool \<Rightarrow> writer" where
  "BasicCancel_Write consumerTag noWait =
     write_all [WriteShort ClassBasic, WriteShort MethodBasicCancel, WriteShortStr consumerTag,
       WriteOctet (bit_if noWait 1)]"

definition BasicCancelOk_Read :: "basic_method reader" where
  "BasicCancelOk_Read =
     rbind ReadShortStr (\<lambda>consumerTag. rreturn (BasicCancelOk consumerTag))"

definition BasicCancelOk_Write :: "string \<Rightarrow> writer" where
  "BasicCancelOk_Write consumerTag =
     write_all [WriteShort ClassBasic, WriteShort MethodBasicCancelOk, WriteShortStr consumerTag]"

definition BasicPublish_Read :: "basic_method reader" where
  "BasicPublish_Read =
     rbind ReadShort (\<lambda>reserved1. rbind ReadShortStr (\<lambda>exchange.
     rbind ReadShortStr (\<lambda>routingKey. rbind ReadOctet (\<lambda>bits.
     rreturn (BasicPublish reserved1 exchange routingKey (has_bit bits 1) (has_bit bits 2))))))"

definition BasicPublish_Write :: "u16 \<Rightarrow> string \<Rightarrow> string \<Rightarrow> bool \<Rightarrow> bool \<Rightarrow> writer" where
  "BasicPublish_Write reserved1 exchange routingKey mandatory immediate =
     write_all [WriteShort ClassBasic, WriteShort MethodBasicPublish, WriteShort 0, WriteShortStr exchange,
       WriteShortStr routingKey, WriteOctet (bit_if mandatory 1 OR bit_if immediate 2)]"

definition BasicReturn_Read :: "basic_method reader" where
  "BasicReturn_Read =
     rbind ReadShort (\<lambda>replyCode. rbind ReadShortStr (\<lambda>replyText.
     rbind ReadShortStr (\<lambda>exchange. rbind ReadShortStr (\<lambda>routingKey.
     rreturn (BasicReturn replyCode replyText exchange routingKey)))))"

definition BasicReturn_Write :: "u16 \<Rightarrow> string \<Rightarrow> string \<Rightarrow> string \<Rightarrow> writer" where
  "BasicReturn_Write replyCode replyText exchange routingKey =
     write_all [WriteShort ClassBasic, WriteShort MethodBasicReturn, WriteShort replyCode, WriteShortStr replyText,
       WriteShortStr exchange, WriteShortStr routingKey]"

definition BasicDeliver_Read :: "basic_method reader" where
  "BasicDeliver_Read =
     rbind ReadShortStr (\<lambda>consumerTag. rbind ReadLongLong (\<lambda>deliveryTag.
     rbind ReadOctet (\<lambda>bits. rbind ReadShortStr (\<lambda>exchange.
     rbind ReadShortStr (\<lambda>routingKey.
     rreturn (BasicDeliver consumerTag deliveryTag (has_bit bits 1) exchange routingKey))))))"

definition BasicDeliver_Write :: "string \<Rightarrow> u64 \<Rightarrow> bool \<Rightarrow> string \<Rightarrow> string \<Rightarrow> writer" where
  "BasicDeliver_Write consumerTag deliveryTag redelivered exchange routingKey =
     write_all [WriteShort ClassBasic, WriteShort MethodBasicDeliver, WriteShortStr consumerTag,
       WriteLongLong deliveryTag, WriteOctet (bit_if redelivered 1), WriteShortStr exchange,
       WriteShortStr routingKey]"

definition BasicGet_Read :: "basic_method reader" where
  "BasicGet_Read =
     rbind ReadShort (\<lambda>reserved1. rbind ReadShortStr (\<lambda>queue. rbind ReadOctet (\<lambda>bits.
     rreturn (BasicGet reserved1 queue (has_bit bits 1)))))"

definition BasicGet_Write :: "u16 \<Rightarrow> string \<Rightarrow> bool \<Rightarrow> writer" where
  "BasicGet_Write reserved1 queue noAck =
     write_all [WriteShort ClassBasic, WriteShort MethodBasicGet, WriteShort 0, WriteShortStr queue,
       WriteOctet (bit_if noAck 1)]"

definition BasicGetOk_Read :: "basic_method reader" where
  "BasicGetOk_Read =
     rbind ReadLongLong (\<lambda>deliveryTag. rbind ReadOctet (\<lambda>bits.
     rbind ReadShortStr (\<lambda>exchange. rbind ReadShortStr (\<lambda>routingKey.
     rbind ReadLong (\<lambda>messageCount.
     rreturn (BasicGetOk deliveryTag (has_bit bits 1) exchange routingKey messageCount))))))"

definition BasicGetOk_Write :: "u64 \<Rightarrow> bool \<Rightarrow> string \<Rightarrow> string \<Rightarrow> u32 \<Rightarrow> writer" where
  "BasicGetOk_Write deliveryTag redelivered exchange routingKey messageCount =
     write_all [WriteShort ClassBasic, WriteShort MethodBasicGetOk, WriteLongLong deliveryTag,
       WriteOctet (bit_if redelivered 1), WriteShortStr exchange, WriteShortStr routingKey,
       WriteLong messageCount]"

definition BasicGetEmpty_Read :: "basic_method reader" where
  "BasicGetEmpty_Read =
     rbind ReadShortStr (\<lambda>reserved1. rreturn (BasicGetEmpty reserved1))"

definition BasicGetEmpty_Write :: "string \<Rightarrow> writer" where
  "BasicGetEmpty_Write reserved1 =
     write_all [WriteShort ClassBasic, WriteShort MethodBasicGetEmpty, WriteShortStr []]"

definition BasicAck_Read :: "basic_method reader" where
  "BasicAck_Read =
     rbind ReadLongLong (\<lambda>deliveryTag. rbind ReadOctet (\<lambda>bits.
     rreturn (BasicAck deliveryTag (has_bit bits 1))))"

definition BasicAck_Write :: "u64 \<Rightarrow> bool \<Rightarrow> writer" where
  "BasicAck_Write deliveryTag multiple =
     write_all [WriteShort ClassBasic, WriteShort MethodBasicAck, WriteLongLong deliveryTag,
       WriteOctet (bit_if multiple 1)]"

definition BasicReject_Read :: "basic_method reader" where
  "BasicReject_Read =
     rbind ReadLongLong (\<lambda>deliveryTag. rbind ReadOctet (\<lambda>bits.
     rreturn (BasicReject deliveryTag (has_bit bits 1))))"

definition BasicReject_Write :: "u64 \<Rightarrow> bool \<Rightarrow> writer" where
  "BasicReject_Write deliveryTag requeue =
     write_all [WriteShort ClassBasic, WriteShort MethodBasicReject, WriteLongLong deliveryTag,
       WriteOctet (bit_if requeue 1)]"

definition BasicRecoverAsync_Read :: "basic_method reader" where
  "BasicRecoverAsync_Read =
     rbind ReadOctet (\<lambda>bits. rreturn (BasicRecoverAsync (has_bit bits 1)))"

definition BasicRecoverAsync_Write :: "bool \<Rightarrow> writer" where
  "BasicRecoverAsync_Write requeue =
     write_all [WriteShort ClassBasic, WriteShort MethodBasicRecoverAsync, WriteOctet (bit_if requeue 1)]"

definition BasicRecover_Read :: "basic_method reader" where
  "BasicRecover_Read =
     rbind ReadOctet (\<lambda>bits. rreturn (BasicRecover (has_bit bits 1)))"

definition BasicRecover_Write :: "bool \<Rightarrow> writer" where
  "BasicRecover_Write requeue =
     write_all [WriteShort ClassBasic, WriteShort MethodBasicRecover, WriteOctet (bit_if requeue 1)]"

definition BasicRecoverOk_Read :: "basic_method reader" where
  "BasicRecoverOk_Read =
     rreturn BasicRecoverOk"

definition BasicRecoverOk_Write :: "writer" where
  "BasicRecoverOk_Write =
     write_all [WriteShort ClassBasic, WriteShort MethodBasicRecoverOk]"

definition BasicNack_Read :: "basic_method reader" where
  "BasicNack_Read =
     rbind ReadLongLong (\<lambda>deliveryTag. rbind ReadOctet (\<lambda>bits.
     rreturn (BasicNack deliveryTag (has_bit bits 1) (has_bit bits 2))))"

definition BasicNack_Write :: "u64 \<Rightarrow> bool \<Rightarrow> bool \<Rightarrow> writer" where
  "BasicNack_Write deliveryTag multiple requeue =
     write_all [WriteShort ClassBasic, WriteShort MethodBasicNack, WriteLongLong deliveryTag,
       WriteOctet (bit_if multiple 1 OR bit_if requeue 2)]"

definition decode_basic :: "u16 \<Rightarrow> basic_method reader" where
  "decode_basic methodID =
     (if methodID = MethodBasicQos then BasicQos_Read
      else if methodID = MethodBasicQosOk then BasicQosOk_Read
      else if methodID = MethodBasicConsume then BasicConsume_Read
      else if methodID = MethodBasicConsumeOk then BasicConsumeOk_Read
      else if methodID = MethodBasicCancel then BasicCancel_Read
      else if methodID = MethodBasicCancelOk then BasicCancelOk_Read
      else if methodID = MethodBasicPublish then BasicPublish_Read
      else if methodID = MethodBasicReturn then BasicReturn_Read
      else if methodID = MethodBasicDeliver then BasicDeliver_Read
      else if methodID = MethodBasicGet then BasicGet_Read
      else if methodID = MethodBasicGetOk then BasicGetOk_Read
      else if methodID = MethodBasicGetEmpty then BasicGetEmpty_Read
      else if methodID = MethodBasicAck then BasicAck_Read
      else if methodID = MethodBasicReject then BasicReject_Read
      else if methodID = MethodBasicRecoverAsync then BasicRecoverAsync_Read
      else if methodID = MethodBasicRecover then BasicRecover_Read
      else if methodID = MethodBasicRecoverOk then BasicRecoverOk_Read
      else if methodID = MethodBasicNack then BasicNack_Read
      else rfail (AmqpError FrameError ''unknown method ID for Basic class''))"

fun basic_Write :: "basic_method \<Rightarrow> writer" where
  "basic_Write (BasicQos prefetchSize prefetchCount global) = BasicQos_Write prefetchSize prefetchCount global"
| "basic_Write BasicQosOk = BasicQosOk_Write"
| "basic_Write (BasicConsume reserved1 queue consumerTag noLocal noAck exclusive noWait arguments) =
     BasicConsume_Write reserved1 queue consumerTag noLocal noAck exclusive noWait arguments"
| "basic_Write (BasicConsumeOk consumerTag) = BasicConsumeOk_Write consumerTag"
| "basic_Write (BasicCancel consumerTag noWait) = BasicCancel_Write consumerTag noWait"
| "basic_Write (BasicCancelOk consumerTag) = BasicCancelOk_Write consumerTag"
| "basic_Write (BasicPublish reserved1 exchange routingKey mandatory immediate) =
     BasicPublish_Write reserved1 exchange routingKey mandatory immediate"
| "basic_Write (BasicReturn replyCode replyText exchange routingKey) =
     BasicReturn_Write replyCode replyText exchange routingKey"
| "basic_Write (BasicDeliver consumerTag deliveryTag redelivered exchange routingKey) =
     BasicDeliver_Write consumerTag deliveryTag redelivered exchange routingKey"
| "basic_Write (BasicGet reserved1 queue noAck) = BasicGet_Write reserved1 queue noAck"
| "basic_Write (BasicGetOk deliveryTag redelivered exchange routingKey messageCount) =
     BasicGetOk_Write deliveryTag redelivered exchange routingKey messageCount"
| "basic_Write (BasicGetEmpty reserved1) = BasicGetEmpty_Write reserved1"
| "basic_Write (BasicAck deliveryTag multiple) = BasicAck_Write deliveryTag multiple"
| "basic_Write (BasicReject deliveryTag requeue) = BasicReject_Write deliveryTag requeue"
| "basic_Write (BasicRecoverAsync requeue) = BasicRecoverAsync_Write requeue"
| "basic_Write (BasicRecover requeue) = BasicRecover_Write requeue"
| "basic_Write BasicRecoverOk = BasicRecoverOk_Write"
| "basic_Write (BasicNack deliveryTag multiple requeue) = BasicNack_Write deliveryTag multiple requeue"


section \<open>Class Confirm\<close>

definition ClassConfirm :: u16 where [amqp_ids]: "ClassConfirm = 85"

definition MethodConfirmSelect :: u16 where [amqp_ids]: "MethodConfirmSelect = 10"

definition MethodConfirmSelectOk :: u16 where [amqp_ids]: "MethodConfirmSelectOk = 11"

datatype confirm_method =
  ConfirmSelect bool
| ConfirmSelectOk

definition ConfirmSelect_Read :: "confirm_method reader" where
  "ConfirmSelect_Read =
     rbind ReadOctet (\<lambda>bits. rreturn (ConfirmSelect (has_bit bits 1)))"

definition ConfirmSelect_Write :: "bool \<Rightarrow> writer" where
  "ConfirmSelect_Write noWait =
     write_all [WriteShort ClassConfirm, WriteShort MethodConfirmSelect, WriteOctet (bit_if noWait 1)]"

definition ConfirmSelectOk_Read :: "confirm_method reader" where
  "ConfirmSelectOk_Read =
     rreturn ConfirmSelectOk"

definition ConfirmSelectOk_Write :: "writer" where
  "ConfirmSelectOk_Write =
     write_all [WriteShort ClassConfirm, WriteShort MethodConfirmSelectOk]"

definition decode_confirm :: "u16 \<Rightarrow> confirm_method reader" where
  "decode_confirm methodID =
     (if methodID = MethodConfirmSelect then ConfirmSelect_Read
      else if methodID = MethodConfirmSelectOk then ConfirmSelectOk_Read
      else rfail (AmqpError FrameError ''unknown method ID for Confirm class''))"

fun confirm_Write :: "confirm_method \<Rightarrow> writer" where
  "confirm_Write (ConfirmSelect noWait) = ConfirmSelect_Write noWait"
| "confirm_Write ConfirmSelectOk = ConfirmSelectOk_Write"


section \<open>Class Tx\<close>

definition ClassTx :: u16 where [amqp_ids]: "ClassTx = 90"

definition MethodTxSelect :: u16 where [amqp_ids]: "MethodTxSelect = 10"

definition MethodTxSelectOk :: u16 where [amqp_ids]: "MethodTxSelectOk = 11"

definition MethodTxCommit :: u16 where [amqp_ids]: "MethodTxCommit = 20"

definition MethodTxCommitOk :: u16 where [amqp_ids]: "MethodTxCommitOk = 21"

definition MethodTxRollback :: u16 where [amqp_ids]: "MethodTxRollback = 30"

definition MethodTxRollbackOk :: u16 where [amqp_ids]: "MethodTxRollbackOk = 31"

datatype tx_method =
  TxSelect
| TxSelectOk
| TxCommit
| TxCommitOk
| TxRollback
| TxRollbackOk

definition TxSelect_Read :: "tx_method reader" where
  "TxSelect_Read =
     rreturn TxSelect"

definition TxSelect_Write :: "writer" where
  "TxSelect_Write =
     write_all [WriteShort ClassTx, WriteShort MethodTxSelect]"

definition TxSelectOk_Read :: "tx_method reader" where
  "TxSelectOk_Read =
     rreturn TxSelectOk"

definition TxSelectOk_Write :: "writer" where
  "TxSelectOk_Write =
     write_all [WriteShort ClassTx, WriteShort MethodTxSelectOk]"

definition TxCommit_Read :: "tx_method reader" where
  "TxCommit_Read =
     rreturn TxCommit"

definition TxCommit_Write :: "writer" where
  "TxCommit_Write =
     write_all [WriteShort ClassTx, WriteShort MethodTxCommit]"

definition TxCommitOk_Read :: "tx_method reader" where
  "TxCommitOk_Read =
     rreturn TxCommitOk"

definition TxCommitOk_Write :: "writer" where
  "TxCommitOk_Write =
     write_all [WriteShort ClassTx, WriteShort MethodTxCommitOk]"

definition TxRollback_Read :: "tx_method reader" where
  "TxRollback_Read =
     rreturn TxRollback"

definition TxRollback_Write :: "writer" where
  "TxRollback_Write =
     write_all [WriteShort ClassTx, WriteShort MethodTxRollback]"

definition TxRollbackOk_Read :: "tx_method reader" where
  "TxRollbackOk_Read =
     rreturn TxRollbackOk"

definition TxRollbackOk_Write :: "writer" where
  "TxRollbackOk_Write =
     write_all [WriteShort ClassTx, WriteShort MethodTxRollbackOk]"

definition decode_tx :: "u16 \<Rightarrow> tx_method reader" where
  "decode_tx methodID =
     (if methodID = MethodTxSelect then TxSelect_Read
      else if methodID = MethodTxSelectOk then TxSelectOk_Read
      else if methodID = MethodTxCommit then TxCommit_Read
      else if methodID = MethodTxCommitOk then TxCommitOk_Read
      else if methodID = MethodTxRollback then TxRollback_Read
      else if methodID = MethodTxRollbackOk then TxRollbackOk_Read
      else rfail (AmqpError FrameError ''unknown method ID for Tx class''))"

fun tx_Write :: "tx_method \<Rightarrow> writer" where
  "tx_Write TxSelect = TxSelect_Write"
| "tx_Write TxSelectOk = TxSelectOk_Write"
| "tx_Write TxCommit = TxCommit_Write"
| "tx_Write TxCommitOk = TxCommitOk_Write"
| "tx_Write TxRollback = TxRollback_Write"
| "tx_Write TxRollbackOk = TxRollbackOk_Write"

section \<open>Dispatch\<close>

datatype amqp_method =
  ConnectionMethod connection_method
| ChannelMethod channel_method
| ExchangeMethod exchange_method
| QueueMethod queue_method
| BasicMethod basic_method
| ConfirmMethod confirm_method
| TxMethod tx_method

fun method_Write :: "amqp_method \<Rightarrow> writer" where
  "method_Write (ConnectionMethod m) = connection_Write m"
| "method_Write (ChannelMethod m) = channel_Write m"
| "method_Write (ExchangeMethod m) = exchange_Write m"
| "method_Write (QueueMethod m) = queue_Write m"
| "method_Write (BasicMethod m) = basic_Write m"
| "method_Write (ConfirmMethod m) = confirm_Write m"
| "method_Write (TxMethod m) = tx_Write m"

definition rmap :: "('a \<Rightarrow> 'b) \<Rightarrow> 'a reader \<Rightarrow> 'b reader" where
  "rmap f p = rbind p (\<lambda>x. rreturn (f x))"

definition decodeMethodSwitch :: "u16 \<Rightarrow> u16 \<Rightarrow> amqp_method reader" where
  "decodeMethodSwitch classID methodID =
     (if classID = ClassConnection then rmap ConnectionMethod (decode_connection methodID)
      else if classID = ClassChannel then rmap ChannelMethod (decode_channel methodID)
      else if classID = ClassExchange then rmap ExchangeMethod (decode_exchange methodID)
      else if classID = ClassQueue then rmap QueueMethod (decode_queue methodID)
      else if classID = ClassBasic then rmap BasicMethod (decode_basic methodID)
      else if classID = ClassConfirm then rmap ConfirmMethod (decode_confirm methodID)
      else if classID = ClassTx then rmap TxMethod (decode_tx methodID)
      else rfail (AmqpError FrameError ''unknown class ID''))"

definition decodeMethod :: "amqp_method reader" where
  "decodeMethod = rbind ReadShort (\<lambda>classID. rbind ReadShort (\<lambda>methodID. decodeMethodSwitch classID methodID))"


section \<open>What a peer sees\<close>

text \<open>
  The identifier of a method, the fields as the other side reads them (a reserved field is cleared, a table is
  canonical) and the bounds under which they can be written.
\<close>

fun connection_id :: "connection_method \<Rightarrow> u16" where
  "connection_id (ConnectionStart versionMajor versionMinor serverProperties mechanisms locales) =
     MethodConnectionStart"
| "connection_id (ConnectionStartOk clientProperties mechanism response locale) = MethodConnectionStartOk"
| "connection_id (ConnectionSecure challenge) = MethodConnectionSecure"
| "connection_id (ConnectionSecureOk response) = MethodConnectionSecureOk"
| "connection_id (ConnectionTune channelMax frameMax heartbeat) = MethodConnectionTune"
| "connection_id (ConnectionTuneOk channelMax frameMax heartbeat) = MethodConnectionTuneOk"
| "connection_id (ConnectionOpen virtualHost capabilities insist) = MethodConnectionOpen"
| "connection_id (ConnectionOpenOk knownHosts) = MethodConnectionOpenOk"
| "connection_id (ConnectionClose replyCode replyText classID methodID) = MethodConnectionClose"
| "connection_id ConnectionCloseOk = MethodConnectionCloseOk"

fun connection_canon :: "connection_method \<Rightarrow> connection_method" where
  "connection_canon (ConnectionStart versionMajor versionMinor serverProperties mechanisms locales) =
     ConnectionStart versionMajor versionMinor (canon_table serverProperties) mechanisms locales"
| "connection_canon (ConnectionStartOk clientProperties mechanism response locale) =
     ConnectionStartOk (canon_table clientProperties) mechanism response locale"
| "connection_canon (ConnectionSecure challenge) = ConnectionSecure challenge"
| "connection_canon (ConnectionSecureOk response) = ConnectionSecureOk response"
| "connection_canon (ConnectionTune channelMax frameMax heartbeat) = ConnectionTune channelMax frameMax heartbeat"
| "connection_canon (ConnectionTuneOk channelMax frameMax heartbeat) = ConnectionTuneOk channelMax frameMax heartbeat"
| "connection_canon (ConnectionOpen virtualHost capabilities insist) = ConnectionOpen virtualHost [] insist"
| "connection_canon (ConnectionOpenOk knownHosts) = ConnectionOpenOk []"
| "connection_canon (ConnectionClose replyCode replyText classID methodID) =
     ConnectionClose replyCode replyText classID methodID"
| "connection_canon ConnectionCloseOk = ConnectionCloseOk"

fun connection_fits :: "connection_method \<Rightarrow> bool" where
  "connection_fits (ConnectionStart versionMajor versionMinor serverProperties mechanisms locales) \<longleftrightarrow>
     table_fits serverProperties \<and> length mechanisms < 2 ^ 32 \<and> length locales < 2 ^ 32"
| "connection_fits (ConnectionStartOk clientProperties mechanism response locale) \<longleftrightarrow>
     table_fits clientProperties \<and> length mechanism \<le> 255 \<and> length response < 2 ^ 32 \<and> length locale \<le> 255"
| "connection_fits (ConnectionSecure challenge) \<longleftrightarrow> length challenge < 2 ^ 32"
| "connection_fits (ConnectionSecureOk response) \<longleftrightarrow> length response < 2 ^ 32"
| "connection_fits (ConnectionTune channelMax frameMax heartbeat) \<longleftrightarrow> True"
| "connection_fits (ConnectionTuneOk channelMax frameMax heartbeat) \<longleftrightarrow> True"
| "connection_fits (ConnectionOpen virtualHost capabilities insist) \<longleftrightarrow>
     length virtualHost \<le> 255"
| "connection_fits (ConnectionOpenOk knownHosts) \<longleftrightarrow> True"
| "connection_fits (ConnectionClose replyCode replyText classID methodID) \<longleftrightarrow>
     length replyText \<le> 255"
| "connection_fits ConnectionCloseOk \<longleftrightarrow> True"

fun channel_id :: "channel_method \<Rightarrow> u16" where
  "channel_id (ChannelOpen reserved1) = MethodChannelOpen"
| "channel_id (ChannelOpenOk reserved1) = MethodChannelOpenOk"
| "channel_id (ChannelFlow active) = MethodChannelFlow"
| "channel_id (ChannelFlowOk active) = MethodChannelFlowOk"
| "channel_id (ChannelClose replyCode replyText classID methodID) = MethodChannelClose"
| "channel_id ChannelCloseOk = MethodChannelCloseOk"

fun channel_canon :: "channel_method \<Rightarrow> channel_method" where
  "channel_canon (ChannelOpen reserved1) = ChannelOpen []"
| "channel_canon (ChannelOpenOk reserved1) = ChannelOpenOk []"
| "channel_canon (ChannelFlow active) = ChannelFlow active"
| "channel_canon (ChannelFlowOk active) = ChannelFlowOk active"
| "channel_canon (ChannelClose replyCode replyText classID methodID) =
     ChannelClose replyCode replyText classID methodID"
| "channel_canon ChannelCloseOk = ChannelCloseOk"

fun channel_fits :: "channel_method \<Rightarrow> bool" where
  "channel_fits (ChannelOpen reserved1) \<longleftrightarrow> True"
| "channel_fits (ChannelOpenOk reserved1) \<longleftrightarrow> True"
| "channel_fits (ChannelFlow active) \<longleftrightarrow> True"
| "channel_fits (ChannelFlowOk active) \<longleftrightarrow> True"
| "channel_fits (ChannelClose replyCode replyText classID methodID) \<longleftrightarrow> length replyText \<le> 255"
| "channel_fits ChannelCloseOk \<longleftrightarrow> True"

fun exchange_id :: "exchange_method \<Rightarrow> u16" where
  "exchange_id (ExchangeDeclare reserved1 exchange type passive durable autoDelete internal noWait arguments) =
     MethodExchangeDeclare"
| "exchange_id ExchangeDeclareOk = MethodExchangeDeclareOk"
| "exchange_id (ExchangeDelete reserved1 exchange ifUnused noWait) = MethodExchangeDelete"
| "exchange_id ExchangeDeleteOk = MethodExchangeDeleteOk"
| "exchange_id (ExchangeBind reserved1 destination source routingKey noWait arguments) = MethodExchangeBind"
| "exchange_id ExchangeBindOk = MethodExchangeBindOk"
| "exchange_id (ExchangeUnbind reserved1 destination source routingKey noWait arguments) = MethodExchangeUnbind"
| "exchange_id ExchangeUnbindOk = MethodExchangeUnbindOk"

fun exchange_canon :: "exchange_method \<Rightarrow> exchange_method" where
  "exchange_canon (ExchangeDeclare reserved1 exchange type passive durable autoDelete internal noWait arguments) =
     ExchangeDeclare 0 exchange type passive durable autoDelete internal noWait (canon_table arguments)"
| "exchange_canon ExchangeDeclareOk = ExchangeDeclareOk"
| "exchange_canon (ExchangeDelete reserved1 exchange ifUnused noWait) = ExchangeDelete 0 exchange ifUnused noWait"
| "exchange_canon ExchangeDeleteOk = ExchangeDeleteOk"
| "exchange_canon (ExchangeBind reserved1 destination source routingKey noWait arguments) =
     ExchangeBind 0 destination source routingKey noWait (canon_table arguments)"
| "exchange_canon ExchangeBindOk = ExchangeBindOk"
| "exchange_canon (ExchangeUnbind reserved1 destination source routingKey noWait arguments) =
     ExchangeUnbind 0 destination source routingKey noWait (canon_table arguments)"
| "exchange_canon ExchangeUnbindOk = ExchangeUnbindOk"

fun exchange_fits :: "exchange_method \<Rightarrow> bool" where
  "exchange_fits (ExchangeDeclare reserved1 exchange type passive durable autoDelete internal noWait arguments) \<longleftrightarrow>
     length exchange \<le> 255 \<and> length type \<le> 255 \<and> table_fits arguments"
| "exchange_fits ExchangeDeclareOk \<longleftrightarrow> True"
| "exchange_fits (ExchangeDelete reserved1 exchange ifUnused noWait) \<longleftrightarrow> length exchange \<le> 255"
| "exchange_fits ExchangeDeleteOk \<longleftrightarrow> True"
| "exchange_fits (ExchangeBind reserved1 destination source routingKey noWait arguments) \<longleftrightarrow>
     length destination \<le> 255 \<and> length source \<le> 255 \<and> length routingKey \<le> 255 \<and> table_fits arguments"
| "exchange_fits ExchangeBindOk \<longleftrightarrow> True"
| "exchange_fits (ExchangeUnbind reserved1 destination source routingKey noWait arguments) \<longleftrightarrow>
     length destination \<le> 255 \<and> length source \<le> 255 \<and> length routingKey \<le> 255 \<and> table_fits arguments"
| "exchange_fits ExchangeUnbindOk \<longleftrightarrow> True"

fun queue_id :: "queue_method \<Rightarrow> u16" where
  "queue_id (QueueDeclare reserved1 queue passive durable exclusive autoDelete noWait arguments) = MethodQueueDeclare"
| "queue_id (QueueDeclareOk queue messageCount consumerCount) = MethodQueueDeclareOk"
| "queue_id (QueueBind reserved1 queue exchange routingKey noWait arguments) = MethodQueueBind"
| "queue_id QueueBindOk = MethodQueueBindOk"
| "queue_id (QueuePurge reserved1 queue noWait) = MethodQueuePurge"
| "queue_id (QueuePurgeOk messageCount) = MethodQueuePurgeOk"
| "queue_id (QueueDelete reserved1 queue ifUnused ifEmpty noWait) = MethodQueueDelete"
| "queue_id (QueueDeleteOk messageCount) = MethodQueueDeleteOk"
| "queue_id (QueueUnbind reserved1 queue exchange routingKey arguments) = MethodQueueUnbind"
| "queue_id QueueUnbindOk = MethodQueueUnbindOk"

fun queue_canon :: "queue_method \<Rightarrow> queue_method" where
  "queue_canon (QueueDeclare reserved1 queue passive durable exclusive autoDelete noWait arguments) =
     QueueDeclare 0 queue passive durable exclusive autoDelete noWait (canon_table arguments)"
| "queue_canon (QueueDeclareOk queue messageCount consumerCount) = QueueDeclareOk queue messageCount consumerCount"
| "queue_canon (QueueBind reserved1 queue exchange routingKey noWait arguments) =
     QueueBind 0 queue exchange routingKey noWait (canon_table arguments)"
| "queue_canon QueueBindOk = QueueBindOk"
| "queue_canon (QueuePurge reserved1 queue noWait) = QueuePurge 0 queue noWait"
| "queue_canon (QueuePurgeOk messageCount) = QueuePurgeOk messageCount"
| "queue_canon (QueueDelete reserved1 queue ifUnused ifEmpty noWait) = QueueDelete 0 queue ifUnused ifEmpty noWait"
| "queue_canon (QueueDeleteOk messageCount) = QueueDeleteOk messageCount"
| "queue_canon (QueueUnbind reserved1 queue exchange routingKey arguments) =
     QueueUnbind 0 queue exchange routingKey (canon_table arguments)"
| "queue_canon QueueUnbindOk = QueueUnbindOk"

fun queue_fits :: "queue_method \<Rightarrow> bool" where
  "queue_fits (QueueDeclare reserved1 queue passive durable exclusive autoDelete noWait arguments) \<longleftrightarrow>
     length queue \<le> 255 \<and> table_fits arguments"
| "queue_fits (QueueDeclareOk queue messageCount consumerCount) \<longleftrightarrow> length queue \<le> 255"
| "queue_fits (QueueBind reserved1 queue exchange routingKey noWait arguments) \<longleftrightarrow>
     length queue \<le> 255 \<and> length exchange \<le> 255 \<and> length routingKey \<le> 255 \<and> table_fits arguments"
| "queue_fits QueueBindOk \<longleftrightarrow> True"
| "queue_fits (QueuePurge reserved1 queue noWait) \<longleftrightarrow> length queue \<le> 255"
| "queue_fits (QueuePurgeOk messageCount) \<longleftrightarrow> True"
| "queue_fits (QueueDelete reserved1 queue ifUnused ifEmpty noWait) \<longleftrightarrow> length queue \<le> 255"
| "queue_fits (QueueDeleteOk messageCount) \<longleftrightarrow> True"
| "queue_fits (QueueUnbind reserved1 queue exchange routingKey arguments) \<longleftrightarrow>
     length queue \<le> 255 \<and> length exchange \<le> 255 \<and> length routingKey \<le> 255 \<and> table_fits arguments"
| "queue_fits QueueUnbindOk \<longleftrightarrow> True"

fun basic_id :: "basic_method \<Rightarrow> u16" where
  "basic_id (BasicQos prefetchSize prefetchCount global) = MethodBasicQos"
| "basic_id BasicQosOk = MethodBasicQosOk"
| "basic_id (BasicConsume reserved1 queue consumerTag noLocal noAck exclusive noWait arguments) = MethodBasicConsume"
| "basic_id (BasicConsumeOk consumerTag) = MethodBasicConsumeOk"
| "basic_id (BasicCancel consumerTag noWait) = MethodBasicCancel"
| "basic_id (BasicCancelOk consumerTag) = MethodBasicCancelOk"
| "basic_id (BasicPublish reserved1 exchange routingKey mandatory immediate) = MethodBasicPublish"
| "basic_id (BasicReturn replyCode replyText exchange routingKey) = MethodBasicReturn"
| "basic_id (BasicDeliver consumerTag deliveryTag redelivered exchange routingKey) = MethodBasicDeliver"
| "basic_id (BasicGet reserved1 queue noAck) = MethodBasicGet"
| "basic_id (BasicGetOk deliveryTag redelivered exchange routingKey messageCount) = MethodBasicGetOk"
| "basic_id (BasicGetEmpty reserved1) = MethodBasicGetEmpty"
| "basic_id (BasicAck deliveryTag multiple) = MethodBasicAck"
| "basic_id (BasicReject deliveryTag requeue) = MethodBasicReject"
| "basic_id (BasicRecoverAsync requeue) = MethodBasicRecoverAsync"
| "basic_id (BasicRecover requeue) = MethodBasicRecover"
| "basic_id BasicRecoverOk = MethodBasicRecoverOk"
| "basic_id (BasicNack deliveryTag multiple requeue) = MethodBasicNack"

fun basic_canon :: "basic_method \<Rightarrow> basic_method" where
  "basic_canon (BasicQos prefetchSize prefetchCount global) = BasicQos prefetchSize prefetchCount global"
| "basic_canon BasicQosOk = BasicQosOk"
| "basic_canon (BasicConsume reserved1 queue consumerTag noLocal noAck exclusive noWait arguments) =
     BasicConsume 0 queue consumerTag noLocal noAck exclusive noWait (canon_table arguments)"
| "basic_canon (BasicConsumeOk consumerTag) = BasicConsumeOk consumerTag"
| "basic_canon (BasicCancel consumerTag noWait) = BasicCancel consumerTag noWait"
| "basic_canon (BasicCancelOk consumerTag) = BasicCancelOk consumerTag"
| "basic_canon (BasicPublish reserved1 exchange routingKey mandatory immediate) =
     BasicPublish 0 exchange routingKey mandatory immediate"
| "basic_canon (BasicReturn replyCode replyText exchange routingKey) =
     BasicReturn replyCode replyText exchange routingKey"
| "basic_canon (BasicDeliver consumerTag deliveryTag redelivered exchange routingKey) =
     BasicDeliver consumerTag deliveryTag redelivered exchange routingKey"
| "basic_canon (BasicGet reserved1 queue noAck) = BasicGet 0 queue noAck"
| "basic_canon (BasicGetOk deliveryTag redelivered exchange routingKey messageCount) =
     BasicGetOk deliveryTag redelivered exchange routingKey messageCount"
| "basic_canon (BasicGetEmpty reserved1) = BasicGetEmpty []"
| "basic_canon (BasicAck deliveryTag multiple) = BasicAck deliveryTag multiple"
| "basic_canon (BasicReject deliveryTag requeue) = BasicReject deliveryTag requeue"
| "basic_canon (BasicRecoverAsync requeue) = BasicRecoverAsync requeue"
| "basic_canon (BasicRecover requeue) = BasicRecover requeue"
| "basic_canon BasicRecoverOk = BasicRecoverOk"
| "basic_canon (BasicNack deliveryTag multiple requeue) = BasicNack deliveryTag multiple requeue"

fun basic_fits :: "basic_method \<Rightarrow> bool" where
  "basic_fits (BasicQos prefetchSize prefetchCount global) \<longleftrightarrow> True"
| "basic_fits BasicQosOk \<longleftrightarrow> True"
| "basic_fits (BasicConsume reserved1 queue consumerTag noLocal noAck exclusive noWait arguments) \<longleftrightarrow>
     length queue \<le> 255 \<and> length consumerTag \<le> 255 \<and> table_fits arguments"
| "basic_fits (BasicConsumeOk consumerTag) \<longleftrightarrow> length consumerTag \<le> 255"
| "basic_fits (BasicCancel consumerTag noWait) \<longleftrightarrow> length consumerTag \<le> 255"
| "basic_fits (BasicCancelOk consumerTag) \<longleftrightarrow> length consumerTag \<le> 255"
| "basic_fits (BasicPublish reserved1 exchange routingKey mandatory immediate) \<longleftrightarrow>
     length exchange \<le> 255 \<and> length routingKey \<le> 255"
| "basic_fits (BasicReturn replyCode replyText exchange routingKey) \<longleftrightarrow>
     length replyText \<le> 255 \<and> length exchange \<le> 255 \<and> length routingKey \<le> 255"
| "basic_fits (BasicDeliver consumerTag deliveryTag redelivered exchange routingKey) \<longleftrightarrow>
     length consumerTag \<le> 255 \<and> length exchange \<le> 255 \<and> length routingKey \<le> 255"
| "basic_fits (BasicGet reserved1 queue noAck) \<longleftrightarrow> length queue \<le> 255"
| "basic_fits (BasicGetOk deliveryTag redelivered exchange routingKey messageCount) \<longleftrightarrow>
     length exchange \<le> 255 \<and> length routingKey \<le> 255"
| "basic_fits (BasicGetEmpty reserved1) \<longleftrightarrow> True"
| "basic_fits (BasicAck deliveryTag multiple) \<longleftrightarrow> True"
| "basic_fits (BasicReject deliveryTag requeue) \<longleftrightarrow> True"
| "basic_fits (BasicRecoverAsync requeue) \<longleftrightarrow> True"
| "basic_fits (BasicRecover requeue) \<longleftrightarrow> True"
| "basic_fits BasicRecoverOk \<longleftrightarrow> True"
| "basic_fits (BasicNack deliveryTag multiple requeue) \<longleftrightarrow> True"

fun confirm_id :: "confirm_method \<Rightarrow> u16" where
  "confirm_id (ConfirmSelect noWait) = MethodConfirmSelect"
| "confirm_id ConfirmSelectOk = MethodConfirmSelectOk"

fun confirm_canon :: "confirm_method \<Rightarrow> confirm_method" where
  "confirm_canon (ConfirmSelect noWait) = ConfirmSelect noWait"
| "confirm_canon ConfirmSelectOk = ConfirmSelectOk"

fun confirm_fits :: "confirm_method \<Rightarrow> bool" where
  "confirm_fits (ConfirmSelect noWait) \<longleftrightarrow> True"
| "confirm_fits ConfirmSelectOk \<longleftrightarrow> True"

fun tx_id :: "tx_method \<Rightarrow> u16" where
  "tx_id TxSelect = MethodTxSelect"
| "tx_id TxSelectOk = MethodTxSelectOk"
| "tx_id TxCommit = MethodTxCommit"
| "tx_id TxCommitOk = MethodTxCommitOk"
| "tx_id TxRollback = MethodTxRollback"
| "tx_id TxRollbackOk = MethodTxRollbackOk"

fun tx_canon :: "tx_method \<Rightarrow> tx_method" where
  "tx_canon TxSelect = TxSelect"
| "tx_canon TxSelectOk = TxSelectOk"
| "tx_canon TxCommit = TxCommit"
| "tx_canon TxCommitOk = TxCommitOk"
| "tx_canon TxRollback = TxRollback"
| "tx_canon TxRollbackOk = TxRollbackOk"

fun tx_fits :: "tx_method \<Rightarrow> bool" where
  "tx_fits TxSelect \<longleftrightarrow> True"
| "tx_fits TxSelectOk \<longleftrightarrow> True"
| "tx_fits TxCommit \<longleftrightarrow> True"
| "tx_fits TxCommitOk \<longleftrightarrow> True"
| "tx_fits TxRollback \<longleftrightarrow> True"
| "tx_fits TxRollbackOk \<longleftrightarrow> True"

fun method_canon :: "amqp_method \<Rightarrow> amqp_method" where
  "method_canon (ConnectionMethod m) = ConnectionMethod (connection_canon m)"
| "method_canon (ChannelMethod m) = ChannelMethod (channel_canon m)"
| "method_canon (ExchangeMethod m) = ExchangeMethod (exchange_canon m)"
| "method_canon (QueueMethod m) = QueueMethod (queue_canon m)"
| "method_canon (BasicMethod m) = BasicMethod (basic_canon m)"
| "method_canon (ConfirmMethod m) = ConfirmMethod (confirm_canon m)"
| "method_canon (TxMethod m) = TxMethod (tx_canon m)"

fun method_fits :: "amqp_method \<Rightarrow> bool" where
  "method_fits (ConnectionMethod m) \<longleftrightarrow> connection_fits m"
| "method_fits (ChannelMethod m) \<longleftrightarrow> channel_fits m"
| "method_fits (ExchangeMethod m) \<longleftrightarrow> exchange_fits m"
| "method_fits (QueueMethod m) \<longleftrightarrow> queue_fits m"
| "method_fits (BasicMethod m) \<longleftrightarrow> basic_fits m"
| "method_fits (ConfirmMethod m) \<longleftrightarrow> confirm_fits m"
| "method_fits (TxMethod m) \<longleftrightarrow> tx_fits m"


section \<open>Every method arrives\<close>

text \<open>The flags of a method, packed into an octet from the least significant bit on.\<close>

lemma packed_flags [simp]:
  "has_bit (bit_if a 1) 1 = a"
  "has_bit (bit_if a 1 OR bit_if b 2) 1 = a" "has_bit (bit_if a 1 OR bit_if b 2) 2 = b"
  "has_bit (bit_if a 1 OR bit_if b 2 OR bit_if c 4) 1 = a" "has_bit (bit_if a 1 OR bit_if b 2 OR bit_if c 4) 2 = b"
  "has_bit (bit_if a 1 OR bit_if b 2 OR bit_if c 4) 4 = c"
  by (cases a; cases b; cases c; simp add: has_bit_def bit_if_def)+

lemma packed_four [simp]:
  "has_bit (bit_if a 1 OR bit_if b 2 OR bit_if c 4 OR bit_if d 8) 1 = a"
  "has_bit (bit_if a 1 OR bit_if b 2 OR bit_if c 4 OR bit_if d 8) 2 = b"
  "has_bit (bit_if a 1 OR bit_if b 2 OR bit_if c 4 OR bit_if d 8) 4 = c"
  "has_bit (bit_if a 1 OR bit_if b 2 OR bit_if c 4 OR bit_if d 8) 8 = d"
  by (cases a; cases b; cases c; cases d; simp add: has_bit_def bit_if_def)+

lemma packed_five [simp]:
  "has_bit (bit_if a 1 OR bit_if b 2 OR bit_if c 4 OR bit_if d 8 OR bit_if e 16) 1 = a"
  "has_bit (bit_if a 1 OR bit_if b 2 OR bit_if c 4 OR bit_if d 8 OR bit_if e 16) 2 = b"
  "has_bit (bit_if a 1 OR bit_if b 2 OR bit_if c 4 OR bit_if d 8 OR bit_if e 16) 4 = c"
  "has_bit (bit_if a 1 OR bit_if b 2 OR bit_if c 4 OR bit_if d 8 OR bit_if e 16) 8 = d"
  "has_bit (bit_if a 1 OR bit_if b 2 OR bit_if c 4 OR bit_if d 8 OR bit_if e 16) 16 = e"
  by (cases a; cases b; cases c; cases d; cases e; simp add: has_bit_def bit_if_def)+

text \<open>A method is its two identifiers and a body that the reader of the method understands.\<close>

definition framed :: "u16 \<Rightarrow> (u16 \<Rightarrow> 'm reader) \<Rightarrow> writer \<Rightarrow> u16 \<Rightarrow> 'm \<Rightarrow> bool" where
  "framed classID decode w methodID m \<longleftrightarrow>
     (\<exists>ws. w = write_all (WriteShort classID # WriteShort methodID # ws) \<and> carries (write_all ws) (decode methodID) m)"

lemma framedI:
  "w = write_all (WriteShort classID # WriteShort methodID # ws) \<Longrightarrow> decode methodID = p \<Longrightarrow>
   carries (write_all ws) p m \<Longrightarrow> framed classID decode w methodID m"
  by (auto simp: framed_def)

lemma carries_map: "carries w p x \<Longrightarrow> carries w (rmap f p) (f x)"
  by (fastforce simp: carries_def rmap_def reads_def rbind_def rreturn_def split: sum.splits)

lemma framed_carries:
  assumes "framed classID decode w methodID m" "\<And>n. decodeMethodSwitch classID n = rmap f (decode n)"
  shows "carries w decodeMethod (f m)"
proof -
  obtain ws where w: "w = write_all (WriteShort classID # WriteShort methodID # ws)"
    and body: "carries (write_all ws) (decode methodID) m"
    using assms(1) by (auto simp: framed_def)
  show ?thesis unfolding w decodeMethod_def
    by (intro carries_step[OF carries_numbers(1)]) (simp add: assms(2) carries_map[OF body])
qed

lemmas connection_defs =
  decode_connection_def
  ConnectionStart_Read_def ConnectionStartOk_Read_def ConnectionSecure_Read_def ConnectionSecureOk_Read_def
  ConnectionTune_Read_def ConnectionTuneOk_Read_def ConnectionOpen_Read_def ConnectionOpenOk_Read_def
  ConnectionClose_Read_def ConnectionCloseOk_Read_def
  ConnectionStart_Write_def ConnectionStartOk_Write_def ConnectionSecure_Write_def ConnectionSecureOk_Write_def
  ConnectionTune_Write_def ConnectionTuneOk_Write_def ConnectionOpen_Write_def ConnectionOpenOk_Write_def
  ConnectionClose_Write_def ConnectionCloseOk_Write_def

lemma connection_framed:
  "connection_fits m \<Longrightarrow> framed ClassConnection decode_connection (connection_Write m) (connection_id m) (connection_canon m)"
  by (cases m; rule framedI; simp add: connection_defs amqp_ids; (intro carries_fields)?; simp add: carries_done)

lemmas channel_defs =
  decode_channel_def
  ChannelOpen_Read_def ChannelOpenOk_Read_def ChannelFlow_Read_def ChannelFlowOk_Read_def ChannelClose_Read_def
  ChannelCloseOk_Read_def
  ChannelOpen_Write_def ChannelOpenOk_Write_def ChannelFlow_Write_def ChannelFlowOk_Write_def
  ChannelClose_Write_def ChannelCloseOk_Write_def

lemma channel_framed:
  "channel_fits m \<Longrightarrow> framed ClassChannel decode_channel (channel_Write m) (channel_id m) (channel_canon m)"
  by (cases m; rule framedI; simp add: channel_defs amqp_ids; (intro carries_fields)?; simp add: carries_done)

lemmas exchange_defs =
  decode_exchange_def
  ExchangeDeclare_Read_def ExchangeDeclareOk_Read_def ExchangeDelete_Read_def ExchangeDeleteOk_Read_def
  ExchangeBind_Read_def ExchangeBindOk_Read_def ExchangeUnbind_Read_def ExchangeUnbindOk_Read_def
  ExchangeDeclare_Write_def ExchangeDeclareOk_Write_def ExchangeDelete_Write_def ExchangeDeleteOk_Write_def
  ExchangeBind_Write_def ExchangeBindOk_Write_def ExchangeUnbind_Write_def ExchangeUnbindOk_Write_def

lemma exchange_framed:
  "exchange_fits m \<Longrightarrow> framed ClassExchange decode_exchange (exchange_Write m) (exchange_id m) (exchange_canon m)"
  by (cases m; rule framedI; simp add: exchange_defs amqp_ids; (intro carries_fields)?; simp add: carries_done)

lemmas queue_defs =
  decode_queue_def
  QueueDeclare_Read_def QueueDeclareOk_Read_def QueueBind_Read_def QueueBindOk_Read_def QueuePurge_Read_def
  QueuePurgeOk_Read_def QueueDelete_Read_def QueueDeleteOk_Read_def QueueUnbind_Read_def QueueUnbindOk_Read_def
  QueueDeclare_Write_def QueueDeclareOk_Write_def QueueBind_Write_def QueueBindOk_Write_def QueuePurge_Write_def
  QueuePurgeOk_Write_def QueueDelete_Write_def QueueDeleteOk_Write_def QueueUnbind_Write_def
  QueueUnbindOk_Write_def

lemma queue_framed:
  "queue_fits m \<Longrightarrow> framed ClassQueue decode_queue (queue_Write m) (queue_id m) (queue_canon m)"
  by (cases m; rule framedI; simp add: queue_defs amqp_ids; (intro carries_fields)?; simp add: carries_done)

lemmas basic_defs =
  decode_basic_def
  BasicQos_Read_def BasicQosOk_Read_def BasicConsume_Read_def BasicConsumeOk_Read_def BasicCancel_Read_def
  BasicCancelOk_Read_def BasicPublish_Read_def BasicReturn_Read_def BasicDeliver_Read_def BasicGet_Read_def
  BasicGetOk_Read_def BasicGetEmpty_Read_def BasicAck_Read_def BasicReject_Read_def BasicRecoverAsync_Read_def
  BasicRecover_Read_def BasicRecoverOk_Read_def BasicNack_Read_def
  BasicQos_Write_def BasicQosOk_Write_def BasicConsume_Write_def BasicConsumeOk_Write_def BasicCancel_Write_def
  BasicCancelOk_Write_def BasicPublish_Write_def BasicReturn_Write_def BasicDeliver_Write_def BasicGet_Write_def
  BasicGetOk_Write_def BasicGetEmpty_Write_def BasicAck_Write_def BasicReject_Write_def BasicRecoverAsync_Write_def
  BasicRecover_Write_def BasicRecoverOk_Write_def BasicNack_Write_def

lemma basic_framed:
  "basic_fits m \<Longrightarrow> framed ClassBasic decode_basic (basic_Write m) (basic_id m) (basic_canon m)"
  by (cases m; rule framedI; simp add: basic_defs amqp_ids; (intro carries_fields)?; simp add: carries_done)

lemmas confirm_defs =
  decode_confirm_def
  ConfirmSelect_Read_def ConfirmSelectOk_Read_def
  ConfirmSelect_Write_def ConfirmSelectOk_Write_def

lemma confirm_framed:
  "confirm_fits m \<Longrightarrow> framed ClassConfirm decode_confirm (confirm_Write m) (confirm_id m) (confirm_canon m)"
  by (cases m; rule framedI; simp add: confirm_defs amqp_ids; (intro carries_fields)?; simp add: carries_done)

lemmas tx_defs =
  decode_tx_def
  TxSelect_Read_def TxSelectOk_Read_def TxCommit_Read_def TxCommitOk_Read_def TxRollback_Read_def
  TxRollbackOk_Read_def
  TxSelect_Write_def TxSelectOk_Write_def TxCommit_Write_def TxCommitOk_Write_def TxRollback_Write_def
  TxRollbackOk_Write_def

lemma tx_framed:
  "tx_fits m \<Longrightarrow> framed ClassTx decode_tx (tx_Write m) (tx_id m) (tx_canon m)"
  by (cases m; rule framedI; simp add: tx_defs amqp_ids; (intro carries_fields)?; simp add: carries_done)

lemma switch_class:
  "decodeMethodSwitch ClassConnection n = rmap ConnectionMethod (decode_connection n)"
  "decodeMethodSwitch ClassChannel n = rmap ChannelMethod (decode_channel n)"
  "decodeMethodSwitch ClassExchange n = rmap ExchangeMethod (decode_exchange n)"
  "decodeMethodSwitch ClassQueue n = rmap QueueMethod (decode_queue n)"
  "decodeMethodSwitch ClassBasic n = rmap BasicMethod (decode_basic n)"
  "decodeMethodSwitch ClassConfirm n = rmap ConfirmMethod (decode_confirm n)"
  "decodeMethodSwitch ClassTx n = rmap TxMethod (decode_tx n)"
  by (simp_all add: decodeMethodSwitch_def amqp_ids)

lemma carries_method: "method_fits m \<Longrightarrow> carries (method_Write m) decodeMethod (method_canon m)"
  by (cases m)
    (simp_all add: framed_carries[OF connection_framed switch_class(1)]
      framed_carries[OF channel_framed switch_class(2)]
      framed_carries[OF exchange_framed switch_class(3)]
      framed_carries[OF queue_framed switch_class(4)]
      framed_carries[OF basic_framed switch_class(5)]
      framed_carries[OF confirm_framed switch_class(6)]
      framed_carries[OF tx_framed switch_class(7)])

end
