(* ===== verification/Amqp_Frame.thy ===== *)
theory Amqp_Frame
  imports Amqp_Methods
begin

text \<open>
  \<^verbatim>\<open>amqp/codec/properties.go\<close> and \<^verbatim>\<open>amqp/codec/frame.go\<close>: the basic properties with their presence flags, the content
  header, and the frames that carry methods, headers and bodies. A nil map of headers is \<open>None\<close>.
\<close>

unbundle bit_operations_syntax


section \<open>Basic properties\<close>

definition FlagContentType :: u16 where "FlagContentType = push_bit 15 1"

definition FlagContentEncoding :: u16 where "FlagContentEncoding = push_bit 14 1"

definition FlagHeaders :: u16 where "FlagHeaders = push_bit 13 1"

definition FlagDeliveryMode :: u16 where "FlagDeliveryMode = push_bit 12 1"

definition FlagPriority :: u16 where "FlagPriority = push_bit 11 1"

definition FlagCorrelationID :: u16 where "FlagCorrelationID = push_bit 10 1"

definition FlagReplyTo :: u16 where "FlagReplyTo = push_bit 9 1"

definition FlagExpiration :: u16 where "FlagExpiration = push_bit 8 1"

definition FlagMessageID :: u16 where "FlagMessageID = push_bit 7 1"

definition FlagTimestamp :: u16 where "FlagTimestamp = push_bit 6 1"

definition FlagType :: u16 where "FlagType = push_bit 5 1"

definition FlagUserID :: u16 where "FlagUserID = push_bit 4 1"

definition FlagAppID :: u16 where "FlagAppID = push_bit 3 1"

definition FlagClusterID :: u16 where "FlagClusterID = push_bit 2 1"

lemmas flag_defs =
  FlagContentType_def FlagContentEncoding_def FlagHeaders_def FlagDeliveryMode_def FlagPriority_def
  FlagCorrelationID_def FlagReplyTo_def FlagExpiration_def FlagMessageID_def FlagTimestamp_def
  FlagType_def FlagUserID_def FlagAppID_def FlagClusterID_def

record BasicProperties =
  p_ContentType :: string
  p_ContentEncoding :: string
  p_Headers :: "field_table option"
  p_DeliveryMode :: u8
  p_Priority :: u8
  p_CorrelationID :: string
  p_ReplyTo :: string
  p_Expiration :: string
  p_MessageID :: string
  p_Timestamp :: u64
  p_Type :: string
  p_UserID :: string
  p_AppID :: string
  p_ClusterID :: string

definition flag_if :: "bool \<Rightarrow> u16 \<Rightarrow> u16" where
  "flag_if b flag = (if b then flag else 0)"

definition Flags :: "BasicProperties \<Rightarrow> u16" where
  "Flags p =
     flag_if (p_ContentType p \<noteq> []) FlagContentType OR
     flag_if (p_ContentEncoding p \<noteq> []) FlagContentEncoding OR
     flag_if (p_Headers p \<noteq> None) FlagHeaders OR
     flag_if (p_DeliveryMode p \<noteq> 0) FlagDeliveryMode OR
     flag_if (p_Priority p \<noteq> 0) FlagPriority OR
     flag_if (p_CorrelationID p \<noteq> []) FlagCorrelationID OR
     flag_if (p_ReplyTo p \<noteq> []) FlagReplyTo OR
     flag_if (p_Expiration p \<noteq> []) FlagExpiration OR
     flag_if (p_MessageID p \<noteq> []) FlagMessageID OR
     flag_if (p_Timestamp p \<noteq> 0) FlagTimestamp OR
     flag_if (p_Type p \<noteq> []) FlagType OR
     flag_if (p_UserID p \<noteq> []) FlagUserID OR
     flag_if (p_AppID p \<noteq> []) FlagAppID OR
     flag_if (p_ClusterID p \<noteq> []) FlagClusterID"

definition has_flag :: "u16 \<Rightarrow> u16 \<Rightarrow> bool" where
  "has_flag flags flag \<longleftrightarrow> flags AND flag \<noteq> 0"

text \<open>A property is read when its flag is set and left as it is otherwise.\<close>

definition read_if :: "bool \<Rightarrow> 'a reader \<Rightarrow> 'a \<Rightarrow> 'a reader" where
  "read_if b rd old = (if b then rd else rreturn old)"

definition BasicProperties_Read :: "BasicProperties \<Rightarrow> u16 \<Rightarrow> BasicProperties reader" where
  "BasicProperties_Read p flags =
     rbind (read_if (has_flag flags FlagContentType) ReadShortStr (p_ContentType p)) (\<lambda>contentType.
     rbind (read_if (has_flag flags FlagContentEncoding) ReadShortStr (p_ContentEncoding p)) (\<lambda>contentEncoding.
     rbind (read_if (has_flag flags FlagHeaders) (rmap Some ReadTable) (p_Headers p)) (\<lambda>headers.
     rbind (read_if (has_flag flags FlagDeliveryMode) ReadOctet (p_DeliveryMode p)) (\<lambda>deliveryMode.
     rbind (read_if (has_flag flags FlagPriority) ReadOctet (p_Priority p)) (\<lambda>priority.
     rbind (read_if (has_flag flags FlagCorrelationID) ReadShortStr (p_CorrelationID p)) (\<lambda>correlationID.
     rbind (read_if (has_flag flags FlagReplyTo) ReadShortStr (p_ReplyTo p)) (\<lambda>replyTo.
     rbind (read_if (has_flag flags FlagExpiration) ReadShortStr (p_Expiration p)) (\<lambda>expiration.
     rbind (read_if (has_flag flags FlagMessageID) ReadShortStr (p_MessageID p)) (\<lambda>messageID.
     rbind (read_if (has_flag flags FlagTimestamp) ReadLongLong (p_Timestamp p)) (\<lambda>timestamp.
     rbind (read_if (has_flag flags FlagType) ReadShortStr (p_Type p)) (\<lambda>type.
     rbind (read_if (has_flag flags FlagUserID) ReadShortStr (p_UserID p)) (\<lambda>userID.
     rbind (read_if (has_flag flags FlagAppID) ReadShortStr (p_AppID p)) (\<lambda>appID.
     rbind (read_if (has_flag flags FlagClusterID) ReadShortStr (p_ClusterID p)) (\<lambda>clusterID.
     rreturn \<lparr>p_ContentType = contentType, p_ContentEncoding = contentEncoding, p_Headers = headers,
       p_DeliveryMode = deliveryMode, p_Priority = priority, p_CorrelationID = correlationID,
       p_ReplyTo = replyTo, p_Expiration = expiration, p_MessageID = messageID,
       p_Timestamp = timestamp, p_Type = type, p_UserID = userID,
       p_AppID = appID, p_ClusterID = clusterID\<rparr>))))))))))))))"

definition write_headers :: "field_table option \<Rightarrow> writer" where
  "write_headers hs = WriteTable (case hs of None \<Rightarrow> [] | Some t \<Rightarrow> t)"

definition write_if :: "bool \<Rightarrow> writer \<Rightarrow> writer" where
  "write_if b w = (if b then w else write_all [])"

definition BasicProperties_Write :: "BasicProperties \<Rightarrow> writer" where
  "BasicProperties_Write p =
     (let flags = Flags p in write_all
       [write_if (has_flag flags FlagContentType) (WriteShortStr (p_ContentType p)),
        write_if (has_flag flags FlagContentEncoding) (WriteShortStr (p_ContentEncoding p)),
        write_if (has_flag flags FlagHeaders) (write_headers (p_Headers p)),
        write_if (has_flag flags FlagDeliveryMode) (WriteOctet (p_DeliveryMode p)),
        write_if (has_flag flags FlagPriority) (WriteOctet (p_Priority p)),
        write_if (has_flag flags FlagCorrelationID) (WriteShortStr (p_CorrelationID p)),
        write_if (has_flag flags FlagReplyTo) (WriteShortStr (p_ReplyTo p)),
        write_if (has_flag flags FlagExpiration) (WriteShortStr (p_Expiration p)),
        write_if (has_flag flags FlagMessageID) (WriteShortStr (p_MessageID p)),
        write_if (has_flag flags FlagTimestamp) (WriteLongLong (p_Timestamp p)),
        write_if (has_flag flags FlagType) (WriteShortStr (p_Type p)),
        write_if (has_flag flags FlagUserID) (WriteShortStr (p_UserID p)),
        write_if (has_flag flags FlagAppID) (WriteShortStr (p_AppID p)),
        write_if (has_flag flags FlagClusterID) (WriteShortStr (p_ClusterID p))])"

record ContentHeader =
  h_ClassID :: u16
  h_Weight :: u16
  h_BodySize :: u64
  h_Flags :: u16
  h_Properties :: BasicProperties

text \<open>The zero value of the struct, from which a header is read.\<close>

definition no_properties :: BasicProperties where
  "no_properties = \<lparr>p_ContentType = [], p_ContentEncoding = [], p_Headers = None, p_DeliveryMode = 0,
     p_Priority = 0, p_CorrelationID = [], p_ReplyTo = [], p_Expiration = [],
     p_MessageID = [], p_Timestamp = 0, p_Type = [], p_UserID = [],
     p_AppID = [], p_ClusterID = []\<rparr>"

definition ReadContentHeader :: "ContentHeader reader" where
  "ReadContentHeader =
     rbind ReadShort (\<lambda>classID. rbind ReadShort (\<lambda>weight. rbind ReadLongLong (\<lambda>bodySize. rbind ReadShort (\<lambda>flags.
     rbind (BasicProperties_Read no_properties flags) (\<lambda>properties.
     rreturn \<lparr>h_ClassID = classID, h_Weight = weight, h_BodySize = bodySize, h_Flags = flags, h_Properties = properties\<rparr>)))))"

text \<open>The header is written with the flags of its properties, which the call also stores in it.\<close>

definition WriteContentHeader :: "ContentHeader \<Rightarrow> string \<Rightarrow> (codec_error option \<times> string) \<times> ContentHeader" where
  "WriteContentHeader h buf =
     (let flags = Flags (h_Properties h) in
      (write_all [WriteShort (h_ClassID h), WriteShort (h_Weight h), WriteLongLong (h_BodySize h),
         WriteShort flags, BasicProperties_Write (h_Properties h)] buf, h\<lparr>h_Flags := flags\<rparr>))"


section \<open>Frames\<close>

definition FrameMethod :: u8 where "FrameMethod = 1"

definition FrameHeader :: u8 where "FrameHeader = 2"

definition FrameBody :: u8 where "FrameBody = 3"

definition FrameHeartbeat :: u8 where "FrameHeartbeat = 8"

definition FrameEnd :: u8 where "FrameEnd = 0xCE"

lemmas frame_types = FrameMethod_def FrameHeader_def FrameBody_def FrameHeartbeat_def

record Frame =
  f_Type :: u8
  f_Channel :: u16
  f_Payload :: string

definition ReadFrame :: "Frame reader" where
  "ReadFrame =
     rbind ReadOctet (\<lambda>frameType. rbind ReadShort (\<lambda>channel. rbind ReadLong (\<lambda>size.
     rbind (read_full (unat size)) (\<lambda>payload. rbind ReadOctet (\<lambda>frameEnd.
     if frameEnd \<noteq> FrameEnd then rfail (AmqpError FrameError ''malformed frame: incorrect frame-end marker'')
     else rreturn \<lparr>f_Type = frameType, f_Channel = channel, f_Payload = payload\<rparr>)))))"

definition WriteFrame :: "Frame \<Rightarrow> writer" where
  "WriteFrame f =
     write_all [WriteOctet (f_Type f), WriteShort (f_Channel f), WriteLong (of_nat (length (f_Payload f))),
       write_bytes (f_Payload f), WriteOctet FrameEnd]"

datatype decoded = DMethod amqp_method | DHeader ContentHeader | DBody string | DHeartbeat

definition Decode :: "Frame \<Rightarrow> codec_error + decoded" where
  "Decode f =
     (if f_Type f = FrameMethod then map_sum id (DMethod \<circ> fst) (decodeMethod (f_Payload f))
      else if f_Type f = FrameHeader then map_sum id (DHeader \<circ> fst) (ReadContentHeader (f_Payload f))
      else if f_Type f = FrameBody then Inr (DBody (f_Payload f))
      else if f_Type f = FrameHeartbeat then Inr DHeartbeat
      else Inl (AmqpError FrameError ''unknown frame type''))"


section \<open>Round trips\<close>

text \<open>A flag is set exactly when its property is present.\<close>

lemma has_flag_bit: "has_flag w (push_bit n 1) \<longleftrightarrow> bit w n"
  by (auto simp: has_flag_def and_exp_eq_0_iff_not_bit push_bit_eq_mult)

lemma bit_flag_if: "n < 16 \<Longrightarrow> m < 16 \<Longrightarrow> bit (flag_if b (push_bit n 1)) m \<longleftrightarrow> b \<and> m = n"
  by (auto simp: flag_if_def bit_simps)

lemma flags_present [simp]:
  "has_flag (Flags p) FlagContentType \<longleftrightarrow> p_ContentType p \<noteq> []"
  "has_flag (Flags p) FlagContentEncoding \<longleftrightarrow> p_ContentEncoding p \<noteq> []"
  "has_flag (Flags p) FlagHeaders \<longleftrightarrow> p_Headers p \<noteq> None"
  "has_flag (Flags p) FlagDeliveryMode \<longleftrightarrow> p_DeliveryMode p \<noteq> 0"
  "has_flag (Flags p) FlagPriority \<longleftrightarrow> p_Priority p \<noteq> 0"
  "has_flag (Flags p) FlagCorrelationID \<longleftrightarrow> p_CorrelationID p \<noteq> []"
  "has_flag (Flags p) FlagReplyTo \<longleftrightarrow> p_ReplyTo p \<noteq> []"
  "has_flag (Flags p) FlagExpiration \<longleftrightarrow> p_Expiration p \<noteq> []"
  "has_flag (Flags p) FlagMessageID \<longleftrightarrow> p_MessageID p \<noteq> []"
  "has_flag (Flags p) FlagTimestamp \<longleftrightarrow> p_Timestamp p \<noteq> 0"
  "has_flag (Flags p) FlagType \<longleftrightarrow> p_Type p \<noteq> []"
  "has_flag (Flags p) FlagUserID \<longleftrightarrow> p_UserID p \<noteq> []"
  "has_flag (Flags p) FlagAppID \<longleftrightarrow> p_AppID p \<noteq> []"
  "has_flag (Flags p) FlagClusterID \<longleftrightarrow> p_ClusterID p \<noteq> []"
  by (simp_all only: Flags_def flag_defs has_flag_bit bit_or_iff bit_flag_if rel_simps simp_thms)

definition props_canon :: "BasicProperties \<Rightarrow> BasicProperties" where
  "props_canon p = p\<lparr>p_Headers := map_option canon_table (p_Headers p)\<rparr>"

definition props_fit :: "BasicProperties \<Rightarrow> bool" where
  "props_fit p \<longleftrightarrow>
     (case p_Headers p of None \<Rightarrow> True | Some t \<Rightarrow> table_fits t) \<and>
     length (p_ContentType p) \<le> 255 \<and> length (p_ContentEncoding p) \<le> 255 \<and> length (p_CorrelationID p) \<le> 255 \<and>
     length (p_ReplyTo p) \<le> 255 \<and> length (p_Expiration p) \<le> 255 \<and> length (p_MessageID p) \<le> 255 \<and>
     length (p_Type p) \<le> 255 \<and> length (p_UserID p) \<le> 255 \<and> length (p_AppID p) \<le> 255 \<and>
     length (p_ClusterID p) \<le> 255"

lemma carries_if:
  "(b \<Longrightarrow> carries w rd x) \<Longrightarrow> (\<not> b \<Longrightarrow> x = old) \<Longrightarrow> carries (write_if b w) (read_if b rd old) x"
  by (auto simp: write_if_def read_if_def carries_done)

lemma carries_headers:
  "hs \<noteq> None \<Longrightarrow> (case hs of None \<Rightarrow> True | Some t \<Rightarrow> table_fits t) \<Longrightarrow>
   carries (write_headers hs) (rmap Some ReadTable) (map_option canon_table hs)"
  by (auto simp: write_headers_def intro: carries_map[OF carries_table])

lemmas carries_optional =
  carries_step[OF carries_if[OF carries_short_string]] carries_step[OF carries_if[OF carries_octet]]
  carries_step[OF carries_if[OF carries_numbers(3)]] carries_step[OF carries_if[OF carries_headers]]

lemma props_canon_fields:
  "props_canon p = \<lparr>p_ContentType = p_ContentType p, p_ContentEncoding = p_ContentEncoding p, p_Headers = map_option canon_table (p_Headers p),
     p_DeliveryMode = p_DeliveryMode p, p_Priority = p_Priority p, p_CorrelationID = p_CorrelationID p,
     p_ReplyTo = p_ReplyTo p, p_Expiration = p_Expiration p, p_MessageID = p_MessageID p,
     p_Timestamp = p_Timestamp p, p_Type = p_Type p, p_UserID = p_UserID p,
     p_AppID = p_AppID p, p_ClusterID = p_ClusterID p\<rparr>"
  by (cases p) (simp add: props_canon_def)

lemma carries_properties:
  assumes "props_fit p"
  shows "carries (BasicProperties_Write p) (BasicProperties_Read no_properties (Flags p)) (props_canon p)"
  using assms unfolding BasicProperties_Write_def BasicProperties_Read_def Let_def props_fit_def
  by (intro carries_optional) (simp_all add: no_properties_def props_canon_fields carries_done)

lemma carries_header:
  assumes "props_fit (h_Properties h)"
  shows "carries (\<lambda>buf. fst (WriteContentHeader h buf)) ReadContentHeader
           ((snd (WriteContentHeader h buf))\<lparr>h_Properties := props_canon (h_Properties h)\<rparr>)"
proof (cases h)
  case (fields classID weight bodySize flags properties)
  show ?thesis unfolding WriteContentHeader_def ReadContentHeader_def Let_def fst_conv snd_conv fields ContentHeader.simps
    by (intro carries_step[OF carries_numbers(1)] carries_step[OF carries_numbers(3)]
        carries_step[OF carries_properties] carries_done) (use assms in \<open>simp add: fields\<close>)
qed

lemma carries_frame: "length (f_Payload f) < 2 ^ 32 \<Longrightarrow> carries (WriteFrame f) ReadFrame f"
proof (cases f)
  case (fields t ch payload)
  assume "length (f_Payload f) < 2 ^ 32"
  then have n: "unat (of_nat (length payload) :: u32) = length payload" by (simp add: fields unat_of_nat)
  have "carries (write_bytes payload) (read_full (unat (of_nat (length payload) :: u32))) payload"
    unfolding n by (rule carriesI[OF emits_bytes reads_full])
  note step = carries_step[OF this]
  show ?thesis unfolding WriteFrame_def ReadFrame_def fields Frame.simps
    by (intro carries_step[OF carries_octet] carries_step[OF carries_numbers(1)] carries_step[OF carries_numbers(2)] step)
      (simp add: carries_done)
qed


section \<open>Frames on a stream\<close>

text \<open>
  A steady reader has settled its answer once it has one: more bytes behind the input change neither a result
  nor a protocol error. Only the end of the input can turn into something else.
\<close>

definition steady :: "'a reader \<Rightarrow> bool" where
  "steady p \<longleftrightarrow> (\<forall>r s. case p r of Inr (x, r') \<Rightarrow> p (r @ s) = Inr (x, r' @ s)
     | Inl (AmqpError code msg) \<Rightarrow> p (r @ s) = Inl (AmqpError code msg) | Inl _ \<Rightarrow> True)"

lemma steady_bind: "steady p \<Longrightarrow> (\<And>x. steady (f x)) \<Longrightarrow> steady (rbind p f)"
  unfolding steady_def rbind_def
  by (intro allI) (force split: sum.split prod.split codec_error.split sum.splits prod.splits codec_error.splits)

lemma steady_basic: "steady (rreturn x)" "steady (rfail err)" "steady (read_full n)"
  by (auto simp: steady_def rreturn_def rfail_def read_full_def split: codec_error.split)

lemma steady_elementary: "steady ReadOctet" "steady ReadShort" "steady ReadLong" "steady ReadLongLong"
  by (auto simp: ReadOctet_def ReadShort_def ReadLong_def ReadLongLong_def intro!: steady_bind steady_basic)

lemma steady_frame: "steady ReadFrame"
  by (auto simp: ReadFrame_def intro!: steady_bind steady_basic steady_elementary)

lemma steadyE:
  assumes "steady p" "p (r @ s) = Inr (x, [])" "s \<noteq> []"
  shows "p r \<in> {Inl EOF, Inl UnexpectedEOF}"
proof (cases "p r")
  case (Inl err) then show ?thesis using assms(1)[unfolded steady_def, rule_format, of r s] assms(2) by (cases err) auto
next
  case (Inr y) then show ?thesis
    using assms(1)[unfolded steady_def, rule_format, of r s] assms(2,3) by (cases y) auto
qed

text \<open>Reading a number is the inverse of writing it.\<close>

lemma get_be_bound: "get_be s < 256 ^ length s"
proof (induction s)
  case (Cons c s)
  have "of_char c * 256 ^ length s + get_be s < (of_char c + 1) * 256 ^ length s" using Cons by (simp add: algebra_simps)
  also have "\<dots> \<le> 256 * 256 ^ length s" using nat_of_char_less_256[of c] by (intro mult_right_mono) linarith+
  finally show ?case by (simp add: get_be_Cons)
qed (simp add: get_be_def)

lemma get_be_inj: "length s = length t \<Longrightarrow> get_be s = get_be t \<Longrightarrow> s = t"
proof (induction s t rule: list_induct2)
  case (Cons c s d t)
  have eq: "get_be s + of_char c * 256 ^ length s = get_be t + of_char d * 256 ^ length s"
    using Cons.prems Cons.hyps by (simp add: get_be_Cons add.commute)
  have "get_be s < 256 ^ length s" "get_be t < 256 ^ length s" using get_be_bound Cons.hyps by (metis)+
  then have "of_char c = (of_char d :: nat)" "get_be s = get_be t"
    using arg_cong[OF eq, of "\<lambda>v. v div 256 ^ length s"] arg_cong[OF eq, of "\<lambda>v. v mod 256 ^ length s"] by simp_all
  then show ?case using Cons.IH by simp
qed simp

lemma put_get_be: "put_be (length s) (get_be s) = s"
  by (rule get_be_inj) (simp_all add: get_put_be get_be_bound)

lemma rbind_Inr: "rbind p f r = Inr y \<longleftrightarrow> (\<exists>x r'. p r = Inr (x, r') \<and> f x r' = Inr y)"
  by (auto simp: rbind_def split: sum.splits)

lemma read_full_Inr: "read_full n r = Inr (s, r') \<longleftrightarrow> length s = n \<and> r = s @ r'"
  by (auto simp: read_full_def split: if_splits)

lemma read_word_exact:
  assumes "256 ^ n = (2 :: nat) ^ LENGTH('a)"
  shows "rbind (read_full n) (\<lambda>b. rreturn (of_nat (get_be b))) r = Inr (w :: 'a::len word, r') \<longleftrightarrow> r = put_be n (unat w) @ r'"
proof -
  have "put_be n (unat (of_nat (get_be s) :: 'a word)) = s" if "length s = n" for s
    using put_get_be[of s] get_be_bound[of s] that assms by (simp add: unat_of_nat)
  then show ?thesis
    by (auto simp: rbind_Inr read_full_Inr rreturn_def get_put_word[OF assms] intro!: exI[of _ "put_be n (unat w)"])
qed

lemma read_octet_exact: "ReadOctet r = Inr (b, r') \<longleftrightarrow> r = char_of (unat b) # r'"
  by (cases r) (auto simp: read_octet_cons char_octet octet_char)

lemmas read_number_exact =
  read_word_exact[where 'a = 16 and n = 2, simplified, folded ReadShort_def]
  read_word_exact[where 'a = 32 and n = 4, simplified, folded ReadLong_def]

lemma WriteFrame_bytes:
  "WriteFrame f buf = (None, buf @ char_of (unat (f_Type f)) # put_be 2 (unat (f_Channel f)) @
     put_be 4 (unat (of_nat (length (f_Payload f)) :: u32)) @ f_Payload f @ [char_of (unat FrameEnd)])"
  by (simp add: WriteFrame_def WriteOctet_def WriteShort_def WriteLong_def write_bytes_def)

lemma size_bound: "unat (n :: u32) < 2 ^ 32"
  using unsigned_less[of n, where 'a = nat] by simp

lemma ReadFrame_inverse:
  "ReadFrame r = Inr (f, rest) \<longleftrightarrow> length (f_Payload f) < 2 ^ 32 \<and> r = snd (WriteFrame f []) @ rest"
proof
  assume "ReadFrame r = Inr (f, rest)"
  then obtain n where "length (f_Payload f) = unat (n :: u32)" "r = snd (WriteFrame f []) @ rest"
    by (auto simp: ReadFrame_def rbind_Inr read_octet_exact read_number_exact read_full_Inr rreturn_def rfail_def
        WriteFrame_bytes split: if_splits)
  then show "length (f_Payload f) < 2 ^ 32 \<and> r = snd (WriteFrame f []) @ rest" using size_bound by metis
next
  assume "length (f_Payload f) < 2 ^ 32 \<and> r = snd (WriteFrame f []) @ rest"
  then show "ReadFrame r = Inr (f, rest)"
    using carries_frame[of f] by (auto simp: carries_def emits_def reads_def)
qed

lemma carriesD:
  assumes "carries w p x"
  shows "fst (w buf) = None" "snd (w buf) = buf @ snd (w [])" "p (snd (w []) @ rest) = Inr (x, rest)"
proof -
  obtain s where "emits w s" "reads p s x" using assms by (auto simp: carries_def)
  then show "fst (w buf) = None" "snd (w buf) = buf @ snd (w [])" "p (snd (w []) @ rest) = Inr (x, rest)"
    by (simp_all add: emits_def reads_def)
qed

end
