(* ===== verification/Routing.thy ===== *)
theory Routing
  imports Flux_Prelude
begin

text \<open>
  \<^verbatim>\<open>broker/routing.go\<close>: the decision which part of the broker an address belongs to, shared by all protocol
  handlers. The result is a description of the decision by the levels of the address: a control verb is never
  mistaken for a message to a queue.
\<close>

datatype route_kind = RoutePubSub | RouteQueue | RouteQueueAck | RouteQueueCommit | RouteQueueMalformed

datatype ack_kind = AckAccept | AckNack | AckReject

record route_result =
  rt_Kind :: route_kind
  rt_QueueName :: string
  rt_Pattern :: string
  rt_ControlVerb :: string
  rt_PublishTopic :: string
  rt_AckKind :: ack_kind

definition queuePrefix :: string where "queuePrefix = ''$queue/''"

text \<open>\<^verbatim>\<open>strings.CutSuffix\<close>.\<close>

definition cut_suffix :: "string \<Rightarrow> string \<Rightarrow> string option" where
  "cut_suffix s x =
     (if length x \<le> length s \<and> drop (length s - length x) s = x then Some (take (length s - length x) s) else None)"

definition queueControlSegments :: "string list" where
  "queueControlSegments = [''$ack'', ''$nack'', ''$reject'', ''$commit'']"

definition misplacedControlSegment :: "string \<Rightarrow> string option" where
  "misplacedControlSegment topic =
     List.find (\<lambda>level. level \<in> set queueControlSegments) (butlast (str_split (CHR ''/'') topic))"

definition parseAckSuffix :: "string \<Rightarrow> (ack_kind \<times> string) option" where
  "parseAckSuffix topic =
     (case cut_suffix topic ''/$ack'' of Some base \<Rightarrow> Some (AckAccept, base) | None \<Rightarrow>
     (case cut_suffix topic ''/$nack'' of Some base \<Rightarrow> Some (AckNack, base) | None \<Rightarrow>
     (case cut_suffix topic ''/$reject'' of Some base \<Rightarrow> Some (AckReject, base) | None \<Rightarrow> None)))"

definition ParseQueueFilter :: "string \<Rightarrow> string \<times> string" where
  "ParseQueueFilter flt =
     (if \<not> has_prefix flt queuePrefix then ([], [])
      else let rest = drop (length queuePrefix) flt in
        if rest = [] then ([], [])
        else (case str_cut (CHR ''/'') rest of (name, pat, ok) \<Rightarrow> if ok then (name, pat) else (rest, [])))"

definition zero_route :: route_result where
  "zero_route = \<lparr>rt_Kind = RoutePubSub, rt_QueueName = [], rt_Pattern = [], rt_ControlVerb = [], rt_PublishTopic = [],
     rt_AckKind = AckAccept\<rparr>"

definition Resolve :: "string \<Rightarrow> route_result" where
  "Resolve topic =
     (if \<not> has_prefix topic queuePrefix then zero_route
      else (case parseAckSuffix topic of
        Some (ackKind, baseTopic) \<Rightarrow>
          (case ParseQueueFilter baseTopic of (queueName, pattern) \<Rightarrow>
             zero_route\<lparr>rt_Kind := RouteQueueAck, rt_QueueName := queueName, rt_Pattern := pattern,
               rt_PublishTopic := baseTopic, rt_AckKind := ackKind\<rparr>)
      | None \<Rightarrow> (case misplacedControlSegment topic of
        Some segment \<Rightarrow>
          zero_route\<lparr>rt_Kind := RouteQueueMalformed, rt_PublishTopic := topic, rt_ControlVerb := segment\<rparr>
      | None \<Rightarrow> (case cut_suffix topic ''/$commit'' of
        Some _ \<Rightarrow>
          (let rest = drop (length queuePrefix) topic;
               inner = (case cut_suffix rest ''/$commit'' of Some base \<Rightarrow> base | None \<Rightarrow> rest) in
           zero_route\<lparr>rt_Kind := RouteQueueCommit, rt_QueueName := inner, rt_PublishTopic := topic\<rparr>)
      | None \<Rightarrow>
          (case ParseQueueFilter topic of (queueName, pattern) \<Rightarrow>
             zero_route\<lparr>rt_Kind := RouteQueue, rt_QueueName := queueName, rt_Pattern := pattern,
               rt_PublishTopic := topic\<rparr>)))))"

definition IsQueueTopic :: "string \<Rightarrow> bool" where
  "IsQueueTopic topic \<longleftrightarrow> has_prefix topic queuePrefix"

definition QueueTopic :: "string \<Rightarrow> string list \<Rightarrow> string" where
  "QueueTopic queueName parts =
     fold (\<lambda>p topic. if p \<noteq> [] then topic @ ''/'' @ p else topic) parts (queuePrefix @ queueName)"

definition EffectiveConsumerGroupID :: "string \<Rightarrow> string \<Rightarrow> string" where
  "EffectiveConsumerGroupID groupID pattern = (if pattern = [] then groupID else groupID @ ''@'' @ pattern)"


section \<open>Addresses by levels\<close>

abbreviation levels :: "string \<Rightarrow> string list" where
  "levels \<equiv> str_split (CHR ''/'')"

lemma cut_suffix_Some: "cut_suffix s x = Some b \<longleftrightarrow> s = b @ x"
proof
  assume "cut_suffix s x = Some b"
  then have "drop (length s - length x) s = x" "b = take (length s - length x) s"
    by (auto simp: cut_suffix_def split: if_splits)
  then show "s = b @ x" by (metis append_take_drop_id)
qed (simp add: cut_suffix_def)

lemma str_split_append_all: "str_split c (a @ c # b) = str_split c a @ str_split c b"
  by (induction a) (auto split: list.splits)

text \<open>A suffix that is one level is the last of at least two levels.\<close>

lemma cut_suffix_level:
  assumes "CHR ''/'' \<notin> set x"
  shows "cut_suffix t (CHR ''/'' # x) \<noteq> None \<longleftrightarrow> length (levels t) \<ge> 2 \<and> last (levels t) = x"
proof
  assume "cut_suffix t (CHR ''/'' # x) \<noteq> None"
  then obtain b where "t = b @ CHR ''/'' # x" by (auto simp: cut_suffix_Some)
  then have "levels t = levels b @ [x]" using assms by (simp add: str_split_append_all str_split_single)
  then show "length (levels t) \<ge> 2 \<and> last (levels t) = x" using str_split_Nil[of "CHR ''/''" b] by (cases "levels b") auto
next
  assume l: "length (levels t) \<ge> 2 \<and> last (levels t) = x"
  have "str_join c (ls @ [x]) = str_join c ls @ c # x" if "ls \<noteq> []" for c ls
    using that by (induction c ls rule: str_join.induct) (auto simp: neq_Nil_conv)
  moreover have "butlast (levels t) \<noteq> []" using l by (cases "levels t") auto
  ultimately have "str_join (CHR ''/'') (butlast (levels t) @ [x]) = str_join (CHR ''/'') (butlast (levels t)) @ CHR ''/'' # x"
    by blast
  moreover have "butlast (levels t) @ [x] = levels t" using l by (metis append_butlast_last_id str_split_Nil)
  ultimately have "t = str_join (CHR ''/'') (butlast (levels t)) @ CHR ''/'' # x" by (metis str_join_split)
  then show "cut_suffix t (CHR ''/'' # x) \<noteq> None" by (metis cut_suffix_Some option.distinct(1))
qed

lemma misplaced_level:
  "misplacedControlSegment t \<noteq> None \<longleftrightarrow> (\<exists>l \<in> set (butlast (levels t)). l \<in> set queueControlSegments)"
  by (auto simp: misplacedControlSegment_def find_None_iff)

lemma prefix_levels: "has_prefix t queuePrefix \<Longrightarrow> length (levels t) \<ge> 2 \<and> hd (levels t) = ''$queue''"
proof -
  assume "has_prefix t queuePrefix"
  then obtain r where "t = ''$queue'' @ CHR ''/'' # r" using has_prefixD[of t queuePrefix] by (auto simp: queuePrefix_def)
  then have "levels t = ''$queue'' # levels r" using str_split_append[of "CHR ''/''" "''$queue''" r] by simp
  then show ?thesis using str_split_Nil[of "CHR ''/''" r] by (cases "levels r") auto
qed

text \<open>What kind of address it is depends on the last level and on the levels before it.\<close>

lemma ack_level:
  "has_prefix t queuePrefix \<Longrightarrow> parseAckSuffix t \<noteq> None \<longleftrightarrow> last (levels t) \<in> {''$ack'', ''$nack'', ''$reject''}"
  using cut_suffix_level[of "''$ack''" t] cut_suffix_level[of "''$nack''" t] cut_suffix_level[of "''$reject''" t]
    prefix_levels[of t]
  by (auto simp: parseAckSuffix_def split: option.splits)

lemma commit_level: "has_prefix t queuePrefix \<Longrightarrow> cut_suffix t ''/$commit'' \<noteq> None \<longleftrightarrow> last (levels t) = ''$commit''"
  using cut_suffix_level[of "''$commit''" t] prefix_levels[of t] by auto

lemma Resolve_kind:
  assumes "has_prefix t queuePrefix"
  shows "rt_Kind (Resolve t) =
    (if last (levels t) \<in> {''$ack'', ''$nack'', ''$reject''} then RouteQueueAck
     else if \<exists>l \<in> set (butlast (levels t)). l \<in> set queueControlSegments then RouteQueueMalformed
     else if last (levels t) = ''$commit'' then RouteQueueCommit else RouteQueue)"
proof -
  have kind: "rt_Kind (Resolve t) = (if parseAckSuffix t \<noteq> None then RouteQueueAck
    else if misplacedControlSegment t \<noteq> None then RouteQueueMalformed
    else if cut_suffix t ''/$commit'' \<noteq> None then RouteQueueCommit else RouteQueue)"
    using assms by (auto simp: Resolve_def Let_def split: option.splits prod.splits)
  show ?thesis unfolding kind ack_level[OF assms] misplaced_level commit_level[OF assms] ..
qed

lemma Resolve_queue_iff:
  "rt_Kind (Resolve t) = RouteQueue \<longleftrightarrow>
     has_prefix t queuePrefix \<and> (\<forall>l \<in> set (levels t). l \<notin> set queueControlSegments)"
proof (cases "has_prefix t queuePrefix")
  case True
  have "set (levels t) = insert (last (levels t)) (set (butlast (levels t)))"
    using str_split_Nil[of "CHR ''/''" t] by (cases "levels t" rule: rev_cases) auto
  then show ?thesis using True by (auto simp: Resolve_kind queueControlSegments_def)
qed (simp add: Resolve_def zero_route_def)

text \<open>The address of a queue resolves to the queue.\<close>

lemma ParseQueueFilter_topic:
  assumes "name \<noteq> []" "CHR ''/'' \<notin> set name"
  shows "ParseQueueFilter (QueueTopic name [pattern]) = (name, pattern)"
proof (cases "pattern = []")
  case True
  have "str_cut (CHR ''/'') name = (name, [], False)" using assms(2) by (simp add: str_cut_missing)
  then show ?thesis using True assms by (simp add: ParseQueueFilter_def QueueTopic_def Let_def)
next
  case False
  have "str_cut (CHR ''/'') (name @ CHR ''/'' # pattern) = (name, pattern, True)"
    using assms(2) by (simp add: str_cut_found)
  moreover have "QueueTopic name [pattern] = queuePrefix @ name @ CHR ''/'' # pattern"
    using False by (simp add: QueueTopic_def)
  ultimately show ?thesis by (simp add: ParseQueueFilter_def Let_def)
qed

lemma Resolve_QueueTopic:
  assumes "name \<noteq> []" "CHR ''/'' \<notin> set name" "rt_Kind (Resolve (QueueTopic name [pattern])) = RouteQueue"
  shows "rt_QueueName (Resolve (QueueTopic name [pattern])) = name" "rt_Pattern (Resolve (QueueTopic name [pattern])) = pattern"
  using assms(3) ParseQueueFilter_topic[OF assms(1,2), of pattern]
  by (auto simp: Resolve_def Let_def zero_route_def split: option.splits prod.splits if_splits)

lemma levels_QueueTopic:
  "levels (QueueTopic name [pattern]) = ''$queue'' # levels name @ (if pattern = [] then [] else levels pattern)"
proof -
  have "levels (queuePrefix @ s) = ''$queue'' # levels s" for s
    using str_split_append[of "CHR ''/''" "''$queue''" s] by (simp add: queuePrefix_def)
  then show ?thesis by (simp add: QueueTopic_def str_split_append_all)
qed

end
