(* ===== verification/Go_Text.thy ===== *)
theory Go_Text
  imports Flux_Prelude
begin

text \<open>
  Two pieces of Go's standard library that the protocol handlers use: \<^verbatim>\<open>base64.StdEncoding\<close> and
  \<^verbatim>\<open>strings.TrimSpace\<close>. Decoding inverts encoding.
\<close>

section \<open>Base 64\<close>

definition b64_alphabet :: string where
  "b64_alphabet = ''ABCDEFGHIJKLMNOPQRSTUVWXYZabcdefghijklmnopqrstuvwxyz0123456789+/''"

definition b64_char :: "nat \<Rightarrow> char" where
  "b64_char n = b64_alphabet ! (n mod 64)"

definition b64_value :: "char \<Rightarrow> nat option" where
  "b64_value c = map_of (zip b64_alphabet [0..<64]) c"

fun EncodeToString :: "string \<Rightarrow> string" where
  "EncodeToString [] = []"
| "EncodeToString [a] =
     (let n = of_char a * 65536 in [b64_char (n div 262144), b64_char (n div 4096), CHR ''='', CHR ''=''])"
| "EncodeToString [a, b] =
     (let n = of_char a * 65536 + of_char b * 256 in
      [b64_char (n div 262144), b64_char (n div 4096), b64_char (n div 64), CHR ''=''])"
| "EncodeToString (a # b # c # s) =
     (let n = of_char a * 65536 + of_char b * 256 + of_char c in
      b64_char (n div 262144) # b64_char (n div 4096) # b64_char (n div 64) # b64_char n # EncodeToString s)"

text \<open>
  The decoder without the line breaks it skips: groups of four symbols, the last one padded. Bits of the last
  symbol that do not belong to a byte are ignored.
\<close>

fun b64_decode :: "string \<Rightarrow> string option" where
  "b64_decode [] = Some []"
| "b64_decode (p # q # r # t # s) =
     (case (b64_value p, b64_value q) of
        (Some p, Some q) \<Rightarrow>
          (let n = p * 262144 + q * 4096 in
           if r = CHR ''='' then (if t = CHR ''='' \<and> s = [] then Some [char_of (n div 65536)] else None)
           else (case b64_value r of
             None \<Rightarrow> None
           | Some r \<Rightarrow>
               (let n = n + r * 64 in
                if t = CHR ''='' then (if s = [] then Some [char_of (n div 65536), char_of (n div 256)] else None)
                else (case b64_value t of
                  None \<Rightarrow> None
                | Some t \<Rightarrow>
                    (let n = n + t in
                     map_option (\<lambda>d. char_of (n div 65536) # char_of (n div 256) # char_of n # d) (b64_decode s))))))
      | _ \<Rightarrow> None)"
| "b64_decode _ = None"

definition DecodeString :: "string \<Rightarrow> string option" where
  "DecodeString s = b64_decode (filter (\<lambda>c. c \<noteq> CHR 0x0A \<and> c \<noteq> CHR 0x0D) s)"

lemma b64_table:
  "list_all (\<lambda>n. b64_value (b64_alphabet ! n) = Some n \<and> b64_alphabet ! n \<notin> {CHR ''='', CHR 0x0A, CHR 0x0D}) [0..<64]"
  by code_simp

lemma b64_value_char [simp]: "b64_value (b64_char n) = Some (n mod 64)"
  using b64_table by (simp add: b64_char_def list_all_iff)

lemma b64_char_clean [simp]: "b64_char n \<noteq> CHR ''=''" "b64_char n \<noteq> CHR 0x0A" "b64_char n \<noteq> CHR 0x0D"
  using b64_table by (auto simp: b64_char_def list_all_iff)

lemma b64_digits:
  "n div 262144 * 262144 + n div 4096 mod 64 * 4096 + n div 64 mod 64 * 64 + n mod 64 = (n :: nat)"
proof -
  have a: "n div 64 * 64 + n mod 64 = n" by (rule div_mult_mod_eq)
  have b: "n div 4096 * 64 + n div 64 mod 64 = n div 64"
    using div_mult_mod_eq[of "n div 64" 64] by (simp add: div_mult2_eq[symmetric])
  have c: "n div 262144 * 64 + n div 4096 mod 64 = n div 4096"
    using div_mult_mod_eq[of "n div 4096" 64] by (simp add: div_mult2_eq[symmetric])
  from a b c show ?thesis by linarith
qed

lemma three_bytes:
  assumes "x < 256" "y < 256" "z < (256 :: nat)"
  shows "(x * 65536 + y * 256 + z) div 65536 = x" "(x * 65536 + y * 256 + z) div 256 = x * 256 + y"
proof -
  have "y * 256 + z < 65536" using assms by linarith
  then show "(x * 65536 + y * 256 + z) div 65536 = x" by (simp add: add.assoc)
  have "x * 65536 + y * 256 + z = (x * 256 + y) * 256 + z" by simp
  then show "(x * 65536 + y * 256 + z) div 256 = x * 256 + y" using assms(3) by (metis add.right_neutral div_less div_mult_self3 zero_neq_numeral)
qed

lemma char_of_byte: "char_of (k * 256 + of_char c :: nat) = c"
proof -
  have "char_of (k * 256 + of_char c :: nat) = (char_of (of_char c :: nat) :: char)" by (simp only: char_of_quasi_inj) simp
  then show ?thesis by simp
qed

lemma b64_bytes:
  fixes a b c :: char
  defines "n \<equiv> (of_char a * 65536 + of_char b * 256 + of_char c :: nat)"
  shows "n div 262144 < 64" "char_of (n div 65536) = a" "char_of (n div 256) = b" "char_of n = c"
proof -
  have bytes: "(of_char a :: nat) < 256" "(of_char b :: nat) < 256" "(of_char c :: nat) < 256" by simp_all
  then show "n div 262144 < 64" unfolding n_def by (intro less_mult_imp_div_less) linarith
  show "char_of (n div 65536) = a" "char_of (n div 256) = b"
    unfolding n_def three_bytes[OF bytes] by (simp_all add: char_of_byte)
  show "char_of n = c" using char_of_byte[of "of_char a * 256 + of_char b" c] unfolding n_def by (simp add: algebra_simps)
qed

text \<open>One group of symbols, for any number \<open>n\<close> they are the digits of.\<close>

lemma b64_group:
  assumes "n div 262144 < 64"
  shows "b64_decode (b64_char (n div 262144) # b64_char (n div 4096) # b64_char (n div 64) # b64_char n # s) =
      map_option (\<lambda>d. char_of (n div 65536) # char_of (n div 256) # char_of n # d) (b64_decode s)"
    "n mod 64 = 0 \<Longrightarrow> b64_decode [b64_char (n div 262144), b64_char (n div 4096), b64_char (n div 64), CHR ''=''] =
      Some [char_of (n div 65536), char_of (n div 256)]"
    "n mod 64 = 0 \<Longrightarrow> n div 64 mod 64 = 0 \<Longrightarrow>
      b64_decode [b64_char (n div 262144), b64_char (n div 4096), CHR ''='', CHR ''=''] = Some [char_of (n div 65536)]"
proof -
  define p q r t where "p = n div 262144" and "q = n div 4096" and "r = n div 64" and "t = n mod 64"
  have n: "n = p * 262144 + q mod 64 * 4096 + r mod 64 * 64 + t"
    using b64_digits[of n] by (simp only: p_def q_def r_def t_def)
  have p: "p mod 64 = p" using assms by (simp add: p_def)
  have char: "b64_char n = b64_char t" by (simp only: b64_char_def t_def mod_mod_trivial)
  have t: "t mod 64 = t" by (simp only: t_def mod_mod_trivial)
  show "b64_decode (b64_char (n div 262144) # b64_char (n div 4096) # b64_char (n div 64) # b64_char n # s) =
      map_option (\<lambda>d. char_of (n div 65536) # char_of (n div 256) # char_of n # d) (b64_decode s)"
    unfolding p_def[symmetric] q_def[symmetric] r_def[symmetric] char
    by (simp only: b64_decode.simps b64_value_char b64_char_clean option.case prod.case Let_def if_False p t n[symmetric])
  show "n mod 64 = 0 \<Longrightarrow> b64_decode [b64_char (n div 262144), b64_char (n div 4096), b64_char (n div 64), CHR ''=''] =
      Some [char_of (n div 65536), char_of (n div 256)]"
    using n unfolding p_def[symmetric] q_def[symmetric] r_def[symmetric] t_def[symmetric]
    by (simp only: b64_decode.simps b64_value_char b64_char_clean option.case prod.case Let_def if_False if_True p simp_thms add_0_right)
  show "n mod 64 = 0 \<Longrightarrow> n div 64 mod 64 = 0 \<Longrightarrow>
      b64_decode [b64_char (n div 262144), b64_char (n div 4096), CHR ''='', CHR ''=''] = Some [char_of (n div 65536)]"
    using n unfolding p_def[symmetric] q_def[symmetric] r_def[symmetric] t_def[symmetric]
    by (simp only: b64_decode.simps b64_value_char option.case prod.case Let_def if_True p simp_thms add_0_right mult_0)
qed

lemma b64_round: "b64_decode (EncodeToString s) = Some s"
proof (induction s rule: EncodeToString.induct)
  case (2 a)
  define n where "n = (of_char a * 65536 :: nat)"
  have e: "n = (of_char a * 16 * 64) * 64" by (simp add: n_def)
  have n: "n mod 64 = 0" "n div 64 mod 64 = 0" unfolding e by (simp_all only: mod_mult_self2_is_0 div_mult_self_is_m zero_less_numeral)
  have n': "n = of_char a * 65536 + of_char (CHR 0x00) * 256 + of_char (CHR 0x00)" by (simp add: n_def)
  show ?case unfolding EncodeToString.simps Let_def n_def[symmetric]
    using b64_group(3)[OF _ n] b64_bytes(1,2)[of a "CHR 0x00" "CHR 0x00", folded n'] by simp
next
  case (3 a b)
  define n where "n = (of_char a * 65536 + of_char b * 256 :: nat)"
  have e: "n = (of_char a * 1024 + of_char b * 4) * 64" by (simp add: n_def)
  have n: "n mod 64 = 0" unfolding e by (rule mod_mult_self2_is_0)
  have n': "n = of_char a * 65536 + of_char b * 256 + of_char (CHR 0x00)" by (simp add: n_def)
  show ?case unfolding EncodeToString.simps Let_def n_def[symmetric]
    using b64_group(2)[OF _ n] b64_bytes(1-3)[of a b "CHR 0x00", folded n'] by simp
next
  case (4 a b c s)
  define n where "n = (of_char a * 65536 + of_char b * 256 + of_char c :: nat)"
  show ?case unfolding EncodeToString.simps Let_def n_def[symmetric]
      b64_group(1)[OF b64_bytes(1)[of a b c, folded n_def]] b64_bytes(2-4)[of a b c, folded n_def] by (simp add: 4)
qed simp

lemma EncodeToString_clean: "c \<in> set (EncodeToString s) \<Longrightarrow> c \<noteq> CHR 0x0A \<and> c \<noteq> CHR 0x0D"
  by (induction s rule: EncodeToString.induct) (auto simp: Let_def)

lemma DecodeString_EncodeToString: "DecodeString (EncodeToString s) = Some s"
proof -
  have "filter (\<lambda>c. c \<noteq> CHR 0x0A \<and> c \<noteq> CHR 0x0D) (EncodeToString s) = EncodeToString s"
    using EncodeToString_clean by (intro filter_True) blast
  then show ?thesis by (simp only: DecodeString_def b64_round)
qed


section \<open>White space\<close>

text \<open>The code points that \<^verbatim>\<open>unicode.IsSpace\<close> accepts, as bytes.\<close>

definition white_spaces :: "string list" where
  "white_spaces =
     [[CHR 0x09], [CHR 0x0A], [CHR 0x0B], [CHR 0x0C], [CHR 0x0D], '' '', [CHR 0xC2, CHR 0x85], [CHR 0xC2, CHR 0xA0],
      [CHR 0xE1, CHR 0x9A, CHR 0x80], [CHR 0xE2, CHR 0x80, CHR 0xA8], [CHR 0xE2, CHR 0x80, CHR 0xA9],
      [CHR 0xE2, CHR 0x80, CHR 0xAF], [CHR 0xE2, CHR 0x81, CHR 0x9F], [CHR 0xE3, CHR 0x80, CHR 0x80]] @
     map (\<lambda>k. [CHR 0xE2, CHR 0x80, char_of k]) [0x80..<0x8B]"

lemma has_prefix_shorter: "has_prefix s w \<Longrightarrow> w \<noteq> [] \<Longrightarrow> length s - length w < length s"
  by (cases s) (auto simp: has_prefix_def)

function strip :: "string list \<Rightarrow> string \<Rightarrow> string" where
  "strip ws s =
     (case List.find (\<lambda>w. w \<noteq> [] \<and> has_prefix s w) ws of
        None \<Rightarrow> s
      | Some w \<Rightarrow> strip ws (drop (length w) s))"
  by auto
termination
  by (relation "measure (\<lambda>(ws, s). length s)") (auto dest!: find_Some_iff_mem has_prefix_shorter)

declare strip.simps [simp del]

definition TrimSpace :: "string \<Rightarrow> string" where
  "TrimSpace s = rev (strip (map rev white_spaces) (rev (strip white_spaces s)))"

end
