(* ===== verification/Amqp_Channel.thy ===== *)
theory Amqp_Channel
  imports Amqp_Frame Routing Topics Message_Props Go_Text
begin

text \<open>
  \<^verbatim>\<open>amqp/broker/channel.go\<close>, first part: the state of a channel with the part of its connection that it
  changes, the assembly of a publication from its frames, and what happens to a complete publication.

  The connection's socket is a list of the frames that were written and the number of writes it still
  takes: a \<^verbatim>\<open>bufio.Writer\<close> that failed once fails ever after. The queue manager, the topic router and the
  authorities are Go interfaces: their answers are the environment of an operation, and the calls are
  recorded in order. Counters, log lines and the buffer pool are left out.
\<close>


section \<open>State\<close>

datatype error_code =
  ErrorCodeCanceled | ErrorCodeInvalidArgument | ErrorCodeNotFound | ErrorCodeAlreadyExists | ErrorCodeConflict
| ErrorCodeFailedPrecondition | ErrorCodeResourceExhausted | ErrorCodeOutOfRange | ErrorCodeUnavailable
| ErrorCodeDeadlineExceeded | ErrorCodeInternal

datatype service_call =
  QPublish envelope
| QDurable string envelope
| QAck string string u64
| QNack string string u64
| QReject string string u64 string
| QCommit string string u64
| QUnsubscribe string string string string
| RouterUnsubscribe string string
| RemoveSubscription string string
| BrokerPublish string bytes props

datatype grant = LocalPublishGrantNone | LocalPublishGrantExactTarget | LocalPublishGrantPrefix

record hook_request =
  hr_ClientID :: string
  hr_ExternalID :: string
  hr_Topic :: string
  hr_Payload :: bytes
  hr_Properties :: props

datatype durable_outcome = DBacklog | DFailed error_code | DStored | DTimeout

text \<open>
  The environment: the policy of the connection, the authorities it asks, and the answers of the broker's
  services. An answer to a queue publish may depend on the calls made before it.
\<close>

record env =
  e_trusted :: bool
  e_local :: bool
  e_maxMessageSize :: u64
  e_rolePropagates :: bool
  e_externalID :: "string \<Rightarrow> string"
  e_grant :: "string \<Rightarrow> string \<Rightarrow> grant"
  e_hook :: "hook_request \<Rightarrow> hook_request option"
  e_canPublish :: "(string \<Rightarrow> string \<Rightarrow> bool) option"
  e_queueManager :: bool
  e_durablePublisher :: bool
  e_cluster :: bool
  e_queueType :: "string \<Rightarrow> string option"
  e_publish :: "service_call list \<Rightarrow> envelope \<Rightarrow> error_code option"
  e_durable :: "string \<Rightarrow> envelope \<Rightarrow> durable_outcome"
  e_match :: "string \<Rightarrow> nat option"
  e_broadcast :: "string \<Rightarrow> bytes \<Rightarrow> props \<Rightarrow> bool"

definition propagatesOriginIdentity :: "env \<Rightarrow> bool" where
  "propagatesOriginIdentity e \<longleftrightarrow> e_trusted e \<and> (\<not> e_local e \<or> e_rolePropagates e)"

datatype channel_error = CodecError codec_error | NetError

record registration =
  qr_queueName :: string
  qr_pattern :: string
  qr_groupID :: string

record conn =
  c_connID :: string
  c_frameMax :: u32
  c_deliveryTag :: u64
  c_registrations :: "(registration, int) gomap"
  c_written :: "Frame list"
  c_up :: "nat option"
  c_calls :: "service_call list"

record channel_consumer =
  k_tag :: string
  k_queue :: string
  k_mqttFilter :: string
  k_queueName :: string
  k_pattern :: string
  k_groupID :: string
  k_noAck :: bool
  k_exclusive :: bool

record queueInfo =
  qi_name :: string
  qi_queueType :: string
  qi_args :: field_table

record exchange =
  x_name :: string
  x_typ :: string
  x_durable :: bool
  x_autoDelete :: bool
  x_internal :: bool

record binding =
  b_queue :: string
  b_exchange :: string
  b_routingKey :: string
  b_arguments :: field_table

record publish =
  pb_Exchange :: string
  pb_RoutingKey :: string
  pb_Mandatory :: bool
  pb_Immediate :: bool

record unackedDelivery =
  u_deliveryTag :: u64
  u_routingKey :: string
  u_queueName :: string
  u_groupID :: string
  u_offset :: u64
  u_queued :: bool

record pendingDelivery =
  d_consumerTag :: string
  d_queue :: string
  d_topic :: string
  d_payload :: bytes
  d_props :: props

record Channel =
  ch_conn :: conn
  ch_id :: u16
  ch_exchanges :: "(string, exchange) gomap"
  ch_queues :: "(string, queueInfo) gomap"
  ch_bindings :: "binding list"
  ch_consumers :: "(string, channel_consumer) gomap"
  ch_pendingHeader :: "ContentHeader option"
  ch_pendingBody :: bytes
  ch_pendingMethod :: "publish option"
  ch_pendingBodySize :: u64
  ch_pendingBodyReceived :: u64
  ch_unacked :: "(u64, unackedDelivery) gomap"
  ch_flow :: bool
  ch_confirmMode :: bool
  ch_publishSeq :: u64
  ch_prefetchCount :: u16
  ch_prefetchSize :: u32
  ch_pendingDeliveries :: "pendingDelivery list"
  ch_serverClosing :: bool
  ch_closed :: bool

definition newChannel :: "conn \<Rightarrow> u16 \<Rightarrow> Channel" where
  "newChannel c chID =
     \<lparr>ch_conn = c, ch_id = chID, ch_exchanges = [], ch_queues = [], ch_bindings = [], ch_consumers = [],
      ch_pendingHeader = None, ch_pendingBody = [], ch_pendingMethod = None, ch_pendingBodySize = 0,
      ch_pendingBodyReceived = 0, ch_unacked = [], ch_flow = True, ch_confirmMode = False, ch_publishSeq = 0,
      ch_prefetchCount = 0, ch_prefetchSize = 0, ch_pendingDeliveries = [], ch_serverClosing = False,
      ch_closed = False\<rparr>"


section \<open>Writing\<close>

definition writeFrames :: "Frame list \<Rightarrow> conn \<Rightarrow> channel_error option \<times> conn" where
  "writeFrames frames c =
     (if c_up c = Some 0 then (Some NetError, c)
      else (None, c\<lparr>c_up := map_option (\<lambda>n. n - 1) (c_up c), c_written := c_written c @ frames\<rparr>))"

definition writeMethod :: "u16 \<Rightarrow> amqp_method \<Rightarrow> conn \<Rightarrow> channel_error option \<times> conn" where
  "writeMethod chID m c =
     (case method_Write m [] of
        (Some err, _) \<Rightarrow> (Some (CodecError err), c)
      | (None, payload) \<Rightarrow> writeFrames [\<lparr>f_Type = FrameMethod, f_Channel = chID, f_Payload = payload\<rparr>] c)"

definition write_method :: "amqp_method \<Rightarrow> Channel \<Rightarrow> channel_error option \<times> Channel" where
  "write_method m s = (case writeMethod (ch_id s) m (ch_conn s) of (err, c) \<Rightarrow> (err, s\<lparr>ch_conn := c\<rparr>))"

definition call :: "service_call \<Rightarrow> Channel \<Rightarrow> Channel" where
  "call x s = s\<lparr>ch_conn := (ch_conn s)\<lparr>c_calls := c_calls (ch_conn s) @ [x]\<rparr>\<rparr>"

definition resetPendingPublish :: "Channel \<Rightarrow> Channel" where
  "resetPendingPublish s =
     s\<lparr>ch_pendingMethod := None, ch_pendingHeader := None, ch_pendingBody := [], ch_pendingBodySize := 0,
       ch_pendingBodyReceived := 0\<rparr>"

definition ContentTooLarge :: int where "ContentTooLarge = 311"
definition NoRoute :: int where "NoRoute = 312"
definition AccessRefused :: int where "AccessRefused = 403"
definition NotFound :: int where "NotFound = 404"
definition ResourceLocked :: int where "ResourceLocked = 405"
definition PreconditionFailed :: int where "PreconditionFailed = 406"
definition CommandInvalid :: int where "CommandInvalid = 503"
definition UnexpectedFrame :: int where "UnexpectedFrame = 505"
definition ResourceError :: int where "ResourceError = 506"

definition sendChannelClose :: "int \<Rightarrow> string \<Rightarrow> u16 \<Rightarrow> u16 \<Rightarrow> Channel \<Rightarrow> channel_error option \<times> Channel" where
  "sendChannelClose code msg classID methodID s =
     write_method (ChannelMethod (ChannelClose (of_int code) msg classID methodID))
       (resetPendingPublish (s\<lparr>ch_serverClosing := True\<rparr>))"

text \<open>The refusals of a publication; the error of the write is dropped.\<close>

definition refuse_publish :: "int \<Rightarrow> string \<Rightarrow> Channel \<Rightarrow> Channel" where
  "refuse_publish code msg s = snd (sendChannelClose code msg ClassBasic MethodBasicPublish s)"

definition amqp091QueueError :: "error_code \<Rightarrow> int \<times> string" where
  "amqp091QueueError code =
     (if code = ErrorCodeNotFound then (NotFound, ''queue resource not found'')
      else if code = ErrorCodeConflict then (ResourceLocked, ''queue resource is owned elsewhere'')
      else if code \<in> {ErrorCodeInvalidArgument, ErrorCodeAlreadyExists, ErrorCodeFailedPrecondition, ErrorCodeOutOfRange}
        then (PreconditionFailed, ''queue operation rejected'')
      else if code = ErrorCodeResourceExhausted then (ResourceError, ''queue resource exhausted'')
      else if code \<in> {ErrorCodeUnavailable, ErrorCodeDeadlineExceeded, ErrorCodeCanceled}
        then (InternalError, ''queue operation unavailable'')
      else (InternalError, ''queue operation failed''))"

definition sendPublisherAck :: "Channel \<Rightarrow> Channel" where
  "sendPublisherAck s =
     (let s = s\<lparr>ch_publishSeq := ch_publishSeq s + 1\<rparr> in
      snd (write_method (BasicMethod (BasicAck (ch_publishSeq s) False)) s))"

definition sendPublisherNack :: "Channel \<Rightarrow> Channel" where
  "sendPublisherNack s =
     (let s = s\<lparr>ch_publishSeq := ch_publishSeq s + 1\<rparr> in
      snd (write_method (BasicMethod (BasicNack (ch_publishSeq s) False False)) s))"


section \<open>Frames of a content\<close>

definition buildMethodFrame :: "u16 \<Rightarrow> amqp_method \<Rightarrow> codec_error + Frame" where
  "buildMethodFrame channel m =
     (case method_Write m [] of
        (Some err, _) \<Rightarrow> Inl err
      | (None, payload) \<Rightarrow> Inr \<lparr>f_Type = FrameMethod, f_Channel = channel, f_Payload = payload\<rparr>)"

definition buildContentHeaderFrame :: "u16 \<Rightarrow> u64 \<Rightarrow> BasicProperties \<Rightarrow> codec_error + Frame" where
  "buildContentHeaderFrame channel bodySize properties =
     (case fst (WriteContentHeader \<lparr>h_ClassID = ClassBasic, h_Weight = 0, h_BodySize = bodySize, h_Flags = 0,
              h_Properties = properties\<rparr> []) of
        (Some err, _) \<Rightarrow> Inl err
      | (None, payload) \<Rightarrow> Inr \<lparr>f_Type = FrameHeader, f_Channel = channel, f_Payload = payload\<rparr>)"

text \<open>The loop of \<^verbatim>\<open>buildBodyFrames\<close> from an offset on; \<open>maxBody\<close> is positive unless the payload is empty.\<close>

function body_frames :: "u16 \<Rightarrow> bytes \<Rightarrow> nat \<Rightarrow> nat \<Rightarrow> Frame list" where
  "body_frames channel payload maxBody offset =
     (if \<not> (offset < length payload \<or> offset = 0) then []
      else
        let end = min (offset + maxBody) (length payload);
            frame = \<lparr>f_Type = FrameBody, f_Channel = channel, f_Payload = take (end - offset) (drop offset payload)\<rparr> in
        frame # (if end = 0 \<or> end \<le> offset then [] else body_frames channel payload maxBody end))"
  by auto
termination
  by (relation "measure (\<lambda>(channel, payload, maxBody, offset). length payload - offset)") auto

declare body_frames.simps [simp del]

definition buildBodyFrames :: "u16 \<Rightarrow> bytes \<Rightarrow> u32 \<Rightarrow> Frame list" where
  "buildBodyFrames channel payload frameMax =
     (let maxBody = int (unat frameMax) - 8;
          maxBody = (if maxBody \<le> 0 then int (length payload) else maxBody) in
      body_frames channel payload (nat maxBody) 0)"


section \<open>A complete publication\<close>

definition normalizeExchange :: "string \<Rightarrow> string" where
  "normalizeExchange name = (if name = ''amq.default'' then [] else name)"

definition exchangeExists :: "string \<Rightarrow> Channel \<Rightarrow> bool" where
  "exchangeExists name s \<longleftrightarrow> name = [] \<or> map_of (ch_exchanges s) name \<noteq> None"

definition PrefixedClientID :: "string \<Rightarrow> string" where
  "PrefixedClientID connID = ''amqp091:'' @ connID"

abbreviation "ProtocolAMQP091 \<equiv> ''amqp''"

text \<open>A header of the publication that is a string, and the empty string otherwise.\<close>

definition string_header :: "ContentHeader \<Rightarrow> string \<Rightarrow> string" where
  "string_header h key =
     (case p_Headers (h_Properties h) of
        None \<Rightarrow> []
      | Some t \<Rightarrow> (case map_of t key of Some (VString v) \<Rightarrow> v | _ \<Rightarrow> []))"

definition carried_properties :: "env \<Rightarrow> ContentHeader \<Rightarrow> props \<Rightarrow> props" where
  "carried_properties e h m =
     (if \<not> e_trusted e then m
      else fold (\<lambda>(key, v) m.
             if \<not> IsReservedProperty key then m
             else if \<not> propagatesOriginIdentity e \<and> key \<in> {PropertyClientID, PropertyExternalID, PropertyProtocol} then m
             else (case v of VString v \<Rightarrow> AList.update key v m | _ \<Rightarrow> m))
           (case p_Headers (h_Properties h) of None \<Rightarrow> [] | Some t \<Rightarrow> t) m)"

definition publish_properties :: "env \<Rightarrow> string \<Rightarrow> ContentHeader \<Rightarrow> props" where
  "publish_properties e clientID h =
     (let p = h_Properties h;
          m = stamp ''content-type'' (p_ContentType p) [];
          m = stamp ''content-encoding'' (p_ContentEncoding p) m;
          m = stamp ''correlation-id'' (EncodeToString (p_CorrelationID p)) m;
          m = stamp ''reply-to'' (p_ReplyTo p) m;
          m = stamp PropertyMessageID (p_MessageID p) m;
          m = stamp ''type'' (p_Type p) m;
          relayedID = (if propagatesOriginIdentity e then string_header h PropertyExternalID else []);
          m = stamp PropertyExternalID (if relayedID \<noteq> [] then relayedID else e_externalID e clientID) m;
          m = AList.update PropertyProtocol ProtocolAMQP091 m;
          m = (if propagatesOriginIdentity e then stamp PropertyProtocol (string_header h PropertyProtocol) m else m);
          m = carried_properties e h m in
      AList.update PropertyClientID clientID m)"

definition queuePublishEnvelope :: "string \<Rightarrow> bytes \<Rightarrow> props \<Rightarrow> source_metadata \<Rightarrow> envelope" where
  "queuePublishEnvelope topic body properties source =
     (let env = Message_New topic body in
      env\<lparr>ev_BrokerMeta := (ev_BrokerMeta env)\<lparr>bm_Source := source, bm_Trace := TraceFromProperties properties\<rparr>,
          ev_PublisherMeta := (ev_PublisherMeta env)\<lparr>pm_Properties := FilterUserProperties properties\<rparr>\<rparr>)"

text \<open>A call of the queue manager's \<^verbatim>\<open>Publish\<close> and its answer.\<close>

definition queue_publish :: "env \<Rightarrow> envelope \<Rightarrow> Channel \<Rightarrow> error_code option \<times> Channel" where
  "queue_publish e queued s = (e_publish e (c_calls (ch_conn s)) queued, call (QPublish queued) s)"

definition handleQueuePublish :: "env \<Rightarrow> string \<Rightarrow> bytes \<Rightarrow> props \<Rightarrow> string \<Rightarrow> Channel \<Rightarrow> Channel" where
  "handleQueuePublish e queueTopic body properties clientID s =
     (if \<not> e_queueManager e then s
      else
        let source = (SourceFromProperties properties)\<lparr>sm_ClientID := clientID\<rparr>;
            source = (if sm_Protocol source = [] then source\<lparr>sm_Protocol := ProtocolAMQP091\<rparr> else source);
            (err, s) = queue_publish e (queuePublishEnvelope queueTopic body properties source) s in
        if ch_confirmMode s then (if err \<noteq> None then sendPublisherNack s else sendPublisherAck s)
        else (case err of
          None \<Rightarrow> s
        | Some code \<Rightarrow> (case amqp091QueueError code of (code, msg) \<Rightarrow> refuse_publish code msg s)))"

definition rejectLocalStreamPublish :: "error_code \<Rightarrow> Channel \<Rightarrow> Channel" where
  "rejectLocalStreamPublish err s =
     (if ch_confirmMode s then sendPublisherNack s
      else (case amqp091QueueError err of (code, msg) \<Rightarrow> refuse_publish code msg s))"

definition abandonLocalStreamPublish :: "Channel \<Rightarrow> Channel" where
  "abandonLocalStreamPublish s =
     refuse_publish InternalError ''durable stream publish abandoned''
       (if ch_confirmMode s then sendPublisherNack s else s)"

text \<open>
  The durable append runs beside the channel; the environment says whether the backlog admits it, whether it
  ends before the deadline, and how. An append that is refused makes no call. Errors made here with
  \<^verbatim>\<open>fmt.Errorf\<close> classify as internal.
\<close>

definition handleLocalDurableStreamPublish :: "env \<Rightarrow> string \<Rightarrow> bytes \<Rightarrow> props \<Rightarrow> string \<Rightarrow> Channel \<Rightarrow> Channel" where
  "handleLocalDurableStreamPublish e queueName body properties clientID s =
     (if \<not> e_queueManager e \<or> \<not> e_durablePublisher e then rejectLocalStreamPublish ErrorCodeInternal s
      else
        let properties = AList.update PropertyClientID clientID properties;
            queued = queuePublishEnvelope (QueueTopic queueName []) body properties (SourceFromProperties properties) in
        case e_durable e queueName queued of
          DBacklog \<Rightarrow> abandonLocalStreamPublish s
        | DFailed err \<Rightarrow> rejectLocalStreamPublish err (call (QDurable queueName queued) s)
        | DStored \<Rightarrow>
            (let s = call (QDurable queueName queued) s in if ch_confirmMode s then sendPublisherAck s else s)
        | DTimeout \<Rightarrow> abandonLocalStreamPublish (call (QDurable queueName queued) s))"


section \<open>Routing\<close>

definition parseInt64Arg :: "field_value option \<Rightarrow> int option" where
  "parseInt64Arg val =
     (case val of
        Some (VInt64 v) \<Rightarrow> Some (sint v)
      | Some (VInt32 v) \<Rightarrow> Some (sint v)
      | Some (VInt v) \<Rightarrow> Some v
      | Some (VUint64 v) \<Rightarrow> if unat v > 2 ^ 63 - 1 then None else Some (int (unat v))
      | Some (VString v) \<Rightarrow> (case ParseInt (TrimSpace v) of Inr n \<Rightarrow> Some n | Inl _ \<Rightarrow> None)
      | Some (VBytes v) \<Rightarrow> (case ParseInt (TrimSpace v) of Inr n \<Rightarrow> Some n | Inl _ \<Rightarrow> None)
      | _ \<Rightarrow> None)"

definition parseStringArg :: "field_value option \<Rightarrow> string option" where
  "parseStringArg val =
     (case val of Some (VString v) \<Rightarrow> Some (TrimSpace v) | Some (VBytes v) \<Rightarrow> Some (TrimSpace v) | _ \<Rightarrow> None)"

definition handleQueueCommit :: "env \<Rightarrow> route_result \<Rightarrow> ContentHeader \<Rightarrow> Channel \<Rightarrow> Channel" where
  "handleQueueCommit e route header s =
     (let queueName = rt_QueueName route;
          headers = (case p_Headers (h_Properties header) of None \<Rightarrow> [] | Some t \<Rightarrow> t) in
      if \<not> e_queueManager e \<or> queueName = [] then s
      else (case parseStringArg (map_of headers ''x-group-id'') of
          None \<Rightarrow> s
        | Some groupID \<Rightarrow>
            if groupID = [] then s
            else (case parseInt64Arg (map_of headers ''x-offset'') of
                None \<Rightarrow> s
              | Some n \<Rightarrow> if n < 0 then s else call (QCommit queueName groupID (word_of_int n)) s)))"

definition isDeclaredStreamQueue :: "string \<Rightarrow> Channel \<Rightarrow> bool" where
  "isDeclaredStreamQueue name s \<longleftrightarrow>
     (case map_of (ch_queues s) name of None \<Rightarrow> False | Some info \<Rightarrow> qi_queueType info = ''stream'')"

definition isConfiguredStreamQueue :: "env \<Rightarrow> string \<Rightarrow> bool" where
  "isConfiguredStreamQueue e name \<longleftrightarrow> e_queueType e name = Some ''stream''"

definition isStreamQueue :: "env \<Rightarrow> string \<Rightarrow> Channel \<Rightarrow> bool" where
  "isStreamQueue e name s \<longleftrightarrow>
     (let queueName = fst (ParseQueueFilter name); sameName = (queueName = [] \<or> queueName = name) in
      isDeclaredStreamQueue name s \<or> (\<not> sameName \<and> isDeclaredStreamQueue queueName s) \<or>
      (e_queueManager e \<and> (isConfiguredStreamQueue e name \<or> (\<not> sameName \<and> isConfiguredStreamQueue e queueName))))"

definition sendBasicReturn :: "publish \<Rightarrow> ContentHeader \<Rightarrow> bytes \<Rightarrow> Channel \<Rightarrow> Channel" where
  "sendBasicReturn method header body s =
     (case buildMethodFrame (ch_id s) (BasicMethod (BasicReturn (of_int NoRoute) ''NO_ROUTE''
              (normalizeExchange (pb_Exchange method)) (pb_RoutingKey method))) of
        Inl _ \<Rightarrow> s
      | Inr methodFrame \<Rightarrow>
          (case buildContentHeaderFrame (ch_id s) (of_nat (length body)) (h_Properties header) of
             Inl _ \<Rightarrow> s
           | Inr headerFrame \<Rightarrow>
               s\<lparr>ch_conn := snd (writeFrames
                 (methodFrame # headerFrame # buildBodyFrames (ch_id s) body (c_frameMax (ch_conn s))) (ch_conn s))\<rparr>))"

definition publishToPubSub :: "env \<Rightarrow> string \<Rightarrow> bytes \<Rightarrow> props \<Rightarrow> publish \<Rightarrow> ContentHeader \<Rightarrow> Channel \<Rightarrow> Channel" where
  "publishToPubSub e pubsubTopic body properties method header s =
     (if pb_Mandatory method \<and> e_match e pubsubTopic \<in> {None, Some 0} then
        (let s = sendBasicReturn method header body s in if ch_confirmMode s then sendPublisherAck s else s)
      else
        let s = call (BrokerPublish pubsubTopic body properties) s in
        if ch_confirmMode s then
          (if e_broadcast e pubsubTopic body properties then sendPublisherAck s else sendPublisherNack s)
        else s)"

definition routingKeyMatches :: "string \<Rightarrow> string \<Rightarrow> string \<Rightarrow> Channel \<Rightarrow> bool" where
  "routingKeyMatches bindingKey routingKey exchangeName s \<longleftrightarrow>
     (case map_of (ch_exchanges s) exchangeName of
        None \<Rightarrow> bindingKey = routingKey
      | Some ex \<Rightarrow>
          if x_typ ex = ''fanout'' then True
          else if x_typ ex = ''topic'' then TopicMatch bindingKey routingKey
          else bindingKey = routingKey)"

text \<open>The loop over the bindings: whether one matched, whether a publish failed.\<close>

definition publish_binding :: "env \<Rightarrow> bytes \<Rightarrow> props \<Rightarrow> string \<Rightarrow> binding \<Rightarrow> bool \<times> bool \<times> Channel \<Rightarrow> bool \<times> bool \<times> Channel" where
  "publish_binding e body properties key b acc =
     (case acc of (isQueuePublish, publishFailed, s) \<Rightarrow>
        if \<not> routingKeyMatches (b_routingKey b) key (b_exchange b) s then (isQueuePublish, publishFailed, s)
        else if \<not> e_queueManager e then (True, publishFailed, s)
        else (case queue_publish e (queuePublishEnvelope (QueueTopic (b_queue b) [key]) body properties
                     (SourceFromProperties properties)) s of
                (err, s) \<Rightarrow> (True, publishFailed \<or> err \<noteq> None, s)))"

definition publish_bindings :: "env \<Rightarrow> string \<Rightarrow> string \<Rightarrow> bytes \<Rightarrow> props \<Rightarrow> publish \<Rightarrow> ContentHeader \<Rightarrow> Channel \<Rightarrow> Channel" where
  "publish_bindings e originalTopic topic body properties method header s =
     (let exchangeName = normalizeExchange (pb_Exchange method);
          bindings = filter (\<lambda>b. b_exchange b = exchangeName) (ch_bindings s);
          prefix = exchangeName @ ''/'';
          moved = (exchangeName \<noteq> [] \<and> topic \<noteq> originalTopic);
          key = (if moved \<and> has_prefix topic prefix then drop (length prefix) topic else pb_RoutingKey method);
          check = (\<not> moved \<or> has_prefix topic prefix);
          (isQueuePublish, publishFailed, s) =
            (if check then fold (publish_binding e body properties key) bindings (False, False, s) else (False, False, s)) in
      if \<not> isQueuePublish then
        publishToPubSub e (if exchangeName = [] then AMQPTopicToMQTT topic else topic) body properties method header s
      else if ch_confirmMode s then (if publishFailed then sendPublisherNack s else sendPublisherAck s)
      else s)"

definition route_publish ::
  "env \<Rightarrow> string \<Rightarrow> string \<Rightarrow> string \<Rightarrow> bytes \<Rightarrow> props \<Rightarrow> publish \<Rightarrow> ContentHeader \<Rightarrow> Channel \<Rightarrow> Channel" where
  "route_publish e clientID originalTopic topic body properties method header s =
     (let exchangeName = normalizeExchange (pb_Exchange method); route = Resolve topic;
          others = (if exchangeName = [] \<and> isStreamQueue e topic s
                    then handleQueuePublish e (QueueTopic topic []) body properties clientID s
                    else publish_bindings e originalTopic topic body properties method header s) in
      if exchangeName \<noteq> [] then others
      else (case rt_Kind route of
          RouteQueueCommit \<Rightarrow>
            (let s = handleQueueCommit e route header s in if ch_confirmMode s then sendPublisherAck s else s)
        | RouteQueue \<Rightarrow> handleQueuePublish e (rt_PublishTopic route) body properties clientID s
        | RouteQueueMalformed \<Rightarrow> s
        | RouteQueueAck \<Rightarrow> others
        | RoutePubSub \<Rightarrow> others))"

definition publish_content :: "env \<Rightarrow> publish \<Rightarrow> ContentHeader \<Rightarrow> bytes \<Rightarrow> Channel \<Rightarrow> Channel" where
  "publish_content e method header body s =
     (let clientID = PrefixedClientID (c_connID (ch_conn s));
          properties = publish_properties e clientID header;
          exchangeName = normalizeExchange (pb_Exchange method);
          routingKey = pb_RoutingKey method;
          topic = (if exchangeName \<noteq> [] then exchangeName @ ''/'' @ routingKey else routingKey) in
      if e_local e then
        (case e_grant e exchangeName routingKey of
           LocalPublishGrantNone \<Rightarrow> refuse_publish AccessRefused ''publish not authorized'' s
         | LocalPublishGrantExactTarget \<Rightarrow>
             if exchangeName \<noteq> [] then rejectLocalStreamPublish ErrorCodeInternal s
             else handleLocalDurableStreamPublish e routingKey body properties clientID s
         | LocalPublishGrantPrefix \<Rightarrow> publishToPubSub e (AMQPTopicToMQTT topic) body properties method header s)
      else
        (case e_hook e \<lparr>hr_ClientID = clientID, hr_ExternalID = e_externalID e clientID, hr_Topic = topic,
                hr_Payload = body, hr_Properties = properties\<rparr> of
           None \<Rightarrow> refuse_publish AccessRefused ''publish hook denied'' s
         | Some req \<Rightarrow>
             if (case e_canPublish e of None \<Rightarrow> True | Some can \<Rightarrow> can clientID (hr_Topic req))
             then route_publish e clientID topic (hr_Topic req) (hr_Payload req) (hr_Properties req) method header s
             else refuse_publish AccessRefused ''publish not authorized'' s))"

definition completePublish :: "env \<Rightarrow> Channel \<Rightarrow> Channel" where
  "completePublish e s =
     (case (ch_pendingMethod s, ch_pendingHeader s) of
        (Some method, Some header) \<Rightarrow> publish_content e method header (ch_pendingBody s) (resetPendingPublish s)
      | _ \<Rightarrow> resetPendingPublish s)"


section \<open>Assembly\<close>

text \<open>The case of \<^verbatim>\<open>handleMethod\<close> for a \<^verbatim>\<open>BasicPublish\<close>, which opens a publication.\<close>

definition handleBasicPublish :: "publish \<Rightarrow> Channel \<Rightarrow> Channel" where
  "handleBasicPublish m s =
     (if ch_pendingMethod s \<noteq> None \<or> ch_pendingHeader s \<noteq> None then
        resetPendingPublish (refuse_publish CommandInvalid ''publish in progress'' s)
      else
        let exchangeName = normalizeExchange (pb_Exchange m) in
        if exchangeName \<noteq> [] \<and> \<not> exchangeExists exchangeName s then
          resetPendingPublish (refuse_publish NotFound ''exchange not found'' s)
        else s\<lparr>ch_pendingMethod := Some m\<rparr>)"

definition handleHeaderFrame :: "env \<Rightarrow> Frame \<Rightarrow> Channel \<Rightarrow> Channel" where
  "handleHeaderFrame e frame s =
     (if ch_serverClosing s then s
      else if ch_pendingMethod s = None \<or> ch_pendingHeader s \<noteq> None then
        resetPendingPublish (refuse_publish UnexpectedFrame ''unexpected content header'' s)
      else (case ReadContentHeader (f_Payload frame) of
          Inl _ \<Rightarrow> resetPendingPublish (refuse_publish FrameError ''malformed content header'' s)
        | Inr (header, _) \<Rightarrow>
            if e_maxMessageSize e > 0 \<and> h_BodySize header > e_maxMessageSize e then
              resetPendingPublish (refuse_publish ContentTooLarge ''message exceeds maximum size'' s)
            else
              let s = s\<lparr>ch_pendingHeader := Some header, ch_pendingBodySize := h_BodySize header,
                        ch_pendingBodyReceived := 0, ch_pendingBody := []\<rparr> in
              if h_BodySize header = 0 then completePublish e s else s))"

definition handleBodyFrame :: "env \<Rightarrow> Frame \<Rightarrow> Channel \<Rightarrow> Channel" where
  "handleBodyFrame e frame s =
     (if ch_serverClosing s then s
      else if ch_pendingMethod s = None \<or> ch_pendingHeader s = None then
        resetPendingPublish (refuse_publish UnexpectedFrame ''unexpected content body'' s)
      else
        let nextSize = ch_pendingBodyReceived s + of_nat (length (f_Payload frame)) in
        if nextSize > ch_pendingBodySize s then
          resetPendingPublish (refuse_publish ContentTooLarge ''content body larger than header'' s)
        else
          let s = s\<lparr>ch_pendingBody := ch_pendingBody s @ f_Payload frame, ch_pendingBodyReceived := nextSize\<rparr> in
          if ch_pendingBodyReceived s = ch_pendingBodySize s then completePublish e s else s)"

end
