(* ===== verification/Amqp_Delivery.thy ===== *)
theory Amqp_Delivery
  imports Amqp_Channel
begin

text \<open>
  \<^verbatim>\<open>amqp/broker/channel.go\<close>, second part: deliveries to consumers, the window of unacknowledged deliveries, their
  settlement, and the handlers that keep exchanges, bindings and consumers. With them the bookkeeping of
  queue registrations in \<^verbatim>\<open>amqp/broker/connection.go\<close>.
\<close>


section \<open>Delivery\<close>

definition nextDeliveryTag :: "conn \<Rightarrow> u64 \<times> conn" where
  "nextDeliveryTag c = (c_deliveryTag c + 1, c\<lparr>c_deliveryTag := c_deliveryTag c + 1\<rparr>)"

definition shouldQueueDelivery :: "channel_consumer \<Rightarrow> Channel \<Rightarrow> bool" where
  "shouldQueueDelivery cons s \<longleftrightarrow>
     \<not> ch_flow s \<or> (\<not> k_noAck cons \<and> ch_prefetchCount s \<noteq> 0 \<and> length (ch_unacked s) \<ge> unat (ch_prefetchCount s))"

definition enqueueDelivery :: "channel_consumer \<Rightarrow> string \<Rightarrow> bytes \<Rightarrow> props \<Rightarrow> Channel \<Rightarrow> Channel" where
  "enqueueDelivery cons topic payload properties s =
     s\<lparr>ch_pendingDeliveries := ch_pendingDeliveries s @
         [\<lparr>d_consumerTag = k_tag cons, d_queue = k_queue cons, d_topic = topic, d_payload = payload, d_props = properties\<rparr>]\<rparr>"

text \<open>The header a property becomes, if it becomes one.\<close>

definition delivery_header :: "env \<Rightarrow> string \<Rightarrow> string \<Rightarrow> field_value option" where
  "delivery_header e k v =
     (if \<not> e_trusted e \<and> IsReservedProperty k then None
      else if k \<in> {''content-type'', ''content-encoding'', ''correlation-id'', ''reply-to'', PropertyMessageID, ''type''} then None
      else if k = PropertyStreamOffset \<or> k = PropertyWorkCommitted then
        (case ParseUint v of Inr n \<Rightarrow> Some (VInt64 n) | Inl _ \<Rightarrow> Some (VString v))
      else if k = PropertyStreamTimestamp then
        (case ParseInt v of Inr n \<Rightarrow> Some (VInt64 (word_of_int n)) | Inl _ \<Rightarrow> Some (VString v))
      else if k = PropertyWorkAcked then Some (VBool (v = ''true''))
      else Some (VString v))"

definition delivery_headers :: "env \<Rightarrow> props \<Rightarrow> field_table" where
  "delivery_headers e properties =
     fold (\<lambda>(k, v) m. case delivery_header e k v of None \<Rightarrow> m | Some x \<Rightarrow> AList.update k x m) properties []"

definition delivery_properties :: "env \<Rightarrow> props \<Rightarrow> BasicProperties" where
  "delivery_properties e properties =
     (let headers = delivery_headers e properties; correlationID = prop_at properties ''correlation-id'' in
      no_properties\<lparr>p_ContentType := prop_at properties ''content-type'',
        p_CorrelationID := (case DecodeString correlationID of Some d \<Rightarrow> d | None \<Rightarrow> correlationID),
        p_ReplyTo := prop_at properties ''reply-to'', p_MessageID := prop_at properties PropertyMessageID,
        p_Type := prop_at properties ''type'', p_Headers := (if headers = [] then None else Some headers)\<rparr>)"

text \<open>The exchange and the routing key under which a topic is delivered.\<close>

definition delivery_address :: "channel_consumer \<Rightarrow> string \<Rightarrow> string \<times> string" where
  "delivery_address cons topic =
     (if k_queueName cons = [] then ([], MQTTTopicToAMQP topic)
      else (case str_cut (CHR ''/'') topic of (a, b, found) \<Rightarrow> if found then (a, b) else ([], topic)))"

definition sendDelivery ::
  "env \<Rightarrow> channel_consumer \<Rightarrow> string \<Rightarrow> bytes \<Rightarrow> props \<Rightarrow> Channel \<Rightarrow> channel_error option \<times> Channel" where
  "sendDelivery e cons topic payload properties s =
     (let (deliveryTag, c) = nextDeliveryTag (ch_conn s);
          s = s\<lparr>ch_conn := c\<rparr>;
          (offset, queued) = QueueOffsetFromProperties properties;
          s = (if k_noAck cons then s
               else s\<lparr>ch_unacked := AList.update deliveryTag
                 \<lparr>u_deliveryTag = deliveryTag, u_routingKey = topic, u_queueName = k_queueName cons,
                  u_groupID = prop_at properties PropertyGroupID, u_offset = offset, u_queued = queued\<rparr> (ch_unacked s)\<rparr>);
          (exchange, routingKey) = delivery_address cons topic in
      case buildMethodFrame (ch_id s) (BasicMethod (BasicDeliver (k_tag cons) deliveryTag False exchange routingKey)) of
        Inl err \<Rightarrow> (Some (CodecError err), s)
      | Inr methodFrame \<Rightarrow>
          (case buildContentHeaderFrame (ch_id s) (of_nat (length payload)) (delivery_properties e properties) of
             Inl err \<Rightarrow> (Some (CodecError err), s)
           | Inr headerFrame \<Rightarrow>
               (case writeFrames (methodFrame # headerFrame # buildBodyFrames (ch_id s) payload (c_frameMax (ch_conn s)))
                       (ch_conn s) of
                  (err, c) \<Rightarrow> (err, s\<lparr>ch_conn := c\<rparr>))))"

lemma writeFrames_fields [simp]:
  "c_deliveryTag (snd (writeFrames fs c)) = c_deliveryTag c" "c_calls (snd (writeFrames fs c)) = c_calls c"
  "c_registrations (snd (writeFrames fs c)) = c_registrations c" "c_connID (snd (writeFrames fs c)) = c_connID c"
  by (simp_all add: writeFrames_def)

text \<open>What a delivery changes: the counter, the window and the wire.\<close>

lemma sendDelivery_keeps:
  "ch_pendingDeliveries (snd (sendDelivery e cons topic payload properties s)) = ch_pendingDeliveries s"
  "ch_consumers (snd (sendDelivery e cons topic payload properties s)) = ch_consumers s"
  "ch_prefetchCount (snd (sendDelivery e cons topic payload properties s)) = ch_prefetchCount s"
  "ch_flow (snd (sendDelivery e cons topic payload properties s)) = ch_flow s"
  "ch_closed (snd (sendDelivery e cons topic payload properties s)) = ch_closed s"
  "c_calls (ch_conn (snd (sendDelivery e cons topic payload properties s))) = c_calls (ch_conn s)"
  by (auto simp: sendDelivery_def nextDeliveryTag_def Let_def writeFrames_def split: prod.split sum.split)

function drainPending :: "env \<Rightarrow> Channel \<Rightarrow> Channel" where
  "drainPending e s =
     (if ch_closed s \<or> \<not> ch_flow s then s
      else if ch_prefetchCount s > 0 \<and> length (ch_unacked s) \<ge> unat (ch_prefetchCount s) then s
      else (case ch_pendingDeliveries s of
          [] \<Rightarrow> s
        | pd # rest \<Rightarrow>
            (let s' = s\<lparr>ch_pendingDeliveries := rest\<rparr> in
             case map_of (ch_consumers s) (d_consumerTag pd) of
               None \<Rightarrow> drainPending e s'
             | Some cons \<Rightarrow>
                 if k_queue cons \<noteq> d_queue pd then drainPending e s'
                 else if shouldQueueDelivery cons s' then s'\<lparr>ch_pendingDeliveries := pd # rest\<rparr>
                 else (case sendDelivery e cons (d_topic pd) (d_payload pd) (d_props pd) s' of
                         (Some _, s'') \<Rightarrow> s''
                       | (None, s'') \<Rightarrow> drainPending e s''))))"
  by pat_completeness auto
termination
proof (relation "measure (\<lambda>(e, s). length (ch_pendingDeliveries s))", goal_cases)
  case (4 e s pd rest s' cons x s'')
  then have "s'' = snd (sendDelivery e cons (d_topic pd) (d_payload pd) (d_props pd) s')" by (metis snd_conv)
  then show ?case using 4 by (simp add: sendDelivery_keeps)
qed auto

declare drainPending.simps [simp del]

definition consumerQueueMatches :: "channel_consumer \<Rightarrow> string \<Rightarrow> bool" where
  "consumerQueueMatches cons topic =
     (let queueTopic = QueueTopic (k_queueName cons) [];
          pubsub = (k_mqttFilter cons \<noteq> [] \<and> (k_mqttFilter cons = topic \<or> TopicMatch (k_mqttFilter cons) topic)) in
      if k_queueName cons = [] then pubsub
      else if topic = k_queueName cons \<or> topic = queueTopic then k_pattern cons = [] \<or> k_pattern cons = ''#''
      else if has_prefix topic (queueTopic @ ''/'') then
        k_pattern cons = [] \<or> TopicMatch (k_pattern cons) (drop (length queueTopic + 1) topic)
      else pubsub)"

text \<open>The loop of \<^verbatim>\<open>deliverMessage\<close>: whether a consumer took the message, and the error that ended the loop.\<close>

fun deliver_all ::
  "env \<Rightarrow> channel_consumer list \<Rightarrow> string \<Rightarrow> bytes \<Rightarrow> props \<Rightarrow> bool \<Rightarrow> Channel \<Rightarrow> (bool \<times> channel_error option) \<times> Channel" where
  "deliver_all e [] topic payload properties delivered s = ((delivered, None), s)"
| "deliver_all e (cons # rest) topic payload properties delivered s =
     (if \<not> consumerQueueMatches cons topic then deliver_all e rest topic payload properties delivered s
      else if shouldQueueDelivery cons s then
        deliver_all e rest topic payload properties True (enqueueDelivery cons topic payload properties s)
      else (case sendDelivery e cons topic payload properties s of
              (Some err, s) \<Rightarrow> ((delivered, Some err), s)
            | (None, s) \<Rightarrow> deliver_all e rest topic payload properties True s))"

definition deliverMessage ::
  "env \<Rightarrow> string \<Rightarrow> bytes \<Rightarrow> props \<Rightarrow> Channel \<Rightarrow> (bool \<times> channel_error option) \<times> Channel" where
  "deliverMessage e topic payload properties s =
     (if ch_closed s then ((False, None), s)
      else deliver_all e (map snd (ch_consumers s)) topic payload properties False s)"


section \<open>Settlement\<close>

definition ackDelivery :: "env \<Rightarrow> unackedDelivery \<Rightarrow> Channel \<Rightarrow> Channel" where
  "ackDelivery e ud s =
     (if u_queued ud \<and> e_queueManager e then call (QAck (u_queueName ud) (u_groupID ud) (u_offset ud)) s else s)"

definition nackDelivery :: "env \<Rightarrow> unackedDelivery \<Rightarrow> Channel \<Rightarrow> Channel" where
  "nackDelivery e ud s =
     (if u_queued ud \<and> e_queueManager e then call (QNack (u_queueName ud) (u_groupID ud) (u_offset ud)) s else s)"

definition rejectDelivery :: "env \<Rightarrow> unackedDelivery \<Rightarrow> Channel \<Rightarrow> Channel" where
  "rejectDelivery e ud s =
     (if u_queued ud \<and> e_queueManager e
      then call (QReject (u_queueName ud) (u_groupID ud) (u_offset ud) ''rejected by client'') s else s)"

text \<open>The deliveries that a disposition names, which leave the window.\<close>

definition named :: "u64 \<Rightarrow> bool \<Rightarrow> u64 \<Rightarrow> bool" where
  "named deliveryTag multiple t \<longleftrightarrow> (if multiple then t \<le> deliveryTag else t = deliveryTag)"

definition take_unacked :: "u64 \<Rightarrow> bool \<Rightarrow> Channel \<Rightarrow> unackedDelivery list \<times> Channel" where
  "take_unacked deliveryTag multiple s =
     (map snd (filter (named deliveryTag multiple \<circ> fst) (ch_unacked s)),
      s\<lparr>ch_unacked := filter (Not \<circ> named deliveryTag multiple \<circ> fst) (ch_unacked s)\<rparr>)"

definition handleBasicAck :: "env \<Rightarrow> u64 \<Rightarrow> bool \<Rightarrow> Channel \<Rightarrow> Channel" where
  "handleBasicAck e deliveryTag multiple s =
     (case take_unacked deliveryTag multiple s of (deliveries, s) \<Rightarrow>
        drainPending e (fold (ackDelivery e) deliveries s))"

definition handleBasicReject :: "env \<Rightarrow> u64 \<Rightarrow> bool \<Rightarrow> Channel \<Rightarrow> Channel" where
  "handleBasicReject e deliveryTag requeue s =
     (case take_unacked deliveryTag False s of (deliveries, s) \<Rightarrow>
        drainPending e (fold (if requeue then nackDelivery e else rejectDelivery e) deliveries s))"

definition handleBasicNack :: "env \<Rightarrow> u64 \<Rightarrow> bool \<Rightarrow> bool \<Rightarrow> Channel \<Rightarrow> Channel" where
  "handleBasicNack e deliveryTag multiple requeue s =
     (case take_unacked deliveryTag multiple s of (deliveries, s) \<Rightarrow>
        drainPending e (fold (if requeue then nackDelivery e else rejectDelivery e) deliveries s))"

definition handleBasicRecover :: "Channel \<Rightarrow> channel_error option \<times> Channel" where
  "handleBasicRecover s = write_method (BasicMethod BasicRecoverOk) s"

definition handleBasicRecoverAsync :: "Channel \<Rightarrow> channel_error option \<times> Channel" where
  "handleBasicRecoverAsync s = (None, s)"

definition handleBasicGet :: "Channel \<Rightarrow> channel_error option \<times> Channel" where
  "handleBasicGet s = write_method (BasicMethod (BasicGetEmpty [])) s"

definition handleBasicQos :: "u32 \<Rightarrow> u16 \<Rightarrow> Channel \<Rightarrow> channel_error option \<times> Channel" where
  "handleBasicQos prefetchSize prefetchCount s =
     write_method (BasicMethod BasicQosOk) (s\<lparr>ch_prefetchCount := prefetchCount, ch_prefetchSize := prefetchSize\<rparr>)"

text \<open>The case of \<^verbatim>\<open>handleMethod\<close> for a \<^verbatim>\<open>ChannelFlow\<close>.\<close>

definition handleChannelFlow :: "env \<Rightarrow> bool \<Rightarrow> Channel \<Rightarrow> channel_error option \<times> Channel" where
  "handleChannelFlow e active s =
     (case write_method (ChannelMethod (ChannelFlowOk active)) (s\<lparr>ch_flow := active\<rparr>) of
        (Some err, s) \<Rightarrow> (Some err, s)
      | (None, s) \<Rightarrow> (None, if active then drainPending e s else s))"


section \<open>Exchanges and bindings\<close>

text \<open>A reply that the client may have waived.\<close>

definition reply_unless :: "bool \<Rightarrow> amqp_method \<Rightarrow> Channel \<Rightarrow> channel_error option \<times> Channel" where
  "reply_unless noWait m s = (if noWait then (None, s) else write_method m s)"

definition handleExchangeDeclare ::
  "string \<Rightarrow> string \<Rightarrow> bool \<Rightarrow> bool \<Rightarrow> bool \<Rightarrow> bool \<Rightarrow> bool \<Rightarrow> Channel \<Rightarrow> channel_error option \<times> Channel" where
  "handleExchangeDeclare name typ passive durable autoDelete internal noWait s =
     (let name = normalizeExchange name in
      if passive then
        (if \<not> exchangeExists name s
         then sendChannelClose NotFound ''exchange not found'' ClassExchange MethodExchangeDeclare s
         else reply_unless noWait (ExchangeMethod ExchangeDeclareOk) s)
      else
        reply_unless noWait (ExchangeMethod ExchangeDeclareOk)
          (s\<lparr>ch_exchanges := AList.update name
             \<lparr>x_name = name, x_typ = typ, x_durable = durable, x_autoDelete = autoDelete, x_internal = internal\<rparr>
             (ch_exchanges s)\<rparr>))"

definition handleExchangeDelete :: "string \<Rightarrow> bool \<Rightarrow> Channel \<Rightarrow> channel_error option \<times> Channel" where
  "handleExchangeDelete name noWait s =
     reply_unless noWait (ExchangeMethod ExchangeDeleteOk)
       (s\<lparr>ch_exchanges := AList.delete (normalizeExchange name) (ch_exchanges s)\<rparr>)"

definition add_binding :: "string \<Rightarrow> string \<Rightarrow> string \<Rightarrow> field_table \<Rightarrow> Channel \<Rightarrow> Channel" where
  "add_binding queue source routingKey arguments s =
     s\<lparr>ch_bindings := ch_bindings s @
         [\<lparr>b_queue = queue, b_exchange = source, b_routingKey = routingKey, b_arguments = arguments\<rparr>]\<rparr>"

definition remove_binding :: "string \<Rightarrow> string \<Rightarrow> string \<Rightarrow> Channel \<Rightarrow> Channel" where
  "remove_binding queue source routingKey s =
     s\<lparr>ch_bindings := filter (\<lambda>b. \<not> (b_exchange b = source \<and> b_queue b = queue \<and> b_routingKey b = routingKey))
         (ch_bindings s)\<rparr>"

definition handleExchangeBind ::
  "string \<Rightarrow> string \<Rightarrow> string \<Rightarrow> bool \<Rightarrow> field_table \<Rightarrow> Channel \<Rightarrow> channel_error option \<times> Channel" where
  "handleExchangeBind destination source routingKey noWait arguments s =
     reply_unless noWait (ExchangeMethod ExchangeBindOk)
       (add_binding (normalizeExchange destination) (normalizeExchange source) routingKey arguments s)"

definition handleExchangeUnbind :: "string \<Rightarrow> string \<Rightarrow> string \<Rightarrow> bool \<Rightarrow> Channel \<Rightarrow> channel_error option \<times> Channel" where
  "handleExchangeUnbind destination source routingKey noWait s =
     reply_unless noWait (ExchangeMethod ExchangeUnbindOk)
       (remove_binding (normalizeExchange destination) (normalizeExchange source) routingKey s)"

definition handleQueueBind ::
  "string \<Rightarrow> string \<Rightarrow> string \<Rightarrow> bool \<Rightarrow> field_table \<Rightarrow> Channel \<Rightarrow> channel_error option \<times> Channel" where
  "handleQueueBind queue source routingKey noWait arguments s =
     reply_unless noWait (QueueMethod QueueBindOk) (add_binding queue (normalizeExchange source) routingKey arguments s)"

definition handleQueueUnbind :: "string \<Rightarrow> string \<Rightarrow> string \<Rightarrow> Channel \<Rightarrow> channel_error option \<times> Channel" where
  "handleQueueUnbind queue source routingKey s =
     write_method (QueueMethod QueueUnbindOk) (remove_binding queue (normalizeExchange source) routingKey s)"

definition handleQueuePurge :: "bool \<Rightarrow> Channel \<Rightarrow> channel_error option \<times> Channel" where
  "handleQueuePurge noWait s = reply_unless noWait (QueueMethod (QueuePurgeOk 0)) s"

definition handleQueueDelete :: "env \<Rightarrow> string \<Rightarrow> bool \<Rightarrow> Channel \<Rightarrow> channel_error option \<times> Channel" where
  "handleQueueDelete e queue noWait s =
     (let s = s\<lparr>ch_queues := AList.delete queue (ch_queues s),
                ch_bindings := filter (\<lambda>b. b_queue b \<noteq> queue) (ch_bindings s)\<rparr>;
          s = (if e_queueManager e
               then call (QUnsubscribe queue [] (PrefixedClientID (c_connID (ch_conn s))) []) s else s) in
      reply_unless noWait (QueueMethod (QueueDeleteOk 0)) s)"

text \<open>The case of \<^verbatim>\<open>handleMethod\<close> for a \<^verbatim>\<open>ConfirmSelect\<close>.\<close>

definition handleConfirmSelect :: "bool \<Rightarrow> Channel \<Rightarrow> channel_error option \<times> Channel" where
  "handleConfirmSelect noWait s =
     reply_unless noWait (ConfirmMethod ConfirmSelectOk) (s\<lparr>ch_confirmMode := True\<rparr>)"


section \<open>Consumers\<close>

definition registration_of :: "channel_consumer \<Rightarrow> registration" where
  "registration_of cons = \<lparr>qr_queueName = k_queueName cons, qr_pattern = k_pattern cons, qr_groupID = k_groupID cons\<rparr>"

definition retainQueueRegistration :: "channel_consumer \<Rightarrow> conn \<Rightarrow> conn" where
  "retainQueueRegistration cons c =
     (if k_queueName cons = [] then c
      else
        let key = registration_of cons;
            owners = (case map_of (c_registrations c) key of None \<Rightarrow> 0 | Some n \<Rightarrow> n) in
        c\<lparr>c_registrations := AList.update key (owners + 1) (c_registrations c)\<rparr>)"

definition releaseQueueRegistration :: "channel_consumer \<Rightarrow> conn \<Rightarrow> bool \<times> conn" where
  "releaseQueueRegistration cons c =
     (if k_queueName cons = [] then (False, c)
      else
        let key = registration_of cons in
        case map_of (c_registrations c) key of
          None \<Rightarrow> (False, c)
        | Some owners \<Rightarrow>
            if owners > 1 then (False, c\<lparr>c_registrations := AList.update key (owners - 1) (c_registrations c)\<rparr>)
            else (True, c\<lparr>c_registrations := AList.delete key (c_registrations c)\<rparr>))"

text \<open>The part of \<^verbatim>\<open>handleBasicConsume\<close> that reserves the tag; \<open>None\<close> when it is taken.\<close>

definition reserve_consumer :: "channel_consumer \<Rightarrow> Channel \<Rightarrow> Channel option" where
  "reserve_consumer cons s =
     (if map_of (ch_consumers s) (k_tag cons) \<noteq> None then None
      else Some (s\<lparr>ch_consumers := AList.update (k_tag cons) cons (ch_consumers s),
                   ch_conn := retainQueueRegistration cons (ch_conn s)\<rparr>))"

text \<open>What ends with a consumer: its registration, and its subscription if it was the last one.\<close>

definition release_consumer :: "env \<Rightarrow> channel_consumer \<Rightarrow> Channel \<Rightarrow> Channel" where
  "release_consumer e cons s =
     (let clientID = PrefixedClientID (c_connID (ch_conn s)) in
      if k_queueName cons \<noteq> [] then
        (case releaseQueueRegistration cons (ch_conn s) of (registrationUnused, c) \<Rightarrow>
           let s = s\<lparr>ch_conn := c\<rparr> in
           if registrationUnused \<and> e_queueManager e
           then call (QUnsubscribe (k_queueName cons) (k_pattern cons) clientID (k_groupID cons)) s else s)
      else if k_mqttFilter cons = [] then s
      else
        let s = call (RouterUnsubscribe clientID (k_mqttFilter cons)) s in
        if e_cluster e then call (RemoveSubscription clientID (k_mqttFilter cons)) s else s)"

definition handleBasicCancel :: "env \<Rightarrow> string \<Rightarrow> bool \<Rightarrow> Channel \<Rightarrow> channel_error option \<times> Channel" where
  "handleBasicCancel e consumerTag noWait s =
     (let cons = map_of (ch_consumers s) consumerTag;
          s = s\<lparr>ch_consumers := AList.delete consumerTag (ch_consumers s)\<rparr>;
          s = (case cons of None \<Rightarrow> s | Some cons \<Rightarrow> release_consumer e cons s) in
      reply_unless noWait (BasicMethod (BasicCancelOk consumerTag)) s)"

definition cleanup :: "env \<Rightarrow> Channel \<Rightarrow> Channel" where
  "cleanup e s =
     fold (release_consumer e) (map snd (ch_consumers s)) (s\<lparr>ch_closed := True, ch_consumers := []\<rparr>)"

definition cancelConsumerByQueue :: "string \<Rightarrow> string \<Rightarrow> Channel \<Rightarrow> Channel" where
  "cancelConsumerByQueue queueName groupID s =
     (if ch_closed s then s
      else
        let hit = (\<lambda>(_, cons). k_queueName cons = queueName \<and>
                    EffectiveConsumerGroupID (k_groupID cons) (k_pattern cons) = groupID);
            toCancel = map snd (filter hit (ch_consumers s)) in
        fold (\<lambda>cons s.
            let s = s\<lparr>ch_conn := snd (releaseQueueRegistration cons (ch_conn s))\<rparr> in
            snd (write_method (BasicMethod (BasicCancel (k_tag cons) True)) s))
          toCancel (s\<lparr>ch_consumers := filter (Not \<circ> hit) (ch_consumers s)\<rparr>))"

end
