(* ===== verification/Amqp_Content.thy ===== *)
theory Amqp_Content
  imports Amqp_Delivery
begin

text \<open>
  Content on the wire: methods and headers survive encoding, framing and decoding, a frame is recognised only
  when it is complete, and a publication is handed on exactly as it was sent, however its body was cut into
  frames.
\<close>

section \<open>Body frames\<close>

lemma body_frames_spec:
  assumes "offset \<le> length payload" "maxBody > 0" "payload \<noteq> []"
  shows "concat (map f_Payload (body_frames chID payload maxBody offset)) = drop offset payload \<and>
    (\<forall>f \<in> set (body_frames chID payload maxBody offset).
       f_Type f = FrameBody \<and> f_Channel f = chID \<and> f_Payload f \<noteq> [] \<and> length (f_Payload f) \<le> maxBody)"
  using assms
proof (induction "length payload - offset" arbitrary: offset rule: less_induct)
  case less
  show ?case
  proof (cases "offset < length payload")
    case False
    then have "body_frames chID payload maxBody offset = []" using less.prems by (subst body_frames.simps) auto
    then show ?thesis using False by simp
  next
    case True
    define en where "en = min (offset + maxBody) (length payload)"
    have en: "offset < en" "en \<le> length payload" using True less.prems(2) by (auto simp: en_def)
    have step: "body_frames chID payload maxBody offset =
        \<lparr>f_Type = FrameBody, f_Channel = chID, f_Payload = take (en - offset) (drop offset payload)\<rparr> # body_frames chID payload maxBody en"
      using True en by (subst body_frames.simps) (simp add: Let_def en_def[symmetric])
    have IH: "concat (map f_Payload (body_frames chID payload maxBody en)) = drop en payload \<and>
      (\<forall>f \<in> set (body_frames chID payload maxBody en).
         f_Type f = FrameBody \<and> f_Channel f = chID \<and> f_Payload f \<noteq> [] \<and> length (f_Payload f) \<le> maxBody)"
      using en less.prems by (intro less.hyps) auto
    have "take (en - offset) (drop offset payload) @ drop en payload = drop offset payload"
      using en append_take_drop_id[of "en - offset" "drop offset payload"] by simp
    then show ?thesis using IH en by (auto simp: step en_def)
  qed
qed

lemma buildBodyFrames_spec:
  assumes "payload \<noteq> []"
  shows "concat (map f_Payload (buildBodyFrames chID payload frameMax)) = payload"
    "\<forall>f \<in> set (buildBodyFrames chID payload frameMax). f_Type f = FrameBody \<and> f_Channel f = chID \<and> f_Payload f \<noteq> [] \<and>
       (unat frameMax > 8 \<longrightarrow> length (f_Payload f) + 8 \<le> unat frameMax)"
proof -
  define fm where "fm = unat frameMax"
  define mb where "mb = nat (if int fm - 8 \<le> 0 then int (length payload) else int fm - 8)"
  have mb: "mb > 0" "unat frameMax > 8 \<longrightarrow> mb + 8 = unat frameMax"
    unfolding fm_def[symmetric] using assms by (auto simp: mb_def)
  have eq: "buildBodyFrames chID payload frameMax = body_frames chID payload mb 0"
    by (simp only: buildBodyFrames_def mb_def fm_def Let_def)
  note spec = body_frames_spec[of 0 payload mb chID, folded eq]
  show "concat (map f_Payload (buildBodyFrames chID payload frameMax)) = payload" using spec mb assms by simp
  show "\<forall>f \<in> set (buildBodyFrames chID payload frameMax). f_Type f = FrameBody \<and> f_Channel f = chID \<and> f_Payload f \<noteq> [] \<and>
       (unat frameMax > 8 \<longrightarrow> length (f_Payload f) + 8 \<le> unat frameMax)"
    using spec mb assms by force
qed

lemma buildBodyFrames_empty: "buildBodyFrames chID [] frameMax = [\<lparr>f_Type = FrameBody, f_Channel = chID, f_Payload = []\<rparr>]"
  unfolding buildBodyFrames_def Let_def by (subst body_frames.simps) (simp add: Let_def)


section \<open>Assembly\<close>

text \<open>A publication under way: the header has come, and \<open>part\<close> of its body.\<close>

definition assembling :: "publish \<Rightarrow> ContentHeader \<Rightarrow> bytes \<Rightarrow> Channel \<Rightarrow> Channel" where
  "assembling m h part s =
     s\<lparr>ch_pendingMethod := Some m, ch_pendingHeader := Some h, ch_pendingBody := part,
       ch_pendingBodySize := h_BodySize h, ch_pendingBodyReceived := of_nat (length part)\<rparr>"

lemma reset_assembling [simp]: "resetPendingPublish (assembling m h part s) = resetPendingPublish s"
  by (simp add: resetPendingPublish_def assembling_def)

lemma complete_assembling: "completePublish e (assembling m h body s) = publish_content e m h body (resetPendingPublish s)"
  using reset_assembling[of m h body s] by (simp add: completePublish_def assembling_def)

lemma assembling_fields [simp]:
  "ch_serverClosing (assembling m h part s) = ch_serverClosing s" "ch_pendingMethod (assembling m h part s) = Some m"
  "ch_pendingHeader (assembling m h part s) = Some h" "ch_pendingBody (assembling m h part s) = part"
  "ch_pendingBodySize (assembling m h part s) = h_BodySize h"
  "ch_pendingBodyReceived (assembling m h part s) = of_nat (length part)"
  by (simp_all add: assembling_def)

lemma body_step:
  assumes "\<not> ch_serverClosing s" "h_BodySize h = of_nat n" "length part + length (f_Payload f) \<le> n" "n < 2 ^ 64"
  shows "handleBodyFrame e f (assembling m h part s) =
    (if length part + length (f_Payload f) = n then publish_content e m h (part @ f_Payload f) (resetPendingPublish s)
     else assembling m h (part @ f_Payload f) s)"
proof -
  let ?k = "length part + length (f_Payload f)"
  have nat: "unat (of_nat ?k :: u64) = ?k" "unat (of_nat n :: u64) = n"
    by (rule unat_of_nat_u64, use assms(3,4) in linarith)+
  have sum: "(of_nat (length part) + of_nat (length (f_Payload f)) :: u64) = of_nat ?k" by simp
  have le: "\<not> (of_nat n :: u64) < of_nat ?k" using assms(3) by (simp only: word_less_nat_alt nat not_less)
  have eq: "(of_nat ?k :: u64) = of_nat n \<longleftrightarrow> ?k = n" using nat by metis
  have more: "(assembling m h part s)\<lparr>ch_pendingBody := part @ f_Payload f, ch_pendingBodyReceived := of_nat ?k\<rparr> =
      assembling m h (part @ f_Payload f) s"
    by (simp add: assembling_def)
  show ?thesis
    using assms(1,2) le
    by (simp only: handleBodyFrame_def assembling_fields sum Let_def more length_append eq complete_assembling
        option.simps simp_thms if_False)
qed

lemma body_frames_arrive:
  assumes "\<not> ch_serverClosing s" "h_BodySize h = of_nat (length body)" "length body < 2 ^ 64"
    and "body = part @ concat (map f_Payload fs)" "fs \<noteq> []" "\<forall>f \<in> set fs. f_Payload f \<noteq> []"
  shows "fold (handleBodyFrame e) fs (assembling m h part s) = publish_content e m h body (resetPendingPublish s)"
  using assms(4-)
proof (induction fs arbitrary: part)
  case (Cons f fs)
  have n: "length part + length (f_Payload f) \<le> length body" using Cons.prems(1) by simp
  note step = body_step[OF assms(1,2) n assms(3)]
  show ?case
  proof (cases fs)
    case Nil
    then show ?thesis using Cons.prems step by simp
  next
    case (Cons g gs)
    then have "length part + length (f_Payload f) < length body" using Cons.prems(1,3) by simp
    then show ?thesis using step Cons.IH[of "part @ f_Payload f"] Cons.prems Cons by simp
  qed
qed simp

text \<open>What the peer reads from the header frame of a content.\<close>

definition content_header :: "bytes \<Rightarrow> BasicProperties \<Rightarrow> ContentHeader" where
  "content_header body p =
     \<lparr>h_ClassID = ClassBasic, h_Weight = 0, h_BodySize = of_nat (length body), h_Flags = Flags p, h_Properties = props_canon p\<rparr>"

lemma header_frame_read:
  assumes "props_fit p"
  obtains hf where "buildContentHeaderFrame chID (of_nat (length body)) p = Inr hf" "f_Type hf = FrameHeader" "f_Channel hf = chID"
    "ReadContentHeader (f_Payload hf) = Inr (content_header body p, [])"
proof -
  let ?h = "\<lparr>h_ClassID = ClassBasic, h_Weight = 0, h_BodySize = of_nat (length body), h_Flags = 0, h_Properties = p\<rparr>"
  have "carries (\<lambda>buf. fst (WriteContentHeader ?h buf)) ReadContentHeader (content_header body p)"
    using carries_header[of ?h "[]"] assms by (simp add: content_header_def WriteContentHeader_def Let_def)
  note arrive = carriesD[OF this]
  obtain payload where w: "fst (WriteContentHeader ?h []) = (None, payload)" using arrive(1)[of "[]"] by (metis prod.collapse)
  then have "ReadContentHeader payload = Inr (content_header body p, [])" using arrive(3)[of "[]"] by simp
  then show ?thesis using that w by (simp add: buildContentHeaderFrame_def)
qed

lemma header_step:
  assumes "ch_pendingMethod s = Some m" "ch_pendingHeader s = None" "\<not> ch_serverClosing s"
    and "ReadContentHeader (f_Payload hf) = Inr (h, r)"
    and "e_maxMessageSize e = 0 \<or> h_BodySize h \<le> e_maxMessageSize e"
  shows "handleHeaderFrame e hf s =
    (if h_BodySize h = 0 then publish_content e m h [] (resetPendingPublish s) else assembling m h [] s)"
proof -
  have more: "s\<lparr>ch_pendingHeader := Some h, ch_pendingBodySize := h_BodySize h, ch_pendingBodyReceived := 0, ch_pendingBody := []\<rparr> =
      assembling m h [] s"
    using assms(1) by (simp add: assembling_def)
  have small: "(e_maxMessageSize e > 0 \<and> h_BodySize h > e_maxMessageSize e) = False" using assms(5) by auto
  show ?thesis
    by (simp only: handleHeaderFrame_def assms(1-4) small sum.case prod.case Let_def more complete_assembling option.distinct
        simp_thms if_False)
qed

lemma publish_step:
  assumes "ch_pendingMethod s = None" "ch_pendingHeader s = None" "exchangeExists (normalizeExchange (pb_Exchange m)) s"
  shows "handleBasicPublish m s = s\<lparr>ch_pendingMethod := Some m\<rparr>"
  using assms by (auto simp: handleBasicPublish_def)

text \<open>
  C1. A publication arrives as it was sent. On a channel with no publication under way, the method, a header
  frame built for the body and the properties, and body frames cut in any way (none of them empty) lead to
  exactly one hand-over of the publication, with the body and the properties the publisher gave; nothing else
  of the channel has changed.
\<close>

theorem publication_arrives:
  assumes "ch_pendingMethod s = None" "ch_pendingHeader s = None" "\<not> ch_serverClosing s"
    and "exchangeExists (normalizeExchange (pb_Exchange m)) s"
    and "props_fit p" "buildContentHeaderFrame chID (of_nat (length body)) p = Inr hf"
    and "length body < 2 ^ 64" "e_maxMessageSize e = 0 \<or> of_nat (length body) \<le> e_maxMessageSize e"
    and "concat (map f_Payload fs) = body" "\<forall>f \<in> set fs. f_Payload f \<noteq> []"
  shows "fold (handleBodyFrame e) fs (handleHeaderFrame e hf (handleBasicPublish m s)) =
    publish_content e m (content_header body p) body (resetPendingPublish s)"
proof -
  let ?s = "s\<lparr>ch_pendingMethod := Some m\<rparr>"
  have reset: "resetPendingPublish ?s = resetPendingPublish s" by (simp add: resetPendingPublish_def)
  obtain hf' where "buildContentHeaderFrame chID (of_nat (length body)) p = Inr hf'"
    "ReadContentHeader (f_Payload hf') = Inr (content_header body p, [])"
    using header_frame_read[OF assms(5)] .
  then have "ReadContentHeader (f_Payload hf) = Inr (content_header body p, [])" using assms(6) by simp
  then have hdr: "handleHeaderFrame e hf ?s = (if h_BodySize (content_header body p) = 0
      then publish_content e m (content_header body p) [] (resetPendingPublish ?s) else assembling m (content_header body p) [] ?s)"
    using assms(2,3,8) by (intro header_step) (simp_all add: content_header_def)
  have size: "h_BodySize (content_header body p) = of_nat (length body)" by (simp add: content_header_def)
  have zero: "(of_nat (length body) :: u64) = 0 \<longleftrightarrow> body = []"
    by (simp only: u64_eq_iff_unat unat_of_nat_u64[OF assms(7)] unat_0 length_0_conv)
  show ?thesis
  proof (cases "body = []")
    case True
    then have "fs = []" using assms(9,10) by (cases fs) auto
    then show ?thesis using True hdr[unfolded size zero reset] assms(1,2,4) by (simp add: publish_step)
  next
    case False
    then have "fs \<noteq> []" using assms(9) by auto
    then have "fold (handleBodyFrame e) fs (assembling m (content_header body p) [] ?s) =
        publish_content e m (content_header body p) body (resetPendingPublish ?s)"
      using assms by (intro body_frames_arrive) (simp_all add: size)
    then show ?thesis using False hdr[unfolded size zero reset] assms(1,2,4) by (simp add: publish_step reset)
  qed
qed

text \<open>A broker without restrictions, for examples.\<close>

definition demo_env :: env where
  "demo_env =
     \<lparr>e_trusted = False, e_local = False, e_maxMessageSize = 1024, e_rolePropagates = False, e_externalID = (\<lambda>_. []),
      e_grant = (\<lambda>_ _. LocalPublishGrantNone), e_hook = Some, e_canPublish = None, e_queueManager = True,
      e_durablePublisher = True, e_cluster = False, e_queueType = (\<lambda>_. None), e_publish = (\<lambda>_ _. None),
      e_durable = (\<lambda>_ _. DStored), e_match = (\<lambda>_. Some 0), e_broadcast = (\<lambda>_ _ _. True)\<rparr>"

definition demo_conn :: conn where
  "demo_conn = \<lparr>c_connID = ''conn-1'', c_frameMax = 131072, c_deliveryTag = 0, c_registrations = [], c_written = [],
     c_up = None, c_calls = []\<rparr>"

definition demo_publish :: publish where
  "demo_publish = \<lparr>pb_Exchange = [], pb_RoutingKey = ''$queue/orders'', pb_Mandatory = False, pb_Immediate = False\<rparr>"

abbreviation "demo_properties \<equiv> no_properties\<lparr>p_ContentType := ''text/plain''\<rparr>"

abbreviation "demo_frames \<equiv> [\<lparr>f_Type = FrameBody, f_Channel = 1, f_Payload = ''hel''\<rparr>, \<lparr>f_Type = FrameBody, f_Channel = 1, f_Payload = ''lo''\<rparr>]"

theorem publication_arrives_witness:
  "\<exists>hf. buildContentHeaderFrame 1 (of_nat (length ''hello'')) demo_properties = Inr hf \<and>
     fold (handleBodyFrame demo_env) demo_frames (handleHeaderFrame demo_env hf (handleBasicPublish demo_publish (newChannel demo_conn 1))) =
     publish_content demo_env demo_publish (content_header ''hello'' demo_properties) ''hello'' (resetPendingPublish (newChannel demo_conn 1))"
proof -
  have fit: "props_fit demo_properties" by (simp add: props_fit_def no_properties_def)
  obtain hf where hf: "buildContentHeaderFrame 1 (of_nat (length ''hello'')) demo_properties = Inr hf"
    using header_frame_read[OF fit, of 1 "''hello''"] .
  have "fold (handleBodyFrame demo_env) demo_frames (handleHeaderFrame demo_env hf (handleBasicPublish demo_publish (newChannel demo_conn 1))) =
     publish_content demo_env demo_publish (content_header ''hello'' demo_properties) ''hello'' (resetPendingPublish (newChannel demo_conn 1))"
    by (rule publication_arrives[OF _ _ _ _ fit hf])
      (simp_all add: newChannel_def exchangeExists_def normalizeExchange_def demo_publish_def demo_env_def)
  with hf show ?thesis by blast
qed

text \<open>
  C1. A method arrives as it was sent. A method whose strings and tables are within their bounds is framed
  without error; the frame is read back from the stream with nothing missing and nothing of the following
  bytes, and decodes to the same method, with reserved fields cleared and tables in canonical form.
\<close>

theorem method_arrives:
  assumes "method_fits m" "length (snd (method_Write m [])) < 2 ^ 32"
  shows "\<exists>f. buildMethodFrame chID m = Inr f \<and> f_Channel f = chID \<and>
    WriteFrame f buf = (None, buf @ snd (WriteFrame f [])) \<and> ReadFrame (snd (WriteFrame f []) @ rest) = Inr (f, rest) \<and>
    Decode f = Inr (DMethod (method_canon m))"
proof -
  define f where "f = \<lparr>f_Type = FrameMethod, f_Channel = chID, f_Payload = snd (method_Write m [])\<rparr>"
  note arrive = carriesD[OF carries_method[OF assms(1)]]
  have build: "buildMethodFrame chID m = Inr f"
    using arrive(1)[of "[]"] by (cases "method_Write m []") (simp add: buildMethodFrame_def f_def)
  have "decodeMethod (f_Payload f) = Inr (method_canon m, [])" using arrive(3)[of "[]"] by (simp add: f_def)
  then have "Decode f = Inr (DMethod (method_canon m))" by (simp add: Decode_def f_def)
  moreover have "WriteFrame f buf = (None, buf @ snd (WriteFrame f []))" by (simp add: WriteFrame_bytes)
  moreover have "ReadFrame (snd (WriteFrame f []) @ rest) = Inr (f, rest)" using assms(2) by (simp add: ReadFrame_inverse f_def)
  ultimately show ?thesis using build by (intro exI[of _ f]) (simp add: f_def)
qed

abbreviation "demo_method \<equiv>
  QueueMethod (QueueDeclare 7 ''orders'' False True False False False [(''x-queue-type'', VString ''stream''), (''x-max-length'', VInt 10)])"

lemmas write_defs =
  WriteOctet_def WriteShort_def WriteLong_def WriteShortStr_def WriteLongStr_def WriteTable_def write_sized_def tag_def
  write_bytes_def

theorem method_arrives_witness:
  "\<exists>f. buildMethodFrame 1 demo_method = Inr f \<and> f_Channel f = 1 \<and>
    WriteFrame f [] = (None, [] @ snd (WriteFrame f [])) \<and> ReadFrame (snd (WriteFrame f []) @ []) = Inr (f, []) \<and>
    Decode f = Inr (DMethod (method_canon demo_method))"
proof (rule method_arrives)
  show "method_fits demo_method" by (simp add: table_fits_def write_defs)
  show "length (snd (method_Write demo_method [])) < 2 ^ 32" by (simp add: QueueDeclare_Write_def write_defs)
qed

text \<open>
  C1. The stream of frames is unambiguous. Reading returns a frame exactly when the input starts with what
  writing that frame produces, and leaves exactly the bytes behind it; from a proper prefix of a frame nothing
  is ever read but the end of the input.
\<close>

theorem frame_recognised:
  "(ReadFrame r = Inr (f, rest) \<longleftrightarrow> length (f_Payload f) < 2 ^ 32 \<and> r = snd (WriteFrame f []) @ rest) \<and>
   (length (f_Payload f) < 2 ^ 32 \<longrightarrow> n < length (snd (WriteFrame f [])) \<longrightarrow>
      ReadFrame (take n (snd (WriteFrame f []))) \<in> {Inl EOF, Inl UnexpectedEOF})"
proof (intro conjI impI)
  show "ReadFrame r = Inr (f, rest) \<longleftrightarrow> length (f_Payload f) < 2 ^ 32 \<and> r = snd (WriteFrame f []) @ rest"
    by (rule ReadFrame_inverse)
  let ?w = "snd (WriteFrame f [])"
  assume "length (f_Payload f) < 2 ^ 32" "n < length ?w"
  then have "ReadFrame (take n ?w @ drop n ?w) = Inr (f, [])" "drop n ?w \<noteq> []" by (simp_all add: ReadFrame_inverse)
  then show "ReadFrame (take n ?w) \<in> {Inl EOF, Inl UnexpectedEOF}" by (rule steadyE[OF steady_frame])
qed

abbreviation "demo_frame \<equiv> \<lparr>f_Type = FrameBody, f_Channel = 1, f_Payload = ''hello''\<rparr>"

theorem frame_recognised_witness:
  "ReadFrame (snd (WriteFrame demo_frame []) @ ''next'') = Inr (demo_frame, ''next'') \<and>
   ReadFrame (take 12 (snd (WriteFrame demo_frame []))) \<in> {Inl EOF, Inl UnexpectedEOF}"
proof -
  have "12 < length (snd (WriteFrame demo_frame []))" by (simp add: WriteFrame_bytes)
  then show ?thesis using frame_recognised[of "snd (WriteFrame demo_frame []) @ ''next''" demo_frame "''next''" 12] by simp
qed

text \<open>
  C1. The frames of a body are as large as the peer allows and together give the body; but for an empty body
  a frame is sent all the same, and the receiving side of this code refuses it: a channel on which no
  publication is under way closes on any body frame.
\<close>

theorem body_frames_sent:
  "(body \<noteq> [] \<longrightarrow> concat (map f_Payload (buildBodyFrames chID body frameMax)) = body \<and>
     (\<forall>f \<in> set (buildBodyFrames chID body frameMax). f_Type f = FrameBody \<and> f_Channel f = chID \<and> f_Payload f \<noteq> [] \<and>
        (unat frameMax > 8 \<longrightarrow> length (f_Payload f) + 8 \<le> unat frameMax))) \<and>
   buildBodyFrames chID [] frameMax = [\<lparr>f_Type = FrameBody, f_Channel = chID, f_Payload = []\<rparr>] \<and>
   (ch_pendingMethod s = None \<and> \<not> ch_serverClosing s \<longrightarrow>
      ch_serverClosing (fold (handleBodyFrame e) (buildBodyFrames chID [] frameMax) s))"
proof -
  have "ch_serverClosing (handleBodyFrame e f s)" if "ch_pendingMethod s = None" "\<not> ch_serverClosing s" for f
    using that by (simp add: handleBodyFrame_def refuse_publish_def sendChannelClose_def write_method_def resetPendingPublish_def
        split: prod.split)
  then show ?thesis using buildBodyFrames_spec[of body chID frameMax] by (simp add: buildBodyFrames_empty)
qed

theorem body_frames_sent_witness:
  "concat (map f_Payload (buildBodyFrames 1 ''hello'' 11)) = ''hello'' \<and>
   ch_serverClosing (fold (handleBodyFrame demo_env) (buildBodyFrames 1 [] 11) (newChannel demo_conn 1))"
proof -
  have "ch_pendingMethod (newChannel demo_conn 1) = None \<and> \<not> ch_serverClosing (newChannel demo_conn 1)" by (simp add: newChannel_def)
  with body_frames_sent[of "''hello''" 1 11 "newChannel demo_conn 1" demo_env] show ?thesis by blast
qed

end
