(* ===== verification/Spec2Isabelle.thy ===== *)
theory Spec2Isabelle
  imports Router Topic_Index Share_Group Queue_Config Message_Props Mem_Log_Props Manager_Props Amqp_Content
begin

text \<open>
  A model of the FluxMQ message broker.
\<close>

end
